(* ===== verification/Prelude.thy ===== *)
theory Prelude
  imports Main "HOL-Library.Word" "HOL-Library.Char_ord" "HOL-Library.List_Lexorder"
begin

text \<open>
  Shared vocabulary of the development: the collections its proofs use, the names of the
  types every component works with, and the generic facts about lists and maps that the
  components share.

  Go strings are byte strings: they are HOL strings, whose characters are bytes.  Byte
  slices are lists of 8-bit words.  Durations and instants are integers counting
  nanoseconds, the unit of Go's time.Duration.
\<close>

named_theorems go_defs \<open>definitions of the standard library functions, unfolded to evaluate\<close>
named_theorems frame \<open>what an operation leaves unchanged\<close>

type_synonym byte = "8 word"
type_synonym bytes = "8 word list"
type_synonym instant = int
type_synonym duration = int

definition second :: duration where
  "second = 1000000000"

lemma second_pos [simp]: "0 < second"
  by (simp add: second_def)

text \<open>The bytes of a string, and the string of some bytes.\<close>

definition bytes_of :: "string \<Rightarrow> bytes" where
  "bytes_of = map (\<lambda>c. of_char c)"

definition string_of :: "bytes \<Rightarrow> string" where
  "string_of = map (\<lambda>b. char_of (unat b))"

lemma length_bytes_of [simp]: "length (bytes_of s) = length s"
  by (simp add: bytes_of_def)

lemma length_string_of [simp]: "length (string_of b) = length b"
  by (simp add: string_of_def)

lemma unat_of_char: "unat (of_char c :: byte) = of_char c"
proof -
  have "unat (of_nat (of_char c) :: byte) = of_char c mod 256"
    by (simp add: unat_of_nat)
  then show ?thesis by (simp add: of_nat_of_char)
qed

lemma string_of_bytes_of [simp]: "string_of (bytes_of s) = s"
  by (induction s) (simp_all add: string_of_def bytes_of_def unat_of_char)

lemma bytes_of_inj: "bytes_of s = bytes_of t \<longleftrightarrow> s = t"
  by (metis string_of_bytes_of)

section \<open>Lists\<close>

lemma find_None_iff': "find P xs = None \<longleftrightarrow> (\<forall>x\<in>set xs. \<not> P x)"
  by (auto simp: find_None_iff)

lemma find_SomeD: "find P xs = Some x \<Longrightarrow> x \<in> set xs \<and> P x"
  by (induction xs) (auto split: if_splits)

text \<open>A key that identifies its row: the row found by key is the row that has it.\<close>

lemma find_key_unique:
  assumes "distinct (map k xs)" and "x \<in> set xs"
  shows "find (\<lambda>r. k r = k x) xs = Some x"
  using assms by (induction xs) (auto simp: image_iff)

lemma distinct_key_inj:
  assumes "distinct (map k xs)" and "x \<in> set xs" and "y \<in> set xs" and "k x = k y"
  shows "x = y"
  using assms by (metis find_key_unique option.inject)

lemma distinct_map_filter_key: "distinct (map k xs) \<Longrightarrow> distinct (map k (filter P xs))"
  by (induction xs) auto

text \<open>Rows rewritten in place keep their keys.\<close>

lemma map_key_rewrite:
  assumes "\<And>r. k (g r) = k r"
  shows "map k (map (\<lambda>r. if P r then g r else r) xs) = map k xs"
  using assms by (induction xs) auto

lemma map_if_id: "(\<And>r. r \<in> set xs \<Longrightarrow> \<not> P r) \<Longrightarrow> map (\<lambda>r. if P r then g r else r) xs = xs"
  by (induction xs) auto

lemma filter_length_zero: "length (filter P xs) = 0 \<longleftrightarrow> (\<forall>x\<in>set xs. \<not> P x)"
  by (simp add: filter_empty_conv)

lemma length_4_conv: "length xs = 4 \<longleftrightarrow> (\<exists>a b c d. xs = [a, b, c, d])"
  by (auto simp: numeral_eq_Suc length_Suc_conv)

lemma takeWhile_neq_notin: "c \<notin> set (takeWhile (\<lambda>x. x \<noteq> c) xs)"
  by (auto dest: set_takeWhileD)

lemma append_eq_suffixD:
  assumes "a @ x = b @ y" and "length x = length y"
  shows "a = b \<and> x = y"
  using assms by (simp add: append_eq_append_conv)

end
