(* ===== verification/Sni.thy ===== *)
theory Sni
  imports Go_Strings
begin

text \<open>
  internal/sni: the lookup both the node and the agent route with (Match), and the connection
  that replays the ClientHello bytes already read (Peek, PrefixConn).  A table is a Go map
  from host names (exact, or "*." followed by a domain) to values.  The locale sni_router
  states what the two clients rely on; Match interprets it.
\<close>

section \<open>Match\<close>

text \<open>The loop of Match: drop one label at a time and try the wildcard of what is left.\<close>

function match_up :: "(string \<rightharpoonup> 'v) \<Rightarrow> string \<Rightarrow> 'v option" where
  "match_up table rest =
     (case index_byte rest CHR ''.'' of
        None \<Rightarrow> None
      | Some i \<Rightarrow>
          (case table (''*.'' @ drop (Suc i) rest) of
             Some v \<Rightarrow> Some v
           | None \<Rightarrow> match_up table (drop (Suc i) rest)))"
  by pat_completeness auto
termination
  by (relation "measure (\<lambda>(t, r). length r)") (auto dest: index_byte_lt)

declare match_up.simps [simp del]

definition Match :: "(string \<rightharpoonup> 'v) \<Rightarrow> string \<Rightarrow> 'v option" where
  "Match table host = (case table host of Some v \<Rightarrow> Some v | None \<Rightarrow> match_up table host)"

text \<open>
  The reference: the parents of a host are what follows each of its dots, nearest first, and
  the names tried are the host itself and then the wildcard of each parent.
\<close>

fun parents :: "string \<Rightarrow> string list" where
  "parents [] = []"
| "parents (c # s) = (if c = CHR ''.'' then s # parents s else parents s)"

definition candidates :: "string \<Rightarrow> string list" where
  "candidates host = host # map (\<lambda>p. ''*.'' @ p) (parents host)"

fun first_hit :: "(string \<rightharpoonup> 'v) \<Rightarrow> string list \<Rightarrow> 'v option" where
  "first_hit table [] = None"
| "first_hit table (k # ks) = (case table k of Some v \<Rightarrow> Some v | None \<Rightarrow> first_hit table ks)"

lemma parents_no_dot: "CHR ''.'' \<notin> set s \<Longrightarrow> parents s = []"
  by (induction s) auto

lemma parents_first_dot: "CHR ''.'' \<notin> set a \<Longrightarrow> parents (a @ CHR ''.'' # s) = s # parents s"
  by (induction a) auto

lemma in_parents: "p \<in> set (parents h) \<longleftrightarrow> (\<exists>a. h = a @ CHR ''.'' # p)"
  by (induction h) (auto simp: Cons_eq_append_conv)

lemma parents_sorted: "sorted_wrt (\<lambda>p q. length q < length p) (parents h)"
proof (induction h)
  case (Cons c s)
  have "length q < length s" if "q \<in> set (parents s)" for q
    using that by (auto simp: in_parents)
  with Cons.IH show ?case by auto
qed simp

lemma match_up_first_hit: "match_up table h = first_hit table (map (\<lambda>p. ''*.'' @ p) (parents h))"
proof (induction table h rule: match_up.induct)
  case (1 table h)
  show ?case
  proof (cases "index_byte h CHR ''.''")
    case None
    then have "parents h = []"
      by (simp add: index_byte_None parents_no_dot)
    with None show ?thesis by (simp add: match_up.simps [of table h])
  next
    case (Some i)
    have h: "h = take i h @ CHR ''.'' # drop (Suc i) h" "CHR ''.'' \<notin> set (take i h)"
      using Some id_take_nth_drop [of i h] by (simp_all add: index_byte_Some)
    have "parents h = drop (Suc i) h # parents (drop (Suc i) h)"
      using parents_first_dot [OF h(2), of "drop (Suc i) h"] h(1) by simp
    with Some "1.IH" show ?thesis
      by (auto simp: match_up.simps [of table h] split: option.splits)
  qed
qed

lemma Match_first_hit: "Match table h = first_hit table (candidates h)"
  by (simp add: Match_def candidates_def match_up_first_hit split: option.splits)

lemma first_hit_None: "first_hit t ks = None \<longleftrightarrow> (\<forall>k\<in>set ks. t k = None)"
  by (induction ks) (auto split: option.splits)

lemma first_hit_Some:
  "first_hit t ks = Some v \<longleftrightarrow> (\<exists>as k bs. ks = as @ k # bs \<and> t k = Some v \<and> (\<forall>a\<in>set as. t a = None))"
proof
  show "first_hit t ks = Some v \<Longrightarrow>
      \<exists>as k bs. ks = as @ k # bs \<and> t k = Some v \<and> (\<forall>a\<in>set as. t a = None)"
  proof (induction ks)
    case (Cons k ks)
    then show ?case
    proof (cases "t k")
      case None
      with Cons obtain as j bs where "ks = as @ j # bs" "t j = Some v" "\<forall>a\<in>set as. t a = None"
        by auto
      with None show ?thesis by (intro exI [of _ "k # as"] exI [of _ j] exI [of _ bs]) simp
    qed (fastforce simp: Cons_eq_append_conv)
  qed simp
next
  have "first_hit t (as @ k # bs) = Some v" if "t k = Some v" "\<forall>a\<in>set as. t a = None" for as k bs
    using that by (induction as) auto
  then show "\<exists>as k bs. ks = as @ k # bs \<and> t k = Some v \<and> (\<forall>a\<in>set as. t a = None) \<Longrightarrow>
      first_hit t ks = Some v"
    by auto
qed

section \<open>What routing relies on\<close>

text \<open>
  The contract of a host table lookup.  A host in the table gets its own entry; otherwise
  the wildcard of its longest parent that has one; otherwise nothing.
\<close>

locale sni_router =
  fixes lookup :: "(string \<rightharpoonup> 'v) \<Rightarrow> string \<Rightarrow> 'v option"
  assumes exact: "t h = Some v \<Longrightarrow> lookup t h = Some v"
    and wildcard: "t h = None \<Longrightarrow> h = a @ CHR ''.'' # p \<Longrightarrow> t (''*.'' @ p) = Some v \<Longrightarrow>
          (\<And>b q. h = b @ CHR ''.'' # q \<Longrightarrow> length p < length q \<Longrightarrow> t (''*.'' @ q) = None) \<Longrightarrow>
          lookup t h = Some v"
    and miss: "t h = None \<Longrightarrow> (\<And>a p. h = a @ CHR ''.'' # p \<Longrightarrow> t (''*.'' @ p) = None) \<Longrightarrow>
          lookup t h = None"
begin

lemma hit_cases:
  assumes "lookup t h = Some v"
  obtains "t h = Some v" | a p where "h = a @ CHR ''.'' # p" "t (''*.'' @ p) = Some v"
proof (cases "t h")
  case (Some w)
  with assms that(1) show ?thesis by (metis exact)
next
  case None
  define hit where "hit p \<longleftrightarrow> (\<exists>a. h = a @ CHR ''.'' # p \<and> t (''*.'' @ p) \<noteq> None)" for p
  have "\<exists>p. hit p"
    using miss [where t = t and h = h] None assms by (fastforce simp: hit_def)
  then obtain p0 where p0: "hit p0" ..
  have bound: "\<forall>q. hit q \<longrightarrow> length q < length h"
    by (auto simp: hit_def)
  from ex_has_greatest_nat [of hit, OF p0 bound]
  obtain p where p: "hit p" and longest: "\<forall>q. hit q \<longrightarrow> length q \<le> length p"
    by auto
  from p obtain a w where aw: "h = a @ CHR ''.'' # p" "t (''*.'' @ p) = Some w"
    by (auto simp: hit_def)
  have "lookup t h = Some w"
  proof (rule wildcard [where t = t, OF None aw])
    fix b q
    assume q: "h = b @ CHR ''.'' # q" "length p < length q"
    show "t (''*.'' @ q) = None"
    proof (rule ccontr)
      assume "t (''*.'' @ q) \<noteq> None"
      with q(1) have "length q \<le> length p" using longest by (auto simp: hit_def)
      with q(2) show False by simp
    qed
  qed
  with assms aw show ?thesis using that(2) by simp
qed

text \<open>A host below no key of the table is not routed.\<close>

lemma outside:
  assumes "t h = None" and "\<And>a p. h = a @ CHR ''.'' # p \<Longrightarrow> ''*.'' @ p \<notin> dom t"
  shows "lookup t h = None"
  using assms by (intro miss) auto

end

lemma Match_wildcard:
  assumes miss: "t h = None" and h: "h = a @ CHR ''.'' # p" and hit: "t (''*.'' @ p) = Some v"
    and above: "\<And>b q. h = b @ CHR ''.'' # q \<Longrightarrow> length p < length q \<Longrightarrow> t (''*.'' @ q) = None"
  shows "Match t h = Some v"
proof -
  from h have "p \<in> set (parents h)" by (auto simp: in_parents)
  then obtain us vs where split: "parents h = us @ p # vs"
    by (auto simp: in_set_conv_decomp)
  have "t (''*.'' @ u) = None" if "u \<in> set us" for u
  proof -
    have "length p < length u"
      using parents_sorted [of h] that by (auto simp: split sorted_wrt_append)
    moreover from that obtain b where "h = b @ CHR ''.'' # u"
      using in_parents [of u h] by (auto simp: split)
    ultimately show ?thesis by (rule above [rotated])
  qed
  then have "first_hit t (map (\<lambda>p. ''*.'' @ p) (parents h)) = Some v"
    unfolding first_hit_Some split using hit
    by (intro exI [of _ "map (\<lambda>p. ''*.'' @ p) us"]) auto
  with miss show ?thesis by (simp add: Match_first_hit candidates_def)
qed

interpretation sni: sni_router Match
proof unfold_locales
  show "t h = Some v \<Longrightarrow> Match t h = Some v" for t :: "string \<rightharpoonup> 'v" and h v
    by (simp add: Match_def)
next
  show "t h = None \<Longrightarrow> (\<And>a p. h = a @ CHR ''.'' # p \<Longrightarrow> t (''*.'' @ p) = None) \<Longrightarrow> Match t h = None"
    for t :: "string \<rightharpoonup> 'v" and h
    by (auto simp: Match_first_hit first_hit_None candidates_def in_parents)
qed (rule Match_wildcard)

section \<open>Names below a domain\<close>

text \<open>The domain itself and every name that ends in a dot and the domain.\<close>

definition in_domain :: "string \<Rightarrow> string \<Rightarrow> bool" where
  "in_domain domain host \<longleftrightarrow> host = domain \<or> (\<exists>u. host = u @ CHR ''.'' # domain)"

lemma in_domain_below: "in_domain domain h \<Longrightarrow> in_domain domain (u @ CHR ''.'' # h)"
  unfolding in_domain_def by (metis append.assoc append_Cons)

section \<open>The connection that replays what was read\<close>

text \<open>
  A connection is the bytes it still has to deliver.  Reading at most n bytes may return
  fewer: the network decides, and the argument got says how many it hands over.
\<close>

record prefix_conn =
  pc_prefix :: bytes
  pc_inner :: bytes

definition NewPrefixConn :: "bytes \<Rightarrow> bytes \<Rightarrow> prefix_conn" where
  "NewPrefixConn c prefix = \<lparr>pc_prefix = prefix, pc_inner = c\<rparr>"

text \<open>PrefixConn.Read into a buffer of n bytes.\<close>

definition prefix_read :: "nat \<Rightarrow> nat \<Rightarrow> prefix_conn \<Rightarrow> bytes \<times> prefix_conn" where
  "prefix_read n got c =
     (if pc_prefix c \<noteq> [] then (take n (pc_prefix c), c\<lparr>pc_prefix := drop n (pc_prefix c)\<rparr>)
      else (take (min n got) (pc_inner c), c\<lparr>pc_inner := drop (min n got) (pc_inner c)\<rparr>))"

fun prefix_reads :: "(nat \<times> nat) list \<Rightarrow> prefix_conn \<Rightarrow> bytes \<times> prefix_conn" where
  "prefix_reads [] c = ([], c)"
| "prefix_reads ((n, got) # rs) c =
     (case prefix_read n got c of (b, c') \<Rightarrow> (case prefix_reads rs c' of (bs, c'') \<Rightarrow> (b @ bs, c'')))"

definition stream_of :: "prefix_conn \<Rightarrow> bytes" where
  "stream_of c = pc_prefix c @ pc_inner c"

lemma prefix_read_stream: "prefix_read n got c = (b, c') \<Longrightarrow> b @ stream_of c' = stream_of c"
  by (auto simp: prefix_read_def stream_of_def split: if_splits)

lemma prefix_reads_stream: "prefix_reads rs c = (b, c') \<Longrightarrow> b @ stream_of c' = stream_of c"
  by (induction rs c arbitrary: b c' rule: prefix_reads.induct)
    (auto split: prod.splits dest: prefix_read_stream)

text \<open>
  Peek.  crypto/tls reads the ClientHello through a TeeReader: hello maps the bytes of the
  connection to the number of bytes the handshake consumed and, when it got a ClientHello,
  the server name in it.  It is an argument: any parser fits.
\<close>

datatype peek_error = PeekTls | ErrNoSNI

definition Peek :: "(bytes \<Rightarrow> nat \<times> string option) \<Rightarrow> bytes \<Rightarrow> peek_error + string \<times> prefix_conn" where
  "Peek hello conn =
     (case hello conn of
        (n, None) \<Rightarrow> Inl PeekTls
      | (n, Some name) \<Rightarrow>
          if name = [] then Inl ErrNoSNI
          else Inr (to_lower name, NewPrefixConn (drop n conn) (take n conn)))"

lemma Peek_stream: "Peek hello conn = Inr (name, c) \<Longrightarrow> stream_of c = conn"
  by (auto simp: Peek_def NewPrefixConn_def stream_of_def split: prod.splits option.splits if_splits)

lemma Peek_lower: "Peek hello conn = Inr (name, c) \<Longrightarrow> lowercase name \<and> name \<noteq> []"
  by (auto simp: Peek_def to_lower_def[symmetric] split: prod.splits option.splits if_splits)
    (simp add: to_lower_def)

section \<open>Properties\<close>

text \<open>
  C20: Match is first-match search: it tries the host itself and then the wildcard of each of
  its parent domains, from the nearest upwards, and returns the first entry it finds.
\<close>
theorem Match_is_first_candidate:
  "Match table host =
     (case filter (\<lambda>k. table k \<noteq> None) (candidates host) of [] \<Rightarrow> None | k # _ \<Rightarrow> table k)"
proof -
  have "first_hit table ks =
      (case filter (\<lambda>k. table k \<noteq> None) ks of [] \<Rightarrow> None | k # _ \<Rightarrow> table k)" for ks
    by (induction ks) (auto split: option.splits list.splits)
  then show ?thesis by (simp add: Match_first_hit)
qed

text \<open>
  C21: Peek loses nothing: whatever sizes the reader asks for, what it reads from the returned
  connection followed by what is left in it is exactly the byte stream of the original
  connection, ClientHello included, and the name returned is nonempty and in lower case.
\<close>
theorem Peek_replays:
  assumes "Peek hello conn = Inr (name, c)" and "prefix_reads rs c = (b, c')"
  shows "b @ stream_of c' = conn \<and> lowercase name \<and> name \<noteq> []"
  using Peek_stream [OF assms(1)] prefix_reads_stream [OF assms(2)] Peek_lower [OF assms(1)]
  by simp

theorem Peek_replays_witness:
  "prefix_reads [(2, 9), (5, 9), (3, 1)] (NewPrefixConn [4, 5] [1, 2, 3]) =
     ([1, 2, 3, 4], \<lparr>pc_prefix = [], pc_inner = [5]\<rparr>) \<and>
   [1, 2, 3, 4] @ stream_of \<lparr>pc_prefix = [], pc_inner = [5]\<rparr> = [1, 2, 3, 4, 5 :: byte]"
proof -
  have p: "Peek (\<lambda>_. (3, Some ''A.b'')) [1, 2, 3, 4, 5] = Inr (''a.b'', NewPrefixConn [4, 5] [1, 2, 3])"
    by code_simp
  have r: "prefix_reads [(2, 9), (5, 9), (3, 1)] (NewPrefixConn [4, 5] [1, 2, 3]) =
     ([1, 2, 3, 4], \<lparr>pc_prefix = [], pc_inner = [5]\<rparr>)"
    by (simp add: NewPrefixConn_def prefix_read_def)
  from r Peek_replays [OF p r] show ?thesis by blast
qed

end
