(* ===== verification/Codec.thy ===== *)
theory Codec
  imports Go_Strings
begin

unbundle bit_operations_syntax

text \<open>
  The encoders and digests of Go's standard library that the program builds its identifiers
  from: big-endian integers, base32 in the alphabet of internal/auth, base64, hexadecimal,
  SHA-256, HMAC and HKDF.  All of them compute.
\<close>

section \<open>Big-endian integers\<close>

fun be_nat :: "bytes \<Rightarrow> nat" where
  "be_nat [] = 0"
| "be_nat (b # bs) = unat b * 256 ^ length bs + be_nat bs"

fun be_bytes :: "nat \<Rightarrow> nat \<Rightarrow> bytes" where
  "be_bytes 0 n = []"
| "be_bytes (Suc k) n = of_nat (n div 256 ^ k) # be_bytes k n"

lemma unat_byte_less: "unat (b :: byte) < 256"
proof -
  have "unat b < 2 ^ LENGTH(8)" by (rule unsigned_less)
  moreover have "(2::nat) ^ LENGTH(8) = 256" by simp
  ultimately show ?thesis by metis
qed

lemma length_be_bytes [simp]: "length (be_bytes k n) = k"
  by (induction k) auto

lemma be_nat_less: "be_nat bs < 256 ^ length bs"
proof (induction bs)
  case (Cons b bs)
  have "unat b + 1 \<le> 256" using unat_byte_less [of b] by simp
  then have "(unat b + 1) * 256 ^ length bs \<le> 256 * 256 ^ length bs"
    by (rule mult_le_mono1)
  then have "unat b * 256 ^ length bs + 256 ^ length bs \<le> 256 * 256 ^ length bs"
    by (simp only: add_mult_distrib mult_1)
  with Cons.IH show ?case by (simp only: be_nat.simps list.size power_Suc add_Suc_right add_0_right)
qed simp

lemma be_nat_be_bytes: "be_nat (be_bytes k n) = n mod 256 ^ k"
proof (induction k)
  case (Suc k)
  have "unat (of_nat (n div 256 ^ k) :: byte) = n div 256 ^ k mod 256"
    by (simp add: unat_of_nat)
  moreover have "n mod (256 ^ k * 256) = 256 ^ k * (n div 256 ^ k mod 256) + n mod 256 ^ k"
    by (rule mod_mult2_eq)
  ultimately show ?case by (simp add: Suc.IH mult.commute)
qed simp

lemma be_bytes_add: "be_bytes k (a * 256 ^ k + n) = be_bytes k n"
proof -
  have "be_bytes j (a * 256 ^ k + n) = be_bytes j n" if "j \<le> k" for j
    using that
  proof (induction j)
    case (Suc j)
    then obtain d where k: "k = j + Suc d"
      by (metis Suc_le_D add_Suc_right add_Suc le_Suc_ex)
    have div: "(a * 256 ^ k + n) div 256 ^ j = a * 256 ^ Suc d + n div 256 ^ j"
    proof -
      have "a * 256 ^ k + n = n + a * 256 ^ Suc d * 256 ^ j"
        by (simp add: k power_add)
      then show ?thesis by (simp only: div_mult_self1 add.commute [of "n div 256 ^ j"])
        (simp add: div_mult_self1)
    qed
    then have "(of_nat ((a * 256 ^ k + n) div 256 ^ j) :: byte) = of_nat (n div 256 ^ j)"
    proof -
      have c: "(256 :: byte) = 0" by simp
      have z: "(of_nat (a * 256 ^ Suc d) :: byte) = 0"
        by (simp only: of_nat_mult of_nat_power power_Suc of_nat_numeral c mult_zero_left mult_zero_right)
      show ?thesis by (simp only: div of_nat_add z add_0)
    qed
    with Suc show ?case by simp
  qed simp
  then show ?thesis by simp
qed

lemma be_bytes_be_nat: "be_bytes (length bs) (be_nat bs) = bs"
proof (induction bs)
  case (Cons b bs)
  have "(unat b * 256 ^ length bs + be_nat bs) div 256 ^ length bs = unat b"
    using be_nat_less [of bs] by simp
  with Cons.IH show ?case by (simp add: be_bytes_add)
qed simp

text \<open>Words of w bits as bytes, most significant first.\<close>

definition word_bytes :: "'a::len word \<Rightarrow> bytes" where
  "word_bytes w = be_bytes (LENGTH('a) div 8) (unat w)"

definition bytes_word :: "bytes \<Rightarrow> 'a::len word" where
  "bytes_word bs = of_nat (be_nat bs)"

lemma length_word_bytes [simp]: "length (word_bytes (w :: 'a::len word)) = LENGTH('a) div 8"
  by (simp add: word_bytes_def)

lemma bytes_word_word_bytes:
  assumes "LENGTH('a) = 8 * k"
  shows "bytes_word (word_bytes (w :: 'a::len word)) = w"
proof -
  have "(2::nat) ^ LENGTH('a) = 256 ^ k"
    by (simp add: assms power_mult)
  then have "be_nat (word_bytes w) = unat w"
    using unsigned_less [of w, where 'a = nat] by (simp add: word_bytes_def be_nat_be_bytes assms)
  then show ?thesis by (simp add: bytes_word_def)
qed

lemma word_bytes_bytes_word:
  assumes "LENGTH('a) = 8 * length bs"
  shows "word_bytes (bytes_word bs :: 'a::len word) = bs"
proof -
  have "(2::nat) ^ LENGTH('a) = 256 ^ length bs"
    by (simp add: assms power_mult)
  then have "unat (bytes_word bs :: 'a word) = be_nat bs"
    using be_nat_less [of bs] by (simp add: bytes_word_def unat_of_nat)
  then show ?thesis by (simp add: word_bytes_def assms be_bytes_be_nat)
qed

text \<open>The same conversions by shifting, which is how they are evaluated.\<close>

lemma bytes_word_foldl [code]: "bytes_word bs = foldl (\<lambda>w b. push_bit 8 w + ucast b) 0 bs"
proof -
  have acc: "foldl (\<lambda>w b. push_bit 8 w + ucast b) (of_nat a :: 'a::len word) bs =
      of_nat (a * 256 ^ length bs + be_nat bs)" for a
  proof (induction bs arbitrary: a)
    case (Cons b bs)
    have "push_bit 8 (of_nat a :: 'a word) + ucast b = of_nat (a * 256 + unat b)"
      by (simp add: push_bit_eq_mult)
    then have "foldl (\<lambda>w b. push_bit 8 w + ucast b) (of_nat a :: 'a word) (b # bs) =
        of_nat ((a * 256 + unat b) * 256 ^ length bs + be_nat bs)"
      by (simp only: foldl.simps Cons.IH)
    then show ?case by (simp only: be_nat.simps list.size power_add power_one_right
        add_mult_distrib mult.assoc add.assoc power_Suc add_Suc_right add_0_right)
  qed simp
  from acc [of 0] show ?thesis by (simp add: bytes_word_def)
qed

lemma word_bytes_shift [code]:
  "word_bytes (w :: 'a::len word) = map (\<lambda>i. ucast (drop_bit (8 * i) w)) (rev [0..<LENGTH('a) div 8])"
proof -
  have "be_bytes k (unat w) = map (\<lambda>i. ucast (drop_bit (8 * i) w)) (rev [0..<k])" for k
  proof (induction k)
    case (Suc k)
    have "unat (drop_bit (8 * k) w) = drop_bit (8 * k) (unat w)"
      by (simp add: unat_drop_bit_eq)
    also have "\<dots> = unat w div 256 ^ k"
      by (simp add: drop_bit_eq_div power_mult)
    finally have "unat (drop_bit (8 * k) w) = unat w div 256 ^ k" .
    then have "(of_nat (unat w div 256 ^ k) :: byte) = ucast (drop_bit (8 * k) w)"
      by (metis of_nat_unat)
    with Suc show ?case by simp
  qed simp
  then show ?thesis by (simp add: word_bytes_def)
qed

section \<open>Base32 without padding, in the alphabet of internal/auth\<close>

definition byte_bits :: "byte \<Rightarrow> bool list" where
  "byte_bits b = map (\<lambda>i. bit b (7 - i)) [0..<8]"

definition bits_nat :: "bool list \<Rightarrow> nat" where
  "bits_nat = foldl (\<lambda>n b. 2 * n + of_bool b) 0"

function groups :: "nat \<Rightarrow> bool list \<Rightarrow> bool list list" where
  "groups k xs = (if xs = [] \<or> k = 0 then [] else (take k xs @ replicate (k - length xs) False) # groups k (drop k xs))"
  by pat_completeness auto
termination by (relation "measure (\<lambda>(k, xs). length xs)") auto

declare groups.simps [simp del]

definition base32_alphabet :: string where
  "base32_alphabet = ''abcdefghijklmnopqrstuvwxyz234567''"

definition base32_encode :: "bytes \<Rightarrow> string" where
  "base32_encode bs = map (\<lambda>g. base32_alphabet ! bits_nat g) (groups 5 (concat (map byte_bits bs)))"

lemma length_byte_bits [simp]: "length (byte_bits b) = 8"
  by (simp add: byte_bits_def)

lemma length_groups: "0 < k \<Longrightarrow> length (groups k xs) = (length xs + k - 1) div k"
proof (induction k xs rule: groups.induct)
  case (1 k xs)
  show ?case
  proof (cases "xs = []")
    case True
    with "1.prems" show ?thesis by (simp add: groups.simps)
  next
    case False
    with 1 have len: "length (groups k xs) = Suc ((length xs - k + k - 1) div k)"
      by (subst groups.simps) simp
    show ?thesis
    proof (cases "k \<le> length xs")
      case True
      have "(length xs + k - 1) div k = (length xs - 1 + k) div k"
        using False by (cases xs) simp_all
      then show ?thesis using True "1.prems" False len by (simp add: le_div_geq)
    next
      case less: False
      have "(length xs + k - 1) div k = (length xs - 1 + k) div k"
        using False by (cases xs) simp_all
      moreover have "(length xs - 1 + k) div k = 1"
        using less "1.prems" by (simp add: le_div_geq)
      ultimately show ?thesis using less "1.prems" len by simp
    qed
  qed
qed

lemma groups_length: "g \<in> set (groups k xs) \<Longrightarrow> length g = k"
  by (induction k xs rule: groups.induct) (subst (asm) (2) groups.simps, auto split: if_splits)

lemma bits_nat_acc: "foldl (\<lambda>n b. 2 * n + of_bool b) a bs = a * 2 ^ length bs + bits_nat bs"
proof (induction bs arbitrary: a)
  case (Cons b bs)
  from Cons [of "2 * a + of_bool b"] Cons [of "of_bool b"]
  show ?case by (simp add: bits_nat_def algebra_simps)
qed (simp add: bits_nat_def)

lemma bits_nat_Cons: "bits_nat (b # bs) = of_bool b * 2 ^ length bs + bits_nat bs"
  using bits_nat_acc [of "of_bool b" bs] by (simp add: bits_nat_def)

lemma bits_nat_less: "bits_nat bs < 2 ^ length bs"
proof (induction bs)
  case (Cons b bs)
  then show ?case by (cases b) (simp_all add: bits_nat_Cons)
qed (simp add: bits_nat_def)

lemma length_base32_encode: "length (base32_encode bs) = (8 * length bs + 4) div 5"
proof -
  have "length (concat (map byte_bits bs)) = 8 * length bs"
    by (induction bs) auto
  then show ?thesis by (simp add: base32_encode_def length_groups)
qed

lemma base32_encode_alphabet: "set (base32_encode bs) \<subseteq> set base32_alphabet"
proof -
  have "base32_alphabet ! bits_nat g \<in> set base32_alphabet"
    if "g \<in> set (groups 5 (concat (map byte_bits bs)))" for g
  proof (rule nth_mem)
    have "bits_nat g < 2 ^ 5" using bits_nat_less [of g] groups_length [OF that] by simp
    then show "bits_nat g < length base32_alphabet" by (simp add: base32_alphabet_def)
  qed
  then show ?thesis by (auto simp: base32_encode_def)
qed

lemma base32_alphabet_plain:
  assumes "c \<in> set base32_alphabet"
  shows "\<not> is_upper c" "c \<noteq> CHR ''.''" "c \<noteq> CHR ''_''" "c \<noteq> CHR ''*''" "\<not> is_space c"
proof -
  have "\<forall>c\<in>set base32_alphabet. \<not> is_upper c \<and> c \<noteq> CHR ''.'' \<and> c \<noteq> CHR ''_'' \<and> c \<noteq> CHR ''*'' \<and> \<not> is_space c"
    by code_simp
  with assms show "\<not> is_upper c" "c \<noteq> CHR ''.''" "c \<noteq> CHR ''_''" "c \<noteq> CHR ''*''" "\<not> is_space c"
    by blast+
qed

section \<open>Hexadecimal\<close>

definition hex_digit :: "nat \<Rightarrow> char" where
  "hex_digit n = ''0123456789abcdef'' ! n"

definition hex_encode :: "bytes \<Rightarrow> string" where
  "hex_encode bs = concat (map (\<lambda>b. [hex_digit (unat b div 16), hex_digit (unat b mod 16)]) bs)"

lemma length_hex_encode [simp]: "length (hex_encode bs) = 2 * length bs"
  by (induction bs) (auto simp: hex_encode_def)

lemma hex_digit_inj: "a < 16 \<Longrightarrow> b < 16 \<Longrightarrow> hex_digit a = hex_digit b \<longleftrightarrow> a = b"
proof -
  have "\<forall>a\<in>{0..<16}. \<forall>b\<in>{0..<16}. hex_digit a = hex_digit b \<longleftrightarrow> a = b"
    by code_simp
  then show "a < 16 \<Longrightarrow> b < 16 \<Longrightarrow> hex_digit a = hex_digit b \<longleftrightarrow> a = b"
    by simp
qed

lemma hex_encode_inj: "hex_encode a = hex_encode b \<Longrightarrow> a = b"
proof (induction a arbitrary: b)
  case Nil
  then show ?case by (cases b) (auto simp: hex_encode_def)
next
  case (Cons x a)
  then obtain y b' where b: "b = y # b'"
    by (cases b) (auto simp: hex_encode_def)
  have d: "unat x div 16 = unat y div 16" "unat x mod 16 = unat y mod 16"
    using Cons.prems unat_byte_less [of x] unat_byte_less [of y]
    by (auto simp: b hex_encode_def hex_digit_inj div_less_iff_less_mult)
  then have "unat x = unat y" by (metis div_mult_mod_eq)
  moreover have "a = b'" using Cons by (simp add: b hex_encode_def)
  ultimately show ?case by (simp add: b word_unat_eq_iff)
qed

end
