(* ===== verification/Digest.thy ===== *)
theory Digest
  imports Codec
begin

text \<open>
  crypto/sha256, crypto/hmac with SHA-256 and crypto/hkdf (RFC 5869), as far as the program
  uses them, and base64.StdEncoding.  The decoder is Go's: it skips carriage returns and line
  feeds anywhere and ignores the unused low bits of the last symbol (it is not Strict).
\<close>

section \<open>SHA-256\<close>

type_synonym u32 = "32 word"

text \<open>
  The constants, as FIPS 180-4 defines them: the first 32 bits of the fractional parts of the
  cube roots of the first 64 primes, and of the square roots of the first 8.  The root of a
  number scaled to 32 binary places is found bit by bit.
\<close>

definition primes_upto :: "nat \<Rightarrow> nat list" where
  "primes_upto n = filter (\<lambda>p. list_all (\<lambda>d. p mod d \<noteq> 0) [2..<p]) [2..<n + 1]"

definition root_bits :: "nat \<Rightarrow> nat \<Rightarrow> int" where
  "root_bits k p =
     foldl (\<lambda>r i. if (r + 2 ^ i) ^ k \<le> int p * 2 ^ (32 * k) then r + 2 ^ i else r) 0 (rev [0..<37])"

definition sha_k :: "u32 list" where
  "sha_k = map (\<lambda>p. word_of_int (root_bits 3 p)) (primes_upto 311)"

definition sha_init :: "u32 list" where
  "sha_init = map (\<lambda>p. word_of_int (root_bits 2 p)) (primes_upto 19)"

lemma primes_upto_19: "primes_upto 19 = [2, 3, 5, 7, 11, 13, 17, 19]"
  by code_simp

definition sha_pad :: "bytes \<Rightarrow> bytes" where
  "sha_pad m = m @ [0x80] @ replicate ((119 - length m mod 64) mod 64) 0 @ word_bytes (8 * of_nat (length m) :: 64 word)"

fun chunks :: "nat \<Rightarrow> nat \<Rightarrow> 'a list \<Rightarrow> 'a list list" where
  "chunks 0 k xs = []"
| "chunks (Suc n) k xs = take k xs # chunks n k (drop k xs)"

definition sha_next :: "u32 list \<Rightarrow> u32" where
  "sha_next ws =
     (let n = length ws; x = ws ! (n - 15); y = ws ! (n - 2)
      in ws ! (n - 16) + (word_rotr 7 x XOR word_rotr 18 x XOR drop_bit 3 x)
         + ws ! (n - 7) + (word_rotr 17 y XOR word_rotr 19 y XOR drop_bit 10 y))"

definition sha_schedule :: "bytes \<Rightarrow> u32 list" where
  "sha_schedule block =
     ((\<lambda>ws. ws @ [sha_next ws]) ^^ 48) (map bytes_word (chunks 16 4 block))"

definition sha_round :: "u32 \<times> u32 \<Rightarrow> u32 list \<Rightarrow> u32 list" where
  "sha_round kw st =
     (let a = st ! 0; b = st ! 1; c = st ! 2; d = st ! 3; e = st ! 4; f = st ! 5; g = st ! 6; h = st ! 7;
          t1 = h + (word_rotr 6 e XOR word_rotr 11 e XOR word_rotr 25 e)
               + ((e AND f) XOR (NOT e AND g)) + fst kw + snd kw;
          t2 = (word_rotr 2 a XOR word_rotr 13 a XOR word_rotr 22 a) + ((a AND b) XOR (a AND c) XOR (b AND c))
      in [t1 + t2, a, b, c, d + t1, e, f, g])"

definition sha_block :: "bytes \<Rightarrow> u32 list \<Rightarrow> u32 list" where
  "sha_block block st = map2 (+) st (fold sha_round (zip sha_k (sha_schedule block)) st)"

definition sha256 :: "bytes \<Rightarrow> bytes" where
  "sha256 m =
     (let p = sha_pad m
      in concat (map word_bytes (fold sha_block (chunks (length p div 64) 64 p) sha_init)))"

lemma length_sha_round: "length (sha_round kw st) = 8"
  by (simp only: sha_round_def Let_def list.size)

lemma length_sha_rounds: "length st = 8 \<Longrightarrow> length (fold sha_round kws st) = 8"
  by (induction kws arbitrary: st) (simp_all add: length_sha_round)

lemma length_sha_blocks: "length st = 8 \<Longrightarrow> length (fold sha_block bs st) = 8"
  by (induction bs arbitrary: st) (auto simp: sha_block_def length_sha_rounds)

lemma length_sha256 [simp]: "length (sha256 m) = 32"
proof -
  have "length (concat (map word_bytes (ws :: u32 list))) = 4 * length ws" for ws
    by (induction ws) auto
  moreover have "length sha_init = 8" by (simp add: sha_init_def primes_upto_19)
  ultimately show ?thesis
    by (simp add: sha256_def Let_def length_sha_blocks)
qed

lemma length_sha_pad: "64 dvd length (sha_pad m)"
proof -
  define q r where "q = length m div 64" and "r = length m mod 64"
  have len: "length m = 64 * q + r" and r: "r < 64" by (simp_all add: q_def r_def)
  have "(119 - r) mod 64 = (if r \<le> 55 then 55 - r else 119 - r)"
  proof (cases "r \<le> 55")
    case True
    then have "119 - r = 64 + (55 - r)" by simp
    with True show ?thesis by (simp only: mod_add_self1 if_True) simp
  qed (use r in simp)
  then have "length (sha_pad m) = 64 * (q + 1) \<or> length (sha_pad m) = 64 * (q + 2)"
    using r by (auto simp: sha_pad_def len r_def [symmetric] split: if_splits)
  then show ?thesis by (metis dvd_triv_left)
qed

section \<open>HMAC and HKDF\<close>

definition hmac_block_key :: "bytes \<Rightarrow> bytes" where
  "hmac_block_key k = (let k' = (if 64 < length k then sha256 k else k) in k' @ replicate (64 - length k') 0)"

definition hmac_sha256 :: "bytes \<Rightarrow> bytes \<Rightarrow> bytes" where
  "hmac_sha256 k m =
     (let kb = hmac_block_key k
      in sha256 (map ((XOR) 0x5c) kb @ sha256 (map ((XOR) 0x36) kb @ m)))"

text \<open>hkdf.Key with a nil salt and at most 32 bytes of output: one block of the expansion.\<close>

definition hkdf_key32 :: "bytes \<Rightarrow> bytes \<Rightarrow> bytes" where
  "hkdf_key32 secret info = hmac_sha256 (hmac_sha256 (replicate 32 0) secret) (info @ [1])"

lemma length_hkdf_key32 [simp]: "length (hkdf_key32 s i) = 32"
  by (simp add: hkdf_key32_def hmac_sha256_def Let_def)

section \<open>Base64\<close>

definition b64_char :: "nat \<Rightarrow> char" where
  "b64_char n =
     (if n < 26 then char_of (65 + n) else if n < 52 then char_of (71 + n)
      else if n < 62 then char_of (n - 4) else if n = 62 then CHR ''+'' else CHR ''/'')"

definition b64_val :: "char \<Rightarrow> nat option" where
  "b64_val ch =
     (let k = of_char ch
      in if 65 \<le> k \<and> k \<le> 90 then Some (k - 65) else if 97 \<le> k \<and> k \<le> 122 then Some (k - 71)
         else if 48 \<le> k \<and> k \<le> 57 then Some (k + 4) else if k = 43 then Some 62
         else if k = 47 then Some 63 else None)"

fun b64_encode :: "bytes \<Rightarrow> string" where
  "b64_encode [] = []"
| "b64_encode [a] =
     (let n = unat a * 16 in [b64_char (n div 64), b64_char (n mod 64), CHR ''='', CHR ''=''])"
| "b64_encode [a, b] =
     (let n = (unat a * 256 + unat b) * 4
      in [b64_char (n div 4096), b64_char (n div 64 mod 64), b64_char (n mod 64), CHR ''=''])"
| "b64_encode (a # b # c # bs) =
     (let n = unat a * 65536 + unat b * 256 + unat c
      in [b64_char (n div 262144), b64_char (n div 4096 mod 64), b64_char (n div 64 mod 64), b64_char (n mod 64)]
         @ b64_encode bs)"

text \<open>The quanta of a text without line breaks; the last one may be padded.\<close>

fun b64_quanta :: "string \<Rightarrow> bytes option" where
  "b64_quanta [] = Some []"
| "b64_quanta (a # b # c # d # cs) =
     (case (b64_val a, b64_val b, b64_val c, b64_val d) of
        (Some u, Some v, Some w, Some x) \<Rightarrow>
          map_option ((@) (be_bytes 3 (((u * 64 + v) * 64 + w) * 64 + x))) (b64_quanta cs)
      | (Some u, Some v, Some w, None) \<Rightarrow>
          if d = CHR ''='' \<and> cs = [] then Some (be_bytes 2 (((u * 64 + v) * 64 + w) div 4)) else None
      | (Some u, Some v, None, _) \<Rightarrow>
          if c = CHR ''='' \<and> d = CHR ''='' \<and> cs = [] then Some (be_bytes 1 ((u * 64 + v) div 16)) else None
      | _ \<Rightarrow> None)"
| "b64_quanta _ = None"

definition b64_decode :: "string \<Rightarrow> bytes option" where
  "b64_decode s = b64_quanta (filter (\<lambda>c. c \<noteq> CHR 0x0D \<and> c \<noteq> CHR 0x0A) s)"

lemma b64_val_char [simp]: "n < 64 \<Longrightarrow> b64_val (b64_char n) = Some n"
  by (auto simp: b64_val_def b64_char_def Let_def)

lemma b64_val_pad [simp]: "b64_val CHR ''='' = None"
  by (simp add: b64_val_def)

lemma b64_val_break [simp]: "b64_val CHR 0x0D = None" "b64_val CHR 0x0A = None"
  by (simp_all add: b64_val_def)

lemma b64_char_not_break: "n < 64 \<Longrightarrow> b64_char n \<noteq> CHR 0x0D \<and> b64_char n \<noteq> CHR 0x0A"
  using b64_val_char [of n] b64_val_break by (metis option.distinct(1))

lemma b64_val_less: "b64_val c = Some n \<Longrightarrow> n < 64"
  by (auto simp: b64_val_def Let_def split: if_splits)

text \<open>The arithmetic of one quantum.\<close>

lemma three_digits: "(n div 4096 * 64 + n div 64 mod 64) * 64 + n mod 64 = (n :: nat)"
proof -
  have "n div 4096 = n div 64 div 64" by (simp add: div_mult2_eq [symmetric])
  then show ?thesis by (simp only: div_mult_mod_eq)
qed

lemma four_digits:
  "((n div 262144 * 64 + n div 4096 mod 64) * 64 + n div 64 mod 64) * 64 + n mod 64 = (n :: nat)"
proof -
  have "n div 262144 = n div 4096 div 64" "n div 4096 = n div 64 div 64"
    by (simp_all add: div_mult2_eq [symmetric])
  then show ?thesis by (simp only: div_mult_mod_eq)
qed

lemma be_bytes_unats:
  "be_bytes 1 (unat a) = [a]"
  "be_bytes 2 (unat a * 256 + unat b) = [a, b]"
  "be_bytes 3 (unat a * 65536 + unat b * 256 + unat c) = [a, b, c]"
proof -
  have n: "be_nat [a] = unat a" "be_nat [a, b] = unat a * 256 + unat b"
    "be_nat [a, b, c] = unat a * 65536 + unat b * 256 + unat c"
    by simp_all
  have l: "length [a] = 1" "length [a, b] = 2" "length [a, b, c] = 3"
    by simp_all
  show "be_bytes 1 (unat a) = [a]" using be_bytes_be_nat [of "[a]"] by (simp only: n l)
  show "be_bytes 2 (unat a * 256 + unat b) = [a, b]"
    using be_bytes_be_nat [of "[a, b]"] by (simp only: n l)
  show "be_bytes 3 (unat a * 65536 + unat b * 256 + unat c) = [a, b, c]"
    using be_bytes_be_nat [of "[a, b, c]"] by (simp only: n l)
qed

lemma b64_quanta_encode: "b64_quanta (b64_encode bs) = Some bs"
proof (induction bs rule: b64_encode.induct)
  case (2 a)
  have n: "unat a * 16 div 64 < 64" using unat_byte_less [of a] by simp
  have "unat a * 16 div 64 * 64 + unat a * 16 mod 64 = unat a * 16" by presburger
  with n be_bytes_unats(1) [of a] show ?case by (simp add: Let_def)
next
  case (3 a b)
  define n where "n = (unat a * 256 + unat b) * 4"
  have "n div 4096 < 64" using unat_byte_less [of a] unat_byte_less [of b] by (simp add: n_def)
  moreover have "be_bytes 2 (n div 4) = [a, b]"
  proof -
    have "n div 4 = unat a * 256 + unat b" by (simp add: n_def)
    then show ?thesis by (simp only: be_bytes_unats(2))
  qed
  ultimately show ?case using three_digits [of n]
    unfolding b64_encode.simps Let_def n_def [symmetric] by simp
next
  case (4 a b c bs)
  define n where "n = unat a * 65536 + unat b * 256 + unat c"
  have "n div 262144 < 64"
    using unat_byte_less [of a] unat_byte_less [of b] unat_byte_less [of c] by (simp add: n_def)
  moreover have "be_bytes 3 n = [a, b, c]" by (simp only: n_def be_bytes_unats(3))
  ultimately show ?case using four_digits [of n] 4
    unfolding b64_encode.simps Let_def n_def [symmetric] by simp
qed simp

lemma b64_encode_no_breaks:
  "x \<in> set (b64_encode bs) \<Longrightarrow> x \<noteq> CHR 0x0D \<and> x \<noteq> CHR 0x0A"
proof (induction bs rule: b64_encode.induct)
  case (2 a)
  have "unat a * 16 div 64 < 64" using unat_byte_less [of a] by simp
  with 2 b64_char_not_break show ?case by (auto simp: Let_def)
next
  case (3 a b)
  have "(unat a * 256 + unat b) * 4 div 4096 < 64"
    using unat_byte_less [of a] unat_byte_less [of b] by simp
  with 3 b64_char_not_break show ?case by (auto simp: Let_def)
next
  case (4 a b c bs)
  have "(unat a * 65536 + unat b * 256 + unat c) div 262144 < 64"
    using unat_byte_less [of a] unat_byte_less [of b] unat_byte_less [of c] by simp
  with 4 b64_char_not_break show ?case by (auto simp: Let_def)
qed simp

lemma b64_decode_encode: "b64_decode (b64_encode bs) = Some bs"
proof -
  have "filter (\<lambda>c. c \<noteq> CHR 0x0D \<and> c \<noteq> CHR 0x0A) (b64_encode bs) = b64_encode bs"
    using b64_encode_no_breaks by (simp add: filter_id_conv)
  then show ?thesis by (simp only: b64_decode_def b64_quanta_encode)
qed

end
