(* ===== verification/Net_Addr.thy ===== *)
theory Net_Addr
  imports Codec
begin

text \<open>
  Go's net/netip, as far as the program uses it: addresses, address-port pairs, the parser of
  dotted IPv4 and of IPv6 text, and the textual form of IPv4 addresses.  An address is the
  zero Addr, an IPv4 address, or an IPv6 address with its zone.
\<close>

section \<open>Addresses\<close>

datatype addr = AddrZero | Addr4 "32 word" | Addr6 "128 word" string

record addr_port =
  ap_addr :: addr
  ap_port :: "16 word"

definition addr_port_zero :: addr_port where
  "addr_port_zero = \<lparr>ap_addr = AddrZero, ap_port = 0\<rparr>"

fun strip_zone :: "addr \<Rightarrow> addr" where
  "strip_zone (Addr6 w z) = Addr6 w []"
| "strip_zone a = a"

fun Is4 :: "addr \<Rightarrow> bool" where
  "Is4 (Addr4 _) = True"
| "Is4 _ = False"

definition mapped_prefix :: bytes where
  "mapped_prefix = [0, 0, 0, 0, 0, 0, 0, 0, 0, 0, 0xff, 0xff]"

fun Is4In6 :: "addr \<Rightarrow> bool" where
  "Is4In6 (Addr6 w _) = (take 12 (word_bytes w) = mapped_prefix)"
| "Is4In6 _ = False"

fun Unmap :: "addr \<Rightarrow> addr" where
  "Unmap (Addr6 w z) = (if Is4In6 (Addr6 w z) then Addr4 (bytes_word (drop 12 (word_bytes w))) else Addr6 w z)"
| "Unmap a = a"

fun As16 :: "addr \<Rightarrow> bytes" where
  "As16 AddrZero = replicate 16 0"
| "As16 (Addr4 w) = mapped_prefix @ word_bytes w"
| "As16 (Addr6 w _) = word_bytes w"

fun AsSlice :: "addr \<Rightarrow> bytes" where
  "AsSlice AddrZero = []"
| "AsSlice (Addr4 w) = word_bytes w"
| "AsSlice (Addr6 w _) = word_bytes w"

definition AddrFrom4 :: "bytes \<Rightarrow> addr" where
  "AddrFrom4 bs = Addr4 (bytes_word bs)"

definition AddrFrom16 :: "bytes \<Rightarrow> addr" where
  "AddrFrom16 bs = Addr6 (bytes_word bs) []"

lemma length_mapped_prefix [simp]: "length mapped_prefix = 12"
  by (simp add: mapped_prefix_def)

lemma length_As16 [simp]: "length (As16 a) = 16"
  by (cases a) simp_all

lemma bytes_word_bytes [simp]:
  "bytes_word (word_bytes (w8 :: 8 word)) = w8"
  "bytes_word (word_bytes (w16 :: 16 word)) = w16"
  "bytes_word (word_bytes (w32 :: 32 word)) = w32"
  "bytes_word (word_bytes (w128 :: 128 word)) = w128"
  by (simp_all add: bytes_word_word_bytes [where k = 1] bytes_word_word_bytes [where k = 2]
      bytes_word_word_bytes [where k = 4] bytes_word_word_bytes [where k = 16])

lemma word_bytes_word4 [simp]: "length bs = 4 \<Longrightarrow> word_bytes (bytes_word bs :: 32 word) = bs"
  by (simp add: word_bytes_bytes_word)

lemma word_bytes_word16 [simp]: "length bs = 16 \<Longrightarrow> word_bytes (bytes_word bs :: 128 word) = bs"
  by (simp add: word_bytes_bytes_word)

text \<open>A mapped IPv4 address survives the 16-byte form.\<close>

lemma Unmap_AddrFrom16_As16_v4: "Unmap (AddrFrom16 (As16 (Addr4 w))) = Addr4 w"
  by (simp add: AddrFrom16_def)

lemma AddrFrom16_As16_v6: "AddrFrom16 (As16 (Addr6 w z)) = Addr6 w []"
  by (simp add: AddrFrom16_def)

lemma Unmap_idem [simp]: "Unmap (Unmap a) = Unmap a"
  by (cases a) auto

lemma Unmap_not_mapped: "\<not> Is4In6 (Unmap a)"
  by (cases a) auto

section \<open>ParseAddr\<close>

text \<open>
  parseIPv4Fields: val and digits are the value and length of the current field, fs the
  finished ones; start says that the previous byte was a dot or that there was none.
\<close>

fun ipv4_fields :: "string \<Rightarrow> nat \<Rightarrow> nat \<Rightarrow> nat list \<Rightarrow> bool \<Rightarrow> nat list option" where
  "ipv4_fields [] val digits fs start = (if length fs < 3 then None else Some (fs @ [val]))"
| "ipv4_fields (c # s) val digits fs start =
     (if is_digit c then
        (if digits = 1 \<and> val = 0 then None
         else if 255 < val * 10 + digit_val c then None
         else ipv4_fields s (val * 10 + digit_val c) (Suc digits) fs False)
      else if c = CHR ''.'' then
        (if start \<or> s = [] then None
         else if length fs = 3 then None
         else ipv4_fields s 0 0 (fs @ [val]) True)
      else None)"

definition parse_fields4 :: "string \<Rightarrow> bytes option" where
  "parse_fields4 s = map_option (map of_nat) (ipv4_fields s 0 0 [] True)"

definition hex_val :: "char \<Rightarrow> nat option" where
  "hex_val ch =
     (let k = of_char ch
      in if 48 \<le> k \<and> k \<le> 57 then Some (k - 48) else if 97 \<le> k \<and> k \<le> 102 then Some (k - 87)
         else if 65 \<le> k \<and> k \<le> 70 then Some (k - 55) else None)"

text \<open>The hex digits of one IPv6 group: its value and its length, or a failure after the fourth.\<close>

fun hex_group :: "string \<Rightarrow> nat \<Rightarrow> nat \<Rightarrow> (nat \<times> nat) option" where
  "hex_group [] acc off = Some (acc, off)"
| "hex_group (c # s) acc off =
     (case hex_val c of
        None \<Rightarrow> Some (acc, off)
      | Some d \<Rightarrow> if 3 < off then None else hex_group s (acc * 16 + d) (Suc off))"

lemma hex_group_off: "hex_group s acc off = Some (v, n) \<Longrightarrow> off \<le> n \<and> n \<le> off + length s"
  by (induction s arbitrary: acc off) (fastforce split: option.splits if_splits)+

text \<open>
  The loop of parseIPv6 over what is left of the text: the bytes so far, and where the
  ellipsis stands among them.  The result is the bytes, the ellipsis and the unread rest.
\<close>

function ipv6_groups :: "string \<Rightarrow> bytes \<Rightarrow> nat option \<Rightarrow> (bytes \<times> nat option \<times> string) option" where
  "ipv6_groups s ip ell =
     (if 16 \<le> length ip then Some (ip, ell, s)
      else case hex_group s 0 0 of
        None \<Rightarrow> None
      | Some (acc, off) \<Rightarrow>
          if off = 0 then None
          else let rest = drop off s in
          if rest \<noteq> [] \<and> hd rest = CHR ''.'' then
            (if ell = None \<and> length ip \<noteq> 12 then None
             else if 16 < length ip + 4 then None
             else case parse_fields4 s of None \<Rightarrow> None | Some q \<Rightarrow> Some (ip @ q, ell, []))
          else let ip' = ip @ [of_nat (acc div 256), of_nat acc] in
          if rest = [] then Some (ip', ell, [])
          else if hd rest \<noteq> CHR '':'' \<or> length rest = 1 then None
          else if rest ! 1 = CHR '':'' then
            (if ell \<noteq> None then None
             else if length rest = 2 then Some (ip', Some (length ip'), [])
             else ipv6_groups (drop 2 rest) ip' (Some (length ip')))
          else ipv6_groups (drop 1 rest) ip' ell)"
  by pat_completeness auto
termination
  by (relation "measure (\<lambda>(s, ip, ell). 16 - length ip)") auto

declare ipv6_groups.simps [simp del]

definition parse_ipv6 :: "string \<Rightarrow> addr option" where
  "parse_ipv6 txt =
     (case (case cut txt CHR ''%'' of None \<Rightarrow> Some (txt, []) | Some (s, z) \<Rightarrow> if z = [] then None else Some (s, z)) of
        None \<Rightarrow> None
      | Some (s, zone) \<Rightarrow>
          if s = ''::'' then Some (Addr6 0 zone)
          else
            (case (if has_prefix s ''::'' then ipv6_groups (drop 2 s) [] (Some 0) else ipv6_groups s [] None) of
               None \<Rightarrow> None
             | Some (ip, ell, rest) \<Rightarrow>
                 if rest \<noteq> [] then None
                 else if length ip < 16 then
                   (case ell of
                      None \<Rightarrow> None
                    | Some e \<Rightarrow> Some (Addr6 (bytes_word (take e ip @ replicate (16 - length ip) 0 @ drop e ip)) zone))
                 else if ell \<noteq> None then None
                 else Some (Addr6 (bytes_word ip) zone)))"

text \<open>The first of ".", ":" and "%" decides the family.\<close>

definition ParseAddr :: "string \<Rightarrow> addr option" where
  "ParseAddr s =
     (case find (\<lambda>c. c \<in> {CHR ''.'', CHR '':'', CHR ''%''}) s of
        None \<Rightarrow> None
      | Some c \<Rightarrow>
          if c = CHR ''.'' then map_option AddrFrom4 (parse_fields4 s)
          else if c = CHR '':'' then parse_ipv6 s
          else None)"

section \<open>The text of an IPv4 address\<close>

definition ip4_string :: "32 word \<Rightarrow> string" where
  "ip4_string w = join_with ''.'' (map (\<lambda>b. nat_string (unat b)) (word_bytes w))"

lemma is_digit_iff: "is_digit (char_of (n :: nat)) \<longleftrightarrow> 48 \<le> n mod 256 \<and> n mod 256 \<le> 57"
  by (simp add: is_digit_def char_le_nat)

text \<open>Reading the decimal form of a byte: its digits rebuild its value.\<close>

lemma nat_string_byte:
  assumes "n < 256"
  shows "nat_string n =
    (if n < 10 then [char_of (48 + n)]
     else if n < 100 then [char_of (48 + n div 10), char_of (48 + n mod 10)]
     else [char_of (48 + n div 100), char_of (48 + n div 10 mod 10), char_of (48 + n mod 10)])"
proof -
  have h: "n div 10 div 10 = n div 100" "n div 100 < 10" "n div 10 < 10 \<longleftrightarrow> n < 100"
    using assms by (simp_all add: div_mult2_eq [symmetric] div_less_iff_less_mult)
  have "nat_string (n div 100) = [char_of (48 + n div 100)]"
    using h(2) by (subst nat_string.simps) simp
  then have "nat_string (n div 10) =
      (if n < 100 then [char_of (48 + n div 10)] else [char_of (48 + n div 100), char_of (48 + n div 10 mod 10)])"
    by (subst nat_string.simps) (simp add: h)
  then show ?thesis by (subst nat_string.simps) simp
qed

lemma fs_digit:
  assumes "d < 10" and "\<not> (digits = 1 \<and> val = 0)" and "val * 10 + d \<le> 255"
  shows "ipv4_fields (char_of (48 + d) # s) val digits fs start =
         ipv4_fields s (val * 10 + d) (Suc digits) fs False"
  using assms by auto

lemma ipv4_fields_nat_string:
  assumes n: "n < 256"
  shows "ipv4_fields (nat_string n @ s) 0 0 fs start = ipv4_fields s n (length (nat_string n)) fs False"
proof -
  have m: "n mod 10 < 10" "n div 10 * 10 + n mod 10 = n" by simp_all
  consider "n < 10" | "10 \<le> n" "n < 100" | "100 \<le> n" by linarith
  then show ?thesis
  proof cases
    case 1
    then have e: "nat_string n = [char_of (48 + n)]" using nat_string_byte [OF n] by simp
    show ?thesis unfolding e append_Cons append_Nil
      using fs_digit [of n 0 0 s fs start] 1 by simp
  next
    case 2
    then have e: "nat_string n = [char_of (48 + n div 10), char_of (48 + n mod 10)]"
      using nat_string_byte [OF n] by simp
    have d: "n div 10 < 10" "0 < n div 10" using 2 by simp_all
    have "ipv4_fields (char_of (48 + n div 10) # char_of (48 + n mod 10) # s) 0 0 fs start =
        ipv4_fields (char_of (48 + n mod 10) # s) (n div 10) 1 fs False"
      using fs_digit [of "n div 10" 0 0 _ fs start] d by simp
    also have "\<dots> = ipv4_fields s n 2 fs False"
      using fs_digit [of "n mod 10" 1 "n div 10" s fs False] d m n by (simp add: numeral_2_eq_2)
    finally show ?thesis by (simp add: e numeral_2_eq_2)
  next
    case 3
    then have e: "nat_string n = [char_of (48 + n div 100), char_of (48 + n div 10 mod 10), char_of (48 + n mod 10)]"
      using nat_string_byte [OF n] by simp
    have d: "n div 100 < 10" "0 < n div 100" "n div 100 * 10 + n div 10 mod 10 = n div 10" "n div 10 \<le> 255"
      using 3 n div_mult_mod_eq [of "n div 10" 10] by (simp_all add: div_mult2_eq [symmetric])
    have "ipv4_fields (char_of (48 + n div 100) # char_of (48 + n div 10 mod 10) # char_of (48 + n mod 10) # s) 0 0 fs start =
        ipv4_fields (char_of (48 + n div 10 mod 10) # char_of (48 + n mod 10) # s) (n div 100) 1 fs False"
      using fs_digit [of "n div 100" 0 0 _ fs start] d by simp
    also have "\<dots> = ipv4_fields (char_of (48 + n mod 10) # s) (n div 10) 2 fs False"
      using fs_digit [of "n div 10 mod 10" 1 "n div 100" "char_of (48 + n mod 10) # s" fs False] d
      by (simp add: numeral_2_eq_2)
    also have "\<dots> = ipv4_fields s n 3 fs False"
      using fs_digit [of "n mod 10" 2 "n div 10" s fs False] m n by (simp add: numeral_3_eq_3 numeral_2_eq_2)
    finally show ?thesis by (simp add: e numeral_3_eq_3)
  qed
qed

lemma ipv4_fields_dot:
  "s \<noteq> [] \<Longrightarrow> length fs < 3 \<Longrightarrow>
   ipv4_fields (CHR ''.'' # s) val digits fs False = ipv4_fields s 0 0 (fs @ [val]) True"
  by (simp add: is_digit_def less_eq_char_def)

lemma ipv4_fields_octet_dot:
  assumes "n < 256" and "s \<noteq> []" and "length fs < 3"
  shows "ipv4_fields (nat_string n @ CHR ''.'' # s) 0 0 fs start = ipv4_fields s 0 0 (fs @ [n]) True"
  using ipv4_fields_nat_string [OF assms(1)] ipv4_fields_dot [OF assms(2,3)] by metis

lemma ipv4_fields_last:
  assumes "n < 256" and "length fs = 3"
  shows "ipv4_fields (nat_string n) 0 0 fs start = Some (fs @ [n])"
  using ipv4_fields_nat_string [OF assms(1), of "[]"] assms(2) by simp

lemma parse_fields4_string:
  "parse_fields4 (join_with ''.'' (map (\<lambda>b. nat_string (unat b)) [a, b, c, d])) = Some [a, b, c, d]"
proof -
  note o = ipv4_fields_octet_dot [OF unat_byte_less] and l = ipv4_fields_last [OF unat_byte_less]
  have "ipv4_fields (nat_string (unat a) @ CHR ''.'' # nat_string (unat b) @ CHR ''.'' #
      nat_string (unat c) @ CHR ''.'' # nat_string (unat d)) 0 0 [] True = Some [unat a, unat b, unat c, unat d]"
    by (subst o, simp, simp, subst o, simp, simp, subst o, simp, simp, subst l) simp_all
  then show ?thesis by (simp add: parse_fields4_def)
qed

lemma word_bytes32: obtains a b c d where "word_bytes (w :: 32 word) = [a, b, c, d]"
proof -
  have "length (word_bytes w) = 4" by simp
  then obtain a b c d where "word_bytes w = [a, b, c, d]"
    unfolding length_4_conv by (elim exE)
  then show ?thesis by (rule that)
qed

theorem ParseAddr_ip4_string: "ParseAddr (ip4_string w) = Some (Addr4 w)"
proof -
  obtain a b c d where w: "word_bytes w = [a, b, c, d]" by (rule word_bytes32)
  have digit: "x \<noteq> CHR ''.'' \<and> x \<noteq> CHR '':'' \<and> x \<noteq> CHR ''%''" if "x \<in> set (nat_string n)" for x n
    using nat_string_digits [OF that] by (auto simp: is_digit_def less_eq_char_def)
  have "find (\<lambda>c. c \<in> {CHR ''.'', CHR '':'', CHR ''%''}) (nat_string n @ CHR ''.'' # s) = Some CHR ''.''" for n s
  proof -
    have "find P (as @ x # bs) = Some x" if "\<And>y. y \<in> set as \<Longrightarrow> \<not> P y" "P x" for P as bs and x :: char
      using that by (induction as) auto
    then show ?thesis using digit by simp
  qed
  then have first: "find (\<lambda>c. c \<in> {CHR ''.'', CHR '':'', CHR ''%''}) (ip4_string w) = Some CHR ''.''"
    by (simp add: ip4_string_def w)
  have "parse_fields4 (ip4_string w) = Some (word_bytes w)"
    using parse_fields4_string by (simp only: ip4_string_def w)
  with first show ?thesis
    by (simp add: ParseAddr_def AddrFrom4_def)
qed

lemma ip4_string_inj: "ip4_string v = ip4_string w \<longleftrightarrow> v = w"
  by (metis ParseAddr_ip4_string addr.inject(1) option.inject)

section \<open>SplitHostPort and decimal ports\<close>

text \<open>net.SplitHostPort, with None for each of its errors.\<close>

definition last_index_byte :: "string \<Rightarrow> char \<Rightarrow> nat option" where
  "last_index_byte s c = map_option (\<lambda>i. length s - 1 - i) (index_byte (rev s) c)"

definition SplitHostPort :: "string \<Rightarrow> (string \<times> string) option" where
  "SplitHostPort hostport =
     (case last_index_byte hostport CHR '':'' of
        None \<Rightarrow> None
      | Some i \<Rightarrow>
          (let parts =
             (if hostport \<noteq> [] \<and> hd hostport = CHR ''['' then
                (case index_byte hostport CHR '']'' of
                   None \<Rightarrow> None
                 | Some e \<Rightarrow> if e + 1 = i then Some (take (e - 1) (drop 1 hostport), 1, e + 1) else None)
              else if CHR '':'' \<in> set (take i hostport) then None
              else Some (take i hostport, 0, 0))
           in case parts of
                None \<Rightarrow> None
              | Some (host, j, k) \<Rightarrow>
                  if CHR ''['' \<in> set (drop j hostport) then None
                  else if CHR '']'' \<in> set (drop k hostport) then None
                  else Some (host, drop (i + 1) hostport)))"

text \<open>strconv.ParseUint in base 10 for a number of the given number of bits.\<close>

definition ParseUint :: "nat \<Rightarrow> string \<Rightarrow> nat option" where
  "ParseUint bits s =
     (if s = [] \<or> \<not> list_all is_digit s then None
      else let n = foldl (\<lambda>n c. 10 * n + digit_val c) 0 s in if n < 2 ^ bits then Some n else None)"

lemma last_index_byte_append: "c \<notin> set b \<Longrightarrow> last_index_byte (a @ c # b) c = Some (length a)"
  using index_byte_append [of c "rev b" "rev a"] by (simp add: last_index_byte_def)

lemma SplitHostPort_plain:
  assumes "CHR '':'' \<notin> set host" "CHR ''['' \<notin> set host" "CHR '']'' \<notin> set host"
    and "CHR '':'' \<notin> set port" "CHR ''['' \<notin> set port" "CHR '']'' \<notin> set port"
  shows "SplitHostPort (host @ CHR '':'' # port) = Some (host, port)"
proof -
  have "\<not> (host @ CHR '':'' # port \<noteq> [] \<and> hd (host @ CHR '':'' # port) = CHR ''['')"
    using assms(2) by (cases host) auto
  then show ?thesis
    using assms by (simp add: SplitHostPort_def last_index_byte_append Let_def)
qed

lemma SplitHostPort_no_colon: "CHR '':'' \<notin> set s \<Longrightarrow> SplitHostPort s = None"
proof -
  assume "CHR '':'' \<notin> set s"
  then have "index_byte (rev s) CHR '':'' = None" by (simp add: index_byte_None)
  then show ?thesis by (simp add: SplitHostPort_def last_index_byte_def)
qed

end
