(* ===== verification/Auth.thy ===== *)
theory Auth
  imports Digest
begin

text \<open>
  internal/auth: the tokens of agents and nodes.  A token is a prefix, an id and a secret,
  written with underscores between them; the control plane keeps the SHA-256 of that text.
  The random bytes rand.Read returns are arguments.
\<close>

section \<open>Tokens\<close>

record Token =
  tok_prefix :: string
  tok_id :: string
  tok_secret :: string

datatype auth_error = ErrMalformed

definition PrefixAgent :: string where
  "PrefixAgent = ''wgr''"

definition PrefixNode :: string where
  "PrefixNode = ''wgn''"

definition Token_String :: "Token \<Rightarrow> string" where
  "Token_String t = tok_prefix t @ ''_'' @ tok_id t @ ''_'' @ tok_secret t"

text \<open>Random n: the base32 text of n random bytes; here of the bytes themselves.\<close>

definition Random :: "bytes \<Rightarrow> string" where
  "Random b = base32_encode b"

text \<open>New takes 8 random bytes for the id and 32 for the secret.\<close>

definition New_Token :: "string \<Rightarrow> bytes \<Rightarrow> bytes \<Rightarrow> Token" where
  "New_Token prefix r8 r32 = \<lparr>tok_prefix = prefix, tok_id = Random r8, tok_secret = Random r32\<rparr>"

definition Parse :: "string \<Rightarrow> string \<Rightarrow> auth_error + Token" where
  "Parse s wantPrefix =
     (let parts = split_on CHR ''_'' (trim_space s)
      in if length parts \<noteq> 3 \<or> parts ! 0 \<noteq> wantPrefix \<or> parts ! 1 = [] \<or> parts ! 2 = []
         then Inl ErrMalformed
         else Inr \<lparr>tok_prefix = parts ! 0, tok_id = parts ! 1, tok_secret = parts ! 2\<rparr>)"

definition Hash :: "Token \<Rightarrow> bytes" where
  "Hash t = sha256 (bytes_of (Token_String t))"

text \<open>ConstantTimeCompare is 1 when the lengths agree and no byte differs.\<close>

definition constant_time_compare :: "bytes \<Rightarrow> bytes \<Rightarrow> nat" where
  "constant_time_compare x y =
     (if length x \<noteq> length y then 0 else if fold (\<lambda>(a, b) v. v OR (a XOR b)) (zip x y) 0 = 0 then 1 else 0)"

definition Verify :: "Token \<Rightarrow> bytes \<Rightarrow> bool" where
  "Verify t stored \<longleftrightarrow> constant_time_compare (Hash t) stored = 1"

definition DeriveKey :: "Token \<Rightarrow> string \<Rightarrow> bytes" where
  "DeriveKey t purpose = hkdf_key32 (bytes_of (Token_String t)) (bytes_of (''wg-relay '' @ purpose))"

section \<open>Lemmas\<close>

lemma length_Hash [simp]: "length (Hash t) = 32"
  by (simp add: Hash_def)

lemma length_DeriveKey [simp]: "length (DeriveKey t p) = 32"
  by (simp add: DeriveKey_def)

lemma fold_or_xor_zero:
  "fold (\<lambda>(a, b) v. v OR (a XOR b)) (zip x y) v = (0 :: byte) \<longleftrightarrow>
   v = 0 \<and> (\<forall>(a, b)\<in>set (zip x y). a = b)"
proof (induction x arbitrary: y v)
  case (Cons a x)
  have or0: "(v OR (a XOR b) = (0 :: byte)) = (v = 0 \<and> a = b)" for b
    by (auto simp: bit_eq_iff bit_or_iff bit_xor_iff)
  show ?case by (cases y) (auto simp: Cons.IH or0)
qed simp

lemma constant_time_compare_eq: "constant_time_compare x y = 1 \<longleftrightarrow> x = y"
proof -
  have "x = y \<longleftrightarrow> (\<forall>(a, b)\<in>set (zip x y). a = b)" if "length x = length y"
    using that by (induction x y rule: list_induct2) auto
  then show ?thesis by (auto simp: constant_time_compare_def fold_or_xor_zero split: if_splits)
qed

lemma Verify_iff: "Verify t stored \<longleftrightarrow> stored = Hash t"
  unfolding Verify_def constant_time_compare_eq by auto

lemma Random_plain: "c \<in> set (Random b) \<Longrightarrow> c \<in> set base32_alphabet"
  using base32_encode_alphabet by (auto simp: Random_def)

lemma Random_Nil_iff: "Random b = [] \<longleftrightarrow> b = []"
proof -
  have "length (Random b) = 0 \<longleftrightarrow> length b = 0"
    by (simp add: Random_def length_base32_encode div_eq_0_iff)
  then show ?thesis by simp
qed

lemma length_3_conv: "length xs = 3 \<longleftrightarrow> (\<exists>a b c. xs = [a, b, c])"
  by (auto simp: numeral_eq_Suc length_Suc_conv)

text \<open>What Parse accepts: the printed form of a token with clean parts, up to surrounding space.\<close>

definition wf_token :: "Token \<Rightarrow> bool" where
  "wf_token t \<longleftrightarrow> CHR ''_'' \<notin> set (tok_prefix t) \<and> CHR ''_'' \<notin> set (tok_id t) \<and>
     CHR ''_'' \<notin> set (tok_secret t) \<and> tok_id t \<noteq> [] \<and> tok_secret t \<noteq> []"

lemma split_Token_String:
  assumes "wf_token t"
  shows "split_on CHR ''_'' (Token_String t) = [tok_prefix t, tok_id t, tok_secret t]"
  using assms
  by (simp add: wf_token_def Token_String_def split_append_sep split_clean)

lemma Parse_iff:
  "Parse s p = Inr t \<longleftrightarrow> trim_space s = Token_String t \<and> wf_token t \<and> tok_prefix t = p"
proof
  assume parse: "Parse s p = Inr t"
  then obtain a b c where parts: "split_on CHR ''_'' (trim_space s) = [a, b, c]"
    by (auto simp: Parse_def Let_def length_3_conv split: if_splits)
  with parse have t: "t = \<lparr>tok_prefix = a, tok_id = b, tok_secret = c\<rparr>" "a = p" "b \<noteq> []" "c \<noteq> []"
    by (auto simp: Parse_def Let_def split: if_splits)
  have "CHR ''_'' \<notin> set x" if "x \<in> {a, b, c}" for x
    using split_parts_clean [of x "CHR ''_''" "trim_space s"] that by (auto simp: parts)
  moreover have "trim_space s = Token_String t"
    using join_split [of "CHR ''_''" "trim_space s"] by (simp add: parts t(1) Token_String_def)
  ultimately show "trim_space s = Token_String t \<and> wf_token t \<and> tok_prefix t = p"
    using t by (simp add: wf_token_def)
next
  assume r: "trim_space s = Token_String t \<and> wf_token t \<and> tok_prefix t = p"
  then have "tok_id t \<noteq> []" "tok_secret t \<noteq> []" by (auto simp: wf_token_def)
  with r show "Parse s p = Inr t"
    by (simp add: Parse_def split_Token_String)
qed

lemma Parse_prefix: "Parse s p = Inr t \<Longrightarrow> tok_prefix t = p"
  by (simp add: Parse_iff)

lemma New_Token_wf:
  assumes "CHR ''_'' \<notin> set prefix" and "r8 \<noteq> []" and "r32 \<noteq> []"
  shows "wf_token (New_Token prefix r8 r32)"
  using assms Random_plain base32_alphabet_plain(3)
  by (auto simp: wf_token_def New_Token_def Random_Nil_iff)

section \<open>Properties\<close>

text \<open>
  Every token New mints is read back by Parse with its own prefix, exactly as it was
  minted; verifying what was read against the stored hash succeeds.
\<close>
theorem Parse_New_roundtrip:
  assumes "prefix \<in> {PrefixAgent, PrefixNode}" and "length r8 = 8" and "length r32 = 32"
  shows "Parse (Token_String (New_Token prefix r8 r32)) prefix = Inr (New_Token prefix r8 r32) \<and>
         Verify (New_Token prefix r8 r32) (Hash (New_Token prefix r8 r32))"
proof -
  let ?t = "New_Token prefix r8 r32"
  have prefix: "\<forall>c\<in>set prefix. \<not> is_space c \<and> c \<noteq> CHR ''_''"
    using assms(1) by (auto simp: PrefixAgent_def PrefixNode_def is_space_def)
  have "\<not> is_space c" if "c \<in> set (Token_String ?t)" for c
  proof -
    have "c \<in> set prefix \<or> c = CHR ''_'' \<or> c \<in> set (Random r8) \<or> c \<in> set (Random r32)"
      using that by (auto simp: Token_String_def New_Token_def)
    moreover have "\<not> is_space CHR ''_''" by (simp add: is_space_def)
    moreover have "\<not> is_space c" if "c \<in> set (Random b)" for b
      by (rule base32_alphabet_plain(5) [OF Random_plain [OF that]])
    ultimately show ?thesis using prefix by blast
  qed
  then have "trim_space (Token_String ?t) = Token_String ?t" by (rule trim_space_id)
  moreover have "wf_token ?t"
  proof (rule New_Token_wf)
    show "CHR ''_'' \<notin> set prefix" using prefix by blast
    show "r8 \<noteq> []" "r32 \<noteq> []" using assms(2,3) by force+
  qed
  moreover have "tok_prefix ?t = prefix" by (simp add: New_Token_def)
  ultimately show ?thesis by (simp only: Parse_iff Verify_iff)
qed

theorem Parse_New_roundtrip_witness:
  "PrefixAgent \<in> {PrefixAgent, PrefixNode} \<and>
   Parse (Token_String (New_Token PrefixAgent (replicate 8 7) (replicate 32 9))) PrefixAgent =
     Inr (New_Token PrefixAgent (replicate 8 7) (replicate 32 9))"
  using Parse_New_roundtrip [of PrefixAgent "replicate 8 7" "replicate 32 9"] by simp

text \<open>
  Parse accepts exactly the printed tokens: it returns t for s if and only if s, without
  the white space around it, is the printed form of t, t has the wanted prefix, a nonempty id
  and secret, and no underscore inside a part.  So the text determines the token, and an
  agent token is never accepted where a node token is wanted.
\<close>
theorem Parse_accepts_exactly:
  "(Parse s p = Inr t \<longleftrightarrow>
      trim_space s = Token_String t \<and> wf_token t \<and> tok_prefix t = p) \<and>
   \<not> ((\<exists>a. Parse s PrefixAgent = Inr a) \<and> (\<exists>n. Parse s PrefixNode = Inr n))"
proof -
  have "\<not> (Parse s PrefixAgent = Inr a \<and> Parse s PrefixNode = Inr n)" for a n
  proof
    assume "Parse s PrefixAgent = Inr a \<and> Parse s PrefixNode = Inr n"
    then have eq: "Token_String a = Token_String n" "wf_token a" "wf_token n"
      and pre: "tok_prefix a = PrefixAgent" "tok_prefix n = PrefixNode"
      by (auto simp: Parse_iff)
    then have "tok_prefix a = tok_prefix n" by (metis list.inject split_Token_String)
    with pre show False by (simp add: PrefixAgent_def PrefixNode_def)
  qed
  then show ?thesis by (auto simp: Parse_iff)
qed

end
