(* ===== verification/Proxy_Proto.thy ===== *)
theory Proxy_Proto
  imports Net_Addr
begin

text \<open>
  internal/proxyproto: the PROXY protocol v2 header with which the node tells the agent the
  visitor's address.  Header writes it, Read takes it off the front of a stream.  A reader is
  the bytes it still has to deliver before end of file.
\<close>

section \<open>Model\<close>

definition signature :: bytes where
  "signature = [0x0D, 0x0A, 0x0D, 0x0A, 0x00, 0x0D, 0x0A, 0x51, 0x55, 0x49, 0x54, 0x0A]"

definition cmdLocal :: byte where "cmdLocal = 0x20"
definition cmdProxy :: byte where "cmdProxy = 0x21"
definition famTCP4 :: byte where "famTCP4 = 0x11"
definition famTCP6 :: byte where "famTCP6 = 0x21"

definition Header :: "addr_port \<Rightarrow> addr_port \<Rightarrow> bytes" where
  "Header src dst =
     (let s = Unmap (ap_addr src); d = Unmap (ap_addr dst)
      in signature @ [cmdProxy] @
         (if Is4 s \<and> Is4 d
          then [famTCP4] @ word_bytes (12 :: 16 word) @ AsSlice s @ AsSlice d
          else [famTCP6] @ word_bytes (36 :: 16 word) @ As16 s @ As16 d) @
         word_bytes (ap_port src) @ word_bytes (ap_port dst))"

datatype read_error = ReadEOF | ReadUnexpectedEOF | ErrNoHeader | ErrCommand byte | ErrFamily byte

text \<open>The four results of Read, and what is left of the reader.\<close>

record read_result =
  rr_src :: addr_port
  rr_dst :: addr_port
  rr_raw :: bytes
  rr_err :: "read_error option"
  rr_rest :: bytes

definition ReadFull :: "nat \<Rightarrow> bytes \<Rightarrow> (read_error + bytes) \<times> bytes" where
  "ReadFull n r =
     (if n \<le> length r then (Inr (take n r), drop n r)
      else if r = [] then (Inl ReadEOF, []) else (Inl ReadUnexpectedEOF, []))"

definition slice :: "bytes \<Rightarrow> nat \<Rightarrow> nat \<Rightarrow> bytes" where
  "slice b i j = take (j - i) (drop i b)"

definition result0 :: "bytes \<Rightarrow> read_error option \<Rightarrow> bytes \<Rightarrow> read_result" where
  "result0 raw err rest =
     \<lparr>rr_src = addr_port_zero, rr_dst = addr_port_zero, rr_raw = raw, rr_err = err, rr_rest = rest\<rparr>"

definition Read :: "bytes \<Rightarrow> read_result" where
  "Read r =
     (case ReadFull 16 r of
        (Inl e, r1) \<Rightarrow> result0 [] (Some e) r1
      | (Inr hdr, r1) \<Rightarrow>
          if take 12 hdr \<noteq> signature then result0 [] (Some ErrNoHeader) r1
          else
            (let n = unat (bytes_word (slice hdr 14 16) :: 16 word) in
             case ReadFull n r1 of
               (Inl e, r2) \<Rightarrow> result0 [] (Some e) r2
             | (Inr body, r2) \<Rightarrow>
                 (let raw = hdr @ body in
                  if hdr ! 12 = cmdLocal then result0 raw None r2
                  else if hdr ! 12 \<noteq> cmdProxy then result0 raw (Some (ErrCommand (hdr ! 12))) r2
                  else if hdr ! 13 = famTCP4 \<and> 12 \<le> n then
                    (result0 raw None r2)
                      \<lparr>rr_src := \<lparr>ap_addr = AddrFrom4 (slice body 0 4), ap_port = bytes_word (slice body 8 10)\<rparr>,
                       rr_dst := \<lparr>ap_addr = AddrFrom4 (slice body 4 8), ap_port = bytes_word (slice body 10 12)\<rparr>\<rparr>
                  else if hdr ! 13 = famTCP6 \<and> 36 \<le> n then
                    (result0 raw None r2)
                      \<lparr>rr_src := \<lparr>ap_addr = AddrFrom16 (slice body 0 16), ap_port = bytes_word (slice body 32 34)\<rparr>,
                       rr_dst := \<lparr>ap_addr = AddrFrom16 (slice body 16 32), ap_port = bytes_word (slice body 34 36)\<rparr>\<rparr>
                  else result0 raw (Some (ErrFamily (hdr ! 13))) r2)))"

section \<open>Lemmas\<close>

lemma length_signature [simp]: "length signature = 12"
  by (simp add: signature_def)

lemma result0_simps [simp]:
  "rr_src (result0 raw e r) = addr_port_zero" "rr_dst (result0 raw e r) = addr_port_zero"
  "rr_raw (result0 raw e r) = raw" "rr_err (result0 raw e r) = e" "rr_rest (result0 raw e r) = r"
  by (simp_all add: result0_def)

lemma ReadFull_Inr: "ReadFull n r = (Inr b, r') \<Longrightarrow> b @ r' = r \<and> length b = n"
  by (auto simp: ReadFull_def split: if_splits)

lemma ReadFull_append: "length b = n \<Longrightarrow> ReadFull n (b @ r) = (Inr b, r)"
  by (simp add: ReadFull_def)

lemma slice_append_left: "length a = i \<Longrightarrow> length b = j - i \<Longrightarrow> i \<le> j \<Longrightarrow> slice (a @ b @ c) i j = b"
  by (simp add: slice_def)

lemma slice_first: "length b = j \<Longrightarrow> slice (b @ c) 0 j = b"
  by (simp add: slice_def)

text \<open>Reading a header given as its parts: command, family, length and body.\<close>

lemma Read_parts:
  assumes "length len = 2" and "length body = unat (bytes_word len :: 16 word)"
  shows "Read (signature @ [cmd, fam] @ len @ body @ payload) =
    (let raw = signature @ [cmd, fam] @ len @ body; n = length body in
     if cmd = cmdLocal then result0 raw None payload
     else if cmd \<noteq> cmdProxy then result0 raw (Some (ErrCommand cmd)) payload
     else if fam = famTCP4 \<and> 12 \<le> n then
       (result0 raw None payload)
         \<lparr>rr_src := \<lparr>ap_addr = AddrFrom4 (slice body 0 4), ap_port = bytes_word (slice body 8 10)\<rparr>,
          rr_dst := \<lparr>ap_addr = AddrFrom4 (slice body 4 8), ap_port = bytes_word (slice body 10 12)\<rparr>\<rparr>
     else if fam = famTCP6 \<and> 36 \<le> n then
       (result0 raw None payload)
         \<lparr>rr_src := \<lparr>ap_addr = AddrFrom16 (slice body 0 16), ap_port = bytes_word (slice body 32 34)\<rparr>,
          rr_dst := \<lparr>ap_addr = AddrFrom16 (slice body 16 32), ap_port = bytes_word (slice body 34 36)\<rparr>\<rparr>
     else result0 raw (Some (ErrFamily fam)) payload)"
proof -
  let ?hdr = "signature @ [cmd, fam] @ len"
  have full: "ReadFull 16 (signature @ [cmd, fam] @ len @ body @ payload) = (Inr ?hdr, body @ payload)"
    using ReadFull_append [of ?hdr 16 "body @ payload"] assms(1) by simp
  have hdr: "take 12 ?hdr = signature" "slice ?hdr 14 16 = len" "?hdr ! 12 = cmd" "?hdr ! 13 = fam"
    using assms(1) by (simp_all add: slice_def nth_append)
  show ?thesis
    unfolding Read_def full prod.case sum.case hdr Let_def ReadFull_append [OF assms(2)]
    by (simp add: hdr assms(2))
qed

text \<open>A source or destination after the round trip.\<close>

definition carried :: "bool \<Rightarrow> addr \<Rightarrow> addr" where
  "carried v4 a = (if v4 then Unmap a else AddrFrom16 (As16 (Unmap a)))"

lemma Is4_AsSlice: "Is4 a \<Longrightarrow> length (AsSlice a) = 4 \<and> AddrFrom4 (AsSlice a) = a"
  by (cases a) (simp_all add: AddrFrom4_def)

lemma Unmap_carried:
  assumes "v4 \<longrightarrow> Is4 (Unmap a)" and "a \<noteq> AddrZero"
  shows "Unmap (carried v4 a) = strip_zone (Unmap a)"
proof (cases "Unmap a")
  case AddrZero
  with assms(2) show ?thesis by (cases a) (auto split: if_splits)
next
  case (Addr4 w)
  then have "Unmap (AddrFrom16 (As16 (Unmap a))) = Addr4 w"
    using Unmap_AddrFrom16_As16_v4 [of w] by simp
  with Addr4 show ?thesis by (simp add: carried_def)
next
  case (Addr6 w z)
  moreover from this have "\<not> Is4In6 (Addr6 w [])" using Unmap_not_mapped [of a] by simp
  ultimately show ?thesis using assms(1) by (simp add: carried_def AddrFrom16_def)
qed

lemma Read_Header:
  fixes src dst :: addr_port and payload :: bytes
  defines "v4 \<equiv> Is4 (Unmap (ap_addr src)) \<and> Is4 (Unmap (ap_addr dst))"
  shows "Read (Header src dst @ payload) =
    \<lparr>rr_src = \<lparr>ap_addr = carried v4 (ap_addr src), ap_port = ap_port src\<rparr>,
     rr_dst = \<lparr>ap_addr = carried v4 (ap_addr dst), ap_port = ap_port dst\<rparr>,
     rr_raw = Header src dst, rr_err = None, rr_rest = payload\<rparr>"
proof (cases v4)
  case True
  define s d where "s = AsSlice (Unmap (ap_addr src))" and "d = AsSlice (Unmap (ap_addr dst))"
  have sd: "length s = 4" "length d = 4" "AddrFrom4 s = Unmap (ap_addr src)" "AddrFrom4 d = Unmap (ap_addr dst)"
    using True Is4_AsSlice by (simp_all add: v4_def s_def d_def)
  let ?body = "s @ d @ word_bytes (ap_port src) @ word_bytes (ap_port dst)"
  have body: "slice ?body 0 4 = s" "slice ?body 4 8 = d" "slice ?body 8 10 = word_bytes (ap_port src)"
    "slice ?body 10 12 = word_bytes (ap_port dst)" "length ?body = 12"
    using sd by (simp_all add: slice_def)
  have hdr: "Header src dst = signature @ [cmdProxy, famTCP4] @ word_bytes (12 :: 16 word) @ ?body"
    using True by (simp add: Header_def v4_def s_def d_def)
  have ne: "cmdProxy \<noteq> cmdLocal" by (simp add: cmdProxy_def cmdLocal_def)
  have "Read (signature @ [cmdProxy, famTCP4] @ word_bytes (12 :: 16 word) @ ?body @ payload) =
      (result0 (Header src dst) None payload)
        \<lparr>rr_src := \<lparr>ap_addr = AddrFrom4 s, ap_port = ap_port src\<rparr>,
         rr_dst := \<lparr>ap_addr = AddrFrom4 d, ap_port = ap_port dst\<rparr>\<rparr>"
    using ne by (subst Read_parts) (simp_all only: body Let_def hdr, simp_all)
  then show ?thesis using True by (simp add: hdr carried_def sd result0_def)
next
  case False
  define s d where "s = As16 (Unmap (ap_addr src))" and "d = As16 (Unmap (ap_addr dst))"
  have sd: "length s = 16" "length d = 16" by (simp_all add: s_def d_def)
  let ?body = "s @ d @ word_bytes (ap_port src) @ word_bytes (ap_port dst)"
  have body: "slice ?body 0 16 = s" "slice ?body 16 32 = d" "slice ?body 32 34 = word_bytes (ap_port src)"
    "slice ?body 34 36 = word_bytes (ap_port dst)" "length ?body = 36"
    using sd by (simp_all add: slice_def)
  have hdr: "Header src dst = signature @ [cmdProxy, famTCP6] @ word_bytes (36 :: 16 word) @ ?body"
    using False by (auto simp: Header_def v4_def s_def d_def)
  have ne: "cmdProxy \<noteq> cmdLocal" "famTCP6 \<noteq> famTCP4"
    by (simp_all add: cmdProxy_def cmdLocal_def famTCP6_def famTCP4_def)
  have "Read (signature @ [cmdProxy, famTCP6] @ word_bytes (36 :: 16 word) @ ?body @ payload) =
      (result0 (Header src dst) None payload)
        \<lparr>rr_src := \<lparr>ap_addr = AddrFrom16 s, ap_port = ap_port src\<rparr>,
         rr_dst := \<lparr>ap_addr = AddrFrom16 d, ap_port = ap_port dst\<rparr>\<rparr>"
    using ne by (subst Read_parts) (simp_all only: body Let_def hdr, simp_all)
  then show ?thesis using False by (simp add: hdr carried_def s_def d_def result0_def)
qed

section \<open>Properties\<close>

text \<open>
  C22: What the node writes the agent reads: for every pair of valid addresses, families mixed
  or not, mapped IPv4 or not, Read on the header followed by any payload succeeds, leaves
  exactly the payload, returns the header's own bytes for forwarding, the two ports, and the
  two addresses unmapped and without their zone.
\<close>
theorem Header_Read_roundtrip:
  assumes "ap_addr src \<noteq> AddrZero" and "ap_addr dst \<noteq> AddrZero"
    and "r = Read (Header src dst @ payload)"
  shows "rr_err r = None \<and> rr_rest r = payload \<and> rr_raw r = Header src dst \<and>
         ap_port (rr_src r) = ap_port src \<and> ap_port (rr_dst r) = ap_port dst \<and>
         Unmap (ap_addr (rr_src r)) = strip_zone (Unmap (ap_addr src)) \<and>
         Unmap (ap_addr (rr_dst r)) = strip_zone (Unmap (ap_addr dst))"
  using assms(1,2) by (simp add: assms(3) Read_Header Unmap_carried)

theorem Header_Read_roundtrip_witness:
  "rr_err (Read (Header \<lparr>ap_addr = Addr4 3405803783, ap_port = 51234\<rparr> \<lparr>ap_addr = Addr6 1 [], ap_port = 443\<rparr> @ [1])) = None"
  using Header_Read_roundtrip [of "\<lparr>ap_addr = Addr4 3405803783, ap_port = 51234\<rparr>" "\<lparr>ap_addr = Addr6 1 [], ap_port = 443\<rparr>", OF _ _ refl, of "[1]"]
  by simp

text \<open>
  Whatever a peer sends, Read takes the header and nothing else: when it reports no error,
  the raw header it returns followed by the rest of the stream is the stream, the raw header
  starts with the signature and is at least 16 and at most 65551 bytes long.
\<close>
theorem Read_consumes_header:
  assumes "rr_err (Read r) = None"
  shows "rr_raw (Read r) @ rr_rest (Read r) = r \<and> take 12 (rr_raw (Read r)) = signature \<and>
         16 \<le> length (rr_raw (Read r)) \<and> length (rr_raw (Read r)) \<le> 16 + 65535"
proof -
  obtain x r1 where f1: "ReadFull 16 r = (x, r1)" by fastforce
  with assms obtain hdr where x: "x = Inr hdr" by (cases x) (auto simp: Read_def)
  define n where "n = unat (bytes_word (slice hdr 14 16) :: 16 word)"
  from assms f1 x have sig: "take 12 hdr = signature"
    by (auto simp: Read_def split: if_splits)
  obtain y r2 where f2: "ReadFull n r1 = (y, r2)" by fastforce
  with assms f1 x sig obtain body where y: "y = Inr body"
    by (cases y) (auto simp: Read_def n_def [symmetric])
  have "rr_raw (Read r) = hdr @ body" "rr_rest (Read r) = r2"
    using f1 f2 x y sig by (simp_all add: Read_def n_def [symmetric] Let_def result0_def)
  moreover have "hdr @ r1 = r" "length hdr = 16" "body @ r2 = r1" "length body = n"
    using ReadFull_Inr f1 f2 x y by blast+
  moreover have "n < 2 ^ LENGTH(16)" unfolding n_def by (rule unsigned_less)
  then have "n \<le> 65535" by simp
  ultimately show ?thesis using sig by auto
qed

theorem Read_consumes_header_witness:
  "rr_raw (Read (signature @ [0x20, 0, 0, 1, 9, 7])) @ rr_rest (Read (signature @ [0x20, 0, 0, 1, 9, 7])) =
     signature @ [0x20, 0, 0, 1, 9, 7]"
proof -
  have len: "bytes_word [0, 1] = (1 :: 16 word)" by (simp add: bytes_word_def)
  have "rr_err (Read (signature @ [0x20, 0] @ [0, 1] @ [9] @ [7])) = None"
    by (subst Read_parts) (simp_all add: len cmdLocal_def Let_def)
  then have "rr_err (Read (signature @ [0x20, 0, 0, 1, 9, 7])) = None" by simp
  from Read_consumes_header [OF this] show ?thesis by blast
qed

end
