(* ===== verification/Wg_Net.thy ===== *)
theory Wg_Net
  imports Net_Addr Digest
begin

text \<open>
  internal/wgnet: WireGuard keys, the reconciliation of the peer set with the device
  (SetPeers), the handshake report and endpoint resolution.  The userspace device
  (wireguard-go) is an argument: its IpcSet maps a list of protocol lines and a device to a
  new device, or fails.  What its documentation promises about those lines is uapi_effect.
\<close>

section \<open>Keys\<close>

text \<open>A Key is its 32 bytes.\<close>

type_synonym Key = bytes

definition clamp :: "Key \<Rightarrow> Key" where
  "clamp k = k[0 := k ! 0 AND 248, 31 := (k[0 := k ! 0 AND 248] ! 31 AND 127) OR 64]"

definition KeyFromSeed :: "bytes \<Rightarrow> Key" where
  "KeyFromSeed seed = clamp seed"

text \<open>GenerateKey over the bytes of crypto/rand, and Public over X25519; None is their panic.\<close>

definition GenerateKey :: "bytes option \<Rightarrow> Key option" where
  "GenerateKey rnd = map_option clamp rnd"

definition Basepoint :: bytes where
  "Basepoint = 9 # replicate 31 0"

definition Key_Public :: "(bytes \<Rightarrow> bytes \<Rightarrow> bytes option) \<Rightarrow> Key \<Rightarrow> Key option" where
  "Key_Public x25519 k = x25519 k Basepoint"

definition Key_String :: "Key \<Rightarrow> string" where
  "Key_String k = b64_encode k"

definition Key_hex :: "Key \<Rightarrow> string" where
  "Key_hex k = hex_encode k"

definition ParseKey :: "string \<Rightarrow> Key option" where
  "ParseKey s = (case b64_decode s of None \<Rightarrow> None | Some b \<Rightarrow> if length b \<noteq> 32 then None else Some b)"

lemma ParseKey_String: "length k = 32 \<Longrightarrow> ParseKey (Key_String k) = Some k"
  by (simp add: ParseKey_def Key_String_def b64_decode_encode)

lemma ParseKey_length: "ParseKey s = Some k \<Longrightarrow> length k = 32"
  by (auto simp: ParseKey_def split: option.splits if_splits)

lemma length_clamp [simp]: "length (clamp k) = length k"
  by (simp add: clamp_def)

section \<open>SetPeers\<close>

type_synonym prefix = "addr \<times> nat"

text \<open>netip.PrefixFrom drops the zone of the address.\<close>

definition PrefixFrom :: "addr \<Rightarrow> nat \<Rightarrow> prefix" where
  "PrefixFrom a n = (strip_zone a, n)"

record Peer =
  peer_key :: Key
  peer_allowed :: prefix
  peer_endpoint :: addr_port
  peer_keepalive :: int

text \<open>The lines of the device protocol that SetPeers writes.\<close>

datatype ipc_line =
    IpcPublicKey Key | IpcRemove | IpcReplaceAllowedIPs | IpcAllowedIP prefix
  | IpcKeepalive int | IpcEndpoint addr_port

record 'dev Net =
  net_dev :: 'dev
  net_peers :: "Key \<rightharpoonup> Peer"

definition want_of :: "Peer list \<Rightarrow> Key \<rightharpoonup> Peer" where
  "want_of peers = foldl (\<lambda>m p. m(peer_key p \<mapsto> p)) Map.empty peers"

text \<open>
  The text SetPeers builds.  Go ranges over a map in any order, so the two orders (of the
  peers known so far and of the peers wanted) are arguments.
\<close>

definition peer_lines :: "Key \<Rightarrow> Peer \<Rightarrow> ipc_line list" where
  "peer_lines k p =
     [IpcPublicKey k, IpcReplaceAllowedIPs, IpcAllowedIP (peer_allowed p), IpcKeepalive (peer_keepalive p)] @
     (if ap_addr (peer_endpoint p) \<noteq> AddrZero then [IpcEndpoint (peer_endpoint p)] else [])"

definition remove_lines :: "(Key \<rightharpoonup> Peer) \<Rightarrow> Key \<Rightarrow> ipc_line list" where
  "remove_lines want k = (if want k = None then [IpcPublicKey k, IpcRemove] else [])"

definition update_lines :: "(Key \<rightharpoonup> Peer) \<Rightarrow> (Key \<rightharpoonup> Peer) \<Rightarrow> Key \<Rightarrow> ipc_line list" where
  "update_lines old want k =
     (case want k of None \<Rightarrow> [] | Some p \<Rightarrow> if old k = Some p then [] else peer_lines k p)"

definition set_peers_lines :: "Key list \<Rightarrow> Key list \<Rightarrow> (Key \<rightharpoonup> Peer) \<Rightarrow> (Key \<rightharpoonup> Peer) \<Rightarrow> ipc_line list" where
  "set_peers_lines oldOrder wantOrder old want =
     concat (map (remove_lines want) oldOrder) @ concat (map (update_lines old want) wantOrder)"

text \<open>SetPeers: True when it returns no error.\<close>

definition SetPeers ::
  "(ipc_line list \<Rightarrow> 'dev \<Rightarrow> 'dev option) \<Rightarrow> Key list \<Rightarrow> Key list \<Rightarrow> Peer list \<Rightarrow> 'dev Net \<Rightarrow> bool \<times> 'dev Net" where
  "SetPeers ipcSet oldOrder wantOrder peers n =
     (let want = want_of peers;
          b = set_peers_lines oldOrder wantOrder (net_peers n) want
      in if b = [] then (True, n)
         else case ipcSet b (net_dev n) of
                None \<Rightarrow> (False, n)
              | Some dev \<Rightarrow> (True, n\<lparr>net_dev := dev, net_peers := want\<rparr>))"

section \<open>What the device protocol promises\<close>

text \<open>
  The configuration protocol as WireGuard documents it: public_key selects a peer and creates
  it if it is new; remove deletes the selected peer; replace_allowed_ips empties its allowed
  addresses; allowed_ip adds one, taking it from any peer that had it; the other lines set a
  field.
\<close>

record dev_peer =
  dp_allowed :: "prefix set"
  dp_keepalive :: int
  dp_endpoint :: "addr_port option"

type_synonym dev_view = "Key \<rightharpoonup> dev_peer"

definition new_peer :: dev_peer where
  "new_peer = \<lparr>dp_allowed = {}, dp_keepalive = 0, dp_endpoint = None\<rparr>"

fun uapi_line :: "ipc_line \<Rightarrow> Key \<times> dev_view \<Rightarrow> Key \<times> dev_view" where
  "uapi_line (IpcPublicKey k) (_, v) = (k, case v k of None \<Rightarrow> v(k \<mapsto> new_peer) | Some _ \<Rightarrow> v)"
| "uapi_line IpcRemove (k, v) = (k, v(k := None))"
| "uapi_line IpcReplaceAllowedIPs (k, v) = (k, v(k := map_option (dp_allowed_update (\<lambda>_. {})) (v k)))"
| "uapi_line (IpcAllowedIP q) (k, v) =
     (k, \<lambda>j. map_option (dp_allowed_update (\<lambda>s. if j = k then insert q s else s - {q})) (v j))"
| "uapi_line (IpcKeepalive n) (k, v) = (k, v(k := map_option (dp_keepalive_update (\<lambda>_. n)) (v k)))"
| "uapi_line (IpcEndpoint e) (k, v) = (k, v(k := map_option (dp_endpoint_update (\<lambda>_. Some e)) (v k)))"

definition uapi_effect :: "ipc_line list \<Rightarrow> dev_view \<Rightarrow> dev_view" where
  "uapi_effect ls v = snd (fold uapi_line ls ([], v))"

text \<open>A device whose IpcSet, when it succeeds, does what the protocol says.\<close>

definition wg_device :: "(ipc_line list \<Rightarrow> 'dev \<Rightarrow> 'dev option) \<Rightarrow> ('dev \<Rightarrow> dev_view) \<Rightarrow> bool" where
  "wg_device ipcSet view \<longleftrightarrow> (\<forall>ls d d'. ipcSet ls d = Some d' \<longrightarrow> view d' = uapi_effect ls (view d))"

text \<open>The device holds exactly the peers of a map, each with its own address only.\<close>

definition holds :: "dev_view \<Rightarrow> Key \<Rightarrow> Peer \<Rightarrow> bool" where
  "holds v k p \<longleftrightarrow> (\<exists>dp. v k = Some dp \<and> dp_allowed dp = {peer_allowed p} \<and> dp_keepalive dp = peer_keepalive p \<and>
     (ap_addr (peer_endpoint p) \<noteq> AddrZero \<longrightarrow> dp_endpoint dp = Some (peer_endpoint p)))"

definition configured :: "dev_view \<Rightarrow> (Key \<rightharpoonup> Peer) \<Rightarrow> bool" where
  "configured v m \<longleftrightarrow> dom v = dom m \<and> (\<forall>k p. m k = Some p \<longrightarrow> holds v k p)"

definition distinct_allowed :: "(Key \<rightharpoonup> Peer) \<Rightarrow> bool" where
  "distinct_allowed m \<longleftrightarrow>
     (\<forall>k j p q. m k = Some p \<longrightarrow> m j = Some q \<longrightarrow> peer_allowed p = peer_allowed q \<longrightarrow> k = j)"

text \<open>The effect of one peer's lines on every peer of the device.\<close>

lemma uapi_effect_Nil [simp]: "uapi_effect [] v = v"
  by (simp add: uapi_effect_def)

text \<open>Blocks that begin by selecting their peer do not depend on the peer selected before.\<close>

definition selects :: "ipc_line list \<Rightarrow> bool" where
  "selects ls \<longleftrightarrow> ls = [] \<or> (\<exists>k rest. ls = IpcPublicKey k # rest)"

lemma fold_selects: "selects ls \<Longrightarrow> snd (fold uapi_line ls (c, v)) = snd (fold uapi_line ls (c', v))"
  by (auto simp: selects_def)

lemma uapi_effect_append:
  assumes "selects bs"
  shows "uapi_effect (as @ bs) v = uapi_effect bs (uapi_effect as v)"
proof -
  obtain c w where "fold uapi_line as ([], v) = (c, w)" by fastforce
  then show ?thesis using fold_selects [OF assms] by (auto simp: uapi_effect_def)
qed

lemma selects_append: "selects as \<Longrightarrow> selects bs \<Longrightarrow> selects (as @ bs)"
  by (auto simp: selects_def)

lemma selects_blocks: "(\<And>k. k \<in> set ks \<Longrightarrow> selects (f k)) \<Longrightarrow> selects (concat (map f ks))"
proof (induction ks)
  case Nil
  show ?case by (simp add: selects_def)
next
  case (Cons k ks)
  then show ?case by (simp add: selects_append)
qed

lemma selects_lines [simp]:
  "selects (remove_lines want k)" "selects (update_lines old want k)"
  by (auto simp: selects_def remove_lines_def update_lines_def peer_lines_def split: option.splits)

lemma uapi_blocks:
  assumes "\<And>k. selects (f k)"
  shows "uapi_effect (concat (map f ks)) v = fold (\<lambda>k. uapi_effect (f k)) ks v"
proof (induction ks arbitrary: v)
  case (Cons k ks)
  show ?case
    using uapi_effect_append [of "concat (map f ks)" "f k" v] selects_blocks [of ks f] assms Cons.IH
    by simp
qed simp

lemma remove_effect:
  "uapi_effect (remove_lines want k) v = (if want k = None then v(k := None) else v)"
  by (auto simp: remove_lines_def uapi_effect_def fun_eq_iff split: option.splits)

lemma peer_effect_self: "holds (uapi_effect (peer_lines k p) v) k p"
  by (simp add: holds_def peer_lines_def uapi_effect_def new_peer_def split: option.splits)

lemma peer_effect_other:
  "j \<noteq> k \<Longrightarrow> uapi_effect (peer_lines k p) v j =
     map_option (dp_allowed_update (\<lambda>s. s - {peer_allowed p})) (v j)"
  by (simp add: peer_lines_def uapi_effect_def split: option.splits)

lemma holds_other:
  assumes "holds v j q" and "j \<noteq> k" and "peer_allowed q \<noteq> peer_allowed p"
  shows "holds (uapi_effect (peer_lines k p) v) j q"
  using assms by (auto simp: holds_def peer_effect_other)

text \<open>The first half removes the peers no longer wanted and leaves the others alone.\<close>

lemma removes_effect:
  "fold (\<lambda>k. uapi_effect (remove_lines want k)) ks v j =
     (if j \<in> set ks \<and> want j = None then None else v j)"
  by (induction ks arbitrary: v) (auto simp: remove_effect)

text \<open>
  The second half, in any order: the peers already treated or unchanged are in place, and
  each step puts one more in place without disturbing them.
\<close>

lemma updates_effect:
  assumes "distinct_allowed want" and "set ks \<subseteq> dom want" and "dom v \<subseteq> dom want"
    and "\<And>k p. want k = Some p \<Longrightarrow> k \<notin> set ks \<or> old k = Some p \<Longrightarrow> holds v k p"
  shows "configured (fold (\<lambda>k. uapi_effect (update_lines old want k)) ks v) want"
  using assms(2-4)
proof (induction ks arbitrary: v)
  case Nil
  then have "holds v k p" if "want k = Some p" for k p using that by auto
  moreover from this Nil.prems(2) have "dom v = dom want" by (fastforce simp: holds_def)
  ultimately show ?case by (simp add: configured_def)
next
  case (Cons k ks)
  from Cons.prems(1) obtain p where p: "want k = Some p" by auto
  define w where "w = uapi_effect (update_lines old want k) v"
  have w: "w = (if old k = Some p then v else uapi_effect (peer_lines k p) v)"
    by (simp add: w_def update_lines_def p)
  have "dom w \<subseteq> dom want"
  proof
    fix j assume j: "j \<in> dom w"
    show "j \<in> dom want"
    proof (cases "j = k")
      case False
      with j have "j \<in> dom v" by (auto simp: w peer_effect_other split: if_splits)
      with Cons.prems(2) show ?thesis by blast
    qed (use p in auto)
  qed
  moreover have "holds w j q" if q: "want j = Some q" and j: "j \<notin> set ks \<or> old j = Some q" for j q
  proof (cases "j = k")
    case True
    with p q Cons.prems(3) [OF q] show ?thesis by (auto simp: w peer_effect_self)
  next
    case False
    then have "peer_allowed q \<noteq> peer_allowed p"
      using assms(1) p q unfolding distinct_allowed_def by blast
    moreover have "holds v j q" using Cons.prems(3) [OF q] j False by auto
    ultimately show ?thesis using False by (auto simp: w holds_other)
  qed
  ultimately have "configured (fold (\<lambda>k. uapi_effect (update_lines old want k)) ks w) want"
    using Cons.IH Cons.prems(1) by auto
  then show ?case by (simp add: w_def)
qed

lemma set_peers_effect:
  assumes conf: "configured v old" and orders: "set oldOrder = dom old" "set wantOrder = dom want"
    and dist: "distinct_allowed want"
  shows "configured (uapi_effect (set_peers_lines oldOrder wantOrder old want) v) want"
proof -
  define u where "u = uapi_effect (concat (map (remove_lines want) oldOrder)) v"
  have u: "u j = (if want j = None then None else v j)" for j
    using conf orders(1) by (auto simp: u_def uapi_blocks removes_effect configured_def)
  have "dom u \<subseteq> dom want" by (auto simp: u split: if_splits)
  moreover have "holds u k p" if "want k = Some p" "k \<notin> set wantOrder \<or> old k = Some p" for k p
    using that conf orders(2) by (auto simp: holds_def u configured_def)
  ultimately have "configured (fold (\<lambda>k. uapi_effect (update_lines old want k)) wantOrder u) want"
    using updates_effect [OF dist] orders(2) by auto
  then show ?thesis
    by (simp add: set_peers_lines_def uapi_effect_append selects_blocks uapi_blocks u_def)
qed

lemma set_peers_Nil:
  assumes "set_peers_lines oldOrder wantOrder old want = []"
    and "set oldOrder = dom old" "set wantOrder = dom want"
  shows "want = old"
proof
  fix k
  show "want k = old k"
  proof (cases "want k")
    case None
    have "old k = None"
    proof (rule ccontr)
      assume "old k \<noteq> None"
      then have "k \<in> set oldOrder" using assms(2) by auto
      then have "remove_lines want k = []" using assms(1) by (simp add: set_peers_lines_def)
      with None show False by (simp add: remove_lines_def)
    qed
    with None show ?thesis by simp
  next
    case (Some p)
    then have "k \<in> set wantOrder" using assms(3) by auto
    then have "update_lines old want k = []"
      using assms(1) by (simp add: set_peers_lines_def)
    with Some show ?thesis
      by (auto simp: update_lines_def peer_lines_def split: if_splits)
  qed
qed

section \<open>LastHandshakes\<close>

text \<open>hex.DecodeString with its error ignored: the bytes of the valid pairs at the front.\<close>

fun hex_decode :: "string \<Rightarrow> bytes" where
  "hex_decode (a # b # s) =
     (case (hex_val a, hex_val b) of
        (Some x, Some y) \<Rightarrow> of_nat (16 * x + y) # hex_decode s
      | _ \<Rightarrow> [])"
| "hex_decode _ = []"

text \<open>strconv.ParseInt in base 10 to 64 bits with its error ignored: 0, or the nearest bound.\<close>

definition parse_int64 :: "string \<Rightarrow> int" where
  "parse_int64 s =
     (let neg = (s \<noteq> [] \<and> hd s = CHR ''-'');
          ds = (if s \<noteq> [] \<and> (hd s = CHR ''-'' \<or> hd s = CHR ''+'') then tl s else s)
      in if ds = [] \<or> \<not> list_all is_digit ds then 0
         else let n = foldl (\<lambda>n c. 10 * n + int (digit_val c)) 0 ds
              in if neg then max (- n) (- (2 ^ 63)) else min n (2 ^ 63 - 1))"

text \<open>copy into the 32 bytes of a key.\<close>

definition copy_into :: "bytes \<Rightarrow> bytes \<Rightarrow> bytes" where
  "copy_into cur b = take (length cur) b @ drop (length b) cur"

definition handshake_line :: "string \<Rightarrow> Key \<times> (Key \<rightharpoonup> int) \<Rightarrow> Key \<times> (Key \<rightharpoonup> int)" where
  "handshake_line line st =
     (case st of (cur, out) \<Rightarrow>
       (let (k, v) = (case cut line CHR ''='' of None \<Rightarrow> (line, []) | Some kv \<Rightarrow> kv) in
        if k = ''public_key'' then (copy_into cur (hex_decode v), out)
        else if k = ''last_handshake_time_sec'' then
          (let sec = parse_int64 v in (cur, if 0 < sec then out(cur \<mapsto> sec) else out))
        else (cur, out)))"

text \<open>The argument is the text of IpcGet by lines, or None when it fails; instants in seconds.\<close>

definition LastHandshakes :: "string list option \<Rightarrow> Key \<rightharpoonup> int" where
  "LastHandshakes txt =
     (case txt of None \<Rightarrow> Map.empty | Some ls \<Rightarrow> snd (fold handshake_line ls (replicate 32 0, Map.empty)))"

lemma hex_val_digit [simp]: "n < 16 \<Longrightarrow> hex_val (hex_digit n) = Some n"
proof -
  have "\<forall>n\<in>{0..<16}. hex_val (hex_digit n) = Some n" by code_simp
  then show "n < 16 \<Longrightarrow> hex_val (hex_digit n) = Some n" by simp
qed

lemma hex_decode_encode: "hex_decode (hex_encode b) = b"
proof (induction b)
  case (Cons x b)
  have "hex_val (hex_digit (unat x div 16)) = Some (unat x div 16)"
    using unat_byte_less [of x] by (intro hex_val_digit) simp
  moreover have "hex_val (hex_digit (unat x mod 16)) = Some (unat x mod 16)"
    by (intro hex_val_digit) simp
  moreover have "(of_nat (16 * (unat x div 16) + unat x mod 16) :: byte) = x" by simp
  ultimately show ?case using Cons.IH by (simp add: hex_encode_def)
qed (simp add: hex_encode_def)

section \<open>ResolveEndpoint\<close>

datatype resolve_error = ResolveAddr | ResolvePort | ResolveLookup | ResolvePanic

text \<open>lookup is the system resolver; an empty answer without error would panic on ips[0].\<close>

definition ResolveEndpoint :: "(string \<Rightarrow> addr list option) \<Rightarrow> string \<Rightarrow> resolve_error + addr_port" where
  "ResolveEndpoint lookup hostport =
     (case SplitHostPort hostport of
        None \<Rightarrow> Inl ResolveAddr
      | Some (host, port) \<Rightarrow>
          (case ParseUint 16 port of
             None \<Rightarrow> Inl ResolvePort
           | Some p \<Rightarrow>
               (case lookup host of
                  None \<Rightarrow> Inl ResolveLookup
                | Some [] \<Rightarrow> Inl ResolvePanic
                | Some (ip0 # ips) \<Rightarrow>
                    (let best = (case find (\<lambda>ip. Is4 (Unmap ip)) (ip0 # ips) of Some ip \<Rightarrow> ip | None \<Rightarrow> ip0)
                     in Inr \<lparr>ap_addr = Unmap best, ap_port = of_nat p\<rparr>))))"

section \<open>Properties\<close>

text \<open>
  The text of a key reads back as the key, but the text is not the only one that does:
  every key has another spelling that ParseKey accepts for it.  (The table of leases keeps the
  spelling it is sent and only spellings are unique there.)
\<close>
theorem ParseKey_roundtrip_not_canonical:
  assumes "length k = 32"
  shows "ParseKey (Key_String k) = Some k \<and> (\<exists>s. s \<noteq> Key_String k \<and> ParseKey s = Some k)"
proof -
  have "b64_decode (Key_String k @ [CHR 0x0A]) = b64_decode (Key_String k)"
    by (simp add: b64_decode_def)
  then have "ParseKey (Key_String k @ [CHR 0x0A]) = ParseKey (Key_String k)"
    by (simp add: ParseKey_def)
  moreover have "Key_String k @ [CHR 0x0A] \<noteq> Key_String k" by simp
  ultimately show ?thesis using ParseKey_String [OF assms] by metis
qed

theorem ParseKey_roundtrip_not_canonical_witness:
  "ParseKey (Key_String (replicate 32 5)) = Some (replicate 32 5)"
  using ParseKey_roundtrip_not_canonical [of "replicate 32 5"] by simp

lemma SetPeers_effect:
  assumes "wg_device ipcSet view"
    and "configured (view (net_dev n)) (net_peers n)"
    and "set oldOrder = dom (net_peers n)" and "set wantOrder = dom (want_of peers)"
    and "distinct_allowed (want_of peers)"
    and "SetPeers ipcSet oldOrder wantOrder peers n = (ok, n')"
  shows "if ok then configured (view (net_dev n')) (want_of peers) \<and> net_peers n' = want_of peers
         else n' = n"
proof (cases "set_peers_lines oldOrder wantOrder (net_peers n) (want_of peers) = []")
  case True
  from set_peers_Nil [OF True assms(3,4)] assms(2,6) True show ?thesis
    by (simp add: SetPeers_def)
next
  case False
  show ?thesis
  proof (cases "ipcSet (set_peers_lines oldOrder wantOrder (net_peers n) (want_of peers)) (net_dev n)")
    case None
    with False assms(6) show ?thesis by (auto simp: SetPeers_def)
  next
    case (Some dev)
    with assms(1) have "view dev =
        uapi_effect (set_peers_lines oldOrder wantOrder (net_peers n) (want_of peers)) (view (net_dev n))"
      unfolding wg_device_def by blast
    with set_peers_effect [OF assms(2-5)] False Some assms(6) show ?thesis
      by (auto simp: SetPeers_def)
  qed
qed

text \<open>
  SetPeers installs the wanted peer set by differences alone.  If the device holds exactly
  the peers of the last call, no two wanted peers share an allowed address, and the device
  follows its documented protocol, then a call that returns no error leaves the device
  holding exactly the wanted peers, each with its own address, keepalive and endpoint, in
  whatever order Go enumerates its maps; a failing call leaves the record of the peers as it was.
\<close>
theorem SetPeers_installs:
  assumes "wg_device ipcSet view"
    and "configured (view (net_dev n)) (net_peers n)"
    and "set oldOrder = dom (net_peers n)" and "set wantOrder = dom (want_of peers)"
    and "distinct_allowed (want_of peers)"
    and "SetPeers ipcSet oldOrder wantOrder peers n = (ok, n')"
  shows "if ok then configured (view (net_dev n')) (want_of peers) \<and> net_peers n' = want_of peers
         else n' = n"
  using assms by (rule SetPeers_effect)

theorem SetPeers_installs_witness:
  "\<exists>n' :: dev_view Net. configured (net_dev n')
     (want_of [\<lparr>peer_key = [1], peer_allowed = (Addr4 7, 32), peer_endpoint = addr_port_zero, peer_keepalive = 0\<rparr>])"
proof -
  let ?p = "\<lparr>peer_key = [1], peer_allowed = (Addr4 7, 32), peer_endpoint = addr_port_zero, peer_keepalive = 0\<rparr>"
  let ?n = "\<lparr>net_dev = Map.empty, net_peers = Map.empty\<rparr> :: dev_view Net"
  let ?ipc = "\<lambda>ls v. Some (uapi_effect ls v)"
  obtain n' where s: "SetPeers ?ipc [] [[1]] [?p] ?n = (True, n')"
    by (simp add: SetPeers_def set_peers_lines_def want_of_def update_lines_def peer_lines_def)
  have d: "wg_device ?ipc (\<lambda>v. v)" by (simp add: wg_device_def)
  have c: "configured (net_dev ?n) (net_peers ?n)" by (simp add: configured_def)
  have o: "set [] = dom (net_peers ?n)" "set [[1]] = dom (want_of [?p])" by (simp_all add: want_of_def)
  have a: "distinct_allowed (want_of [?p])" by (simp add: distinct_allowed_def want_of_def)
  from SetPeers_installs [OF d c o a s] show ?thesis by auto
qed

text \<open>
  KeyFromSeed always yields a clamped Curve25519 scalar: the low three bits and the top
  bit are clear, bit 254 is set, the other 30 bytes are those of the seed, and clamping again
  changes nothing.
\<close>
theorem KeyFromSeed_clamped:
  assumes "length seed = 32"
  shows "KeyFromSeed seed ! 0 AND 7 = 0 \<and> KeyFromSeed seed ! 31 AND 0xC0 = 0x40 \<and>
         (\<forall>i\<in>{1..<31}. KeyFromSeed seed ! i = seed ! i) \<and> clamp (KeyFromSeed seed) = KeyFromSeed seed"
proof -
  have k: "clamp k ! 0 = k ! 0 AND 248" "clamp k ! 31 = (k ! 31 AND 127) OR 64" if "length k = 32" for k
    using that by (simp_all add: clamp_def)
  have a: "(x AND 248) AND 7 = 0" "((x AND 127) OR 64) AND 0xC0 = 0x40"
    "(x AND 248) AND 248 = x AND 248" "(((x AND 127) OR 64) AND 127) OR 64 = (x AND 127) OR 64" for x :: byte
    by (simp_all add: and.assoc or.assoc word_ao_dist)
  have "clamp (clamp seed) = clamp seed"
    using assms k by (intro nth_equalityI) (auto simp: clamp_def nth_list_update a)
  moreover have "\<forall>i\<in>{1..<31}. clamp seed ! i = seed ! i" by (auto simp: clamp_def)
  ultimately show ?thesis
    unfolding KeyFromSeed_def k(1) [OF assms] k(2) [OF assms] by (intro conjI a(1) a(2))
qed

theorem KeyFromSeed_clamped_witness:
  "KeyFromSeed (replicate 32 255) ! 31 AND 0xC0 = 0x40"
  using KeyFromSeed_clamped [of "replicate 32 255"] by simp

end
