(* ===== verification/Proto.thy ===== *)
theory Proto
  imports Go_Strings Digest
begin

text \<open>
  The API contract of internal/proto: the error codes and the records the control plane,
  the nodes and the agents exchange, and encoding/json's encoding of a node configuration,
  whose hash is the version that the long poll compares.  A Go pointer that may be nil is an
  option.
\<close>

section \<open>Error codes\<close>

definition proto_ErrUnauthorized :: string where "proto_ErrUnauthorized = ''unauthorized''"
definition proto_ErrLeaseHeld :: string where "proto_ErrLeaseHeld = ''lease_held''"
definition proto_ErrSuperseded :: string where "proto_ErrSuperseded = ''superseded''"
definition proto_ErrBadRequest :: string where "proto_ErrBadRequest = ''bad_request''"
definition proto_ErrNotFound :: string where "proto_ErrNotFound = ''not_found''"
definition proto_ErrRateLimited :: string where "proto_ErrRateLimited = ''rate_limited''"
definition proto_ErrInternal :: string where "proto_ErrInternal = ''internal''"

lemmas error_codes =
  proto_ErrUnauthorized_def proto_ErrLeaseHeld_def proto_ErrSuperseded_def proto_ErrBadRequest_def
  proto_ErrNotFound_def proto_ErrRateLimited_def proto_ErrInternal_def

record proto_Error =
  err_code :: string
  err_message :: string

section \<open>Agents and nodes\<close>

record proto_Node =
  pn_name :: string
  pn_endpoint :: string
  pn_public_key :: string
  pn_gateway_ip :: string

record RegisterRequest =
  reg_instance_id :: string
  reg_wg_public_key :: string
  reg_version :: string

record RegisterResponse =
  rr_tunnel_id :: int
  rr_vpn_ip :: string
  rr_domain :: string
  rr_nodes :: "proto_Node list"
  rr_lease_ttl_seconds :: int
  rr_heartbeat_seconds :: int

record HeartbeatRequest =
  hb_instance_id :: string

record HeartbeatResponse =
  hr_nodes :: "proto_Node list"

record ReleaseRequest =
  rel_instance_id :: string

record NodeHelloRequest =
  nh_wg_public_key :: string
  nh_version :: string

record NodeHelloResponse =
  nhr_name :: string
  nhr_gateway_ip :: string

record proto_Peer =
  pp_public_key :: string
  pp_vpn_ip :: string

record proto_Route =
  rt_hostname :: string
  rt_vpn_ip :: string

record DNSTXT =
  txt_fqdn :: string
  txt_value :: string

record DNSZone =
  dz_zone :: string
  dz_ns_names :: "string list"
  dz_soa_email :: string
  dz_edge :: "string list"
  dz_challenges :: "DNSTXT list"

record NodeConfig =
  nc_version :: string
  nc_peers :: "proto_Peer list"
  nc_routes :: "proto_Route list"
  nc_dns :: "DNSZone option"

record proto_StorageItem =
  psi_key :: string
  psi_size :: int
  psi_updated_at :: instant

record ACMEDNSCreateRequest =
  ac_fqdn :: string
  ac_value :: string

section \<open>JSON\<close>

text \<open>
  utf8.DecodeRuneInString: the length of the valid rune at the head of a string, 0 when the
  first byte starts no valid rune.  The ranges of the second byte exclude overlong forms and
  surrogates.
\<close>

definition byte_in :: "char \<Rightarrow> nat \<Rightarrow> nat \<Rightarrow> bool" where
  "byte_in c lo hi \<longleftrightarrow> lo \<le> of_char c \<and> of_char c \<le> hi"

definition rune_size :: "string \<Rightarrow> nat" where
  "rune_size s =
     (case s of
        [] \<Rightarrow> 0
      | b0 # r \<Rightarrow>
          if byte_in b0 0 0x7F then 1
          else if byte_in b0 0xC2 0xDF then
            (case r of b1 # _ \<Rightarrow> if byte_in b1 0x80 0xBF then 2 else 0 | _ \<Rightarrow> 0)
          else if byte_in b0 0xE0 0xEF then
            (case r of
               b1 # b2 # _ \<Rightarrow>
                 if byte_in b1 (if of_char b0 = (0xE0 :: nat) then 0xA0 else 0x80)
                               (if of_char b0 = (0xED :: nat) then 0x9F else 0xBF)
                    \<and> byte_in b2 0x80 0xBF then 3 else 0
             | _ \<Rightarrow> 0)
          else if byte_in b0 0xF0 0xF4 then
            (case r of
               b1 # b2 # b3 # _ \<Rightarrow>
                 if byte_in b1 (if of_char b0 = (0xF0 :: nat) then 0x90 else 0x80)
                               (if of_char b0 = (0xF4 :: nat) then 0x8F else 0xBF)
                    \<and> byte_in b2 0x80 0xBF \<and> byte_in b3 0x80 0xBF then 4 else 0
             | _ \<Rightarrow> 0)
          else 0)"

lemma rune_size_le: "rune_size s \<le> length s"
  by (auto simp: rune_size_def split: list.splits)

text \<open>
  The escapes of json.Marshal for an ASCII byte.  Quotes and backslashes are escaped, the
  control characters are escaped (five of them by letter), and so are the three characters
  HTML gives a meaning to.
\<close>

definition json_u00 :: "char \<Rightarrow> string" where
  "json_u00 c = [CHR 0x5C, CHR ''u'', CHR ''0'', CHR ''0''] @ hex_encode [of_char c]"

definition json_ascii :: "char \<Rightarrow> string" where
  "json_ascii c =
     (if c = CHR 0x22 \<or> c = CHR 0x5C then [CHR 0x5C, c]
      else if c = CHR 0x08 then [CHR 0x5C, CHR ''b'']
      else if c = CHR 0x0C then [CHR 0x5C, CHR ''f'']
      else if c = CHR 0x0A then [CHR 0x5C, CHR ''n'']
      else if c = CHR 0x0D then [CHR 0x5C, CHR ''r'']
      else if c = CHR 0x09 then [CHR 0x5C, CHR ''t'']
      else if byte_in c 0 0x1F \<or> c \<in> set ''<>&'' then json_u00 c
      else [c])"

function json_chars :: "string \<Rightarrow> string" where
  "json_chars [] = []"
| "json_chars (c # s) =
     (case rune_size (c # s) of
        0 \<Rightarrow> CHR 0x5C # ''ufffd'' @ json_chars s
      | Suc 0 \<Rightarrow> json_ascii c @ json_chars s
      | Suc (Suc n) \<Rightarrow>
          (let r = take (Suc (Suc n)) (c # s)
           in (if r = [CHR 0xE2, CHR 0x80, CHR 0xA8] then CHR 0x5C # ''u2028''
               else if r = [CHR 0xE2, CHR 0x80, CHR 0xA9] then CHR 0x5C # ''u2029''
               else r)
              @ json_chars (drop (Suc n) s)))"
  by pat_completeness auto
termination by (relation "measure length") auto

definition json_string :: "string \<Rightarrow> string" where
  "json_string s = [CHR 0x22] @ json_chars s @ [CHR 0x22]"

definition json_array :: "string list \<Rightarrow> string" where
  "json_array es = ''['' @ join_with '','' es @ '']''"

definition json_object :: "(string \<times> string) list \<Rightarrow> string" where
  "json_object fs = ''{'' @ join_with '','' (map (\<lambda>(k, v). json_string k @ '':'' @ v) fs) @ ''}''"

definition json_peer :: "proto_Peer \<Rightarrow> string" where
  "json_peer p = json_object [(''public_key'', json_string (pp_public_key p)), (''vpn_ip'', json_string (pp_vpn_ip p))]"

definition json_route :: "proto_Route \<Rightarrow> string" where
  "json_route r = json_object [(''hostname'', json_string (rt_hostname r)), (''vpn_ip'', json_string (rt_vpn_ip r))]"

definition json_txt :: "DNSTXT \<Rightarrow> string" where
  "json_txt c = json_object [(''fqdn'', json_string (txt_fqdn c)), (''value'', json_string (txt_value c))]"

definition json_zone :: "DNSZone \<Rightarrow> string" where
  "json_zone z = json_object
     [(''zone'', json_string (dz_zone z)),
      (''ns_names'', json_array (map json_string (dz_ns_names z))),
      (''soa_email'', json_string (dz_soa_email z)),
      (''edge'', json_array (map json_string (dz_edge z))),
      (''challenges'', json_array (map json_txt (dz_challenges z)))]"

text \<open>The dns field has omitempty: it is absent when the pointer is nil.\<close>

definition json_config :: "NodeConfig \<Rightarrow> string" where
  "json_config c = json_object
     ([(''version'', json_string (nc_version c)),
       (''peers'', json_array (map json_peer (nc_peers c))),
       (''routes'', json_array (map json_route (nc_routes c)))]
      @ (case nc_dns c of None \<Rightarrow> [] | Some z \<Rightarrow> [(''dns'', json_zone z)]))"

text \<open>The version of a snapshot: the first 8 bytes of the hash of its encoding, in hex.\<close>

definition config_version :: "NodeConfig \<Rightarrow> string" where
  "config_version c = hex_encode (take 8 (sha256 (bytes_of (json_config c))))"

lemma length_config_version [simp]: "length (config_version c) = 16"
  by (simp add: config_version_def)

lemma config_version_not_Nil: "config_version c \<noteq> []"
  by (metis length_config_version list.size(3) zero_neq_numeral)

end
