(* ===== verification/Store_Db.thy ===== *)
theory Store_Db
  imports Proto Net_Addr Auth
begin

text \<open>
  The database of internal/store: one record per table of the migrations, the sequences, the
  clock, and the statements' way to fail.  A statement of the store is a function on this
  state; a pgx transaction is a combinator that restores the tables when its body fails (the
  sequences keep what they gave: nextval is never undone).

  Columns of type inet hold IPv4 addresses: every address the program stores is one (an offset
  into 10.64.0.0/10, 10.10.n.1, or an operator's public address that the command line checked).
\<close>

section \<open>Tables\<close>

record account_row =
  acc_id :: int
  acc_email :: string
  acc_plan :: string

record tunnel_row =
  tun_id :: int
  tun_account :: int
  tun_subdomain :: string
  tun_ip :: "32 word"

record token_row =
  tok_row_id :: string
  tok_tunnel :: int
  tok_hash :: bytes
  tok_last_used :: "instant option"

record lease_row =
  ls_tunnel :: int
  ls_instance :: string
  ls_pubkey :: string
  ls_version :: string
  ls_acquired :: instant
  ls_expires :: instant

record node_row =
  nd_id :: int
  nd_name :: string
  nd_endpoint :: string
  nd_gateway :: "32 word"
  nd_token_id :: string
  nd_token_hash :: bytes
  nd_pubkey :: "string option"
  nd_version :: "string option"
  nd_last_seen :: "instant option"
  nd_public_ip :: "32 word option"

record storage_row =
  sto_tunnel :: int
  sto_key :: string
  sto_value :: bytes
  sto_updated :: instant

record challenge_row =
  ch_id :: string
  ch_tunnel :: int
  ch_fqdn :: string
  ch_value :: string
  ch_record :: "string option"

record tables =
  accounts :: "account_row list"
  tunnels :: "tunnel_row list"
  tokens :: "token_row list"
  leases :: "lease_row list"
  node_rows :: "node_row list"
  storage :: "storage_row list"
  challenges :: "challenge_row list"

text \<open>The next value each sequence gives: three serial columns and the two address sequences.\<close>

record sequences =
  seq_account :: int
  seq_tunnel :: int
  seq_node :: int
  seq_tunnel_ip :: int
  seq_node_gw :: int

text \<open>
  What may happen to one statement sent to the server: it runs and its reply arrives, it is
  lost before it runs, or it runs and its reply is lost.  A schedule says so for the statements
  to come; past its end every statement runs.
\<close>

datatype fault = Answered | Lost | ReplyLost

record db =
  db_tables :: tables
  db_seqs :: sequences
  db_now :: instant
  db_faults :: "fault list"

datatype store_err =
    ErrNotFound | ErrUnauthorized | ErrLeaseHeld | ErrSuperseded | ErrPubkeyInUse
  | ErrNoRows | ErrPool | ErrConn | PgError string

type_synonym 'a dbm = "db \<Rightarrow> (store_err + 'a) \<times> db"

definition empty_tables :: tables where
  "empty_tables = \<lparr>accounts = [], tunnels = [], tokens = [], leases = [], node_rows = [], storage = [], challenges = []\<rparr>"

text \<open>The state the migrations leave: the two address sequences start at 2 and at 1.\<close>

definition initial_seqs :: sequences where
  "initial_seqs = \<lparr>seq_account = 1, seq_tunnel = 1, seq_node = 1, seq_tunnel_ip = 2, seq_node_gw = 1\<rparr>"

definition db_init :: "instant \<Rightarrow> fault list \<Rightarrow> db" where
  "db_init t fs = \<lparr>db_tables = empty_tables, db_seqs = initial_seqs, db_now = t, db_faults = fs\<rparr>"

section \<open>Statements and transactions\<close>

definition bindr :: "'a dbm \<Rightarrow> ('a \<Rightarrow> 'b dbm) \<Rightarrow> 'b dbm" where
  "bindr m f d = (case m d of (Inl e, d') \<Rightarrow> (Inl e, d') | (Inr x, d') \<Rightarrow> f x d')"

definition retr :: "'a \<Rightarrow> 'a dbm" where
  "retr x d = (Inr x, d)"

definition throw :: "store_err \<Rightarrow> 'a dbm" where
  "throw e d = (Inl e, d)"

text \<open>The fault of the next statement, and the schedule after it.\<close>

definition next_fault :: "db \<Rightarrow> fault \<times> db" where
  "next_fault d =
     (case db_faults d of [] \<Rightarrow> (Answered, d) | f # fs \<Rightarrow> (f, d\<lparr>db_faults := fs\<rparr>))"

text \<open>One statement: its effect on the tables and sequences, under the fault it meets.\<close>

definition stmt :: "'a dbm \<Rightarrow> 'a dbm" where
  "stmt s d =
     (case next_fault d of
        (Answered, d') \<Rightarrow> s d'
      | (Lost, d') \<Rightarrow> (Inl ErrConn, d')
      | (ReplyLost, d') \<Rightarrow> (Inl ErrConn, snd (s d')))"

text \<open>
  pgx.BeginFunc: BEGIN, the body, then COMMIT when the body returned no error and ROLLBACK when
  it did.  A commit whose reply is lost has happened.
\<close>

definition tx :: "'a dbm \<Rightarrow> 'a dbm" where
  "tx m d =
     (case next_fault d of
        (Answered, d1) \<Rightarrow>
          (case m d1 of
             (Inl e, d2) \<Rightarrow> (Inl e, d2\<lparr>db_tables := db_tables d\<rparr>)
           | (Inr x, d2) \<Rightarrow>
               (case next_fault d2 of
                  (Answered, d3) \<Rightarrow> (Inr x, d3)
                | (Lost, d3) \<Rightarrow> (Inl ErrConn, d3\<lparr>db_tables := db_tables d\<rparr>)
                | (ReplyLost, d3) \<Rightarrow> (Inl ErrConn, d3)))
      | (_, d1) \<Rightarrow> (Inl ErrConn, d1))"

text \<open>nextval: the value of a sequence, an error past its maximum.\<close>

definition max_bigint :: int where
  "max_bigint = 9223372036854775807"

definition nextval :: "(sequences \<Rightarrow> int) \<Rightarrow> ((int \<Rightarrow> int) \<Rightarrow> sequences \<Rightarrow> sequences) \<Rightarrow> int \<Rightarrow> int dbm" where
  "nextval get upd mx d =
     (if mx < get (db_seqs d) then (Inl (PgError ''2200H''), d)
      else (Inr (get (db_seqs d)), d\<lparr>db_seqs := upd (\<lambda>n. n + 1) (db_seqs d)\<rparr>))"

text \<open>A query reads the tables and the clock; an update replaces the tables.\<close>

definition query :: "(db \<Rightarrow> 'a) \<Rightarrow> 'a dbm" where
  "query f = stmt (\<lambda>d. (Inr (f d), d))"

definition put_tables :: "(tables \<Rightarrow> tables) \<Rightarrow> db \<Rightarrow> db" where
  "put_tables f d = d\<lparr>db_tables := f (db_tables d)\<rparr>"

text \<open>An UPDATE or DELETE: the rows it affects, counted, and the tables it leaves.\<close>

definition affect :: "(tables \<Rightarrow> nat \<times> tables) \<Rightarrow> nat dbm" where
  "affect f = stmt (\<lambda>d. let (n, t) = f (db_tables d) in (Inr n, put_tables (\<lambda>_. t) d))"

text \<open>RowsAffected() == 0 as an error.\<close>

definition require_rows :: "store_err \<Rightarrow> nat dbm \<Rightarrow> unit dbm" where
  "require_rows e m = bindr m (\<lambda>n. if n = 0 then throw e else retr ())"

lemma put_tables_simps [simp]:
  "db_tables (put_tables f d) = f (db_tables d)" "db_seqs (put_tables f d) = db_seqs d"
  "db_now (put_tables f d) = db_now d" "db_faults (put_tables f d) = db_faults d"
  by (simp_all add: put_tables_def)

lemma next_fault_frame:
  "next_fault d = (f, d') \<Longrightarrow> db_tables d' = db_tables d \<and> db_seqs d' = db_seqs d \<and> db_now d' = db_now d"
  by (auto simp: next_fault_def split: list.splits)

lemma next_fault_none: "db_faults d = [] \<Longrightarrow> next_fault d = (Answered, d)"
  by (simp add: next_fault_def)

lemma stmt_run: "db_faults d = [] \<Longrightarrow> stmt s d = s d"
  by (simp add: stmt_def next_fault_none)

lemma query_run: "db_faults d = [] \<Longrightarrow> query f d = (Inr (f d), d)"
  by (simp add: query_def stmt_run)

lemma bindr_Inr: "bindr m f d = (Inr y, d') \<longleftrightarrow> (\<exists>x d1. m d = (Inr x, d1) \<and> f x d1 = (Inr y, d'))"
  by (auto simp: bindr_def split: prod.splits sum.splits)

lemma stmt_Inr: "stmt s d = (Inr y, d') \<Longrightarrow> \<exists>d1. db_tables d1 = db_tables d \<and> db_seqs d1 = db_seqs d \<and> db_now d1 = db_now d \<and> s d1 = (Inr y, d')"
  by (auto simp: stmt_def split: prod.splits fault.splits dest!: next_fault_frame)

lemma stmt_Inl:
  "stmt s d = (Inl e, d') \<Longrightarrow> e \<noteq> ErrConn \<Longrightarrow>
   \<exists>d1. db_tables d1 = db_tables d \<and> db_seqs d1 = db_seqs d \<and> db_now d1 = db_now d \<and> s d1 = (Inl e, d')"
  by (auto simp: stmt_def split: prod.splits fault.splits dest!: next_fault_frame)

lemma tx_Inr:
  assumes "tx m d = (Inr x, d')"
  shows "\<exists>d1 d2. db_tables d1 = db_tables d \<and> db_seqs d1 = db_seqs d \<and> db_now d1 = db_now d \<and>
    m d1 = (Inr x, d2) \<and> db_tables d' = db_tables d2 \<and> db_seqs d' = db_seqs d2 \<and> db_now d' = db_now d2"
proof -
  obtain f d1 where nf: "next_fault d = (f, d1)" by fastforce
  obtain r d2 where r: "m d1 = (r, d2)" by fastforce
  obtain g d3 where ng: "next_fault d2 = (g, d3)" by fastforce
  from next_fault_frame [OF nf] next_fault_frame [OF ng] assms show ?thesis
    by (cases f; cases r; cases g) (auto simp: tx_def nf r ng)
qed

text \<open>A transaction leaves the tables it found, or those of a body that returned a value.\<close>

lemma tx_tables:
  "db_tables (snd (tx m d)) = db_tables d \<or>
   (\<exists>d1 x d2. db_tables d1 = db_tables d \<and> db_seqs d1 = db_seqs d \<and> db_now d1 = db_now d \<and> m d1 = (Inr x, d2) \<and>
      db_tables (snd (tx m d)) = db_tables d2)"
proof -
  obtain f d1 where nf: "next_fault d = (f, d1)" by fastforce
  obtain r d2 where r: "m d1 = (r, d2)" by fastforce
  obtain g d3 where ng: "next_fault d2 = (g, d3)" by fastforce
  from next_fault_frame [OF nf] next_fault_frame [OF ng] r show ?thesis
    by (cases f; cases r; cases g) (auto simp: tx_def nf r ng)
qed

section \<open>What every operation keeps\<close>

text \<open>
  How an operation may move the state, whatever the schedule: a relation that holds when the
  schedule is consumed, the tables change and the sequences advance holds of every operation.
  Two are used: sequences only advance and the clock stands still (growth), and faults are
  only consumed (spent).
\<close>

definition seqs_le :: "sequences \<Rightarrow> sequences \<Rightarrow> bool" where
  "seqs_le s s' \<longleftrightarrow>
     seq_account s \<le> seq_account s' \<and> seq_tunnel s \<le> seq_tunnel s' \<and> seq_node s \<le> seq_node s' \<and>
     seq_tunnel_ip s \<le> seq_tunnel_ip s' \<and> seq_node_gw s \<le> seq_node_gw s'"

lemma seqs_le_refl [simp]: "seqs_le s s"
  by (simp add: seqs_le_def)

lemma seqs_le_trans: "seqs_le a b \<Longrightarrow> seqs_le b c \<Longrightarrow> seqs_le a c"
  by (auto simp: seqs_le_def)

definition within :: "(db \<Rightarrow> db \<Rightarrow> bool) \<Rightarrow> 'a dbm \<Rightarrow> bool" where
  "within R m \<longleftrightarrow> (\<forall>d. R d (snd (m d)))"

lemma withinI: "(\<And>d. R d (snd (m d))) \<Longrightarrow> within R m"
  by (simp add: within_def)

lemma withinD: "within R m \<Longrightarrow> m d = (r, d') \<Longrightarrow> R d d'"
  by (metis snd_conv within_def)

locale db_relation =
  fixes R :: "db \<Rightarrow> db \<Rightarrow> bool"
  assumes refl: "R d d"
    and trans: "R a b \<Longrightarrow> R b c \<Longrightarrow> R a c"
    and fault: "next_fault d = (f, d') \<Longrightarrow> R d d'"
    and tables: "R d (d\<lparr>db_tables := t\<rparr>)"
    and advance: "seqs_le (db_seqs d) s \<Longrightarrow> R d (d\<lparr>db_seqs := s\<rparr>)"
begin

lemma within_put: "R d (put_tables f d)"
  by (simp add: put_tables_def tables)

lemma within_bindr:
  assumes "within R m" and "\<And>x. within R (f x)"
  shows "within R (bindr m f)"
proof (rule withinI)
  fix d
  obtain r d' where r: "m d = (r, d')" by fastforce
  have "R d d'" using assms(1) r by (rule withinD)
  moreover have "R d' (snd (f x d'))" for x using assms(2) by (simp add: within_def)
  ultimately show "R d (snd (bindr m f d))" by (cases r) (auto simp: bindr_def r intro: trans)
qed

lemma within_retr: "within R (retr x)"
  by (simp add: within_def retr_def refl)

lemma within_throw: "within R (throw e)"
  by (simp add: within_def throw_def refl)

lemma within_stmt:
  assumes "within R s"
  shows "within R (stmt s)"
proof (rule withinI)
  fix d
  obtain f d' where nf: "next_fault d = (f, d')" by fastforce
  then have "R d d'" by (rule fault)
  moreover have "R d' (snd (s d'))" using assms by (simp add: within_def)
  ultimately show "R d (snd (stmt s d))" by (cases f) (auto simp: stmt_def nf intro: trans)
qed

lemma within_tx:
  assumes "within R m"
  shows "within R (tx m)"
proof (rule withinI)
  fix d
  obtain f d1 where nf: "next_fault d = (f, d1)" by fastforce
  obtain r d2 where r: "m d1 = (r, d2)" by fastforce
  obtain g d3 where ng: "next_fault d2 = (g, d3)" by fastforce
  note s = fault [OF nf] withinD [OF assms r] fault [OF ng]
  have "R d (d2\<lparr>db_tables := db_tables d\<rparr>)" "R d d3" "R d (d3\<lparr>db_tables := db_tables d\<rparr>)"
    using s tables trans by blast+
  with s show "R d (snd (tx m d))" by (cases f; cases r; cases g) (auto simp: tx_def nf r ng)
qed

lemma within_query: "within R (query f)"
  unfolding query_def by (rule within_stmt) (simp add: within_def refl)

lemma within_affect: "within R (affect f)"
  unfolding affect_def
  by (rule within_stmt) (simp add: within_def Let_def within_put split: prod.splits)

lemma within_require_rows: "within R m \<Longrightarrow> within R (require_rows e m)"
  unfolding require_rows_def by (rule within_bindr) (simp_all add: within_retr within_throw)

lemma within_nextval:
  assumes "\<And>s. seqs_le s (upd (\<lambda>n. n + 1) s)"
  shows "within R (nextval get upd mx)"
  using assms by (simp add: within_def nextval_def refl advance)

lemmas within_rules =
  within_bindr within_retr within_throw within_stmt within_tx within_query within_affect within_require_rows

end

definition growth :: "db \<Rightarrow> db \<Rightarrow> bool" where
  "growth d d' \<longleftrightarrow> seqs_le (db_seqs d) (db_seqs d') \<and> db_now d' = db_now d"

definition spent :: "db \<Rightarrow> db \<Rightarrow> bool" where
  "spent d d' \<longleftrightarrow> set (db_faults d') \<subseteq> set (db_faults d)"

lemma next_fault_spent:
  "next_fault d = (f, d') \<Longrightarrow> set (db_faults d') \<subseteq> set (db_faults d) \<and> (f \<noteq> Answered \<longrightarrow> f \<in> set (db_faults d))"
  by (auto simp: next_fault_def split: list.splits)

interpretation growth: db_relation growth
  by unfold_locales (auto simp: growth_def dest: seqs_le_trans next_fault_frame)

interpretation spent: db_relation spent
  by unfold_locales (auto simp: spent_def dest: next_fault_spent)

text \<open>A transaction that failed left every table as it was, unless the reply of its COMMIT was lost.\<close>

definition no_lost_reply :: "db \<Rightarrow> bool" where
  "no_lost_reply d \<longleftrightarrow> ReplyLost \<notin> set (db_faults d)"

lemma tx_atomic:
  assumes "tx m d = (Inl e, d')" and "no_lost_reply d" and "within spent m"
  shows "db_tables d' = db_tables d"
proof -
  obtain f d1 where nf: "next_fault d = (f, d1)" by fastforce
  obtain r d2 where r: "m d1 = (r, d2)" by fastforce
  obtain g d3 where ng: "next_fault d2 = (g, d3)" by fastforce
  have "spent d1 d2" using assms(3) r by (rule withinD)
  then have "g \<noteq> ReplyLost"
    using next_fault_spent [OF nf] next_fault_spent [OF ng] assms(2) by (auto simp: no_lost_reply_def spent_def)
  with assms(1) next_fault_frame [OF nf] show ?thesis
    by (cases f; cases r; cases g) (auto simp: tx_def nf r ng)
qed

text \<open>
  An invariant of the store that holds again with the same tables and advanced sequences is
  kept by the combinators as soon as the statements keep it.
\<close>

definition keeps :: "(db \<Rightarrow> bool) \<Rightarrow> 'a dbm \<Rightarrow> bool" where
  "keeps I m \<longleftrightarrow> (\<forall>d. I d \<longrightarrow> I (snd (m d)))"

lemma keepsI: "(\<And>d. I d \<Longrightarrow> I (snd (m d))) \<Longrightarrow> keeps I m"
  by (simp add: keeps_def)

lemma keepsD: "keeps I m \<Longrightarrow> I d \<Longrightarrow> I (snd (m d))"
  by (simp add: keeps_def)

locale store_invariant =
  fixes I :: "db \<Rightarrow> bool"
  assumes same_tables:
    "I d \<Longrightarrow> db_tables d' = db_tables d \<Longrightarrow> seqs_le (db_seqs d) (db_seqs d') \<Longrightarrow> I d'"
begin

lemma next_fault_keeps: "next_fault d = (f, d') \<Longrightarrow> I d \<Longrightarrow> I d'"
  using same_tables [of d d'] next_fault_frame [of d f d'] by simp

lemma keeps_bindr:
  assumes "keeps I m" and "\<And>x. keeps I (f x)"
  shows "keeps I (bindr m f)"
proof (rule keepsI)
  fix d assume I: "I d"
  obtain r d' where r: "m d = (r, d')" by fastforce
  have "I d'" using assms(1) I r by (metis keepsD snd_conv)
  then show "I (snd (bindr m f d))"
    using assms(2) by (cases r) (auto simp: bindr_def r keepsD)
qed

lemma keeps_retr: "keeps I (retr x)"
  by (simp add: keeps_def retr_def)

lemma keeps_throw: "keeps I (throw e)"
  by (simp add: keeps_def throw_def)

lemma keeps_stmt:
  assumes "keeps I s"
  shows "keeps I (stmt s)"
proof (rule keepsI)
  fix d assume I: "I d"
  obtain f d' where nf: "next_fault d = (f, d')" by fastforce
  from nf I have "I d'" by (rule next_fault_keeps)
  then show "I (snd (stmt s d))" using assms by (cases f) (auto simp: stmt_def nf keepsD)
qed

lemma keeps_query: "keeps I (query f)"
  unfolding query_def by (rule keeps_stmt) (simp add: keeps_def)

lemma keeps_affect:
  assumes "\<And>d. I d \<Longrightarrow> I (put_tables (\<lambda>_. snd (f (db_tables d))) d)"
  shows "keeps I (affect f)"
  unfolding affect_def
proof (rule keeps_stmt, rule keepsI)
  fix d assume "I d"
  then show "I (snd (let (n, t) = f (db_tables d) in (Inr n, put_tables (\<lambda>_. t) d)))"
    using assms by (simp add: Let_def split: prod.splits) (metis snd_conv)
qed

lemma keeps_require_rows: "keeps I m \<Longrightarrow> keeps I (require_rows e m)"
  unfolding require_rows_def by (rule keeps_bindr) (simp_all add: keeps_throw keeps_retr)

text \<open>A transaction needs the invariant only where it commits.\<close>

lemma keeps_tx:
  assumes ok: "\<And>d x d'. I d \<Longrightarrow> m d = (Inr x, d') \<Longrightarrow> I d'" and grows: "within growth m"
  shows "keeps I (tx m)"
proof (rule keepsI)
  fix d assume I: "I d"
  obtain f d1 where nf: "next_fault d = (f, d1)" by fastforce
  note f1 = next_fault_frame [OF nf]
  have I1: "I d1" using nf I by (rule next_fault_keeps)
  obtain r d2 where r: "m d1 = (r, d2)" by fastforce
  obtain g d3 where ng: "next_fault d2 = (g, d3)" by fastforce
  note f2 = next_fault_frame [OF ng]
  have s: "seqs_le (db_seqs d) (db_seqs d2)"
    using withinD [OF grows r] f1 by (simp add: growth_def)
  have bk: "I (d2\<lparr>db_tables := db_tables d\<rparr>)" "I (d3\<lparr>db_tables := db_tables d\<rparr>)"
    using I s f2 by (auto intro!: same_tables [OF I])
  show "I (snd (tx m d))"
  proof (cases r)
    case (Inl e)
    then show ?thesis using I1 bk by (cases f) (auto simp: tx_def nf r)
  next
    case (Inr x)
    then have "I d2" using ok [OF I1] r by simp
    then have "I d3" by (rule next_fault_keeps [OF ng])
    with Inr show ?thesis using I1 bk by (cases f; cases g) (auto simp: tx_def nf r ng)
  qed
qed

lemmas keeps_rules = keeps_bindr keeps_retr keeps_throw keeps_stmt keeps_query keeps_require_rows

end

end
