(* ===== verification/Store_Schema.thy ===== *)
theory Store_Schema
  imports Store_Db
begin

text \<open>
  The address pools of the store and the constraints its migrations declare: primary keys,
  uniqueness, references and the CHECK on plans, together with what the sequences guarantee
  (serial ids and pool offsets lie below the next value).  They are stated per group of tables
  and proved stable under what a statement does to one row.
\<close>

section \<open>Addresses\<close>

text \<open>netip.MustParsePrefix("10.64.0.0/10").\<close>

definition clientPool :: "32 word \<times> nat" where
  "clientPool = (0x0A400000, 10)"

definition offsetAddr :: "32 word \<times> nat \<Rightarrow> int \<Rightarrow> store_err + 32 word" where
  "offsetAddr p off =
     (if off \<le> 0 \<or> 2 ^ (32 - snd p) \<le> off then Inl ErrPool else Inr (fst p + word_of_int off))"

text \<open>A cast to inet of the text of an IPv4 address.\<close>

definition inet :: "string \<Rightarrow> 32 word option" where
  "inet s = (case ParseAddr s of Some (Addr4 w) \<Rightarrow> Some w | _ \<Rightarrow> None)"

lemma inet_ip4_string [simp]: "inet (ip4_string w) = Some w"
  by (simp add: inet_def ParseAddr_ip4_string)

text \<open>The address of the n-th gateway: ('10.10.' || n || '.1')::inet.\<close>

definition gateway_text :: "int \<Rightarrow> string" where
  "gateway_text n = ''10.10.'' @ nat_string (nat n) @ ''.1''"

definition gateway_ip :: "int \<Rightarrow> 32 word" where
  "gateway_ip n = bytes_word [10, 10, word_of_int n, 1]"

lemma digit_chars: "char_of (48 :: nat) = CHR ''0''" "char_of (49 :: nat) = CHR ''1''"
  by code_simp+

lemma inet_gateway_text:
  assumes "0 \<le> n" and "n \<le> 255"
  shows "inet (gateway_text n) = Some (gateway_ip n)"
proof -
  have w: "word_bytes (gateway_ip n) = [10, 10, word_of_int n, 1]"
    by (simp add: gateway_ip_def)
  have "unat (word_of_int n :: byte) = nat n"
    using assms by (simp add: unsigned_of_int take_bit_int_eq_self)
  then have "gateway_text n = ip4_string (gateway_ip n)"
    by (simp add: gateway_text_def ip4_string_def w nat_string.simps digit_chars)
  then show ?thesis by simp
qed

lemma gateway_ip_inj:
  assumes "gateway_ip m = gateway_ip n" and "0 \<le> m" "m \<le> 255" "0 \<le> n" "n \<le> 255"
  shows "m = n"
proof -
  have "word_bytes (gateway_ip m) = word_bytes (gateway_ip n)" using assms(1) by simp
  then have "(word_of_int m :: byte) = word_of_int n" by (simp add: gateway_ip_def)
  then have "uint (word_of_int m :: byte) = uint (word_of_int n :: byte)" by simp
  then show ?thesis using assms(2-) by (simp add: uint_word_of_int)
qed

text \<open>The offset of an address in the client pool.\<close>

definition pool_offset :: "32 word \<Rightarrow> int" where
  "pool_offset w = uint (w - fst clientPool)"

lemma offsetAddr_pool:
  "offsetAddr clientPool off = Inr w \<longleftrightarrow> 0 < off \<and> off < 2 ^ 22 \<and> w = 0x0A400000 + word_of_int off"
  by (auto simp: offsetAddr_def clientPool_def)

lemma pool_offset_offsetAddr: "offsetAddr clientPool off = Inr w \<Longrightarrow> pool_offset w = off"
  by (auto simp: offsetAddr_pool pool_offset_def) (simp add: clientPool_def uint_word_of_int)

section \<open>Constraints\<close>

definition plans :: "string list" where
  "plans = [''free'', ''persistent'']"

definition accounts_ok :: "sequences \<Rightarrow> tables \<Rightarrow> bool" where
  "accounts_ok s t \<longleftrightarrow>
     distinct (map acc_id (accounts t)) \<and> distinct (map acc_email (accounts t)) \<and>
     (\<forall>a\<in>set (accounts t). acc_id a < seq_account s \<and> acc_plan a \<in> set plans)"

definition tunnel_ids :: "tables \<Rightarrow> int set" where
  "tunnel_ids t = tun_id ` set (tunnels t)"

definition tunnel_row_ok :: "sequences \<Rightarrow> tables \<Rightarrow> tunnel_row \<Rightarrow> bool" where
  "tunnel_row_ok s t r \<longleftrightarrow>
     tun_id r < seq_tunnel s \<and> tun_account r \<in> acc_id ` set (accounts t) \<and>
     0 < pool_offset (tun_ip r) \<and> pool_offset (tun_ip r) < seq_tunnel_ip s \<and> pool_offset (tun_ip r) < 2 ^ 22 \<and>
     length (tun_subdomain r) = 7 \<and> set (tun_subdomain r) \<subseteq> set base32_alphabet"

definition tunnels_ok :: "sequences \<Rightarrow> tables \<Rightarrow> bool" where
  "tunnels_ok s t \<longleftrightarrow>
     distinct (map tun_id (tunnels t)) \<and> distinct (map tun_subdomain (tunnels t)) \<and>
     distinct (map tun_ip (tunnels t)) \<and> (\<forall>r\<in>set (tunnels t). tunnel_row_ok s t r)"

definition tokens_ok :: "tables \<Rightarrow> bool" where
  "tokens_ok t \<longleftrightarrow>
     distinct (map tok_row_id (tokens t)) \<and> distinct (map tok_tunnel (tokens t)) \<and>
     (\<forall>k\<in>set (tokens t). tok_tunnel k \<in> tunnel_ids t)"

definition leases_ok :: "tables \<Rightarrow> bool" where
  "leases_ok t \<longleftrightarrow>
     distinct (map ls_tunnel (leases t)) \<and> distinct (map ls_pubkey (leases t)) \<and>
     (\<forall>l\<in>set (leases t). ls_tunnel l \<in> tunnel_ids t)"

definition nodes_ok :: "sequences \<Rightarrow> tables \<Rightarrow> bool" where
  "nodes_ok s t \<longleftrightarrow>
     distinct (map nd_id (node_rows t)) \<and> distinct (map nd_name (node_rows t)) \<and>
     distinct (map nd_gateway (node_rows t)) \<and> distinct (map nd_token_id (node_rows t)) \<and>
     (\<forall>n\<in>set (node_rows t). nd_id n < seq_node s \<and>
        (\<exists>g\<in>{1..254}. g < seq_node_gw s \<and> nd_gateway n = gateway_ip g))"

definition storage_ok :: "tables \<Rightarrow> bool" where
  "storage_ok t \<longleftrightarrow>
     distinct (map (\<lambda>r. (sto_tunnel r, sto_key r)) (storage t)) \<and>
     (\<forall>r\<in>set (storage t). sto_tunnel r \<in> tunnel_ids t)"

definition challenges_ok :: "tables \<Rightarrow> bool" where
  "challenges_ok t \<longleftrightarrow>
     distinct (map ch_id (challenges t)) \<and> (\<forall>c\<in>set (challenges t). ch_tunnel c \<in> tunnel_ids t)"

definition seqs_ok :: "sequences \<Rightarrow> bool" where
  "seqs_ok s \<longleftrightarrow>
     1 \<le> seq_account s \<and> 1 \<le> seq_tunnel s \<and> 1 \<le> seq_node s \<and> 2 \<le> seq_tunnel_ip s \<and> 1 \<le> seq_node_gw s"

definition schema_ok :: "db \<Rightarrow> bool" where
  "schema_ok d \<longleftrightarrow>
     seqs_ok (db_seqs d) \<and> accounts_ok (db_seqs d) (db_tables d) \<and> tunnels_ok (db_seqs d) (db_tables d) \<and>
     tokens_ok (db_tables d) \<and> leases_ok (db_tables d) \<and> nodes_ok (db_seqs d) (db_tables d) \<and>
     storage_ok (db_tables d) \<and> challenges_ok (db_tables d)"

lemmas constraints =
  accounts_ok_def tunnels_ok_def tokens_ok_def leases_ok_def nodes_ok_def storage_ok_def challenges_ok_def

lemma schema_ok_init: "schema_ok (db_init t fs)"
  by (simp add: schema_ok_def db_init_def initial_seqs_def empty_tables_def seqs_ok_def constraints)

lemma nodes_ok_mono: "nodes_ok s t \<Longrightarrow> seqs_le s s' \<Longrightarrow> nodes_ok s' t"
  unfolding nodes_ok_def seqs_le_def by (meson order_less_le_trans)

lemma schema_ok_seqs:
  assumes "schema_ok d" and "db_tables d' = db_tables d" and "seqs_le (db_seqs d) (db_seqs d')"
  shows "schema_ok d'"
  using assms nodes_ok_mono [of "db_seqs d" "db_tables d" "db_seqs d'"]
  by (auto simp: schema_ok_def seqs_ok_def seqs_le_def accounts_ok_def tunnels_ok_def tunnel_row_ok_def)

interpretation schema: store_invariant schema_ok
  by unfold_locales (rule schema_ok_seqs)

text \<open>A statement that rewrites one table leaves the constraints of the others as they were.\<close>

lemma schema_okD:
  assumes "schema_ok d"
  shows "seqs_ok (db_seqs d)" "accounts_ok (db_seqs d) (db_tables d)" "tunnels_ok (db_seqs d) (db_tables d)"
    "tokens_ok (db_tables d)" "leases_ok (db_tables d)" "nodes_ok (db_seqs d) (db_tables d)"
    "storage_ok (db_tables d)" "challenges_ok (db_tables d)"
  using assms by (simp_all add: schema_ok_def)

lemma tunnel_ids_frame [simp]:
  "tunnel_ids (t\<lparr>accounts := a\<rparr>) = tunnel_ids t" "tunnel_ids (t\<lparr>tokens := k\<rparr>) = tunnel_ids t"
  "tunnel_ids (t\<lparr>leases := l\<rparr>) = tunnel_ids t" "tunnel_ids (t\<lparr>node_rows := n\<rparr>) = tunnel_ids t"
  "tunnel_ids (t\<lparr>storage := st\<rparr>) = tunnel_ids t" "tunnel_ids (t\<lparr>challenges := c\<rparr>) = tunnel_ids t"
  by (simp_all add: tunnel_ids_def)

lemma tunnel_row_ok_frame [simp]:
  "tunnel_row_ok s (t\<lparr>tunnels := u\<rparr>) r = tunnel_row_ok s t r" "tunnel_row_ok s (t\<lparr>tokens := k\<rparr>) r = tunnel_row_ok s t r"
  "tunnel_row_ok s (t\<lparr>leases := l\<rparr>) r = tunnel_row_ok s t r" "tunnel_row_ok s (t\<lparr>node_rows := n\<rparr>) r = tunnel_row_ok s t r"
  "tunnel_row_ok s (t\<lparr>storage := st\<rparr>) r = tunnel_row_ok s t r" "tunnel_row_ok s (t\<lparr>challenges := c\<rparr>) r = tunnel_row_ok s t r"
  by (simp_all add: tunnel_row_ok_def)

lemma schema_ok_tokens:
  "schema_ok d \<Longrightarrow> f (db_tables d) = (db_tables d)\<lparr>tokens := k\<rparr> \<Longrightarrow> tokens_ok ((db_tables d)\<lparr>tokens := k\<rparr>) \<Longrightarrow>
   schema_ok (put_tables f d)"
  by (simp add: schema_ok_def constraints)

lemma schema_ok_leases:
  "schema_ok d \<Longrightarrow> f (db_tables d) = (db_tables d)\<lparr>leases := k\<rparr> \<Longrightarrow> leases_ok ((db_tables d)\<lparr>leases := k\<rparr>) \<Longrightarrow>
   schema_ok (put_tables f d)"
  by (simp add: schema_ok_def constraints)

lemma schema_ok_nodes:
  "schema_ok d \<Longrightarrow> f (db_tables d) = (db_tables d)\<lparr>node_rows := k\<rparr> \<Longrightarrow> nodes_ok (db_seqs d) ((db_tables d)\<lparr>node_rows := k\<rparr>) \<Longrightarrow>
   schema_ok (put_tables f d)"
  by (simp add: schema_ok_def constraints)

lemma schema_ok_storage:
  "schema_ok d \<Longrightarrow> f (db_tables d) = (db_tables d)\<lparr>storage := k\<rparr> \<Longrightarrow> storage_ok ((db_tables d)\<lparr>storage := k\<rparr>) \<Longrightarrow>
   schema_ok (put_tables f d)"
  by (simp add: schema_ok_def constraints)

lemma schema_ok_challenges:
  "schema_ok d \<Longrightarrow> f (db_tables d) = (db_tables d)\<lparr>challenges := k\<rparr> \<Longrightarrow> challenges_ok ((db_tables d)\<lparr>challenges := k\<rparr>) \<Longrightarrow>
   schema_ok (put_tables f d)"
  by (simp add: schema_ok_def constraints)

text \<open>A new account or tunnel keeps what refers to the rows that were there.\<close>

lemma schema_ok_add_account:
  assumes "schema_ok d" and "acc_id a \<notin> acc_id ` set (accounts (db_tables d))"
    and "acc_email a \<notin> acc_email ` set (accounts (db_tables d))"
    and "acc_id a < seq_account (db_seqs d)" and "acc_plan a \<in> set plans"
  shows "schema_ok (put_tables (\<lambda>t. t\<lparr>accounts := accounts t @ [a]\<rparr>) d)"
  using assms by (auto simp: schema_ok_def constraints tunnel_row_ok_def)

lemma schema_ok_add_tunnel:
  assumes "schema_ok d" and "tun_id r \<notin> tunnel_ids (db_tables d)"
    and "tun_subdomain r \<notin> tun_subdomain ` set (tunnels (db_tables d))"
    and "tun_ip r \<notin> tun_ip ` set (tunnels (db_tables d))"
    and "tunnel_row_ok (db_seqs d) (db_tables d) r"
  shows "schema_ok (put_tables (\<lambda>t. t\<lparr>tunnels := tunnels t @ [r]\<rparr>) d)"
  using assms by (auto simp: schema_ok_def constraints tunnel_ids_def)

text \<open>Addresses of tunnels and of gateways never meet: 10.10.0.0/16 lies outside 10.64.0.0/10.\<close>

lemma gateway_not_in_pool:
  assumes "pool_offset w < 2 ^ 22"
  shows "gateway_ip g \<noteq> w"
proof
  assume g: "gateway_ip g = w"
  have "be_nat [10, 10, word_of_int g, 1] < 171966464"
    using unat_byte_less [of "word_of_int g"] by simp
  moreover have "unat w \<le> be_nat [10, 10, word_of_int g, 1]"
    unfolding g [symmetric] gateway_ip_def bytes_word_def unat_of_nat by (rule mod_less_eq_dividend)
  ultimately have "unat w < 171966464" by (rule order.strict_trans1 [rotated])
  then have "uint w < 171966464" by (simp only: uint_nat of_nat_less_numeral_iff)
  moreover have "uint w = 171966464 + uint (w - 171966464)"
    using assms uint_add_lem [of 171966464 "w - 171966464"] by (simp add: pool_offset_def clientPool_def)
  ultimately show False using uint_nonnegative [of "w - 171966464"] by linarith
qed

end
