(* ===== verification/Store_Tunnels.thy ===== *)
theory Store_Tunnels
  imports Store_Schema
begin

text \<open>
  Tunnels, agent tokens and leases of internal/store/store.go.  Each SQL statement is a
  definition of its own (sql_...), with PostgreSQL's order of checks: column defaults first
  (so a serial number is spent even when the row is then rejected), CHECK constraints, the
  conflict target of ON CONFLICT, the other unique indexes, the references.  The random bytes
  that auth.New and auth.Random draw are arguments.
\<close>

section \<open>Creating a tunnel\<close>

record Tunnel =
  t_id :: int
  t_email :: string
  t_plan :: string
  t_subdomain :: string
  t_vpn_ip :: string
  t_online :: bool

definition unique_violation :: store_err where
  "unique_violation = PgError ''23505''"

definition reference_violation :: store_err where
  "reference_violation = PgError ''23503''"

text \<open>INSERT INTO account ... ON CONFLICT (email) DO UPDATE ... RETURNING id, plan.\<close>

definition sql_upsert_account :: "string \<Rightarrow> string \<Rightarrow> (int \<times> string) dbm" where
  "sql_upsert_account email plan =
     bindr (nextval seq_account (\<lambda>f s. s\<lparr>seq_account := f (seq_account s)\<rparr>) max_bigint) (\<lambda>i d.
       if plan \<notin> set plans then (Inl (PgError ''23514''), d)
       else (case find (\<lambda>a. acc_email a = email) (accounts (db_tables d)) of
               Some a \<Rightarrow> (Inr (acc_id a, acc_plan a), d)
             | None \<Rightarrow>
                 (Inr (i, plan),
                  put_tables (\<lambda>t. t\<lparr>accounts := accounts t @ [\<lparr>acc_id = i, acc_email = email, acc_plan = plan\<rparr>]\<rparr>) d)))"

text \<open>INSERT INTO tunnel ... ON CONFLICT (subdomain) DO NOTHING RETURNING id.\<close>

definition sql_insert_tunnel :: "int \<Rightarrow> string \<Rightarrow> string \<Rightarrow> int dbm" where
  "sql_insert_tunnel account sub ip =
     bindr (nextval seq_tunnel (\<lambda>f s. s\<lparr>seq_tunnel := f (seq_tunnel s)\<rparr>) max_bigint) (\<lambda>i d.
       case inet ip of
         None \<Rightarrow> (Inl (PgError ''22P02''), d)
       | Some w \<Rightarrow>
           if list_ex (\<lambda>r. tun_subdomain r = sub) (tunnels (db_tables d)) then (Inl ErrNoRows, d)
           else if list_ex (\<lambda>r. tun_ip r = w) (tunnels (db_tables d)) then (Inl unique_violation, d)
           else if \<not> list_ex (\<lambda>a. acc_id a = account) (accounts (db_tables d)) then (Inl reference_violation, d)
           else (Inr i, put_tables (\<lambda>t. t\<lparr>tunnels := tunnels t @
                   [\<lparr>tun_id = i, tun_account = account, tun_subdomain = sub, tun_ip = w\<rparr>]\<rparr>) d))"

text \<open>The retry of a subdomain already taken: one attempt for each random value; there are five (five_values).\<close>

fun try_subdomains :: "int \<Rightarrow> string \<Rightarrow> bytes list \<Rightarrow> (string \<times> int) dbm" where
  "try_subdomains account ip [] d = (Inl ErrNoRows, d)"
| "try_subdomains account ip (b # bs) d =
     (let sub = take 7 (Random b)
      in case stmt (sql_insert_tunnel account sub ip) d of
           (Inr i, d') \<Rightarrow> (Inr (sub, i), d')
         | (Inl e, d') \<Rightarrow> if e = ErrNoRows then try_subdomains account ip bs d' else (Inl e, d'))"

text \<open>
  The random values of the five attempts: the first five of those given, then zeros where fewer
  are.
\<close>

definition five_values :: "bytes list \<Rightarrow> bytes list" where
  "five_values subs = take 5 (subs @ replicate 5 (replicate 5 0))"

lemma five_values_length [simp]: "length (five_values subs) = 5"
  by (simp add: five_values_def)

lemma five_values_Cons: "five_values (b # subs) = b # take 4 (subs @ replicate 5 (replicate 5 0))"
  by (simp add: five_values_def)

lemma five_values_bytes: "\<forall>b\<in>set subs. length b = 5 \<Longrightarrow> b \<in> set (five_values subs) \<Longrightarrow> length b = 5"
  by (auto simp: five_values_def dest!: in_set_takeD)

definition sql_insert_token :: "Token \<Rightarrow> int \<Rightarrow> unit dbm" where
  "sql_insert_token tok tid d =
     (let t = db_tables d
      in if list_ex (\<lambda>k. tok_row_id k = tok_id tok \<or> tok_tunnel k = tid) (tokens t) then (Inl unique_violation, d)
         else if \<not> list_ex (\<lambda>r. tun_id r = tid) (tunnels t) then (Inl reference_violation, d)
         else (Inr (), put_tables (\<lambda>t. t\<lparr>tokens := tokens t @
                 [\<lparr>tok_row_id = tok_id tok, tok_tunnel = tid, tok_hash = Hash tok, tok_last_used = None\<rparr>]\<rparr>) d))"

text \<open>The body of the transaction: account, address, tunnel, token.\<close>

definition nextval_tunnel_ip :: "int dbm" where
  "nextval_tunnel_ip = nextval seq_tunnel_ip (\<lambda>f s. s\<lparr>seq_tunnel_ip := f (seq_tunnel_ip s)\<rparr>) max_bigint"

definition create_tunnel_tx :: "string \<Rightarrow> string \<Rightarrow> Token \<Rightarrow> bytes list \<Rightarrow> Tunnel dbm" where
  "create_tunnel_tx email plan tok subs =
     bindr (stmt (sql_upsert_account email plan)) (\<lambda>(account, plan').
     bindr (stmt nextval_tunnel_ip) (\<lambda>off.
     case offsetAddr clientPool off of
       Inl e \<Rightarrow> throw e
     | Inr w \<Rightarrow>
         bindr (try_subdomains account (ip4_string w) (five_values subs)) (\<lambda>(sub, i).
         bindr (stmt (sql_insert_token tok i)) (\<lambda>_.
         retr \<lparr>t_id = i, t_email = email, t_plan = plan', t_subdomain = sub,
               t_vpn_ip = ip4_string w, t_online = False\<rparr>))))"

definition CreateTunnel ::
  "string \<Rightarrow> string \<Rightarrow> bytes \<Rightarrow> bytes \<Rightarrow> bytes list \<Rightarrow> (Tunnel \<times> Token) dbm" where
  "CreateTunnel email plan idbytes secret subs =
     (let tok = New_Token PrefixAgent idbytes secret
      in bindr (tx (create_tunnel_tx email plan tok subs)) (\<lambda>t. retr (t, tok)))"

section \<open>Tokens\<close>

definition sql_delete_token :: "int \<Rightarrow> nat dbm" where
  "sql_delete_token tid = affect (\<lambda>t. (length (filter (\<lambda>k. tok_tunnel k = tid) (tokens t)),
     t\<lparr>tokens := filter (\<lambda>k. tok_tunnel k \<noteq> tid) (tokens t)\<rparr>))"

definition sql_delete_lease :: "int \<Rightarrow> nat dbm" where
  "sql_delete_lease tid = affect (\<lambda>t. (length (filter (\<lambda>l. ls_tunnel l = tid) (leases t)),
     t\<lparr>leases := filter (\<lambda>l. ls_tunnel l \<noteq> tid) (leases t)\<rparr>))"

definition rotate_tx :: "int \<Rightarrow> Token \<Rightarrow> Token dbm" where
  "rotate_tx tid tok =
     bindr (require_rows ErrNotFound (sql_delete_token tid)) (\<lambda>_.
     bindr (stmt (sql_insert_token tok tid)) (\<lambda>_.
     bindr (sql_delete_lease tid) (\<lambda>_. retr tok)))"

definition RotateToken :: "int \<Rightarrow> bytes \<Rightarrow> bytes \<Rightarrow> Token dbm" where
  "RotateToken tid idbytes secret = tx (rotate_tx tid (New_Token PrefixAgent idbytes secret))"

definition lease_of :: "tables \<Rightarrow> int \<Rightarrow> lease_row option" where
  "lease_of t tid = find (\<lambda>l. ls_tunnel l = tid) (leases t)"

definition account_of :: "tables \<Rightarrow> int \<Rightarrow> account_row option" where
  "account_of t i = find (\<lambda>a. acc_id a = i) (accounts t)"

definition tunnel_of :: "tables \<Rightarrow> int \<Rightarrow> tunnel_row option" where
  "tunnel_of t i = find (\<lambda>r. tun_id r = i) (tunnels t)"

text \<open>The row of a tunnel joined with its account: no row when the account is missing.\<close>

definition tunnel_view :: "tables \<Rightarrow> bool \<Rightarrow> tunnel_row \<Rightarrow> Tunnel option" where
  "tunnel_view t online r =
     map_option (\<lambda>a. \<lparr>t_id = tun_id r, t_email = acc_email a, t_plan = acc_plan a, t_subdomain = tun_subdomain r,
                      t_vpn_ip = ip4_string (tun_ip r), t_online = online\<rparr>)
       (account_of t (tun_account r))"

definition ListTunnels :: "Tunnel list dbm" where
  "ListTunnels = query (\<lambda>d.
     List.map_filter
       (\<lambda>r. tunnel_view (db_tables d)
              (case lease_of (db_tables d) (tun_id r) of None \<Rightarrow> False | Some l \<Rightarrow> db_now d < ls_expires l) r)
       (sort_key tun_id (tunnels (db_tables d))))"

definition sql_agent_by_token :: "string \<Rightarrow> tables \<Rightarrow> (Tunnel \<times> bytes) option" where
  "sql_agent_by_token i t =
     (case find (\<lambda>k. tok_row_id k = i) (tokens t) of
        None \<Rightarrow> None
      | Some k \<Rightarrow>
          (case tunnel_of t (tok_tunnel k) of
             None \<Rightarrow> None
           | Some r \<Rightarrow> map_option (\<lambda>v. (v, tok_hash k)) (tunnel_view t False r)))"

definition AuthAgent :: "Token \<Rightarrow> Tunnel dbm" where
  "AuthAgent tok =
     bindr (query (\<lambda>d. sql_agent_by_token (tok_id tok) (db_tables d))) (\<lambda>r.
       case r of
         None \<Rightarrow> throw ErrUnauthorized
       | Some (t, h) \<Rightarrow> if Verify tok h then retr t else throw ErrUnauthorized)"

section \<open>Leases\<close>

text \<open>
  INSERT INTO agent_lease ... ON CONFLICT (tunnel_id) DO UPDATE ... WHERE: the row of the
  tunnel is taken over when it belongs to the same instance or has expired, and left alone
  otherwise, which affects no row.  Another tunnel's row with the same key is a violation of
  the unique index, even when that lease has expired.
\<close>

definition sql_upsert_lease :: "int \<Rightarrow> string \<Rightarrow> string \<Rightarrow> string \<Rightarrow> duration \<Rightarrow> nat dbm" where
  "sql_upsert_lease tid inst key version ttl d =
     (let t = db_tables d; now = db_now d;
          row = \<lparr>ls_tunnel = tid, ls_instance = inst, ls_pubkey = key, ls_version = version,
                 ls_acquired = now, ls_expires = now + ttl\<rparr>;
          taken = list_ex (\<lambda>l. ls_pubkey l = key \<and> ls_tunnel l \<noteq> tid) (leases t)
      in case lease_of t tid of
           Some l \<Rightarrow>
             if ls_instance l = inst \<or> ls_expires l < now then
               if taken then (Inl unique_violation, d)
               else (Inr 1, put_tables (\<lambda>t. t\<lparr>leases := map (\<lambda>l. if ls_tunnel l = tid then row else l) (leases t)\<rparr>) d)
             else (Inr 0, d)
         | None \<Rightarrow>
             if taken then (Inl unique_violation, d)
             else if \<not> list_ex (\<lambda>r. tun_id r = tid) (tunnels t) then (Inl reference_violation, d)
             else (Inr 1, put_tables (\<lambda>t. t\<lparr>leases := leases t @ [row]\<rparr>) d))"

definition sql_token_used :: "int \<Rightarrow> nat dbm" where
  "sql_token_used tid = stmt (\<lambda>d.
     (Inr (length (filter (\<lambda>k. tok_tunnel k = tid) (tokens (db_tables d)))),
      put_tables (\<lambda>t. t\<lparr>tokens :=
        map (\<lambda>k. if tok_tunnel k = tid then k\<lparr>tok_last_used := Some (db_now d)\<rparr> else k) (tokens t)\<rparr>) d))"

definition AcquireLease :: "int \<Rightarrow> string \<Rightarrow> string \<Rightarrow> string \<Rightarrow> duration \<Rightarrow> unit dbm" where
  "AcquireLease tid inst key version ttl d =
     (case stmt (sql_upsert_lease tid inst key version ttl) d of
        (Inl e, d') \<Rightarrow> (Inl (if e = unique_violation then ErrPubkeyInUse else e), d')
      | (Inr n, d') \<Rightarrow>
          if n = 0 then (Inl ErrLeaseHeld, d')
          else (Inr (), snd (sql_token_used tid d')))"

definition sql_renew_lease :: "int \<Rightarrow> string \<Rightarrow> duration \<Rightarrow> nat dbm" where
  "sql_renew_lease tid inst ttl = stmt (\<lambda>d.
     let mine = \<lambda>l. ls_tunnel l = tid \<and> ls_instance l = inst
     in (Inr (length (filter mine (leases (db_tables d)))),
         put_tables (\<lambda>t. t\<lparr>leases :=
           map (\<lambda>l. if mine l then l\<lparr>ls_expires := db_now d + ttl\<rparr> else l) (leases t)\<rparr>) d))"

definition RenewLease :: "int \<Rightarrow> string \<Rightarrow> duration \<Rightarrow> unit dbm" where
  "RenewLease tid inst ttl = require_rows ErrSuperseded (sql_renew_lease tid inst ttl)"

definition ReleaseLease :: "int \<Rightarrow> string \<Rightarrow> unit dbm" where
  "ReleaseLease tid inst =
     bindr (affect (\<lambda>t.
       (length (filter (\<lambda>l. ls_tunnel l = tid \<and> ls_instance l = inst) (leases t)),
        t\<lparr>leases := filter (\<lambda>l. \<not> (ls_tunnel l = tid \<and> ls_instance l = inst)) (leases t)\<rparr>)))
       (\<lambda>_. retr ())"

section \<open>The constraints are kept\<close>

lemma nextval_cases:
  "nextval get upd mx d = (r, d') \<Longrightarrow>
   (r = Inl (PgError ''2200H'') \<and> d' = d \<or>
    r = Inr (get (db_seqs d)) \<and> d' = d\<lparr>db_seqs := upd (\<lambda>n. n + 1) (db_seqs d)\<rparr>)"
  by (auto simp: nextval_def split: if_splits)

lemma keeps_nextval:
  assumes "\<And>s. seqs_le s (upd (\<lambda>n. n + 1) s)"
  shows "keeps schema_ok (nextval get upd mx)"
  using assms by (auto intro!: keepsI intro: schema.same_tables simp: nextval_def)

lemma keeps_upsert_account: "keeps schema_ok (sql_upsert_account email plan)"
proof (rule keepsI)
  fix d assume ok: "schema_ok d"
  let ?d = "d\<lparr>db_seqs := (db_seqs d)\<lparr>seq_account := seq_account (db_seqs d) + 1\<rparr>\<rparr>"
  let ?row = "\<lparr>acc_id = seq_account (db_seqs d), acc_email = email, acc_plan = plan\<rparr>"
  have d': "schema_ok ?d" by (rule schema.same_tables [OF ok]) (simp_all add: seqs_le_def)
  have fresh: "acc_id ?row \<notin> acc_id ` set (accounts (db_tables d))"
    using schema_okD(2) [OF ok] by (auto simp: accounts_ok_def)
  show "schema_ok (snd (sql_upsert_account email plan d))"
  proof (cases "find (\<lambda>a. acc_email a = email) (accounts (db_tables d))")
    case None
    then have "email \<notin> acc_email ` set (accounts (db_tables d))" by (auto simp: find_None_iff)
    moreover have "schema_ok (put_tables (\<lambda>t. t\<lparr>accounts := accounts t @ [?row]\<rparr>) ?d)"
      if "plan \<in> set plans"
      using that fresh \<open>email \<notin> _\<close> by (intro schema_ok_add_account [OF d']) simp_all
    ultimately show ?thesis
      using ok d' None by (auto simp: sql_upsert_account_def bindr_def nextval_def)
  next
    case (Some a)
    then show ?thesis using ok d' by (auto simp: sql_upsert_account_def bindr_def nextval_def)
  qed
qed

lemma Random5_subdomain:
  assumes "length b = 5"
  shows "length (take 7 (Random b)) = 7 \<and> set (take 7 (Random b)) \<subseteq> set base32_alphabet"
  using assms Random_plain set_take_subset [of 7 "Random b"]
  by (auto simp: Random_def length_base32_encode)

lemma keeps_insert_tunnel:
  assumes ip: "\<And>w. inet ip = Some w \<Longrightarrow> 0 < pool_offset w \<and> pool_offset w < n \<and> pool_offset w < 2 ^ 22"
    and sub: "length sub = 7" "set sub \<subseteq> set base32_alphabet"
  shows "keeps (\<lambda>d. schema_ok d \<and> n \<le> seq_tunnel_ip (db_seqs d)) (sql_insert_tunnel account sub ip)"
proof (rule keepsI)
  fix d assume ok: "schema_ok d \<and> n \<le> seq_tunnel_ip (db_seqs d)"
  let ?d = "d\<lparr>db_seqs := (db_seqs d)\<lparr>seq_tunnel := seq_tunnel (db_seqs d) + 1\<rparr>\<rparr>"
  let ?row = "\<lambda>w. \<lparr>tun_id = seq_tunnel (db_seqs d), tun_account = account, tun_subdomain = sub, tun_ip = w\<rparr>"
  have d': "schema_ok ?d" by (rule schema.same_tables [OF conjunct1 [OF ok]]) (simp_all add: seqs_le_def)
  have fresh: "seq_tunnel (db_seqs d) \<notin> tunnel_ids (db_tables d)"
    using ok schema_okD(3) [of d] by (auto simp: tunnels_ok_def tunnel_ids_def tunnel_row_ok_def)
  have add: "schema_ok (put_tables (\<lambda>t. t\<lparr>tunnels := tunnels t @ [?row w]\<rparr>) ?d)"
    if "inet ip = Some w" "\<not> list_ex (\<lambda>r. tun_subdomain r = sub) (tunnels (db_tables d))"
      "\<not> list_ex (\<lambda>r. tun_ip r = w) (tunnels (db_tables d))"
      "list_ex (\<lambda>a. acc_id a = account) (accounts (db_tables d))" for w
    using that fresh ip [of w] sub ok
    by (intro schema_ok_add_tunnel [OF d']) (auto simp: list_ex_iff tunnel_row_ok_def)
  show "schema_ok (snd (sql_insert_tunnel account sub ip d)) \<and>
        n \<le> seq_tunnel_ip (db_seqs (snd (sql_insert_tunnel account sub ip d)))"
  proof (cases "inet ip")
    case None
    then show ?thesis using ok d' by (simp add: sql_insert_tunnel_def bindr_def nextval_def)
  next
    case (Some w)
    show ?thesis using ok d' add [OF Some] by (simp add: sql_insert_tunnel_def bindr_def nextval_def Some)
  qed
qed

section \<open>How the operations move the state\<close>

context db_relation
begin

lemma within_upsert_account: "within R (sql_upsert_account email plan)"
  unfolding sql_upsert_account_def
  by (intro within_bindr within_nextval withinI) (auto simp: seqs_le_def refl within_put split: option.splits)

lemma within_insert_tunnel: "within R (sql_insert_tunnel account sub ip)"
  unfolding sql_insert_tunnel_def
  by (intro within_bindr within_nextval withinI) (auto simp: seqs_le_def refl within_put split: option.splits)

lemma within_insert_token: "within R (sql_insert_token tok tid)"
  by (rule withinI) (simp add: sql_insert_token_def Let_def refl within_put)

lemma within_try_subdomains: "within R (try_subdomains account ip bs)"
proof (rule withinI)
  fix d show "R d (snd (try_subdomains account ip bs d))"
  proof (induction account ip bs d rule: try_subdomains.induct)
    case (2 account ip b bs d)
    obtain r d' where r: "stmt (sql_insert_tunnel account (take 7 (Random b)) ip) d = (r, d')" by fastforce
    have g: "R d d'" using within_stmt [OF within_insert_tunnel] r by (rule withinD)
    show ?case
    proof (cases "r = Inl ErrNoRows")
      case True
      with 2 [OF HOL.refl, OF r [symmetric]] g r trans show ?thesis by (auto simp: Let_def)
    next
      case False
      with g r show ?thesis by (auto simp: Let_def split: sum.splits)
    qed
  qed (simp add: refl)
qed

lemma within_create_tunnel_tx: "within R (create_tunnel_tx email plan tok subs)"
  unfolding create_tunnel_tx_def nextval_tunnel_ip_def
  by (auto simp: seqs_le_def intro!: within_rules within_nextval within_upsert_account within_try_subdomains
      within_insert_token split: sum.splits prod.splits)

lemma within_CreateTunnel: "within R (CreateTunnel email plan idb sec subs)"
  unfolding CreateTunnel_def Let_def
  by (intro within_rules within_create_tunnel_tx)

lemma within_rotate_tx: "within R (rotate_tx tid tok)"
  unfolding rotate_tx_def sql_delete_token_def sql_delete_lease_def
  by (intro within_rules within_insert_token)

lemma within_RotateToken: "within R (RotateToken tid idb sec)"
  unfolding RotateToken_def by (intro within_tx within_rotate_tx)

lemma within_AuthAgent: "within R (AuthAgent tok)"
  unfolding AuthAgent_def by (auto intro!: within_rules split: option.splits)

lemma within_ListTunnels: "within R ListTunnels"
  unfolding ListTunnels_def by (rule within_query)

lemma within_upsert_lease: "within R (sql_upsert_lease tid inst key version ttl)"
  by (rule withinI) (auto simp: sql_upsert_lease_def Let_def refl within_put split: option.splits)

lemma within_token_used: "within R (sql_token_used tid)"
  unfolding sql_token_used_def by (intro within_stmt withinI) (simp add: within_put)

lemma within_AcquireLease: "within R (AcquireLease tid inst key version ttl)"
proof (rule withinI)
  fix d
  obtain r d' where r: "stmt (sql_upsert_lease tid inst key version ttl) d = (r, d')" by fastforce
  have g: "R d d'" using within_stmt [OF within_upsert_lease] r by (rule withinD)
  moreover have "R d' (snd (sql_token_used tid d'))" using within_token_used by (simp add: within_def)
  ultimately show "R d (snd (AcquireLease tid inst key version ttl d))"
    by (cases r) (auto simp: AcquireLease_def r intro: trans)
qed

lemma within_RenewLease: "within R (RenewLease tid inst ttl)"
  unfolding RenewLease_def sql_renew_lease_def
  by (intro within_require_rows within_stmt withinI) (simp add: within_put Let_def)

lemma within_ReleaseLease: "within R (ReleaseLease tid inst)"
  unfolding ReleaseLease_def by (intro within_rules)

end

end
