(* ===== verification/Tunnel_Facts.thy ===== *)
theory Tunnel_Facts
  imports Store_Tunnels
begin

text \<open>
  What the operations on tunnels, tokens and leases do: the effect of each on the tables when
  it succeeds, that all of them keep the constraints of the schema, and that every tunnel
  always has its token (which only the transactions guarantee: between the two inserts of
  CreateTunnel the tunnel has none).
\<close>

section \<open>Effects\<close>

lemma upsert_account_Inr:
  assumes "sql_upsert_account email plan d = (Inr (a, p), d')"
  shows "\<exists>as. db_tables d' = (db_tables d)\<lparr>accounts := accounts (db_tables d) @ as\<rparr> \<and>
    (\<exists>r\<in>set (accounts (db_tables d')). acc_id r = a \<and> acc_email r = email \<and> acc_plan r = p) \<and>
    db_now d' = db_now d"
proof (cases "find (\<lambda>x. acc_email x = email) (accounts (db_tables d))")
  case None
  with assms show ?thesis
    by (auto simp: sql_upsert_account_def bindr_def nextval_def split: if_splits
        intro!: exI [of _ "[\<lparr>acc_id = a, acc_email = email, acc_plan = p\<rparr>]"])
next
  case (Some r)
  then have "r \<in> set (accounts (db_tables d)) \<and> acc_email r = email" by (auto dest: find_SomeD)
  with assms Some show ?thesis
    by (auto simp: sql_upsert_account_def bindr_def nextval_def split: if_splits intro!: exI [of _ "[]"])
qed

lemma insert_tunnel_Inr:
  assumes "sql_insert_tunnel account sub ip d = (Inr i, d')"
  shows "\<exists>w. inet ip = Some w \<and> i = seq_tunnel (db_seqs d) \<and> db_now d' = db_now d \<and>
    db_tables d' = (db_tables d)\<lparr>tunnels := tunnels (db_tables d) @
      [\<lparr>tun_id = i, tun_account = account, tun_subdomain = sub, tun_ip = w\<rparr>]\<rparr> \<and>
    sub \<notin> tun_subdomain ` set (tunnels (db_tables d)) \<and> w \<notin> tun_ip ` set (tunnels (db_tables d))"
  using assms by (auto simp: sql_insert_tunnel_def bindr_def nextval_def list_ex_iff put_tables_def
      split: if_splits option.splits)

lemma insert_tunnel_Inl: "sql_insert_tunnel account sub ip d = (Inl e, d') \<Longrightarrow> db_tables d' = db_tables d"
  by (auto simp: sql_insert_tunnel_def bindr_def nextval_def split: if_splits option.splits)

lemma try_subdomains_Inr:
  assumes "try_subdomains account ip bs d = (Inr (sub, i), d')"
  shows "\<exists>w. inet ip = Some w \<and> seq_tunnel (db_seqs d) \<le> i \<and> db_now d' = db_now d \<and>
    db_tables d' = (db_tables d)\<lparr>tunnels := tunnels (db_tables d) @
      [\<lparr>tun_id = i, tun_account = account, tun_subdomain = sub, tun_ip = w\<rparr>]\<rparr> \<and>
    sub \<notin> tun_subdomain ` set (tunnels (db_tables d)) \<and> w \<notin> tun_ip ` set (tunnels (db_tables d)) \<and>
    sub \<in> (\<lambda>b. take 7 (Random b)) ` set bs"
  using assms
proof (induction account ip bs d rule: try_subdomains.induct)
  case (2 account ip b bs d)
  let ?s = "sql_insert_tunnel account (take 7 (Random b)) ip"
  obtain r d1 where r: "stmt ?s d = (r, d1)" by fastforce
  have grow: "growth d d1" using growth.within_stmt [OF growth.within_insert_tunnel] r by (rule withinD)
  show ?case
  proof (cases r)
    case (Inr j)
    with stmt_Inr [OF r [unfolded Inr]] insert_tunnel_Inr 2(2) r show ?thesis
      by (force simp: Let_def)
  next
    case (Inl e)
    with 2(2) r have e: "e = ErrNoRows" by (auto simp: Let_def split: if_splits)
    with stmt_Inl [OF r [unfolded Inl]] insert_tunnel_Inl have same: "db_tables d1 = db_tables d" by fastforce
    have "try_subdomains account ip bs d1 = (Inr (sub, i), d')" using 2(2) r Inl e by (simp add: Let_def)
    from 2(1) [OF HOL.refl r [symmetric] Inl e this] same grow show ?thesis
      by (auto simp: growth_def seqs_le_def)
  qed
qed simp

lemma insert_token_Inr:
  assumes "sql_insert_token tok tid d = (Inr u, d')"
  shows "db_tables d' = (db_tables d)\<lparr>tokens := tokens (db_tables d) @
      [\<lparr>tok_row_id = tok_id tok, tok_tunnel = tid, tok_hash = Hash tok, tok_last_used = None\<rparr>]\<rparr> \<and>
    tok_id tok \<notin> tok_row_id ` set (tokens (db_tables d)) \<and> tid \<notin> tok_tunnel ` set (tokens (db_tables d)) \<and>
    tid \<in> tunnel_ids (db_tables d) \<and> db_now d' = db_now d"
  using assms by (auto simp: sql_insert_token_def Let_def list_ex_iff tunnel_ids_def put_tables_def split: if_splits)

text \<open>A tunnel created: its row, its token, perhaps its account, and nothing else.\<close>

definition created :: "string \<Rightarrow> Token \<Rightarrow> bytes list \<Rightarrow> db \<Rightarrow> Tunnel \<Rightarrow> tables \<Rightarrow> account_row list \<Rightarrow> tunnel_row \<Rightarrow> account_row \<Rightarrow> bool" where
  "created email tok subs d T t' as row a \<longleftrightarrow>
     t' = (db_tables d)\<lparr>accounts := accounts (db_tables d) @ as, tunnels := tunnels (db_tables d) @ [row],
       tokens := tokens (db_tables d) @
         [\<lparr>tok_row_id = tok_id tok, tok_tunnel = tun_id row, tok_hash = Hash tok, tok_last_used = None\<rparr>]\<rparr> \<and>
     a \<in> set (accounts t') \<and> acc_id a = tun_account row \<and> acc_email a = email \<and>
     T = \<lparr>t_id = tun_id row, t_email = email, t_plan = acc_plan a, t_subdomain = tun_subdomain row,
          t_vpn_ip = ip4_string (tun_ip row), t_online = False\<rparr> \<and>
     seq_tunnel (db_seqs d) \<le> tun_id row \<and> seq_tunnel_ip (db_seqs d) = pool_offset (tun_ip row) \<and>
     tun_subdomain row \<notin> tun_subdomain ` set (tunnels (db_tables d)) \<and>
     tun_ip row \<notin> tun_ip ` set (tunnels (db_tables d)) \<and>
     tok_id tok \<notin> tok_row_id ` set (tokens (db_tables d)) \<and>
     tun_id row \<notin> tok_tunnel ` set (tokens (db_tables d)) \<and>
     tun_subdomain row \<in> (\<lambda>b. take 7 (Random b)) ` set (five_values subs) \<and>
     offsetAddr clientPool (pool_offset (tun_ip row)) = Inr (tun_ip row)"

text \<open>The statements of a transaction that succeeds, one after another.\<close>

lemma create_tunnel_tx_steps:
  assumes "create_tunnel_tx email plan tok subs d = (Inr T, d')"
  obtains acct p d1 off d2 w sub i d3 where
    "stmt (sql_upsert_account email plan) d = (Inr (acct, p), d1)" "stmt nextval_tunnel_ip d1 = (Inr off, d2)"
    "offsetAddr clientPool off = Inr w" "try_subdomains acct (ip4_string w) (five_values subs) d2 = (Inr (sub, i), d3)"
    "stmt (sql_insert_token tok i) d3 = (Inr (), d')"
    "T = \<lparr>t_id = i, t_email = email, t_plan = p, t_subdomain = sub, t_vpn_ip = ip4_string w, t_online = False\<rparr>"
proof -
  from assms obtain acct p d1 off d2 where
    s1: "stmt (sql_upsert_account email plan) d = (Inr (acct, p), d1)"
    and s2: "stmt nextval_tunnel_ip d1 = (Inr off, d2)"
    and b2: "(case offsetAddr clientPool off of Inl e \<Rightarrow> throw e
       | Inr w \<Rightarrow> bindr (try_subdomains acct (ip4_string w) (five_values subs)) (\<lambda>(sub, i).
           bindr (stmt (sql_insert_token tok i)) (\<lambda>_.
           retr \<lparr>t_id = i, t_email = email, t_plan = p, t_subdomain = sub,
                  t_vpn_ip = ip4_string w, t_online = False\<rparr>))) d2 = (Inr T, d')"
    by (auto simp: bindr_Inr create_tunnel_tx_def)
  from b2 obtain w where w: "offsetAddr clientPool off = Inr w" by (cases "offsetAddr clientPool off") (auto simp: throw_def)
  from b2 [unfolded w sum.case] obtain sub i d3 where
    s3: "try_subdomains acct (ip4_string w) (five_values subs) d2 = (Inr (sub, i), d3)"
    and s4: "stmt (sql_insert_token tok i) d3 = (Inr (), d')"
    and T: "T = \<lparr>t_id = i, t_email = email, t_plan = p, t_subdomain = sub, t_vpn_ip = ip4_string w, t_online = False\<rparr>"
    by (auto simp: bindr_Inr retr_def)
  show thesis by (rule that [OF s1 s2 w s3 s4 T])
qed

lemma create_tunnel_tx_Inr:
  assumes "create_tunnel_tx email plan tok subs d = (Inr T, d')"
  shows "db_now d' = db_now d \<and> (\<exists>as row a. created email tok subs d T (db_tables d') as row a)"
proof -
  from create_tunnel_tx_steps [OF assms] obtain acct p d1 off d2 w sub i d3 where
    s1: "stmt (sql_upsert_account email plan) d = (Inr (acct, p), d1)" and s2: "stmt nextval_tunnel_ip d1 = (Inr off, d2)"
    and w: "offsetAddr clientPool off = Inr w" and s3: "try_subdomains acct (ip4_string w) (five_values subs) d2 = (Inr (sub, i), d3)"
    and s4: "stmt (sql_insert_token tok i) d3 = (Inr (), d')"
    and T: "T = \<lparr>t_id = i, t_email = email, t_plan = p, t_subdomain = sub, t_vpn_ip = ip4_string w, t_online = False\<rparr>"
    by blast
  from stmt_Inr [OF s1] obtain d0' where d0': "db_tables d0' = db_tables d" "db_now d0' = db_now d"
      and s1': "sql_upsert_account email plan d0' = (Inr (acct, p), d1)" by blast
  from upsert_account_Inr [OF s1'] obtain as where
    e1: "db_tables d1 = (db_tables d)\<lparr>accounts := accounts (db_tables d) @ as\<rparr>"
      "\<exists>r\<in>set (accounts (db_tables d1)). acc_id r = acct \<and> acc_email r = email \<and> acc_plan r = p" "db_now d1 = db_now d"
    unfolding d0' by blast
  then obtain a where a: "a \<in> set (accounts (db_tables d1))" "acc_id a = acct" "acc_email a = email" "acc_plan a = p"
    by blast
  have g1: "growth d d1" using growth.within_stmt [OF growth.within_upsert_account] s1 by (rule withinD)
  from stmt_Inr [OF s2] have e2: "db_tables d2 = db_tables d1" "off = seq_tunnel_ip (db_seqs d1)"
      "db_now d2 = db_now d" "seq_tunnel (db_seqs d2) = seq_tunnel (db_seqs d1)"
    by (auto simp: nextval_tunnel_ip_def nextval_def e1 split: if_splits)
  have ip1: "seq_tunnel_ip (db_seqs d1) = seq_tunnel_ip (db_seqs d)"
    using stmt_Inr [OF s1]
    by (auto simp: sql_upsert_account_def bindr_def nextval_def split: if_splits option.splits)
  have le: "seq_tunnel (db_seqs d) \<le> seq_tunnel (db_seqs d2)"
    using g1 e2(4) by (simp add: growth_def seqs_le_def)
  have po: "pool_offset w = off" using w by (rule pool_offset_offsetAddr)
  let ?row = "\<lparr>tun_id = i, tun_account = acct, tun_subdomain = sub, tun_ip = w\<rparr>"
  from try_subdomains_Inr [OF s3] have e3: "seq_tunnel (db_seqs d2) \<le> i" "db_now d3 = db_now d"
      "db_tables d3 = (db_tables d1)\<lparr>tunnels := tunnels (db_tables d1) @ [?row]\<rparr>"
      "sub \<notin> tun_subdomain ` set (tunnels (db_tables d1))" "w \<notin> tun_ip ` set (tunnels (db_tables d1))"
      "sub \<in> (\<lambda>b. take 7 (Random b)) ` set (five_values subs)"
    unfolding e2 by simp_all
  from stmt_Inr [OF s4] obtain d4 where d4: "db_tables d4 = db_tables d3" "db_now d4 = db_now d3"
      and s4': "sql_insert_token tok i d4 = (Inr (), d')" by blast
  from insert_token_Inr [OF s4'] have e4:
      "db_tables d' = (db_tables d3)\<lparr>tokens := tokens (db_tables d3) @
        [\<lparr>tok_row_id = tok_id tok, tok_tunnel = i, tok_hash = Hash tok, tok_last_used = None\<rparr>]\<rparr>"
      "tok_id tok \<notin> tok_row_id ` set (tokens (db_tables d3))" "i \<notin> tok_tunnel ` set (tokens (db_tables d3))"
      "db_now d' = db_now d"
    unfolding d4 e3(2) by simp_all
  have "created email tok subs d T (db_tables d') as ?row a"
    unfolding created_def
  proof (intro conjI)
    show "seq_tunnel (db_seqs d) \<le> tun_id ?row" using le e3(1) by simp
    show "seq_tunnel_ip (db_seqs d) = pool_offset (tun_ip ?row)" by (simp add: po e2(2) ip1)
    show "offsetAddr clientPool (pool_offset (tun_ip ?row)) = Inr (tun_ip ?row)" by (simp add: po w)
    show "a \<in> set (accounts (db_tables d'))" using a(1) by (simp add: e4(1) e3(3) e1(1))
    show "tok_id tok \<notin> tok_row_id ` set (tokens (db_tables d))" using e4(2) by (simp add: e3(3) e1(1))
    show "tun_id ?row \<notin> tok_tunnel ` set (tokens (db_tables d))" using e4(3) by (simp add: e3(3) e1(1))
  qed (use e3 in \<open>simp_all add: T e4 e1(1) a\<close>)
  with e4(4) show ?thesis by blast
qed

lemma created_frame:
  "db_tables d0 = db_tables d \<Longrightarrow> db_seqs d0 = db_seqs d \<Longrightarrow>
   created email tok subs d0 T t' as row a = created email tok subs d T t' as row a"
  by (simp add: created_def)

lemma CreateTunnel_Inr:
  assumes "CreateTunnel email plan idb sec subs d = (Inr (T, tok), d')"
  shows "tok = New_Token PrefixAgent idb sec \<and> db_now d' = db_now d \<and>
    (\<exists>as row a. created email tok subs d T (db_tables d') as row a)"
proof -
  from assms have tok: "tok = New_Token PrefixAgent idb sec" and "tx (create_tunnel_tx email plan tok subs) d = (Inr T, d')"
    by (auto simp: CreateTunnel_def Let_def bindr_Inr retr_def)
  from tx_Inr [OF this(2)] tok show ?thesis
    by (metis create_tunnel_tx_Inr created_frame)
qed

section \<open>Every tunnel has its token\<close>

definition has_token :: "db \<Rightarrow> bool" where
  "has_token d \<longleftrightarrow> tunnel_ids (db_tables d) \<subseteq> tok_tunnel ` set (tokens (db_tables d))"

lemma has_token_tables: "has_token d \<Longrightarrow> db_tables d' = db_tables d \<Longrightarrow> has_token d'"
  by (simp add: has_token_def)

interpretation tokened: store_invariant has_token
  by unfold_locales (rule has_token_tables)

lemma has_token_CreateTunnel: "keeps has_token (CreateTunnel email plan idb sec subs)"
proof -
  have "has_token d'" if "has_token d" "create_tunnel_tx email plan tok subs d = (Inr T, d')" for d d' tok T
  proof -
    from create_tunnel_tx_Inr [OF that(2)] obtain as row a where
      "created email tok subs d T (db_tables d') as row a" by blast
    then have "tunnels (db_tables d') = tunnels (db_tables d) @ [row]"
      "\<exists>k. tok_tunnel k = tun_id row \<and> tokens (db_tables d') = tokens (db_tables d) @ [k]"
      by (auto simp: created_def)
    with that(1) show ?thesis by (auto simp: has_token_def tunnel_ids_def)
  qed
  then show ?thesis
    unfolding CreateTunnel_def Let_def
    by (intro tokened.keeps_rules tokened.keeps_tx growth.within_create_tunnel_tx)
qed

lemma affect_Inr:
  assumes "affect f d = (Inr n, d')"
  shows "f (db_tables d) = (n, db_tables d') \<and> db_now d' = db_now d"
proof -
  from stmt_Inr [OF assms [unfolded affect_def]] obtain d1 where
    d1: "db_tables d1 = db_tables d \<and> db_seqs d1 = db_seqs d \<and> db_now d1 = db_now d \<and>
      (let (n, t) = f (db_tables d1) in (Inr n :: store_err + nat, put_tables (\<lambda>_. t) d1)) = (Inr n, d')" by blast
  obtain k t where f: "f (db_tables d) = (k, t)" by fastforce
  with d1 have "k = n \<and> d' = put_tables (\<lambda>_. t) d1 \<and> db_now d1 = db_now d" by (elim conjE) simp
  with f show ?thesis by simp
qed

lemma require_rows_Inr: "require_rows e m d = (Inr u, d') \<longleftrightarrow> (\<exists>n. n \<noteq> 0 \<and> m d = (Inr n, d'))"
  by (auto simp: require_rows_def bindr_Inr retr_def throw_def)

text \<open>A token rotated: the tunnel had one, it is replaced, and the lease is dropped.\<close>

lemma rotate_tx_Inr:
  assumes "rotate_tx tid tok d = (Inr v, d')"
  shows "v = tok \<and> tid \<in> tok_tunnel ` set (tokens (db_tables d)) \<and> db_now d' = db_now d \<and>
    tok_id tok \<notin> tok_row_id ` {k \<in> set (tokens (db_tables d)). tok_tunnel k \<noteq> tid} \<and>
    db_tables d' = (db_tables d)\<lparr>
      tokens := filter (\<lambda>k. tok_tunnel k \<noteq> tid) (tokens (db_tables d)) @
        [\<lparr>tok_row_id = tok_id tok, tok_tunnel = tid, tok_hash = Hash tok, tok_last_used = None\<rparr>],
      leases := filter (\<lambda>l. ls_tunnel l \<noteq> tid) (leases (db_tables d))\<rparr>"
proof -
  from assms obtain n d1 d2 m where
    s1: "sql_delete_token tid d = (Inr n, d1)" "n \<noteq> 0"
    and s2: "stmt (sql_insert_token tok tid) d1 = (Inr (), d2)"
    and s3: "sql_delete_lease tid d2 = (Inr m, d')" and v: "v = tok"
    by (auto simp: rotate_tx_def bindr_Inr require_rows_Inr retr_def)
  have e1: "db_tables d1 = (db_tables d)\<lparr>tokens := filter (\<lambda>k. tok_tunnel k \<noteq> tid) (tokens (db_tables d))\<rparr>"
    "n = length (filter (\<lambda>k. tok_tunnel k = tid) (tokens (db_tables d)))" "db_now d1 = db_now d"
    using affect_Inr [OF s1(1) [unfolded sql_delete_token_def]] by simp_all
  from stmt_Inr [OF s2] obtain d1' where "db_tables d1' = db_tables d1" "db_now d1' = db_now d1"
    "sql_insert_token tok tid d1' = (Inr (), d2)" by blast
  with insert_token_Inr have e2: "db_tables d2 = (db_tables d1)\<lparr>tokens := tokens (db_tables d1) @
      [\<lparr>tok_row_id = tok_id tok, tok_tunnel = tid, tok_hash = Hash tok, tok_last_used = None\<rparr>]\<rparr>"
    "tok_id tok \<notin> tok_row_id ` set (tokens (db_tables d1))" "db_now d2 = db_now d1"
    by metis+
  have e3: "db_tables d' = (db_tables d2)\<lparr>leases := filter (\<lambda>l. ls_tunnel l \<noteq> tid) (leases (db_tables d2))\<rparr>"
    "db_now d' = db_now d2"
    using affect_Inr [OF s3 [unfolded sql_delete_lease_def]] by simp_all
  have "tid \<in> tok_tunnel ` set (tokens (db_tables d))"
    using s1(2) unfolding e1(2) by (auto simp: filter_empty_conv)
  with e1 e2 e3 v show ?thesis by auto
qed

lemma has_token_RotateToken: "keeps has_token (RotateToken tid idb sec)"
  unfolding RotateToken_def
proof (rule tokened.keeps_tx [OF _ growth.within_rotate_tx])
  fix d v d' assume "has_token d" "rotate_tx tid (New_Token PrefixAgent idb sec) d = (Inr v, d')"
  then show "has_token d'"
    using rotate_tx_Inr [of tid _ d v d'] by (auto simp: has_token_def tunnel_ids_def)
qed

section \<open>The constraints are kept\<close>

interpretation above: store_invariant "\<lambda>d. schema_ok d \<and> n \<le> seq_tunnel_ip (db_seqs d)" for n
  by unfold_locales (auto simp: seqs_le_def intro: schema_ok_seqs)

lemma keeps_try_subdomains:
  assumes ip: "\<And>w. inet ip = Some w \<Longrightarrow> 0 < pool_offset w \<and> pool_offset w < n \<and> pool_offset w < 2 ^ 22"
    and "\<forall>b\<in>set bs. length b = 5"
  shows "keeps (\<lambda>d. schema_ok d \<and> n \<le> seq_tunnel_ip (db_seqs d)) (try_subdomains account ip bs)"
  using assms(2)
proof (induction bs)
  case Nil
  then show ?case by (simp add: keeps_def)
next
  case (Cons b bs)
  let ?I = "\<lambda>d. schema_ok d \<and> n \<le> seq_tunnel_ip (db_seqs d)"
  let ?s = "stmt (sql_insert_tunnel account (take 7 (Random b)) ip)"
  have k: "keeps ?I ?s"
    using Random5_subdomain [of b] Cons.prems ip by (intro above.keeps_stmt keeps_insert_tunnel) auto
  have IH: "keeps ?I (try_subdomains account ip bs)" using Cons by simp
  show ?case
  proof (rule keepsI)
    fix d assume "?I d"
    obtain r d' where r: "?s d = (r, d')" by fastforce
    then have d': "?I d'" using keepsD [OF k \<open>?I d\<close>] by simp
    then have "?I (snd (try_subdomains account ip bs d'))" by (rule keepsD [OF IH])
    with r d' show "?I (snd (try_subdomains account ip (b # bs) d))"
      by (cases r) (simp_all add: Let_def)
  qed
qed

lemma keeps_insert_token: "keeps schema_ok (sql_insert_token tok tid)"
proof (rule keepsI)
  fix d assume ok: "schema_ok d"
  note t = schema_okD(4) [OF ok, unfolded tokens_ok_def]
  show "schema_ok (snd (sql_insert_token tok tid d))"
  proof (cases "list_ex (\<lambda>k. tok_row_id k = tok_id tok \<or> tok_tunnel k = tid) (tokens (db_tables d))
      \<or> \<not> list_ex (\<lambda>r. tun_id r = tid) (tunnels (db_tables d))")
    case False
    then have f: "tid \<in> tunnel_ids (db_tables d)" "tok_id tok \<notin> tok_row_id ` set (tokens (db_tables d))"
      "tid \<notin> tok_tunnel ` set (tokens (db_tables d))"
      by (auto simp: list_ex_iff tunnel_ids_def)
    have "schema_ok (put_tables (\<lambda>t. t\<lparr>tokens := tokens t @
        [\<lparr>tok_row_id = tok_id tok, tok_tunnel = tid, tok_hash = Hash tok, tok_last_used = None\<rparr>]\<rparr>) d)"
      by (rule schema_ok_tokens [OF ok], rule HOL.refl) (use t f in \<open>auto simp: tokens_ok_def\<close>)
    with False show ?thesis by (simp add: sql_insert_token_def)
  qed (use ok in \<open>auto simp: sql_insert_token_def Let_def\<close>)
qed

lemma keeps_create_tunnel_tx:
  assumes subs: "\<forall>b\<in>set subs. length b = 5"
  shows "keeps schema_ok (create_tunnel_tx email plan tok subs)"
proof -
  have rest: "keeps schema_ok (bindr (stmt nextval_tunnel_ip) (\<lambda>off.
     case offsetAddr clientPool off of
       Inl e \<Rightarrow> throw e
     | Inr w \<Rightarrow>
         bindr (try_subdomains account (ip4_string w) (five_values subs)) (\<lambda>(sub, i).
         bindr (stmt (sql_insert_token tok i)) (\<lambda>_. retr (F w sub i)))))" (is "keeps _ (bindr _ ?rest)")
    for account and F :: "32 word \<Rightarrow> string \<Rightarrow> int \<Rightarrow> Tunnel"
  proof (rule keepsI)
    fix d assume ok: "schema_ok d"
    have nv: "keeps schema_ok (stmt nextval_tunnel_ip)"
      unfolding nextval_tunnel_ip_def by (intro schema.keeps_stmt keeps_nextval) (simp add: seqs_le_def)
    obtain r d' where r: "stmt nextval_tunnel_ip d = (r, d')" by fastforce
    have ok': "schema_ok d'" using keepsD [OF nv ok] r by simp
    show "schema_ok (snd (bindr (stmt nextval_tunnel_ip) ?rest d))"
    proof (cases r)
      case (Inr off)
      with stmt_Inr [of nextval_tunnel_ip d off d'] r have off: "seq_tunnel_ip (db_seqs d') = off + 1"
        by (auto simp: nextval_tunnel_ip_def nextval_def split: if_splits)
      show ?thesis
      proof (cases "offsetAddr clientPool off")
        case (Inr w)
        then have w: "0 < pool_offset w \<and> pool_offset w < off + 1 \<and> pool_offset w < 2 ^ 22"
          using pool_offset_offsetAddr [OF Inr] by (simp add: offsetAddr_pool)
        have "keeps (\<lambda>d. schema_ok d \<and> off + 1 \<le> seq_tunnel_ip (db_seqs d)) (try_subdomains account (ip4_string w) (five_values subs))"
          using w five_values_bytes [OF subs] by (intro keeps_try_subdomains) simp_all
        from keepsD [OF this] ok' off have 1: "schema_ok (snd (try_subdomains account (ip4_string w) (five_values subs) d'))" by simp
        obtain q d2 where q: "try_subdomains account (ip4_string w) (five_values subs) d' = (q, d2)" by fastforce
        have "keeps schema_ok (bindr (stmt (sql_insert_token tok i)) (\<lambda>_. retr (F w sub i)))" for sub i
          by (intro schema.keeps_rules keeps_insert_token)
        from keepsD [OF this, of d2] 1 q show ?thesis
          by (cases q) (auto simp: bindr_def [of "stmt nextval_tunnel_ip"] r \<open>r = Inr off\<close> Inr
              bindr_def [of "try_subdomains account (ip4_string w) (five_values subs)"])
      qed (use ok' in \<open>simp add: bindr_def r \<open>r = Inr off\<close> throw_def\<close>)
    qed (use ok' in \<open>simp add: bindr_def r\<close>)
  qed
  show ?thesis
    unfolding create_tunnel_tx_def
    by (intro schema.keeps_bindr schema.keeps_stmt keeps_upsert_account) (auto intro: rest)
qed

lemma keeps_CreateTunnel:
  assumes "\<forall>b\<in>set subs. length b = 5"
  shows "keeps schema_ok (CreateTunnel email plan idb sec subs)"
  unfolding CreateTunnel_def Let_def
  using keepsD [OF keeps_create_tunnel_tx [OF assms]]
  by (intro schema.keeps_rules schema.keeps_tx growth.within_create_tunnel_tx) (metis snd_conv)

lemma keeps_delete_token: "keeps schema_ok (sql_delete_token tid)"
  unfolding sql_delete_token_def
proof (rule schema.keeps_affect)
  fix d assume ok: "schema_ok d"
  show "schema_ok (put_tables (\<lambda>_. snd (length (filter (\<lambda>k. tok_tunnel k = tid) (tokens (db_tables d))),
      (db_tables d)\<lparr>tokens := filter (\<lambda>k. tok_tunnel k \<noteq> tid) (tokens (db_tables d))\<rparr>)) d)"
    unfolding snd_conv
    by (rule schema_ok_tokens [OF ok], rule HOL.refl)
      (use schema_okD(4) [OF ok] in \<open>auto simp: tokens_ok_def intro: distinct_map_filter_key\<close>)
qed

lemma keeps_filter_leases:
  "keeps schema_ok (affect (\<lambda>t. (n t, t\<lparr>leases := filter P (leases t)\<rparr>)))"
proof (rule schema.keeps_affect)
  fix d assume ok: "schema_ok d"
  show "schema_ok (put_tables (\<lambda>_. snd (n (db_tables d), (db_tables d)\<lparr>leases := filter P (leases (db_tables d))\<rparr>)) d)"
    unfolding snd_conv
    by (rule schema_ok_leases [OF ok], rule HOL.refl)
      (use schema_okD(5) [OF ok] in \<open>auto simp: leases_ok_def intro: distinct_map_filter_key\<close>)
qed

lemma keeps_RotateToken: "keeps schema_ok (RotateToken tid idb sec)"
proof -
  have b: "keeps schema_ok (rotate_tx tid tok)" for tok
    unfolding rotate_tx_def sql_delete_lease_def
    by (intro schema.keeps_rules keeps_delete_token keeps_insert_token keeps_filter_leases)
  show ?thesis
    unfolding RotateToken_def
    by (intro schema.keeps_tx growth.within_rotate_tx) (metis keepsD [OF b] snd_conv)
qed

lemma distinct_map_upd:
  assumes "distinct (map k xs)" and "v \<notin> k ` {x \<in> set xs. \<not> P x}"
    and "\<And>x y. x \<in> set xs \<Longrightarrow> y \<in> set xs \<Longrightarrow> P x \<Longrightarrow> P y \<Longrightarrow> x = y" and "k row = v" and "distinct xs"
  shows "distinct (map k (map (\<lambda>x. if P x then row else x) xs))"
  using assms
proof (induction xs)
  case (Cons x xs)
  have IH: "distinct (map k (map (\<lambda>x. if P x then row else x) xs))"
    using Cons by (intro Cons.IH) auto
  show ?case
  proof (cases "P x")
    case True
    then have "\<forall>y\<in>set xs. \<not> P y" using Cons.prems(3,5) by (metis distinct.simps(2) list.set_intros(1,2))
    then have "map (\<lambda>x. if P x then row else x) xs = xs" by (intro map_if_id) auto
    with True Cons.prems(1,2,4) \<open>\<forall>y\<in>set xs. \<not> P y\<close> show ?thesis by auto
  next
    case False
    then have "k x \<noteq> v" using Cons.prems(2) by auto
    with False Cons.prems(1,4) IH show ?thesis by (auto split: if_splits)
  qed
qed simp

lemma keeps_upsert_lease: "keeps schema_ok (sql_upsert_lease tid inst key version ttl)"
proof (rule keepsI)
  fix d assume ok: "schema_ok d"
  let ?t = "db_tables d"
  let ?row = "\<lparr>ls_tunnel = tid, ls_instance = inst, ls_pubkey = key, ls_version = version,
               ls_acquired = db_now d, ls_expires = db_now d + ttl\<rparr>"
  note l = schema_okD(5) [OF ok, unfolded leases_ok_def]
  have add: "schema_ok (put_tables (\<lambda>t. t\<lparr>leases := leases t @ [?row]\<rparr>) d)"
    if f: "\<not> list_ex (\<lambda>l. ls_pubkey l = key \<and> ls_tunnel l \<noteq> tid) (leases ?t)" "lease_of ?t tid = None"
      "list_ex (\<lambda>r. tun_id r = tid) (tunnels ?t)"
    by (rule schema_ok_leases [OF ok], rule HOL.refl)
      (use l f in \<open>auto simp: leases_ok_def list_ex_iff lease_of_def find_None_iff tunnel_ids_def\<close>)
  have upd: "schema_ok (put_tables (\<lambda>t. t\<lparr>leases := map (\<lambda>l. if ls_tunnel l = tid then ?row else l) (leases t)\<rparr>) d)"
    if f: "\<not> list_ex (\<lambda>l. ls_pubkey l = key \<and> ls_tunnel l \<noteq> tid) (leases ?t)"
  proof (rule schema_ok_leases [OF ok], rule HOL.refl)
    have "distinct (map ls_pubkey (map (\<lambda>l. if ls_tunnel l = tid then ?row else l) (leases ?t)))"
    proof (rule distinct_map_upd [where v = key])
      show "distinct (leases ?t)" using l by (simp add: distinct_map)
      show "key \<notin> ls_pubkey ` {x \<in> set (leases ?t). ls_tunnel x \<noteq> tid}" using f by (auto simp: list_ex_iff)
    qed (use l in \<open>auto dest: distinct_key_inj\<close>)
    moreover have "map ls_tunnel (map (\<lambda>l. if ls_tunnel l = tid then ?row else l) (leases ?t)) = map ls_tunnel (leases ?t)"
      by auto
    ultimately show "leases_ok (?t\<lparr>leases := map (\<lambda>l. if ls_tunnel l = tid then ?row else l) (leases ?t)\<rparr>)"
      using l unfolding leases_ok_def by (auto simp del: map_map)
  qed
  show "schema_ok (snd (sql_upsert_lease tid inst key version ttl d))"
    using ok add upd by (auto simp: sql_upsert_lease_def Let_def split: option.splits)
qed

lemma keeps_map_leases:
  assumes "\<And>l. ls_tunnel (g (now :: instant) l) = ls_tunnel l" and "\<And>l. ls_pubkey (g now l) = ls_pubkey l"
  shows "schema_ok d \<Longrightarrow> schema_ok (put_tables (\<lambda>t. t\<lparr>leases := map (\<lambda>l. if P l then g now l else l) (leases t)\<rparr>) d)"
proof (rule schema_ok_leases, assumption, rule HOL.refl)
  assume ok: "schema_ok d"
  have "map ls_tunnel (map (\<lambda>l. if P l then g now l else l) (leases (db_tables d))) = map ls_tunnel (leases (db_tables d))"
    "map ls_pubkey (map (\<lambda>l. if P l then g now l else l) (leases (db_tables d))) = map ls_pubkey (leases (db_tables d))"
    using assms by (intro map_key_rewrite; simp)+
  with schema_okD(5) [OF ok] assms(1)
  show "leases_ok ((db_tables d)\<lparr>leases := map (\<lambda>l. if P l then g now l else l) (leases (db_tables d))\<rparr>)"
    unfolding leases_ok_def by (auto simp del: map_map)
qed

lemma keeps_map_tokens:
  assumes "\<And>k. tok_row_id (g k) = tok_row_id k" and "\<And>k. tok_tunnel (g k) = tok_tunnel k"
  shows "schema_ok d \<Longrightarrow> schema_ok (put_tables (\<lambda>t. t\<lparr>tokens := map (\<lambda>k. if P k then g k else k) (tokens t)\<rparr>) d)"
proof (rule schema_ok_tokens, assumption, rule HOL.refl)
  assume ok: "schema_ok d"
  have "map tok_row_id (map (\<lambda>k. if P k then g k else k) (tokens (db_tables d))) = map tok_row_id (tokens (db_tables d))"
    "map tok_tunnel (map (\<lambda>k. if P k then g k else k) (tokens (db_tables d))) = map tok_tunnel (tokens (db_tables d))"
    using assms by (intro map_key_rewrite; simp)+
  with schema_okD(4) [OF ok] assms(2)
  show "tokens_ok ((db_tables d)\<lparr>tokens := map (\<lambda>k. if P k then g k else k) (tokens (db_tables d))\<rparr>)"
    unfolding tokens_ok_def by (auto simp del: map_map)
qed

lemma keeps_token_used: "keeps schema_ok (sql_token_used tid)"
  unfolding sql_token_used_def by (intro schema.keeps_stmt keepsI) (simp add: keeps_map_tokens)

lemma keeps_AcquireLease: "keeps schema_ok (AcquireLease tid inst key version ttl)"
proof (rule keepsI)
  fix d assume ok: "schema_ok d"
  obtain r d' where r: "stmt (sql_upsert_lease tid inst key version ttl) d = (r, d')" by fastforce
  with keepsD [OF schema.keeps_stmt [OF keeps_upsert_lease] ok] have "schema_ok d'" by (metis snd_conv)
  with keepsD [OF keeps_token_used] r show "schema_ok (snd (AcquireLease tid inst key version ttl d))"
    by (cases r) (auto simp: AcquireLease_def)
qed

lemma keeps_RenewLease: "keeps schema_ok (RenewLease tid inst ttl)"
  unfolding RenewLease_def sql_renew_lease_def Let_def
  by (intro schema.keeps_require_rows schema.keeps_stmt keepsI)
    (simp add: keeps_map_leases [where g = "\<lambda>now l. l\<lparr>ls_expires := now + ttl\<rparr>"])

lemma keeps_ReleaseLease: "keeps schema_ok (ReleaseLease tid inst)"
  unfolding ReleaseLease_def by (intro schema.keeps_rules keeps_filter_leases)

lemma keeps_AuthAgent: "keeps schema_ok (AuthAgent tok)"
  unfolding AuthAgent_def by (auto intro!: schema.keeps_rules split: option.splits)

lemma keeps_ListTunnels: "keeps schema_ok ListTunnels"
  unfolding ListTunnels_def by (rule schema.keeps_query)

lemmas tunnel_ops_keep_schema =
  keeps_CreateTunnel keeps_RotateToken keeps_AcquireLease keeps_RenewLease keeps_ReleaseLease
  keeps_AuthAgent keeps_ListTunnels

end
