(* ===== verification/Tunnel_Props.thy ===== *)
theory Tunnel_Props
  imports Tunnel_Facts
begin

text \<open>
  What the store promises of tunnels, tokens and leases: the token of a new tunnel
  authenticates it, rotation revokes, transactions are all or nothing, addresses are fresh
  and a lease is granted only when no other instance holds it.
\<close>

section \<open>Looking rows up by key\<close>

lemma tunnel_of_Some:
  assumes "tunnels_ok s t" and "r \<in> set (tunnels t)"
  shows "tunnel_of t (tun_id r) = Some r"
  using assms by (simp add: tunnel_of_def tunnels_ok_def find_key_unique)

lemma account_of_Some:
  assumes "accounts_ok s t" and "a \<in> set (accounts t)"
  shows "account_of t (acc_id a) = Some a"
  using assms by (simp add: account_of_def accounts_ok_def find_key_unique)

lemma token_find:
  assumes "tokens_ok t" and "k \<in> set (tokens t)"
  shows "find (\<lambda>x. tok_row_id x = tok_row_id k) (tokens t) = Some k"
  using assms by (simp add: tokens_ok_def find_key_unique)

lemma lease_of_Some_iff:
  assumes "leases_ok t"
  shows "lease_of t tid = Some l \<longleftrightarrow> l \<in> set (leases t) \<and> ls_tunnel l = tid"
  using assms find_key_unique [of ls_tunnel "leases t" l] find_SomeD [of _ "leases t" l]
  by (auto simp: lease_of_def leases_ok_def)

text \<open>A tunnel's row always joins with its account.\<close>

lemma tunnel_view_Some:
  assumes "schema_ok d" and "r \<in> set (tunnels (db_tables d))"
  obtains a where "a \<in> set (accounts (db_tables d))" "acc_id a = tun_account r"
    "tunnel_view (db_tables d) online r = Some \<lparr>t_id = tun_id r, t_email = acc_email a, t_plan = acc_plan a,
       t_subdomain = tun_subdomain r, t_vpn_ip = ip4_string (tun_ip r), t_online = online\<rparr>"
proof -
  from schema_okD(3) [OF assms(1)] assms(2) obtain a where a: "a \<in> set (accounts (db_tables d))" "acc_id a = tun_account r"
    by (auto simp: tunnels_ok_def tunnel_row_ok_def)
  from account_of_Some [OF schema_okD(2) [OF assms(1)] a(1)] a show thesis
    by (intro that [OF a]) (simp add: tunnel_view_def)
qed

lemma sql_agent_by_token_iff:
  assumes ok: "schema_ok d"
  shows "sql_agent_by_token i (db_tables d) = Some (T, h) \<longleftrightarrow>
    (\<exists>k\<in>set (tokens (db_tables d)). \<exists>r\<in>set (tunnels (db_tables d)).
       tok_row_id k = i \<and> tok_hash k = h \<and> tun_id r = tok_tunnel k \<and> tunnel_view (db_tables d) False r = Some T)"
    (is "?l = ?r")
proof
  assume ?l
  then obtain k r where "find (\<lambda>k. tok_row_id k = i) (tokens (db_tables d)) = Some k"
    "tunnel_of (db_tables d) (tok_tunnel k) = Some r" "tunnel_view (db_tables d) False r = Some T" "tok_hash k = h"
    by (auto simp: sql_agent_by_token_def split: option.splits)
  then show ?r by (auto simp: tunnel_of_def dest!: find_SomeD)
next
  assume ?r
  then obtain k r where k: "k \<in> set (tokens (db_tables d))" "tok_row_id k = i" "tok_hash k = h"
    and r: "r \<in> set (tunnels (db_tables d))" "tun_id r = tok_tunnel k" "tunnel_view (db_tables d) False r = Some T"
    by blast
  from token_find [OF schema_okD(4) [OF ok] k(1)] tunnel_of_Some [OF schema_okD(3) [OF ok] r(1)] k r
  show ?l by (simp add: sql_agent_by_token_def)
qed

lemma AuthAgent_run:
  "db_faults d = [] \<Longrightarrow> AuthAgent tok d =
     (case sql_agent_by_token (tok_id tok) (db_tables d) of
        Some (T, h) \<Rightarrow> if Verify tok h then (Inr T, d) else (Inl ErrUnauthorized, d)
      | None \<Rightarrow> (Inl ErrUnauthorized, d))"
  by (simp add: AuthAgent_def bindr_def query_run retr_def throw_def split: option.splits)

lemma AuthAgent_Inr_iff:
  assumes ok: "schema_ok d" and run: "db_faults d = []"
  shows "AuthAgent tok d = (Inr T, d') \<longleftrightarrow> d' = d \<and>
    (\<exists>k\<in>set (tokens (db_tables d)). \<exists>r\<in>set (tunnels (db_tables d)).
       tok_row_id k = tok_id tok \<and> tok_hash k = Hash tok \<and> tun_id r = tok_tunnel k \<and>
       tunnel_view (db_tables d) False r = Some T)"
proof -
  have "AuthAgent tok d = (Inr T, d') \<longleftrightarrow> d' = d \<and> sql_agent_by_token (tok_id tok) (db_tables d) = Some (T, Hash tok)"
    by (auto simp: AuthAgent_run [OF run] Verify_iff split: option.splits if_splits)
  then show ?thesis unfolding sql_agent_by_token_iff [OF ok] by blast
qed

lemma AuthAgent_total:
  "db_faults d = [] \<Longrightarrow> (\<exists>T. AuthAgent tok d = (Inr T, d)) \<or> AuthAgent tok d = (Inl ErrUnauthorized, d)"
  by (auto simp: AuthAgent_run split: option.splits)

section \<open>A first tunnel\<close>

text \<open>One tunnel created in the empty database, for the examples.\<close>

lemmas run_defs =
  five_values_Cons CreateTunnel_def create_tunnel_tx_def tx_def next_fault_def db_init_def bindr_def stmt_def sql_upsert_account_def
  nextval_def nextval_tunnel_ip_def plans_def initial_seqs_def max_bigint_def empty_tables_def offsetAddr_def
  clientPool_def sql_insert_tunnel_def sql_insert_token_def put_tables_def retr_def Let_def

definition first_tunnel :: "(store_err + Tunnel \<times> Token) \<times> db" where
  "first_tunnel = CreateTunnel ''a@b'' ''free'' [1] [2] [[0, 0, 0, 0, 0]] (db_init 0 [])"

definition first_db :: db where
  "first_db = snd first_tunnel"

lemma first_tunnel_run: "\<exists>T tok. first_tunnel = (Inr (T, tok), first_db) \<and> t_id T = 1"
  by (simp add: first_db_def first_tunnel_def run_defs)

lemma first_db_faults: "db_faults first_db = []"
  by (simp add: first_db_def first_tunnel_def run_defs)

lemma first_db_ok: "schema_ok first_db"
  unfolding first_db_def first_tunnel_def
  by (rule keepsD [OF keeps_CreateTunnel schema_ok_init]) simp

lemma first_auth: "\<exists>T. AuthAgent (New_Token PrefixAgent [1] [2]) first_db = (Inr T, first_db) \<and> t_id T = 1"
  unfolding AuthAgent_run [OF first_db_faults]
  by (simp add: first_db_def first_tunnel_def run_defs sql_agent_by_token_def tunnel_of_def tunnel_view_def
      account_of_def Verify_iff)

lemma first_rotation:
  "\<exists>tok d'. RotateToken 1 [3] [4] first_db = (Inr tok, d') \<and> db_faults d' = []"
  by (simp add: first_db_def first_tunnel_def run_defs RotateToken_def rotate_tx_def require_rows_def
      sql_delete_token_def sql_delete_lease_def affect_def)

section \<open>Properties\<close>

text \<open>
  The token that CreateTunnel returns authenticates exactly the tunnel it returns, with the
  account's plan and address, in the state it leaves.
\<close>
lemma CreateTunnel_authenticates:
  assumes "schema_ok d" and "\<forall>b\<in>set subs. length b = 5"
    and "CreateTunnel email plan idb sec subs d = (Inr (T, tok), d')" and "db_faults d' = []"
  shows "AuthAgent tok d' = (Inr T, d')"
proof -
  have ok: "schema_ok d'" using keepsD [OF keeps_CreateTunnel [OF assms(2)] assms(1)] assms(3) by (metis snd_conv)
  from CreateTunnel_Inr [OF assms(3)] obtain as row a where
    c: "created email tok subs d T (db_tables d') as row a" by blast
  then have t: "row \<in> set (tunnels (db_tables d'))" "a \<in> set (accounts (db_tables d'))" "acc_id a = tun_account row"
    "\<lparr>tok_row_id = tok_id tok, tok_tunnel = tun_id row, tok_hash = Hash tok, tok_last_used = None\<rparr> \<in> set (tokens (db_tables d'))"
    unfolding created_def by (elim conjE, simp)+
  have "tunnel_view (db_tables d') False row = Some T"
    using account_of_Some [OF schema_okD(2) [OF ok] t(2)] t(3) c by (simp add: tunnel_view_def created_def)
  with t show ?thesis unfolding AuthAgent_Inr_iff [OF ok assms(4)] by force
qed

lemma first_tunnel_authenticates:
  "\<exists>T tok. first_tunnel = (Inr (T, tok), first_db) \<and> AuthAgent tok first_db = (Inr T, first_db)"
proof -
  obtain T tok where t: "first_tunnel = (Inr (T, tok), first_db)" using first_tunnel_run by blast
  from CreateTunnel_authenticates [OF schema_ok_init _ t [unfolded first_tunnel_def] first_db_faults] t
  show ?thesis by auto
qed

text \<open>
  C14: The address of a new tunnel lies strictly beyond the addresses of all tunnels of the
  store (so none is reused), within 10.64.0.0/10, and is no node's gateway; its subdomain is
  new too.
\<close>
theorem CreateTunnel_fresh:
  assumes "schema_ok d" and "CreateTunnel email plan idb sec subs d = (Inr (T, tok), d')"
  shows "\<exists>w. t_vpn_ip T = ip4_string w \<and> 0 < pool_offset w \<and> pool_offset w < 2 ^ 22 \<and>
    (\<forall>r\<in>set (tunnels (db_tables d)). pool_offset (tun_ip r) < pool_offset w \<and> tun_subdomain r \<noteq> t_subdomain T) \<and>
    (\<forall>n\<in>set (node_rows (db_tables d)). nd_gateway n \<noteq> w)"
proof -
  from CreateTunnel_Inr [OF assms(2)] obtain as row a where
    c: "created email tok subs d T (db_tables d') as row a" by blast
  let ?w = "tun_ip row"
  from c have off: "0 < pool_offset ?w" "pool_offset ?w < 2 ^ 22" by (simp_all add: created_def offsetAddr_pool)
  moreover have "pool_offset (tun_ip r) < pool_offset ?w \<and> tun_subdomain r \<noteq> t_subdomain T"
    if "r \<in> set (tunnels (db_tables d))" for r
  proof -
    have "t_subdomain T = tun_subdomain row" "tun_subdomain row \<notin> tun_subdomain ` set (tunnels (db_tables d))"
      "seq_tunnel_ip (db_seqs d) = pool_offset ?w" using c unfolding created_def by (elim conjE, simp)+
    with that schema_okD(3) [OF assms(1)] show ?thesis
      by (metis imageI tunnel_row_ok_def tunnels_ok_def)
  qed
  moreover have "nd_gateway n \<noteq> ?w" if "n \<in> set (node_rows (db_tables d))" for n
    using that schema_okD(6) [OF assms(1)] gateway_not_in_pool [OF off(2)] by (auto simp: nodes_ok_def)
  moreover from c have "t_vpn_ip T = ip4_string ?w" by (simp add: created_def)
  ultimately show ?thesis by blast
qed

theorem CreateTunnel_fresh_witness:
  "\<exists>T tok w. first_tunnel = (Inr (T, tok), first_db) \<and> t_vpn_ip T = ip4_string w \<and> pool_offset w < 2 ^ 22"
proof -
  obtain T tok where t: "first_tunnel = (Inr (T, tok), first_db)" using first_tunnel_run by blast
  from CreateTunnel_fresh [OF schema_ok_init t [unfolded first_tunnel_def]] t show ?thesis by blast
qed

text \<open>
  A CreateTunnel that fails leaves every table as it was (no account, tunnel or token is
  half created), unless the reply to its COMMIT was lost.
\<close>
theorem CreateTunnel_atomic:
  assumes "CreateTunnel email plan idb sec subs d = (Inl e, d')" and "no_lost_reply d"
  shows "db_tables d' = db_tables d"
proof -
  from assms(1) have "tx (create_tunnel_tx email plan (New_Token PrefixAgent idb sec) subs) d = (Inl e, d')"
    by (auto simp: CreateTunnel_def Let_def bindr_def retr_def split: prod.splits sum.splits)
  then show ?thesis using assms(2) spent.within_create_tunnel_tx by (rule tx_atomic)
qed

theorem CreateTunnel_atomic_witness:
  "\<exists>e d'. CreateTunnel ''a@b'' ''free'' [1] [2] [[0, 0, 0, 0, 0]]
      (db_init 0 [Answered, Answered, Answered, Answered, Lost]) = (Inl e, d') \<and> db_tables d' = empty_tables"
proof -
  let ?d = "db_init 0 [Answered, Answered, Answered, Answered, Lost]"
  obtain e d' where e: "CreateTunnel ''a@b'' ''free'' [1] [2] [[0, 0, 0, 0, 0]] ?d = (Inl e, d')"
    by (simp add: run_defs)
  have "no_lost_reply ?d" by (simp add: no_lost_reply_def db_init_def)
  from CreateTunnel_atomic [OF e this] e show ?thesis by (auto simp: db_init_def)
qed

text \<open>What a rotation leaves: the tokens and leases of the other tunnels, and the new token.\<close>

lemma RotateToken_tables:
  assumes rot: "RotateToken tid idb sec d = (Inr tok, d')"
  shows "tid \<in> tok_tunnel ` set (tokens (db_tables d))"
    and "db_tables d' = (db_tables d)\<lparr>tokens := filter (\<lambda>k. tok_tunnel k \<noteq> tid) (tokens (db_tables d)) @
       [\<lparr>tok_row_id = tok_id tok, tok_tunnel = tid, tok_hash = Hash tok, tok_last_used = None\<rparr>],
       leases := filter (\<lambda>l. ls_tunnel l \<noteq> tid) (leases (db_tables d))\<rparr>"
proof -
  from tx_Inr [OF rot [unfolded RotateToken_def]] obtain d0 dn where
    d0: "db_tables d0 = db_tables d" and dn: "db_tables d' = db_tables dn"
    and b: "rotate_tx tid (New_Token PrefixAgent idb sec) d0 = (Inr tok, dn)" by blast
  from rotate_tx_Inr [OF b] show "tid \<in> tok_tunnel ` set (tokens (db_tables d))"
    "db_tables d' = (db_tables d)\<lparr>tokens := filter (\<lambda>k. tok_tunnel k \<noteq> tid) (tokens (db_tables d)) @
       [\<lparr>tok_row_id = tok_id tok, tok_tunnel = tid, tok_hash = Hash tok, tok_last_used = None\<rparr>],
       leases := filter (\<lambda>l. ls_tunnel l \<noteq> tid) (leases (db_tables d))\<rparr>"
    by (simp_all add: d0 dn)
qed

lemma find_filter_others: "t \<noteq> tid \<Longrightarrow> find (\<lambda>l. f l = t) (filter (\<lambda>l. f l \<noteq> tid) ls) = find (\<lambda>l. f l = t) ls"
  by (induction ls) auto

lemma tunnel_view_id: "tunnel_view t onl r = Some T \<Longrightarrow> t_id T = tun_id r"
  by (auto simp: tunnel_view_def)

text \<open>
  C10: RotateToken revokes: afterwards no token with another id authenticates the tunnel, the new
  one does, and the tunnel holds no lease.  The other tunnels are unaffected: their tokens work as
  before, the rows of their tokens and leases are the same, and no other table changes.
\<close>
theorem RotateToken_revokes:
  assumes ok: "schema_ok d" and rot: "RotateToken tid idb sec d = (Inr tok, d')"
    and run: "db_faults d = []" "db_faults d' = []"
  shows "(\<forall>old T. AuthAgent old d' = (Inr T, d') \<and> t_id T = tid \<longrightarrow> tok_id old = tok_id tok \<and> Hash old = Hash tok) \<and>
    (\<exists>T. AuthAgent tok d' = (Inr T, d') \<and> t_id T = tid) \<and>
    lease_of (db_tables d') tid = None \<and>
    (\<forall>other T. t_id T \<noteq> tid \<longrightarrow> AuthAgent other d = (Inr T, d) \<longrightarrow> AuthAgent other d' = (Inr T, d')) \<and>
    (\<forall>t. t \<noteq> tid \<longrightarrow> lease_of (db_tables d') t = lease_of (db_tables d) t) \<and>
    filter (\<lambda>l. ls_tunnel l \<noteq> tid) (leases (db_tables d')) = filter (\<lambda>l. ls_tunnel l \<noteq> tid) (leases (db_tables d)) \<and>
    filter (\<lambda>k. tok_tunnel k \<noteq> tid) (tokens (db_tables d')) = filter (\<lambda>k. tok_tunnel k \<noteq> tid) (tokens (db_tables d)) \<and>
    (db_tables d')\<lparr>tokens := [], leases := []\<rparr> = (db_tables d)\<lparr>tokens := [], leases := []\<rparr>"
proof -
  have ok': "schema_ok d'" using keepsD [OF keeps_RotateToken ok] rot by (metis snd_conv)
  let ?new = "\<lparr>tok_row_id = tok_id tok, tok_tunnel = tid, tok_hash = Hash tok, tok_last_used = None\<rparr>"
  note e = RotateToken_tables [OF rot] and tid = tunnel_view_id
  have view: "tunnel_view (db_tables d') onl r = tunnel_view (db_tables d) onl r" for onl r
    by (simp add: tunnel_view_def account_of_def e(2))
  have tk: "set (tokens (db_tables d')) = insert ?new {k \<in> set (tokens (db_tables d)). tok_tunnel k \<noteq> tid}"
    and tn: "tunnels (db_tables d') = tunnels (db_tables d)" by (auto simp: e(2))
  note auth = AuthAgent_Inr_iff [OF ok run(1)] AuthAgent_Inr_iff [OF ok' run(2)]
  from e(1) schema_okD(4) [OF ok] obtain r where r: "r \<in> set (tunnels (db_tables d))" "tun_id r = tid"
    by (auto simp: tokens_ok_def tunnel_ids_def)
  from r(1) obtain a T where T: "tunnel_view (db_tables d) False r = Some T" by (rule tunnel_view_Some [OF ok]) blast
  have 1: "tok_id old = tok_id tok \<and> Hash old = Hash tok"
    if "AuthAgent old d' = (Inr T, d')" "t_id T = tid" for old T
  proof -
    from that(1) obtain k r where k: "k \<in> insert ?new {k \<in> set (tokens (db_tables d)). tok_tunnel k \<noteq> tid}"
      "tok_row_id k = tok_id old" "tok_hash k = Hash old" "tun_id r = tok_tunnel k"
      "tunnel_view (db_tables d) False r = Some T"
      unfolding auth tk tn view by blast
    with tid [OF k(5)] that(2) have "k = ?new" by auto
    with k show ?thesis by simp
  qed
  have 2: "AuthAgent tok d' = (Inr T, d') \<and> t_id T = tid"
    using r T tid unfolding auth tk tn view by auto
  have 3: "lease_of (db_tables d') tid = None" by (auto simp: lease_of_def e(2) find_None_iff)
  have 4: "AuthAgent other d' = (Inr T, d')" if "t_id T \<noteq> tid" "AuthAgent other d = (Inr T, d)" for other T
  proof -
    from that(2) obtain k r where k: "k \<in> set (tokens (db_tables d))" "r \<in> set (tunnels (db_tables d))"
      "tok_row_id k = tok_id other" "tok_hash k = Hash other" "tun_id r = tok_tunnel k"
      "tunnel_view (db_tables d) False r = Some T"
      unfolding auth by blast
    with tid [OF k(6)] that(1) have "k \<in> insert ?new {k \<in> set (tokens (db_tables d)). tok_tunnel k \<noteq> tid}" by auto
    with k show ?thesis unfolding auth tk tn view by blast
  qed
  have 5: "lease_of (db_tables d') t = lease_of (db_tables d) t" if "t \<noteq> tid" for t
    using that by (simp add: lease_of_def e(2) find_filter_others)
  have 6: "filter (\<lambda>l. ls_tunnel l \<noteq> tid) (leases (db_tables d')) = filter (\<lambda>l. ls_tunnel l \<noteq> tid) (leases (db_tables d))"
    "filter (\<lambda>k. tok_tunnel k \<noteq> tid) (tokens (db_tables d')) = filter (\<lambda>k. tok_tunnel k \<noteq> tid) (tokens (db_tables d))"
    "(db_tables d')\<lparr>tokens := [], leases := []\<rparr> = (db_tables d)\<lparr>tokens := [], leases := []\<rparr>"
    by (simp_all add: e(2))
  show ?thesis using 1 2 3 4 5 6 by blast
qed

theorem RotateToken_revokes_witness:
  "\<exists>tok d'. RotateToken 1 [3] [4] first_db = (Inr tok, d') \<and> lease_of (db_tables d') 1 = None"
proof -
  obtain tok d' where r: "RotateToken 1 [3] [4] first_db = (Inr tok, d')" "db_faults d' = []"
    using first_rotation by blast
  from RotateToken_revokes [OF first_db_ok r(1) first_db_faults r(2)] r(1) show ?thesis by blast
qed

text \<open>
  An agent token is accepted only if the hash of that very token is stored: a token whose
  secret differs from the issued one (in any way that SHA-256 tells apart) is refused.
\<close>
theorem AuthAgent_sound:
  assumes "AuthAgent tok d = (Inr T, d')"
  shows "\<exists>k\<in>set (tokens (db_tables d)). tok_row_id k = tok_id tok \<and> tok_hash k = Hash tok \<and> tok_tunnel k = t_id T \<and>
    db_tables d' = db_tables d"
proof -
  from assms obtain h where q: "query (\<lambda>d. sql_agent_by_token (tok_id tok) (db_tables d)) d = (Inr (Some (T, h)), d')"
    and v: "Verify tok h"
    by (auto simp: AuthAgent_def bindr_Inr retr_def throw_def split: option.splits if_splits)
  from stmt_Inr [OF q [unfolded query_def]] have t: "db_tables d' = db_tables d"
    "sql_agent_by_token (tok_id tok) (db_tables d) = Some (T, h)" by auto
  then show ?thesis
    using v by (auto simp: sql_agent_by_token_def tunnel_of_def tunnel_view_def Verify_iff
        split: option.splits dest!: find_SomeD)
qed

theorem AuthAgent_sound_witness:
  "\<exists>k\<in>set (tokens (db_tables first_db)). tok_hash k = Hash (New_Token PrefixAgent [1] [2])"
proof -
  obtain T where "AuthAgent (New_Token PrefixAgent [1] [2]) first_db = (Inr T, first_db)" using first_auth by blast
  from AuthAgent_sound [OF this] show ?thesis by blast
qed

end
