(* ===== verification/Store_Nodes.thy ===== *)
theory Store_Nodes
  imports Store_Tunnels
begin

text \<open>
  Nodes, the node configuration, the agents' storage and the DNS-01 challenges of
  internal/store/store.go.  ORDER BY on a text column follows the collation of the database,
  which the source does not fix: it is the argument coll, the sort key of a text.
\<close>

section \<open>Nodes\<close>

record Node =
  n_id :: int
  n_name :: string
  n_endpoint :: string
  n_gateway_ip :: string
  n_public_key :: string
  n_public_ip :: string
  n_last_seen :: "instant option"

text \<open>
  NULLIF(s, '')::inet and COALESCE(host(ip), '').  Of what inet accepts only IPv4 addresses are
  read: the commands that write the column refuse everything else first (validPublicIP).
\<close>

definition null_inet :: "string \<Rightarrow> (32 word option) option" where
  "null_inet s = (if s = [] then Some None else map_option Some (inet s))"

definition host_or_empty :: "32 word option \<Rightarrow> string" where
  "host_or_empty w = (case w of None \<Rightarrow> [] | Some a \<Rightarrow> ip4_string a)"

definition invalid_text :: store_err where
  "invalid_text = PgError ''22P02''"

definition sql_insert_node :: "string \<Rightarrow> string \<Rightarrow> Token \<Rightarrow> string \<Rightarrow> (int \<times> string) dbm" where
  "sql_insert_node name endpoint tok public =
     bindr (nextval seq_node (\<lambda>f s. s\<lparr>seq_node := f (seq_node s)\<rparr>) max_bigint) (\<lambda>i.
     bindr (nextval seq_node_gw (\<lambda>f s. s\<lparr>seq_node_gw := f (seq_node_gw s)\<rparr>) 254) (\<lambda>g d.
       case (inet (gateway_text g), null_inet public) of
         (Some gw, Some pub) \<Rightarrow>
           if list_ex (\<lambda>n. nd_name n = name \<or> nd_gateway n = gw \<or> nd_token_id n = tok_id tok) (node_rows (db_tables d))
           then (Inl unique_violation, d)
           else (Inr (i, ip4_string gw), put_tables (\<lambda>t. t\<lparr>node_rows := node_rows t @
                   [\<lparr>nd_id = i, nd_name = name, nd_endpoint = endpoint, nd_gateway = gw, nd_token_id = tok_id tok,
                     nd_token_hash = Hash tok, nd_pubkey = None, nd_version = None, nd_last_seen = None,
                     nd_public_ip = pub\<rparr>]\<rparr>) d)
       | _ \<Rightarrow> (Inl invalid_text, d)))"

definition CreateNode :: "string \<Rightarrow> string \<Rightarrow> string \<Rightarrow> bytes \<Rightarrow> bytes \<Rightarrow> (Node \<times> Token) dbm" where
  "CreateNode name endpoint public idbytes secret =
     (let tok = New_Token PrefixNode idbytes secret
      in bindr (stmt (sql_insert_node name endpoint tok public)) (\<lambda>(i, gw).
           retr (\<lparr>n_id = i, n_name = name, n_endpoint = endpoint, n_gateway_ip = gw, n_public_key = [],
                  n_public_ip = public, n_last_seen = None\<rparr>, tok)))"

text \<open>UPDATE node SET ... WHERE id = ...\<close>

definition sql_update_node :: "int \<Rightarrow> (instant \<Rightarrow> node_row \<Rightarrow> node_row) \<Rightarrow> nat dbm" where
  "sql_update_node i g = stmt (\<lambda>d.
     (Inr (length (filter (\<lambda>n. nd_id n = i) (node_rows (db_tables d)))),
      put_tables (\<lambda>t. t\<lparr>node_rows := map (\<lambda>n. if nd_id n = i then g (db_now d) n else n) (node_rows t)\<rparr>) d))"

definition SetNodePublicIP :: "int \<Rightarrow> string \<Rightarrow> unit dbm" where
  "SetNodePublicIP i public =
     (case null_inet public of
        None \<Rightarrow> bindr (stmt (throw invalid_text)) retr
      | Some pub \<Rightarrow> require_rows ErrNotFound (sql_update_node i (\<lambda>_ n. n\<lparr>nd_public_ip := pub\<rparr>)))"

definition SetNodeEndpoint :: "int \<Rightarrow> string \<Rightarrow> unit dbm" where
  "SetNodeEndpoint i endpoint = require_rows ErrNotFound (sql_update_node i (\<lambda>_ n. n\<lparr>nd_endpoint := endpoint\<rparr>))"

definition NodeHello :: "int \<Rightarrow> string \<Rightarrow> string \<Rightarrow> unit dbm" where
  "NodeHello i key version =
     bindr (sql_update_node i
       (\<lambda>now n. n\<lparr>nd_pubkey := Some key, nd_version := Some version, nd_last_seen := Some now\<rparr>)) (\<lambda>_. retr ())"

definition TouchNode :: "int \<Rightarrow> unit dbm" where
  "TouchNode i = bindr (sql_update_node i (\<lambda>now n. n\<lparr>nd_last_seen := Some now\<rparr>)) (\<lambda>_. retr ())"

definition str_or_empty :: "string option \<Rightarrow> string" where
  "str_or_empty s = (case s of None \<Rightarrow> [] | Some x \<Rightarrow> x)"

definition ListNodes :: "Node list dbm" where
  "ListNodes = query (\<lambda>d. map (\<lambda>n. \<lparr>n_id = nd_id n, n_name = nd_name n, n_endpoint = nd_endpoint n,
       n_gateway_ip = ip4_string (nd_gateway n), n_public_key = str_or_empty (nd_pubkey n),
       n_public_ip = host_or_empty (nd_public_ip n), n_last_seen = nd_last_seen n\<rparr>)
     (sort_key nd_id (node_rows (db_tables d))))"

definition AuthNode :: "Token \<Rightarrow> Node dbm" where
  "AuthNode tok =
     bindr (query (\<lambda>d. find (\<lambda>n. nd_token_id n = tok_id tok) (node_rows (db_tables d)))) (\<lambda>r.
       case r of
         None \<Rightarrow> throw ErrUnauthorized
       | Some n \<Rightarrow>
           if Verify tok (nd_token_hash n) then
             retr \<lparr>n_id = nd_id n, n_name = nd_name n, n_endpoint = nd_endpoint n,
                   n_gateway_ip = ip4_string (nd_gateway n), n_public_key = str_or_empty (nd_pubkey n),
                   n_public_ip = [], n_last_seen = None\<rparr>
           else throw ErrUnauthorized)"

definition HasPublicNode :: "bool dbm" where
  "HasPublicNode = query (\<lambda>d. list_ex (\<lambda>n. nd_public_ip n \<noteq> None) (node_rows (db_tables d)))"

text \<open>last_seen_at > now() - interval, false for a node never seen.\<close>

definition seen_within :: "instant \<Rightarrow> duration \<Rightarrow> node_row \<Rightarrow> bool" where
  "seen_within now window n = (case nd_last_seen n of None \<Rightarrow> False | Some t \<Rightarrow> now - window < t)"

definition ActiveNodes :: "duration \<Rightarrow> proto_Node list dbm" where
  "ActiveNodes window = query (\<lambda>d.
     map (\<lambda>n. \<lparr>pn_name = nd_name n, pn_endpoint = nd_endpoint n, pn_public_key = the (nd_pubkey n),
               pn_gateway_ip = ip4_string (nd_gateway n)\<rparr>)
       (sort_key nd_id (filter (\<lambda>n. nd_pubkey n \<noteq> None \<and> seen_within (db_now d) window n) (node_rows (db_tables d)))))"

section \<open>The configuration of the nodes\<close>

record DNSZoneConfig =
  zc_ns_names :: "string list"
  zc_soa_email :: string

definition dnsActiveNodeIPs :: "duration \<Rightarrow> string list dbm" where
  "dnsActiveNodeIPs window = query (\<lambda>d.
     map ip4_string (sort (List.map_filter nd_public_ip
       (filter (seen_within (db_now d) window) (node_rows (db_tables d))))))"

definition dnsChallenges :: "(string \<Rightarrow> string) \<Rightarrow> DNSTXT list dbm" where
  "dnsChallenges coll = query (\<lambda>d.
     map (\<lambda>c. \<lparr>txt_fqdn = ch_fqdn c, txt_value = ch_value c\<rparr>) (sort_key (\<lambda>c. coll (ch_fqdn c)) (challenges (db_tables d))))"

text \<open>The tunnels with a lease in force, in the order of their ids: subdomain, address, key.\<close>

definition sql_live_leases :: "db \<Rightarrow> (string \<times> 32 word \<times> string) list" where
  "sql_live_leases d =
     List.map_filter
       (\<lambda>r. case lease_of (db_tables d) (tun_id r) of
              Some l \<Rightarrow> if db_now d < ls_expires l then Some (tun_subdomain r, tun_ip r, ls_pubkey l) else None
            | None \<Rightarrow> None)
       (sort_key tun_id (tunnels (db_tables d)))"

definition tunnel_domain :: "string \<Rightarrow> string \<Rightarrow> string" where
  "tunnel_domain sub base = sub @ ''.'' @ base"

definition config_peers :: "(string \<times> 32 word \<times> string) list \<Rightarrow> proto_Peer list" where
  "config_peers rows = map (\<lambda>(sub, ip, key). \<lparr>pp_public_key = key, pp_vpn_ip = ip4_string ip\<rparr>) rows"

definition config_routes :: "string \<Rightarrow> (string \<times> 32 word \<times> string) list \<Rightarrow> proto_Route list" where
  "config_routes base rows = concat (map (\<lambda>(sub, ip, key).
     [\<lparr>rt_hostname = tunnel_domain sub base, rt_vpn_ip = ip4_string ip\<rparr>,
      \<lparr>rt_hostname = ''*.'' @ tunnel_domain sub base, rt_vpn_ip = ip4_string ip\<rparr>]) rows)"

definition with_version :: "NodeConfig \<Rightarrow> NodeConfig" where
  "with_version c = c\<lparr>nc_version := config_version c\<rparr>"

definition store_NodeConfig :: "(string \<Rightarrow> string) \<Rightarrow> string \<Rightarrow> duration \<Rightarrow> DNSZoneConfig \<Rightarrow> NodeConfig dbm" where
  "store_NodeConfig coll base fresh dz =
     bindr (query sql_live_leases) (\<lambda>rows.
       let cfg = \<lparr>nc_version = [], nc_peers = config_peers rows, nc_routes = config_routes base rows, nc_dns = None\<rparr>
       in if zc_ns_names dz = [] then retr (with_version cfg)
          else bindr (dnsActiveNodeIPs fresh) (\<lambda>edge.
               bindr (dnsChallenges coll) (\<lambda>chs.
               retr (with_version (cfg\<lparr>nc_dns := Some \<lparr>dz_zone = base, dz_ns_names = zc_ns_names dz,
                 dz_soa_email = zc_soa_email dz, dz_edge = edge, dz_challenges = chs\<rparr>\<rparr>)))))"

section \<open>The agents' storage\<close>

record StorageItem =
  si_key :: string
  si_size :: int
  si_updated_at :: instant

definition sql_storage_put :: "int \<Rightarrow> string \<Rightarrow> bytes \<Rightarrow> unit dbm" where
  "sql_storage_put tid key val d =
     (let t = db_tables d;
          row = \<lparr>sto_tunnel = tid, sto_key = key, sto_value = val, sto_updated = db_now d\<rparr>;
          hit = (\<lambda>r. sto_tunnel r = tid \<and> sto_key r = key)
      in if list_ex hit (storage t) then
           (Inr (), put_tables (\<lambda>t. t\<lparr>storage := map (\<lambda>r. if hit r then row else r) (storage t)\<rparr>) d)
         else if \<not> list_ex (\<lambda>r. tun_id r = tid) (tunnels t) then (Inl reference_violation, d)
         else (Inr (), put_tables (\<lambda>t. t\<lparr>storage := storage t @ [row]\<rparr>) d))"

definition StoragePut :: "int \<Rightarrow> string \<Rightarrow> bytes \<Rightarrow> unit dbm" where
  "StoragePut tid key val = stmt (sql_storage_put tid key val)"

definition storage_row_of :: "tables \<Rightarrow> int \<Rightarrow> string \<Rightarrow> storage_row option" where
  "storage_row_of t tid key = find (\<lambda>r. sto_tunnel r = tid \<and> sto_key r = key) (storage t)"

definition StorageGet :: "int \<Rightarrow> string \<Rightarrow> (bytes \<times> instant) dbm" where
  "StorageGet tid key =
     bindr (query (\<lambda>d. storage_row_of (db_tables d) tid key)) (\<lambda>r.
       case r of None \<Rightarrow> throw ErrNotFound | Some row \<Rightarrow> retr (sto_value row, sto_updated row))"

definition StorageDelete :: "int \<Rightarrow> string \<Rightarrow> unit dbm" where
  "StorageDelete tid key = require_rows ErrNotFound (affect (\<lambda>t.
     (length (filter (\<lambda>r. sto_tunnel r = tid \<and> sto_key r = key) (storage t)),
      t\<lparr>storage := filter (\<lambda>r. \<not> (sto_tunnel r = tid \<and> sto_key r = key)) (storage t)\<rparr>)))"

definition StorageList :: "(string \<Rightarrow> string) \<Rightarrow> int \<Rightarrow> string \<Rightarrow> StorageItem list dbm" where
  "StorageList coll tid prefix = query (\<lambda>d.
     map (\<lambda>r. \<lparr>si_key = sto_key r, si_size = int (length (sto_value r)), si_updated_at = sto_updated r\<rparr>)
       (sort_key (\<lambda>r. coll (sto_key r))
         (filter (\<lambda>r. sto_tunnel r = tid \<and> has_prefix (sto_key r) prefix) (storage (db_tables d)))))"

section \<open>DNS-01 challenges\<close>

definition null_if_empty :: "string \<Rightarrow> string option" where
  "null_if_empty s = (if s = [] then None else Some s)"

definition sql_insert_challenge :: "challenge_row \<Rightarrow> unit dbm" where
  "sql_insert_challenge c d =
     (let t = db_tables d
      in if list_ex (\<lambda>x. ch_id x = ch_id c) (challenges t) then (Inl unique_violation, d)
         else if \<not> list_ex (\<lambda>r. tun_id r = ch_tunnel c) (tunnels t) then (Inl reference_violation, d)
         else (Inr (), put_tables (\<lambda>t. t\<lparr>challenges := challenges t @ [c]\<rparr>) d))"

definition CreateDNSChallenge :: "int \<Rightarrow> string \<Rightarrow> string \<Rightarrow> string \<Rightarrow> bytes \<Rightarrow> string dbm" where
  "CreateDNSChallenge tid fqdn val recid rnd =
     (let i = Random rnd
      in bindr (stmt (sql_insert_challenge
           \<lparr>ch_id = i, ch_tunnel = tid, ch_fqdn = fqdn, ch_value = val, ch_record = null_if_empty recid\<rparr>))
         (\<lambda>_. retr i))"

definition DNSChallenge :: "int \<Rightarrow> string \<Rightarrow> (string \<times> string) dbm" where
  "DNSChallenge tid i =
     bindr (query (\<lambda>d. find (\<lambda>c. ch_id c = i \<and> ch_tunnel c = tid) (challenges (db_tables d)))) (\<lambda>r.
       case r of None \<Rightarrow> throw ErrNotFound | Some c \<Rightarrow> retr (ch_value c, str_or_empty (ch_record c)))"

definition DeleteDNSChallenge :: "int \<Rightarrow> string \<Rightarrow> unit dbm" where
  "DeleteDNSChallenge tid i = require_rows ErrNotFound (affect (\<lambda>t.
     (length (filter (\<lambda>c. ch_id c = i \<and> ch_tunnel c = tid) (challenges t)),
      t\<lparr>challenges := filter (\<lambda>c. \<not> (ch_id c = i \<and> ch_tunnel c = tid)) (challenges t)\<rparr>)))"

section \<open>How the operations move the state\<close>

context db_relation
begin

lemma within_insert_node: "within R (sql_insert_node name endpoint tok public)"
  unfolding sql_insert_node_def
  by (intro within_bindr within_nextval withinI) (auto simp: seqs_le_def refl within_put split: option.splits)

lemma within_CreateNode: "within R (CreateNode name endpoint public idb sec)"
  unfolding CreateNode_def Let_def
  by (auto intro!: within_rules within_insert_node split: prod.splits)

lemma within_update_node: "within R (sql_update_node i g)"
  unfolding sql_update_node_def by (intro within_stmt withinI) (simp add: within_put)

lemma within_node_updates:
  "within R (SetNodePublicIP i public)" "within R (SetNodeEndpoint i endpoint)"
  "within R (NodeHello i key version)" "within R (TouchNode i)"
  unfolding SetNodePublicIP_def SetNodeEndpoint_def NodeHello_def TouchNode_def
  by (auto intro!: within_rules within_update_node split: option.splits)

lemma within_node_queries:
  "within R ListNodes" "within R (AuthNode tok)" "within R HasPublicNode" "within R (ActiveNodes w)"
  "within R (dnsActiveNodeIPs w)" "within R (dnsChallenges coll)" "within R (store_NodeConfig coll base fresh dz)"
  unfolding ListNodes_def AuthNode_def HasPublicNode_def ActiveNodes_def dnsActiveNodeIPs_def dnsChallenges_def
    store_NodeConfig_def Let_def
  by (auto intro!: within_rules split: option.splits)

lemma within_storage:
  "within R (StoragePut tid key val)" "within R (StorageGet tid key)" "within R (StorageDelete tid key)"
  "within R (StorageList coll tid prefix)"
proof -
  have "within R (sql_storage_put tid key val)"
    by (rule withinI) (auto simp: sql_storage_put_def Let_def refl within_put)
  then show "within R (StoragePut tid key val)" unfolding StoragePut_def by (rule within_stmt)
qed (auto simp: StorageGet_def StorageDelete_def StorageList_def intro!: within_rules split: option.splits)

lemma within_challenges:
  "within R (CreateDNSChallenge tid fqdn val recid rnd)" "within R (DNSChallenge tid i)"
  "within R (DeleteDNSChallenge tid i)"
proof -
  have "within R (sql_insert_challenge c)" for c
    by (rule withinI) (auto simp: sql_insert_challenge_def Let_def refl within_put)
  then show "within R (CreateDNSChallenge tid fqdn val recid rnd)"
    unfolding CreateDNSChallenge_def Let_def by (intro within_rules)
qed (auto simp: DNSChallenge_def DeleteDNSChallenge_def intro!: within_rules split: option.splits)

end

end
