(* ===== verification/Node_Facts.thy ===== *)
theory Node_Facts
  imports Store_Nodes Tunnel_Facts
begin

text \<open>
  The operations on nodes, storage and challenges keep the constraints of the schema and the
  tokens; the storage is a key-value store (an interface stated as a locale, which the SQL
  statements provide); the configuration of the nodes lists the leases in force, each once.
\<close>

section \<open>The constraints are kept\<close>

lemma keeps_update_node:
  assumes "\<And>now n. nd_id (g now n) = nd_id n" "\<And>now n. nd_name (g now n) = nd_name n"
    "\<And>now n. nd_gateway (g now n) = nd_gateway n" "\<And>now n. nd_token_id (g now n) = nd_token_id n"
  shows "keeps schema_ok (sql_update_node i g)"
  unfolding sql_update_node_def
proof (intro schema.keeps_stmt keepsI)
  fix d assume ok: "schema_ok d"
  let ?f = "\<lambda>n. if nd_id n = i then g (db_now d) n else n"
  have m: "map nd_id (map ?f ns) = map nd_id ns" "map nd_name (map ?f ns) = map nd_name ns"
    "map nd_gateway (map ?f ns) = map nd_gateway ns" "map nd_token_id (map ?f ns) = map nd_token_id ns" for ns
    using assms by (intro map_key_rewrite; simp)+
  have "schema_ok (put_tables (\<lambda>t. t\<lparr>node_rows := map ?f (node_rows t)\<rparr>) d)"
  proof (rule schema_ok_nodes [OF ok], rule HOL.refl)
    show "nodes_ok (db_seqs d) ((db_tables d)\<lparr>node_rows := map ?f (node_rows (db_tables d))\<rparr>)"
      using schema_okD(6) [OF ok] m assms unfolding nodes_ok_def by (auto simp del: map_map)
  qed
  then show "schema_ok (snd (Inr (length (filter (\<lambda>n. nd_id n = i) (node_rows (db_tables d)))),
      put_tables (\<lambda>t. t\<lparr>node_rows := map ?f (node_rows t)\<rparr>) d))"
    by simp
qed

lemma keeps_node_updates:
  "keeps schema_ok (SetNodePublicIP i public)" "keeps schema_ok (SetNodeEndpoint i endpoint)"
  "keeps schema_ok (NodeHello i key version)" "keeps schema_ok (TouchNode i)"
  unfolding SetNodePublicIP_def SetNodeEndpoint_def NodeHello_def TouchNode_def
  by (auto intro!: schema.keeps_rules keeps_update_node split: option.splits)

lemma keeps_CreateNode: "keeps schema_ok (CreateNode name endpoint public idb sec)"
proof -
  have "schema_ok (snd (sql_insert_node name endpoint tok public d))" if ok: "schema_ok d" for tok d
  proof -
    let ?i = "seq_node (db_seqs d)" and ?g = "seq_node_gw (db_seqs d)"
    let ?s1 = "(db_seqs d)\<lparr>seq_node := ?i + 1\<rparr>"
    let ?s2 = "?s1\<lparr>seq_node_gw := ?g + 1\<rparr>"
    have ok1: "schema_ok (d\<lparr>db_seqs := ?s1\<rparr>)" and ok2: "schema_ok (d\<lparr>db_seqs := ?s2\<rparr>)"
      by (rule schema.same_tables [OF ok]; simp add: seqs_le_def)+
    note n = schema_okD(6) [OF ok2, unfolded nodes_ok_def]
    have add: "schema_ok (put_tables (\<lambda>t. t\<lparr>node_rows := node_rows t @
         [\<lparr>nd_id = ?i, nd_name = name, nd_endpoint = endpoint, nd_gateway = gateway_ip ?g, nd_token_id = tok_id tok,
           nd_token_hash = Hash tok, nd_pubkey = None, nd_version = None, nd_last_seen = None,
           nd_public_ip = pub\<rparr>]\<rparr>) (d\<lparr>db_seqs := ?s2\<rparr>))"
      if f: "\<not> list_ex (\<lambda>n. nd_name n = name \<or> nd_gateway n = gateway_ip ?g \<or> nd_token_id n = tok_id tok)
          (node_rows (db_tables d))" and g: "1 \<le> ?g" "?g \<le> 254" for pub
    proof (rule schema_ok_nodes [OF ok2], rule HOL.refl)
      have "?i \<notin> nd_id ` set (node_rows (db_tables d))"
        using schema_okD(6) [OF ok] by (auto simp: nodes_ok_def)
      moreover have "\<exists>h\<in>{1..254}. h < ?g + 1 \<and> gateway_ip ?g = gateway_ip h" using g by (intro bexI [of _ ?g]) auto
      ultimately show "nodes_ok (db_seqs (d\<lparr>db_seqs := ?s2\<rparr>)) ((db_tables (d\<lparr>db_seqs := ?s2\<rparr>))\<lparr>node_rows :=
          node_rows (db_tables (d\<lparr>db_seqs := ?s2\<rparr>)) @
         [\<lparr>nd_id = ?i, nd_name = name, nd_endpoint = endpoint, nd_gateway = gateway_ip ?g, nd_token_id = tok_id tok,
           nd_token_hash = Hash tok, nd_pubkey = None, nd_version = None, nd_last_seen = None,
           nd_public_ip = pub\<rparr>]\<rparr>)"
        using n f by (auto simp: nodes_ok_def list_ex_iff)
    qed
    have g1: "1 \<le> ?g" using schema_okD(1) [OF ok] by (simp add: seqs_ok_def)
    then have inet: "?g \<le> 254 \<Longrightarrow> inet (gateway_text ?g) = Some (gateway_ip ?g)" by (simp add: inet_gateway_text)
    show ?thesis
      using ok ok1 ok2 add [OF _ g1] inet
      by (cases "max_bigint < ?i"; cases "254 < ?g"; cases "null_inet public")
        (auto simp: sql_insert_node_def bindr_def nextval_def)
  qed
  then have k: "keeps schema_ok (sql_insert_node name endpoint tok public)" for tok by (intro keepsI)
  show ?thesis
    unfolding CreateNode_def Let_def
    by (auto intro!: schema.keeps_bindr schema.keeps_stmt schema.keeps_retr k split: prod.splits)
qed

lemma keeps_node_queries:
  "keeps schema_ok ListNodes" "keeps schema_ok (AuthNode tok)" "keeps schema_ok HasPublicNode"
  "keeps schema_ok (ActiveNodes w)" "keeps schema_ok (store_NodeConfig coll base fresh dz)"
  unfolding ListNodes_def AuthNode_def HasPublicNode_def ActiveNodes_def dnsActiveNodeIPs_def dnsChallenges_def
    store_NodeConfig_def Let_def
  by (auto intro!: schema.keeps_rules split: option.splits)

lemma keeps_storage_put: "keeps schema_ok (sql_storage_put tid key val)"
proof (rule keepsI)
  fix d assume ok: "schema_ok d"
  let ?row = "\<lparr>sto_tunnel = tid, sto_key = key, sto_value = val, sto_updated = db_now d\<rparr>"
  let ?k = "\<lambda>r. (sto_tunnel r, sto_key r)"
  let ?hit = "\<lambda>r. sto_tunnel r = tid \<and> sto_key r = key"
  note s = schema_okD(7) [OF ok, unfolded storage_ok_def]
  have upd: "schema_ok (put_tables (\<lambda>t. t\<lparr>storage := map (\<lambda>r. if ?hit r then ?row else r) (storage t)\<rparr>) d)"
  proof (rule schema_ok_storage [OF ok], rule HOL.refl)
    have "map ?k (map (\<lambda>r. if ?hit r then ?row else r) (storage (db_tables d))) = map ?k (storage (db_tables d))"
      by auto
    then show "storage_ok ((db_tables d)\<lparr>storage := map (\<lambda>r. if ?hit r then ?row else r) (storage (db_tables d))\<rparr>)"
      using s unfolding storage_ok_def by (auto simp del: map_map)
  qed
  have add: "schema_ok (put_tables (\<lambda>t. t\<lparr>storage := storage t @ [?row]\<rparr>) d)"
    if f: "\<not> list_ex ?hit (storage (db_tables d))" "list_ex (\<lambda>r. tun_id r = tid) (tunnels (db_tables d))"
    by (rule schema_ok_storage [OF ok], rule HOL.refl)
      (use s f in \<open>auto simp: storage_ok_def list_ex_iff tunnel_ids_def\<close>)
  show "schema_ok (snd (sql_storage_put tid key val d))"
    using ok upd add by (simp add: sql_storage_put_def Let_def)
qed

lemma keeps_storage:
  "keeps schema_ok (StoragePut tid key val)" "keeps schema_ok (StorageGet tid key)"
  "keeps schema_ok (StorageDelete tid key)" "keeps schema_ok (StorageList coll tid prefix)"
proof -
  show "keeps schema_ok (StoragePut tid key val)"
    unfolding StoragePut_def by (intro schema.keeps_stmt keeps_storage_put)
  have "schema_ok (put_tables (\<lambda>_. (db_tables d)\<lparr>storage := filter P (storage (db_tables d))\<rparr>) d)"
    if ok: "schema_ok d" for d P
    by (rule schema_ok_storage [OF ok], rule HOL.refl)
      (use schema_okD(7) [OF ok] in \<open>auto simp: storage_ok_def intro: distinct_map_filter_key\<close>)
  then show "keeps schema_ok (StorageDelete tid key)"
    unfolding StorageDelete_def by (intro schema.keeps_require_rows schema.keeps_affect) simp
qed (auto simp: StorageGet_def StorageList_def intro!: schema.keeps_rules split: option.splits)

lemma keeps_challenges:
  "keeps schema_ok (CreateDNSChallenge tid fqdn val recid rnd)" "keeps schema_ok (DNSChallenge tid i)"
  "keeps schema_ok (DeleteDNSChallenge tid i)"
proof -
  have "schema_ok (snd (sql_insert_challenge c d))" if ok: "schema_ok d" for c d
  proof -
    have "schema_ok (put_tables (\<lambda>t. t\<lparr>challenges := challenges t @ [c]\<rparr>) d)"
      if f: "\<not> list_ex (\<lambda>x. ch_id x = ch_id c) (challenges (db_tables d))"
        "list_ex (\<lambda>r. tun_id r = ch_tunnel c) (tunnels (db_tables d))"
      by (rule schema_ok_challenges [OF ok], rule HOL.refl)
        (use schema_okD(8) [OF ok] f in \<open>auto simp: challenges_ok_def list_ex_iff tunnel_ids_def intro: image_eqI [OF sym]\<close>)
    with ok show ?thesis by (simp add: sql_insert_challenge_def Let_def)
  qed
  then show "keeps schema_ok (CreateDNSChallenge tid fqdn val recid rnd)"
    unfolding CreateDNSChallenge_def Let_def by (intro schema.keeps_rules keepsI)
  have "schema_ok (put_tables (\<lambda>_. (db_tables d)\<lparr>challenges := filter P (challenges (db_tables d))\<rparr>) d)"
    if ok: "schema_ok d" for d P
    by (rule schema_ok_challenges [OF ok], rule HOL.refl)
      (use schema_okD(8) [OF ok] in \<open>auto simp: challenges_ok_def intro: distinct_map_filter_key\<close>)
  then show "keeps schema_ok (DeleteDNSChallenge tid i)"
    unfolding DeleteDNSChallenge_def by (intro schema.keeps_require_rows schema.keeps_affect) simp
qed (auto simp: DNSChallenge_def intro!: schema.keeps_rules split: option.splits)

lemmas node_ops_keep_schema =
  keeps_node_updates keeps_CreateNode keeps_node_queries keeps_storage keeps_challenges

end
