(* ===== verification/Store.thy ===== *)
theory Store
  imports Tunnel_Props Node_Facts
begin

text \<open>
  The store as a whole: its history is a sequence of events (the operations with their
  arguments, time passing, and the faults the network will produce), every state it reaches
  satisfies the schema, addresses are never given twice, and a lease is held by one instance
  at a time.
\<close>

section \<open>Histories\<close>

datatype event =
    EvCreateTunnel string string bytes bytes "bytes list"
  | EvRotateToken int bytes bytes
  | EvAcquireLease int string string string duration
  | EvRenewLease int string duration
  | EvReleaseLease int string
  | EvCreateNode string string string bytes bytes
  | EvSetNodePublicIP int string
  | EvSetNodeEndpoint int string
  | EvNodeHello int string string
  | EvTouchNode int
  | EvStoragePut int string bytes
  | EvStorageDelete int string
  | EvCreateChallenge int string string string bytes
  | EvDeleteChallenge int string
  | EvTick duration
  | EvFaults "fault list"

fun exec :: "event \<Rightarrow> db \<Rightarrow> db" where
  "exec (EvCreateTunnel email plan idb sec subs) d = snd (CreateTunnel email plan idb sec subs d)"
| "exec (EvRotateToken tid idb sec) d = snd (RotateToken tid idb sec d)"
| "exec (EvAcquireLease tid inst key version ttl) d = snd (AcquireLease tid inst key version ttl d)"
| "exec (EvRenewLease tid inst ttl) d = snd (RenewLease tid inst ttl d)"
| "exec (EvReleaseLease tid inst) d = snd (ReleaseLease tid inst d)"
| "exec (EvCreateNode name endpoint public idb sec) d = snd (CreateNode name endpoint public idb sec d)"
| "exec (EvSetNodePublicIP i public) d = snd (SetNodePublicIP i public d)"
| "exec (EvSetNodeEndpoint i endpoint) d = snd (SetNodeEndpoint i endpoint d)"
| "exec (EvNodeHello i key version) d = snd (NodeHello i key version d)"
| "exec (EvTouchNode i) d = snd (TouchNode i d)"
| "exec (EvStoragePut tid key val) d = snd (StoragePut tid key val d)"
| "exec (EvStorageDelete tid key) d = snd (StorageDelete tid key d)"
| "exec (EvCreateChallenge tid fqdn val recid rnd) d = snd (CreateDNSChallenge tid fqdn val recid rnd d)"
| "exec (EvDeleteChallenge tid i) d = snd (DeleteDNSChallenge tid i d)"
| "exec (EvTick t) d = d\<lparr>db_now := db_now d + t\<rparr>"
| "exec (EvFaults fs) d = d\<lparr>db_faults := fs\<rparr>"

text \<open>The code draws 5 random bytes per subdomain; time does not run backwards.\<close>

fun valid_event :: "event \<Rightarrow> bool" where
  "valid_event (EvCreateTunnel email plan idb sec subs) \<longleftrightarrow> (\<forall>b\<in>set subs. length b = 5)"
| "valid_event (EvTick t) \<longleftrightarrow> 0 \<le> t"
| "valid_event _ \<longleftrightarrow> True"

definition run_events :: "event list \<Rightarrow> db \<Rightarrow> db" where
  "run_events es d = fold exec es d"

inductive reachable :: "db \<Rightarrow> bool" where
  start: "reachable (db_init t fs)"
| step: "reachable d \<Longrightarrow> valid_event e \<Longrightarrow> reachable (exec e d)"

lemma run_events_simps [simp]:
  "run_events [] d = d" "run_events (e # es) d = run_events es (exec e d)"
  by (simp_all add: run_events_def)

lemma exec_schema_ok:
  assumes "valid_event e" and "schema_ok d"
  shows "schema_ok (exec e d)"
  using assms
  by (cases e)
    (auto intro: keepsD [OF keeps_CreateTunnel] keepsD [OF keeps_RotateToken] keepsD [OF keeps_AcquireLease]
      keepsD [OF keeps_RenewLease] keepsD [OF keeps_ReleaseLease] keepsD [OF keeps_CreateNode]
      keepsD [OF keeps_node_updates(1)] keepsD [OF keeps_node_updates(2)] keepsD [OF keeps_node_updates(3)]
      keepsD [OF keeps_node_updates(4)] keepsD [OF keeps_storage(1)] keepsD [OF keeps_storage(3)]
      keepsD [OF keeps_challenges(1)] keepsD [OF keeps_challenges(3)] schema_ok_seqs [of d])

text \<open>Sequences only advance, and time passes only at a tick.\<close>

lemma within_snd: "within R m \<Longrightarrow> R d (snd (m d))"
  by (simp add: within_def)

lemma exec_growth:
  assumes "valid_event e"
  shows "seqs_le (db_seqs d) (db_seqs (exec e d)) \<and> db_now d \<le> db_now (exec e d)"
  using assms
  by (cases e)
    (simp_all add: growth_def
      within_snd [OF growth.within_CreateTunnel, unfolded growth_def]
      within_snd [OF growth.within_RotateToken, unfolded growth_def]
      within_snd [OF growth.within_AcquireLease, unfolded growth_def]
      within_snd [OF growth.within_RenewLease, unfolded growth_def]
      within_snd [OF growth.within_ReleaseLease, unfolded growth_def]
      within_snd [OF growth.within_CreateNode, unfolded growth_def]
      within_snd [OF growth.within_node_updates(1), unfolded growth_def]
      within_snd [OF growth.within_node_updates(2), unfolded growth_def]
      within_snd [OF growth.within_node_updates(3), unfolded growth_def]
      within_snd [OF growth.within_node_updates(4), unfolded growth_def]
      within_snd [OF growth.within_storage(1), unfolded growth_def]
      within_snd [OF growth.within_storage(3), unfolded growth_def]
      within_snd [OF growth.within_challenges(1), unfolded growth_def]
      within_snd [OF growth.within_challenges(3), unfolded growth_def])

section \<open>What an operation leaves alone\<close>

text \<open>
  Most operations touch neither the tunnels nor who owns a token, and most leave the leases
  alone; a relation on the tables that holds of equal tables is enough to say so.
\<close>

definition touches :: "(tables \<Rightarrow> tables \<Rightarrow> bool) \<Rightarrow> 'a dbm \<Rightarrow> bool" where
  "touches Q m \<longleftrightarrow> (\<forall>d. Q (db_tables d) (db_tables (snd (m d))))"

lemma touchesD: "touches Q m \<Longrightarrow> Q (db_tables d) (db_tables (snd (m d)))"
  by (simp add: touches_def)

locale table_relation =
  fixes Q :: "tables \<Rightarrow> tables \<Rightarrow> bool"
  assumes refl: "Q t t" and trans: "Q a b \<Longrightarrow> Q b c \<Longrightarrow> Q a c"
begin

lemma touches_bindr:
  assumes "touches Q m" and "\<And>x. touches Q (f x)"
  shows "touches Q (bindr m f)"
  unfolding touches_def
proof
  fix d
  obtain r d' where r: "m d = (r, d')" by fastforce
  have "Q (db_tables d) (db_tables d')" using touchesD [OF assms(1), of d] r by simp
  then show "Q (db_tables d) (db_tables (snd (bindr m f d)))"
    using touchesD [OF assms(2)] by (cases r) (auto simp: bindr_def r intro: trans)
qed

lemma touches_pure: "touches Q (retr x)" "touches Q (throw e)"
  by (simp_all add: touches_def retr_def throw_def refl)

lemma touches_stmt:
  assumes "touches Q s"
  shows "touches Q (stmt s)"
  unfolding touches_def
proof
  fix d
  obtain f d' where nf: "next_fault d = (f, d')" by fastforce
  from next_fault_frame [OF nf] touchesD [OF assms, of d'] show "Q (db_tables d) (db_tables (snd (stmt s d)))"
    by (cases f) (simp_all add: stmt_def nf refl)
qed

lemma touches_tx:
  assumes "touches Q m"
  shows "touches Q (tx m)"
  unfolding touches_def
proof
  fix d
  obtain f d1 where nf: "next_fault d = (f, d1)" by fastforce
  obtain r d2 where r: "m d1 = (r, d2)" by fastforce
  obtain g d3 where ng: "next_fault d2 = (g, d3)" by fastforce
  from next_fault_frame [OF nf] next_fault_frame [OF ng] touchesD [OF assms, of d1] r
  show "Q (db_tables d) (db_tables (snd (tx m d)))"
    by (cases f; cases r; cases g) (auto simp: tx_def nf r ng refl)
qed

lemma touches_query: "touches Q (query f)"
  unfolding query_def by (intro touches_stmt) (simp add: touches_def refl)

lemma touches_affect: "(\<And>t. Q t (snd (f t))) \<Longrightarrow> touches Q (affect f)"
  unfolding affect_def
  by (intro touches_stmt) (simp add: touches_def Let_def case_prod_beta)

lemma touches_require_rows: "touches Q m \<Longrightarrow> touches Q (require_rows e m)"
  unfolding require_rows_def by (intro touches_bindr) (simp_all add: touches_pure)

lemma touches_nextval: "touches Q (nextval get upd mx)"
  by (simp add: touches_def nextval_def refl)

lemma touches_CreateTunnel:
  assumes "\<And>t x. Q t (t\<lparr>accounts := x\<rparr>)" "\<And>t x. Q t (t\<lparr>tunnels := x\<rparr>)" "\<And>t x. Q t (t\<lparr>tokens := x\<rparr>)"
  shows "touches Q (CreateTunnel email plan idb sec subs)"
proof -
  have acct: "touches Q (sql_upsert_account email plan)"
    unfolding sql_upsert_account_def
    by (intro touches_bindr touches_nextval) (auto simp: touches_def refl assms split: option.splits)
  have tun: "touches Q (sql_insert_tunnel account sub ip)" for account sub ip
    unfolding sql_insert_tunnel_def
    by (intro touches_bindr touches_nextval) (auto simp: touches_def refl assms split: option.splits)
  have tok: "touches Q (sql_insert_token tok tid)" for tok tid
    by (auto simp: touches_def sql_insert_token_def Let_def refl assms)
  have subs: "Q (db_tables d) (db_tables (snd (try_subdomains account ip bs d)))" for account ip bs d
  proof (induction account ip bs d rule: try_subdomains.induct)
    case (2 account ip b bs d)
    obtain r d' where r: "stmt (sql_insert_tunnel account (take 7 (Random b)) ip) d = (r, d')" by fastforce
    have g: "Q (db_tables d) (db_tables d')" using touchesD [OF touches_stmt [OF tun], of d] r by (metis snd_conv)
    show ?case
    proof (cases "r = Inl ErrNoRows")
      case True
      with 2 [OF HOL.refl, OF r [symmetric]] g r trans show ?thesis by (auto simp: Let_def)
    next
      case False
      with g r show ?thesis by (auto simp: Let_def split: sum.splits)
    qed
  qed (simp add: refl)
  have subs': "touches Q (try_subdomains account ip bs)" for account ip bs
    using subs by (simp add: touches_def)
  have "touches Q (create_tunnel_tx email plan tok subs)" for tok
    unfolding create_tunnel_tx_def nextval_tunnel_ip_def
    by (auto intro!: touches_bindr touches_stmt touches_nextval touches_pure acct tok subs' split: sum.splits prod.splits)
  then show ?thesis
    unfolding CreateTunnel_def Let_def by (intro touches_bindr touches_tx touches_pure)
qed

lemma touches_update_node:
  "(\<And>t ns. Q t (t\<lparr>node_rows := ns\<rparr>)) \<Longrightarrow> touches Q (sql_update_node i g)"
  unfolding sql_update_node_def by (intro touches_stmt) (simp add: touches_def)

lemma touches_nodes:
  assumes "\<And>t ns. Q t (t\<lparr>node_rows := ns\<rparr>)"
  shows "touches Q (CreateNode name endpoint public idb sec)" "touches Q (SetNodePublicIP i public)"
    "touches Q (SetNodeEndpoint i endpoint)" "touches Q (NodeHello i key version)" "touches Q (TouchNode i)"
proof -
  have "touches Q (sql_insert_node name endpoint tok public)" for tok
    unfolding sql_insert_node_def
    by (intro touches_bindr touches_nextval) (auto simp: touches_def refl assms split: option.splits)
  then show "touches Q (CreateNode name endpoint public idb sec)"
    unfolding CreateNode_def Let_def by (intro touches_bindr touches_stmt) (auto simp: touches_pure)
qed (auto simp: SetNodePublicIP_def SetNodeEndpoint_def NodeHello_def TouchNode_def
      intro!: touches_bindr touches_require_rows touches_stmt touches_pure touches_update_node assms split: option.splits)

lemma touches_data:
  assumes "\<And>t x. Q t (t\<lparr>storage := x\<rparr>)" and "\<And>t x. Q t (t\<lparr>challenges := x\<rparr>)"
  shows "touches Q (StoragePut tid key val)" "touches Q (StorageDelete tid key)"
    "touches Q (CreateDNSChallenge tid fqdn val2 recid rnd)" "touches Q (DeleteDNSChallenge tid i)"
proof -
  have "touches Q (sql_storage_put tid key val)"
    by (auto simp: touches_def sql_storage_put_def Let_def refl assms)
  then show "touches Q (StoragePut tid key val)" unfolding StoragePut_def by (rule touches_stmt)
  have "touches Q (sql_insert_challenge c)" for c
    by (auto simp: touches_def sql_insert_challenge_def Let_def refl assms)
  then show "touches Q (CreateDNSChallenge tid fqdn val2 recid rnd)"
    unfolding CreateDNSChallenge_def Let_def by (intro touches_bindr touches_stmt) (simp_all add: touches_pure)
qed (auto simp: StorageDelete_def DeleteDNSChallenge_def assms intro!: touches_require_rows touches_affect)

lemma touches_RenewLease:
  assumes "\<And>t x. Q t (t\<lparr>leases := x\<rparr>)"
  shows "touches Q (RenewLease tid inst ttl)"
  unfolding RenewLease_def sql_renew_lease_def Let_def
  by (intro touches_require_rows touches_stmt) (simp add: touches_def assms)

lemma touches_ReleaseLease:
  assumes "\<And>t. Q t (t\<lparr>leases := filter (\<lambda>l. \<not> (ls_tunnel l = tid \<and> ls_instance l = inst)) (leases t)\<rparr>)"
  shows "touches Q (ReleaseLease tid inst)"
  unfolding ReleaseLease_def
  by (intro touches_bindr touches_affect touches_pure) (use assms in simp)

lemma touches_AcquireLease:
  assumes "\<And>t x. Q t (t\<lparr>leases := x\<rparr>)" and "\<And>tid. touches Q (sql_token_used tid)"
  shows "touches Q (AcquireLease tid inst key version ttl)"
  unfolding touches_def
proof
  fix d
  have lease: "touches Q (sql_upsert_lease tid inst key version ttl)"
    by (auto simp: touches_def assms(1) refl sql_upsert_lease_def Let_def split: option.splits)
  obtain r d' where r: "stmt (sql_upsert_lease tid inst key version ttl) d = (r, d')" by fastforce
  have "Q (db_tables d) (db_tables d')"
    using touchesD [OF touches_stmt [OF lease], of d] r by (metis snd_conv)
  then show "Q (db_tables d) (db_tables (snd (AcquireLease tid inst key version ttl d)))"
    using touchesD [OF assms(2), of d'] r by (cases r) (auto simp: AcquireLease_def intro: trans)
qed

lemma touches_RotateToken:
  assumes "\<And>t x. Q t (t\<lparr>tokens := x\<rparr>)" and "\<And>t. Q t (t\<lparr>leases := filter (\<lambda>l. ls_tunnel l \<noteq> tid) (leases t)\<rparr>)"
  shows "touches Q (RotateToken tid idb sec)"
proof -
  have "touches Q (sql_insert_token tok tid)" for tok
    by (simp add: touches_def assms(1) refl sql_insert_token_def Let_def)
  then show ?thesis
    unfolding RotateToken_def rotate_tx_def sql_delete_token_def sql_delete_lease_def
    by (intro touches_tx touches_bindr touches_require_rows touches_affect touches_stmt touches_pure)
      (simp_all add: assms)
qed

end

definition same_tunnels :: "tables \<Rightarrow> tables \<Rightarrow> bool" where
  "same_tunnels t t' \<longleftrightarrow> tunnels t' = tunnels t \<and> map tok_tunnel (tokens t') = map tok_tunnel (tokens t)"

definition keeps_leases :: "(lease_row \<Rightarrow> bool) \<Rightarrow> tables \<Rightarrow> tables \<Rightarrow> bool" where
  "keeps_leases P t t' \<longleftrightarrow> {l \<in> set (leases t). P l} \<subseteq> set (leases t')"

interpretation same_tunnels: table_relation same_tunnels
  by unfold_locales (simp_all add: same_tunnels_def)

interpretation keeps_leases: table_relation "keeps_leases P" for P
  by unfold_locales (auto simp: keeps_leases_def)

section \<open>Every reachable state satisfies the schema\<close>

lemma exec_has_token:
  assumes "has_token d"
  shows "has_token (exec e d)"
proof -
  have q: "has_token (snd (m d))" if "touches same_tunnels m" for m :: "'b dbm"
  proof -
    have "same_tunnels (db_tables d) (db_tables (snd (m d)))" using that by (rule touchesD)
    then have "tunnels (db_tables (snd (m d))) = tunnels (db_tables d)"
      "set (map tok_tunnel (tokens (db_tables (snd (m d))))) = set (map tok_tunnel (tokens (db_tables d)))"
      unfolding same_tunnels_def by metis+
    with assms show ?thesis by (simp add: has_token_def tunnel_ids_def)
  qed
  have used: "touches same_tunnels (sql_token_used tid)" for tid
    unfolding sql_token_used_def
    by (intro same_tunnels.touches_stmt) (auto simp: touches_def same_tunnels_def)
  have frame0: "same_tunnels t (t\<lparr>leases := x\<rparr>)" for t x by (simp add: same_tunnels_def)
  note acquire = same_tunnels.touches_AcquireLease [OF frame0 used]
    and renew = same_tunnels.touches_RenewLease [OF frame0] and release = same_tunnels.touches_ReleaseLease [OF frame0]
  have frame: "same_tunnels t (t\<lparr>node_rows := a\<rparr>)" "same_tunnels t (t\<lparr>storage := b\<rparr>)"
    "same_tunnels t (t\<lparr>challenges := c\<rparr>)" for t a b c
    by (simp_all add: same_tunnels_def)
  note ops = q [OF acquire] q [OF renew] q [OF release] q [OF same_tunnels.touches_nodes(1) [OF frame(1)]]
    q [OF same_tunnels.touches_nodes(2) [OF frame(1)]] q [OF same_tunnels.touches_nodes(3) [OF frame(1)]]
    q [OF same_tunnels.touches_nodes(4) [OF frame(1)]] q [OF same_tunnels.touches_nodes(5) [OF frame(1)]]
    q [OF same_tunnels.touches_data(1) [OF frame(2,3)]] q [OF same_tunnels.touches_data(2) [OF frame(2,3)]]
    q [OF same_tunnels.touches_data(3) [OF frame(2,3)]] q [OF same_tunnels.touches_data(4) [OF frame(2,3)]]
  show ?thesis
    using assms by (cases e)
      (auto intro: ops keepsD [OF has_token_CreateTunnel] keepsD [OF has_token_RotateToken] has_token_tables [of d])
qed

text \<open>The first tunnel, and the lease an agent takes on it.\<close>

lemma first_db_reachable: "reachable first_db"
proof -
  have "reachable (exec (EvCreateTunnel ''a@b'' ''free'' [1] [2] [[0, 0, 0, 0, 0]]) (db_init 0 []))"
    by (intro reachable.intros) simp
  then show ?thesis by (simp add: first_db_def first_tunnel_def)
qed

definition leased_db :: db where
  "leased_db = snd (AcquireLease 1 ''i1'' ''k1'' ''v1'' 45 first_db)"

lemma first_lease: "AcquireLease 1 ''i1'' ''k1'' ''v1'' 45 first_db = (Inr (), leased_db)"
  by (simp add: leased_db_def first_db_def first_tunnel_def run_defs AcquireLease_def sql_upsert_lease_def lease_of_def)

lemma leased_db_ok: "schema_ok leased_db"
  unfolding leased_db_def by (rule keepsD [OF keeps_AcquireLease first_db_ok])

text \<open>
  C6: Whatever the operations, their order and the faults of the connection, the database
  satisfies every constraint of the schema and every tunnel has exactly one token.
\<close>
theorem reachable_ok:
  assumes "reachable d"
  shows "schema_ok d \<and> (\<forall>r\<in>set (tunnels (db_tables d)). \<exists>!k. k \<in> set (tokens (db_tables d)) \<and> tok_tunnel k = tun_id r)"
proof -
  have "schema_ok d \<and> has_token d"
    using assms
  proof (induction rule: reachable.induct)
    case (start t fs)
    show ?case using schema_ok_init by (simp add: has_token_def db_init_def empty_tables_def tunnel_ids_def)
  next
    case (step d e)
    then show ?case using exec_schema_ok exec_has_token by blast
  qed
  moreover from this have "k = k'"
    if "k \<in> set (tokens (db_tables d))" "k' \<in> set (tokens (db_tables d))" "tok_tunnel k = tok_tunnel k'" for k k'
    using that schema_okD(4) [of d] distinct_key_inj [of tok_tunnel] by (auto simp: tokens_ok_def)
  moreover from calculation have "\<exists>k\<in>set (tokens (db_tables d)). tok_tunnel k = tun_id r"
    if "r \<in> set (tunnels (db_tables d))" for r
    using that unfolding has_token_def tunnel_ids_def by (metis (no_types, lifting) imageE imageI subsetD)
  ultimately show ?thesis by (metis (no_types, lifting))
qed

theorem reachable_ok_witness:
  "schema_ok first_db \<and> (\<exists>!k. k \<in> set (tokens (db_tables first_db)) \<and> tok_tunnel k = 1)"
proof -
  note ok = reachable_ok [OF first_db_reachable]
  have "1 \<in> tunnel_ids (db_tables first_db)"
    by (simp add: first_db_def first_tunnel_def run_defs tunnel_ids_def)
  then obtain r where r: "r \<in> set (tunnels (db_tables first_db))" "tun_id r = 1"
    by (auto simp: tunnel_ids_def)
  from bspec [OF conjunct2 [OF ok] r(1)] conjunct1 [OF ok] show ?thesis by (simp only: r(2) simp_thms)
qed

section \<open>One instance holds the lease\<close>

text \<open>
  What an event may do to a lease in force that is not its holder's own doing: acquisitions
  and renewals use the server's lease time, the holder does not release it, and the operator
  does not rotate the tunnel's token.
\<close>

fun harmless :: "duration \<Rightarrow> lease_row \<Rightarrow> event \<Rightarrow> bool" where
  "harmless ttl l (EvAcquireLease tid inst key version t) \<longleftrightarrow> t = ttl"
| "harmless ttl l (EvRenewLease tid inst t) \<longleftrightarrow> t = ttl"
| "harmless ttl l (EvReleaseLease tid inst) \<longleftrightarrow> \<not> (ls_tunnel l = tid \<and> ls_instance l = inst)"
| "harmless ttl l (EvRotateToken tid idb sec) \<longleftrightarrow> tid \<noteq> ls_tunnel l"
| "harmless ttl l _ \<longleftrightarrow> True"

text \<open>The tunnel of l is still held by its instance, at least until E.\<close>

definition lease_kept :: "instant \<Rightarrow> lease_row \<Rightarrow> tables \<Rightarrow> bool" where
  "lease_kept E l t \<longleftrightarrow> (\<exists>l'\<in>set (leases t). ls_tunnel l' = ls_tunnel l \<and> ls_instance l' = ls_instance l \<and>
     E \<le> ls_expires l')"

lemma lease_kept_self: "l \<in> set (leases t) \<Longrightarrow> E \<le> ls_expires l \<Longrightarrow> lease_kept E l t"
  by (auto simp: lease_kept_def)

lemma lease_kept_map:
  assumes "l \<in> set (leases t)" and "E \<le> ls_expires l"
    and "C l \<Longrightarrow> ls_tunnel (g l) = ls_tunnel l \<and> ls_instance (g l) = ls_instance l \<and> E \<le> ls_expires (g l)"
  shows "lease_kept E l (t\<lparr>leases := map (\<lambda>x. if C x then g x else x) (leases t)\<rparr>)"
  unfolding lease_kept_def
  by (rule bexI [of _ "if C l then g l else l"]) (use assms in \<open>auto intro: rev_image_eqI\<close>)

lemma lease_kept_touches:
  "touches (keeps_leases P) m \<Longrightarrow> l \<in> set (leases (db_tables d)) \<Longrightarrow> E \<le> ls_expires l \<Longrightarrow> P l \<Longrightarrow>
   lease_kept E l (db_tables (snd (m d)))"
  by (rule lease_kept_self) (auto simp: keeps_leases_def dest!: touchesD [of _ m d])

lemma stmt_tables:
  assumes "C (db_tables d)"
    and "\<And>d'. db_tables d' = db_tables d \<Longrightarrow> db_now d' = db_now d \<Longrightarrow> C (db_tables (snd (s d')))"
  shows "C (db_tables (snd (stmt s d)))"
proof -
  obtain f d' where nf: "next_fault d = (f, d')" by fastforce
  from next_fault_frame [OF nf] assms show ?thesis by (cases f) (simp_all add: stmt_def nf)
qed

lemma kept_upsert_lease:
  assumes "leases_ok (db_tables d)" "l \<in> set (leases (db_tables d))" "E \<le> ls_expires l" "db_now d \<le> E" "E \<le> db_now d + ttl"
  shows "lease_kept E l (db_tables (snd (sql_upsert_lease tid inst key version ttl d)))"
proof (cases "ls_tunnel l = tid")
  case True
  then have "lease_of (db_tables d) tid = Some l" using assms(1,2) by (simp add: lease_of_Some_iff)
  then show ?thesis using assms True
    by (auto simp: sql_upsert_lease_def Let_def lease_kept_self intro!: lease_kept_map)
next
  case False
  then show ?thesis using assms
    by (intro lease_kept_self) (auto simp: sql_upsert_lease_def Let_def image_iff split: option.splits)
qed

lemma kept_AcquireLease:
  assumes "leases_ok (db_tables d)" "l \<in> set (leases (db_tables d))" "E \<le> ls_expires l" "db_now d \<le> E" "E \<le> db_now d + ttl"
  shows "lease_kept E l (db_tables (snd (AcquireLease tid inst key version ttl d)))"
proof -
  obtain r d' where r: "stmt (sql_upsert_lease tid inst key version ttl) d = (r, d')" by fastforce
  have "lease_kept E l (db_tables (snd (stmt (sql_upsert_lease tid inst key version ttl) d)))"
    by (rule stmt_tables) (use assms in \<open>auto intro: lease_kept_self kept_upsert_lease\<close>)
  then have d': "lease_kept E l (db_tables d')" using r by simp
  have "leases (db_tables (snd (sql_token_used tid d'))) = leases (db_tables d')"
    unfolding sql_token_used_def by (rule stmt_tables) simp_all
  then have "lease_kept E l (db_tables (snd (sql_token_used tid d')))" using d' by (simp add: lease_kept_def)
  with d' r show ?thesis by (cases r) (auto simp: AcquireLease_def)
qed

lemma kept_RenewLease:
  assumes "l \<in> set (leases (db_tables d))" "E \<le> ls_expires l" "E \<le> db_now d + ttl"
  shows "lease_kept E l (db_tables (snd (RenewLease tid inst ttl d)))"
proof -
  have snd_require: "snd (require_rows e m d) = snd (m d)" for e m
    by (auto simp: require_rows_def bindr_def throw_def retr_def split: prod.splits sum.splits)
  show ?thesis
    unfolding RenewLease_def snd_require sql_renew_lease_def Let_def
  proof (rule stmt_tables)
    show "lease_kept E l (db_tables d)" using assms(1,2) by (rule lease_kept_self)
  qed (use assms in \<open>auto intro!: lease_kept_map\<close>)
qed

lemma exec_lease_kept:
  assumes "valid_event e" "harmless ttl l e" "schema_ok d" "l \<in> set (leases (db_tables d))"
    "E \<le> ls_expires l" "db_now d \<le> E" "E \<le> db_now d + ttl"
  shows "lease_kept E l (db_tables (exec e d))"
proof -
  let ?all = "keeps_leases (\<lambda>_. True)"
  have f: "?all t (t\<lparr>accounts := x1\<rparr>)" "?all t (t\<lparr>tunnels := x2\<rparr>)" "?all t (t\<lparr>tokens := x3\<rparr>)"
    "?all t (t\<lparr>node_rows := x4\<rparr>)" "?all t (t\<lparr>storage := x5\<rparr>)" "?all t (t\<lparr>challenges := x6\<rparr>)"
    for t x1 x2 x3 x4 x5 x6
    by (simp_all add: keeps_leases_def)
  note k = lease_kept_touches [OF _ assms(4,5)]
  note others = k [OF keeps_leases.touches_CreateTunnel [OF f(1-3)] TrueI]
    k [OF keeps_leases.touches_nodes(1) [OF f(4)] TrueI] k [OF keeps_leases.touches_nodes(2) [OF f(4)] TrueI]
    k [OF keeps_leases.touches_nodes(3) [OF f(4)] TrueI] k [OF keeps_leases.touches_nodes(4) [OF f(4)] TrueI]
    k [OF keeps_leases.touches_nodes(5) [OF f(4)] TrueI]
    k [OF keeps_leases.touches_data(1) [OF f(5,6)] TrueI] k [OF keeps_leases.touches_data(2) [OF f(5,6)] TrueI]
    k [OF keeps_leases.touches_data(3) [OF f(5,6)] TrueI] k [OF keeps_leases.touches_data(4) [OF f(5,6)] TrueI]
  have rotate: "touches (keeps_leases (\<lambda>l. ls_tunnel l \<noteq> tid)) (RotateToken tid idb sec)" for tid idb sec
    by (rule keeps_leases.touches_RotateToken) (auto simp: keeps_leases_def)
  have release: "touches (keeps_leases (\<lambda>l. \<not> (ls_tunnel l = tid \<and> ls_instance l = inst))) (ReleaseLease tid inst)" for tid inst
    by (rule keeps_leases.touches_ReleaseLease) (auto simp: keeps_leases_def)
  show ?thesis
  proof (cases e)
    case (EvAcquireLease tid inst key version t)
    then show ?thesis using assms kept_AcquireLease [of d l E ttl] schema_okD(5) [OF assms(3)] by simp
  next
    case (EvRenewLease tid inst t)
    then show ?thesis using assms kept_RenewLease [of l d E ttl] by simp
  next
    case (EvReleaseLease tid inst)
    then show ?thesis using assms k [OF release] by simp
  next
    case (EvRotateToken tid idb sec)
    then show ?thesis using assms k [OF rotate] by simp
  qed (use assms others lease_kept_self in \<open>simp_all\<close>)
qed

lemma run_lease_kept:
  assumes "\<forall>e\<in>set es. valid_event e \<and> harmless ttl l e" "schema_ok d" "lease_kept E l (db_tables d)"
    "db_now (run_events es d) \<le> E" "E \<le> db_now d + ttl"
  shows "lease_kept E l (db_tables (run_events es d))"
  using assms
proof (induction es arbitrary: d)
  case (Cons e es)
  have later: "db_now d \<le> db_now (run_events es d)" if "\<forall>e\<in>set es. valid_event e" for es d
    using that exec_growth by (induction es arbitrary: d) (auto intro: order_trans)
  have e: "valid_event e" "harmless ttl l e" using Cons.prems(1) by simp_all
  have now: "db_now d \<le> db_now (exec e d)" "db_now (exec e d) \<le> E"
    using exec_growth [OF e(1)] later [of es "exec e d"] Cons.prems(1,4) by auto
  from Cons.prems(3) obtain l' where l': "l' \<in> set (leases (db_tables d))" "ls_tunnel l' = ls_tunnel l"
    "ls_instance l' = ls_instance l" "E \<le> ls_expires l'" by (auto simp: lease_kept_def)
  have "harmless ttl l' e" using e(2) l' by (cases e) auto
  with exec_lease_kept [of e ttl l' d E] e l' Cons.prems now have "lease_kept E l' (db_tables (exec e d))" by simp
  then have "lease_kept E l (db_tables (exec e d))" by (simp add: lease_kept_def l')
  then show ?case
    using Cons.prems now exec_schema_ok [OF e(1) Cons.prems(2)] by (auto intro!: Cons.IH)
qed simp

lemma token_used_leases: "leases (db_tables (snd (sql_token_used tid d))) = leases (db_tables d)"
  unfolding sql_token_used_def by (rule stmt_tables) simp_all

lemma upsert_lease_row:
  assumes "sql_upsert_lease tid inst key version ttl d = (Inr n, d')" and "n \<noteq> 0"
  shows "\<lparr>ls_tunnel = tid, ls_instance = inst, ls_pubkey = key, ls_version = version,
           ls_acquired = db_now d, ls_expires = db_now d + ttl\<rparr> \<in> set (leases (db_tables d'))"
proof (cases "lease_of (db_tables d) tid")
  case None
  with assms show ?thesis by (auto simp: sql_upsert_lease_def Let_def split: if_splits)
next
  case (Some l)
  then have l: "l \<in> set (leases (db_tables d))" "ls_tunnel l = tid" by (auto simp: lease_of_def dest: find_SomeD)
  with Some assms show ?thesis
    by (auto simp: sql_upsert_lease_def Let_def split: if_splits intro: rev_image_eqI)
qed

text \<open>A granted lease: the row of the tunnel is the caller's, for the time asked.\<close>

lemma AcquireLease_row:
  assumes "AcquireLease tid inst key version ttl d = (Inr (), d1)"
  shows "\<lparr>ls_tunnel = tid, ls_instance = inst, ls_pubkey = key, ls_version = version,
           ls_acquired = db_now d, ls_expires = db_now d + ttl\<rparr> \<in> set (leases (db_tables d1))"
proof -
  from assms obtain n d' where r: "stmt (sql_upsert_lease tid inst key version ttl) d = (Inr n, d')" "n \<noteq> 0"
    and d1: "d1 = snd (sql_token_used tid d')"
    by (auto simp: AcquireLease_def split: prod.splits sum.splits if_splits)
  from stmt_Inr [OF r(1)] r(2) show ?thesis
    using upsert_lease_row by (fastforce simp: d1 token_used_leases)
qed

lemma AcquireLease_held:
  assumes "lease_of (db_tables d) tid = Some l" "ls_instance l \<noteq> inst" "db_now d \<le> ls_expires l"
  shows "\<exists>e d'. AcquireLease tid inst key version ttl d = (Inl e, d')"
proof (cases "stmt (sql_upsert_lease tid inst key version ttl) d")
  case (Pair r d')
  show ?thesis
  proof (cases r)
    case (Inr n)
    with stmt_Inr [OF Pair [unfolded Inr]] assms have "n = 0"
      by (auto simp: sql_upsert_lease_def Let_def)
    with Pair Inr show ?thesis by (simp add: AcquireLease_def)
  qed (simp add: AcquireLease_def Pair)
qed

text \<open>
  C1: Mutual exclusion of agents.  Once an instance has acquired the lease of a tunnel, no
  sequence of operations in which that instance does not release it and the operator does not
  rotate the token hands the tunnel to another instance before the lease expires: an
  acquisition by any other instance up to that time fails, whatever the interleaving, the
  faults and the other tunnels do.
\<close>
theorem lease_exclusive:
  assumes "schema_ok d" and "AcquireLease tid inst key version ttl d = (Inr (), d1)" and "0 \<le> ttl"
    and "\<forall>e\<in>set es. valid_event e \<and> harmless ttl l e" and "ls_tunnel l = tid" and "ls_instance l = inst"
    and "db_now (run_events es d1) \<le> db_now d + ttl" and "other \<noteq> inst"
  shows "fst (AcquireLease tid other key' version' ttl (run_events es d1)) \<noteq> Inr ()"
proof -
  let ?d = "run_events es d1" and ?E = "db_now d + ttl"
  have ok1: "schema_ok d1" using keepsD [OF keeps_AcquireLease assms(1)] assms(2) by (metis snd_conv)
  have now1: "db_now d1 = db_now d"
    using within_snd [OF growth.within_AcquireLease, of d] assms(2) by (metis growth_def snd_conv)
  have okes: "schema_ok (run_events es d)" if "schema_ok d" "\<forall>e\<in>set es. valid_event e" for es d
    using that exec_schema_ok by (induction es arbitrary: d) auto
  have "lease_kept ?E l (db_tables d1)"
    unfolding lease_kept_def
    by (rule bexI [OF _ AcquireLease_row [OF assms(2)]]) (simp add: assms(5,6))
  then have "lease_kept ?E l (db_tables ?d)"
    using assms ok1 now1 by (intro run_lease_kept) auto
  then obtain l' where l': "l' \<in> set (leases (db_tables ?d))" "ls_tunnel l' = tid" "ls_instance l' = inst" "?E \<le> ls_expires l'"
    using assms(5,6) by (auto simp: lease_kept_def)
  have "lease_of (db_tables ?d) tid = Some l'"
    using l' schema_okD(5) [OF okes [OF ok1]] assms(4) by (simp add: lease_of_Some_iff)
  with AcquireLease_held [of ?d tid l' other key' version' ttl] l' assms(7,8) show ?thesis by auto
qed

theorem lease_exclusive_witness:
  "fst (AcquireLease 1 ''i2'' ''k2'' ''v1'' 45 (run_events [EvTick 10, EvRenewLease 1 ''i1'' 45, EvTick 20] leased_db)) \<noteq> Inr ()"
proof -
  let ?l = "\<lparr>ls_tunnel = 1, ls_instance = ''i1'', ls_pubkey = ''k1'', ls_version = ''v1'', ls_acquired = 0, ls_expires = 45\<rparr>"
  have "db_now (run_events [EvTick 10, EvRenewLease 1 ''i1'' 45, EvTick 20] leased_db) \<le> db_now first_db + 45"
    by (simp add: leased_db_def first_db_def first_tunnel_def run_defs AcquireLease_def sql_upsert_lease_def lease_of_def
        RenewLease_def require_rows_def sql_renew_lease_def sql_token_used_def throw_def)
  then show ?thesis
    by (intro lease_exclusive [OF first_db_ok first_lease, where l = ?l]) simp_all
qed

section \<open>Addresses are never given twice\<close>

definition adds_tunnels :: "int \<Rightarrow> tables \<Rightarrow> tables \<Rightarrow> bool" where
  "adds_tunnels n t t' \<longleftrightarrow> (\<exists>new. tunnels t' = tunnels t @ new \<and> (\<forall>r\<in>set new. n \<le> pool_offset (tun_ip r)))"

lemma adds_tunnels_same: "tunnels t' = tunnels t \<Longrightarrow> adds_tunnels n t t'"
  by (simp add: adds_tunnels_def)

interpretation adds_tunnels: table_relation "adds_tunnels n" for n
proof
  fix a b c assume "adds_tunnels n a b" "adds_tunnels n b c"
  then show "adds_tunnels n a c" unfolding adds_tunnels_def by (metis Un_iff append_assoc set_append)
qed (simp add: adds_tunnels_same)

lemma CreateTunnel_tables:
  "adds_tunnels (seq_tunnel_ip (db_seqs d)) (db_tables d) (db_tables (snd (CreateTunnel email plan idb sec subs d)))"
proof -
  let ?tok = "New_Token PrefixAgent idb sec"
  have snd: "snd (CreateTunnel email plan idb sec subs d) = snd (tx (create_tunnel_tx email plan ?tok subs) d)"
    by (auto simp: CreateTunnel_def Let_def bindr_def retr_def split: prod.splits sum.splits)
  consider "db_tables (snd (tx (create_tunnel_tx email plan ?tok subs) d)) = db_tables d"
    | d1 T d2 where "db_tables d1 = db_tables d" "db_seqs d1 = db_seqs d"
      "create_tunnel_tx email plan ?tok subs d1 = (Inr T, d2)"
      "db_tables (snd (tx (create_tunnel_tx email plan ?tok subs) d)) = db_tables d2"
    using tx_tables [of "create_tunnel_tx email plan ?tok subs" d] by blast
  then show ?thesis
  proof cases
    case 1
    then show ?thesis by (simp add: snd adds_tunnels_same)
  next
    case 2
    from create_tunnel_tx_Inr [OF 2(3)] obtain as row a where
      "created email ?tok subs d1 T (db_tables d2) as row a" by blast
    then have "tunnels (db_tables d2) = tunnels (db_tables d) @ [row]"
      "seq_tunnel_ip (db_seqs d) = pool_offset (tun_ip row)"
      unfolding created_def 2 by (elim conjE, simp)+
    then show ?thesis by (simp add: snd 2 adds_tunnels_def)
  qed
qed

lemma exec_tunnels: "adds_tunnels (seq_tunnel_ip (db_seqs d)) (db_tables d) (db_tables (exec e d))"
proof -
  let ?Q = "adds_tunnels (seq_tunnel_ip (db_seqs d))"
  have f: "?Q t (t\<lparr>tokens := x1\<rparr>)" "?Q t (t\<lparr>leases := x2\<rparr>)" "?Q t (t\<lparr>node_rows := x3\<rparr>)" "?Q t (t\<lparr>storage := x4\<rparr>)"
    "?Q t (t\<lparr>challenges := x5\<rparr>)" for t x1 x2 x3 x4 x5
    by (simp_all add: adds_tunnels_same)
  have used: "touches ?Q (sql_token_used tid)" for tid
    unfolding sql_token_used_def by (intro adds_tunnels.touches_stmt) (simp add: touches_def adds_tunnels_same)
  note acquire = adds_tunnels.touches_AcquireLease [OF f(2) used] and renew = adds_tunnels.touches_RenewLease [OF f(2)]
    and release = adds_tunnels.touches_ReleaseLease [OF f(2)] and rotate = adds_tunnels.touches_RotateToken [OF f(1) f(2)]
  show ?thesis
    by (cases e)
      (simp_all add: CreateTunnel_tables adds_tunnels_same touchesD [OF acquire] touchesD [OF renew] touchesD [OF release]
        touchesD [OF rotate] touchesD [OF adds_tunnels.touches_nodes(1) [OF f(3)]]
        touchesD [OF adds_tunnels.touches_nodes(2) [OF f(3)]] touchesD [OF adds_tunnels.touches_nodes(3) [OF f(3)]]
        touchesD [OF adds_tunnels.touches_nodes(4) [OF f(3)]] touchesD [OF adds_tunnels.touches_nodes(5) [OF f(3)]]
        touchesD [OF adds_tunnels.touches_data(1) [OF f(4,5)]] touchesD [OF adds_tunnels.touches_data(2) [OF f(4,5)]]
        touchesD [OF adds_tunnels.touches_data(3) [OF f(4,5)]] touchesD [OF adds_tunnels.touches_data(4) [OF f(4,5)]])
qed

lemma adds_tunnels_weaken: "m \<le> n \<Longrightarrow> adds_tunnels n t t' \<Longrightarrow> adds_tunnels m t t'"
  unfolding adds_tunnels_def by (meson order_trans)

lemma run_tunnels:
  "\<forall>e\<in>set es. valid_event e \<Longrightarrow> n \<le> seq_tunnel_ip (db_seqs d) \<Longrightarrow> adds_tunnels n (db_tables d) (db_tables (run_events es d))"
proof (induction es arbitrary: d)
  case (Cons e es)
  have "seq_tunnel_ip (db_seqs d) \<le> seq_tunnel_ip (db_seqs (exec e d))"
    using exec_growth [of e d] Cons.prems(1) by (simp add: seqs_le_def)
  then have "adds_tunnels n (db_tables (exec e d)) (db_tables (run_events es (exec e d)))"
    using Cons by (intro Cons.IH) auto
  with adds_tunnels_weaken [OF Cons.prems(2) exec_tunnels] show ?case by (auto intro: adds_tunnels.trans)
qed (simp add: adds_tunnels.refl)

text \<open>
  C9: An address, once given, stays with its tunnel and is never given to another: whatever
  happens later (failed creations included), the tunnels that exist keep their rows and every
  tunnel created later has an address beyond all of theirs.
\<close>
theorem addresses_never_reused:
  assumes "reachable d" and "\<forall>e\<in>set es. valid_event e"
  shows "\<exists>new. tunnels (db_tables (run_events es d)) = tunnels (db_tables d) @ new \<and>
    (\<forall>r\<in>set new. \<forall>old\<in>set (tunnels (db_tables d)). pool_offset (tun_ip old) < pool_offset (tun_ip r))"
proof -
  have "schema_ok d"
    using assms(1) by (induction rule: reachable.induct) (auto simp: schema_ok_init exec_schema_ok)
  then have "\<forall>old\<in>set (tunnels (db_tables d)). pool_offset (tun_ip old) < seq_tunnel_ip (db_seqs d)"
    by (auto dest!: schema_okD(3) simp: tunnels_ok_def tunnel_row_ok_def)
  with run_tunnels [OF assms(2), of "seq_tunnel_ip (db_seqs d)" d] show ?thesis
    unfolding adds_tunnels_def by (meson order_less_le_trans order_refl)
qed

theorem addresses_never_reused_witness:
  "\<exists>new. tunnels (db_tables (run_events [EvCreateTunnel ''c@d'' ''free'' [5] [6] [[1, 2, 3, 4, 5]]] first_db)) =
      tunnels (db_tables first_db) @ new"
  using addresses_never_reused [OF first_db_reachable, of "[EvCreateTunnel ''c@d'' ''free'' [5] [6] [[1, 2, 3, 4, 5]]]"]
  by (simp del: run_events_simps) blast

end
