(* ===== verification/Store_Config.thy ===== *)
theory Store_Config
  imports Store
begin

text \<open>
  What the store promises to the nodes and to the agents' storage: the configuration lists
  every lease in force, with its two routes, once; the storage is a key-value store per
  tunnel, an interface that is stated as a locale and provided by the SQL statements.
\<close>

section \<open>The leases in force\<close>

lemma set_map_filter: "set (List.map_filter f xs) = {y. \<exists>x\<in>set xs. f x = Some y}"
  by (induction xs) (auto simp: List.map_filter_simps split: option.splits)

lemma distinct_map_filter_by:
  assumes "distinct xs"
    and "\<And>x x' y y'. x \<in> set xs \<Longrightarrow> x' \<in> set xs \<Longrightarrow> f x = Some y \<Longrightarrow> f x' = Some y' \<Longrightarrow> g y = g y' \<Longrightarrow> x = x'"
  shows "distinct (map g (List.map_filter f xs))"
  using assms
proof (induction xs)
  case (Cons x xs)
  have IH: "distinct (map g (List.map_filter f xs))" using Cons by (intro Cons.IH) auto
  show ?case
  proof (cases "f x")
    case (Some y)
    have "g y \<noteq> g y'" if "y' \<in> set (List.map_filter f xs)" for y'
      using that Cons.prems(1) Cons.prems(2) [OF _ _ Some] by (auto simp: set_map_filter)
    with IH Some show ?thesis by (auto simp: List.map_filter_simps)
  qed (use IH in \<open>simp add: List.map_filter_simps\<close>)
qed (simp add: List.map_filter_simps)

text \<open>A lease in force, with the row of its tunnel.\<close>

definition in_force :: "db \<Rightarrow> tunnel_row \<Rightarrow> lease_row \<Rightarrow> bool" where
  "in_force d r l \<longleftrightarrow> r \<in> set (tunnels (db_tables d)) \<and> l \<in> set (leases (db_tables d)) \<and>
     ls_tunnel l = tun_id r \<and> db_now d < ls_expires l"

lemma live_leases_iff:
  assumes ok: "schema_ok d"
  shows "x \<in> set (sql_live_leases d) \<longleftrightarrow> (\<exists>r l. in_force d r l \<and> x = (tun_subdomain r, tun_ip r, ls_pubkey l))"
proof
  assume "x \<in> set (sql_live_leases d)"
  then obtain r l where "r \<in> set (tunnels (db_tables d))" "lease_of (db_tables d) (tun_id r) = Some l"
    "db_now d < ls_expires l" "x = (tun_subdomain r, tun_ip r, ls_pubkey l)"
    by (auto simp: sql_live_leases_def set_map_filter split: option.splits if_splits)
  then show "\<exists>r l. in_force d r l \<and> x = (tun_subdomain r, tun_ip r, ls_pubkey l)"
    using schema_okD(5) [OF ok] by (auto simp: in_force_def lease_of_Some_iff)
next
  assume "\<exists>r l. in_force d r l \<and> x = (tun_subdomain r, tun_ip r, ls_pubkey l)"
  then obtain r l where "in_force d r l" "x = (tun_subdomain r, tun_ip r, ls_pubkey l)" by blast
  moreover from this have "lease_of (db_tables d) (tun_id r) = Some l"
    using schema_okD(5) [OF ok] by (simp add: in_force_def lease_of_Some_iff)
  ultimately show "x \<in> set (sql_live_leases d)"
    by (auto simp: sql_live_leases_def set_map_filter in_force_def intro!: bexI [of _ r])
qed

lemma live_leases_distinct:
  assumes ok: "schema_ok d"
  shows "distinct (map fst (sql_live_leases d))" "distinct (map (fst \<circ> snd) (sql_live_leases d))"
    "distinct (map (snd \<circ> snd) (sql_live_leases d))"
proof -
  note t = schema_okD(3) [OF ok, unfolded tunnels_ok_def] and l = schema_okD(5) [OF ok, unfolded leases_ok_def]
  let ?ts = "sort_key tun_id (tunnels (db_tables d))"
  have d: "distinct ?ts" using t by (simp add: distinct_map)
  have s: "set ?ts = set (tunnels (db_tables d))" by simp
  show "distinct (map fst (sql_live_leases d))"
    unfolding sql_live_leases_def
    by (rule distinct_map_filter_by [OF d])
      (use t in \<open>auto split: option.splits if_splits dest: distinct_key_inj [of tun_subdomain]\<close>)
  show "distinct (map (fst \<circ> snd) (sql_live_leases d))"
    unfolding sql_live_leases_def
    by (rule distinct_map_filter_by [OF d])
      (use t in \<open>auto split: option.splits if_splits dest: distinct_key_inj [of tun_ip]\<close>)
  show "distinct (map (snd \<circ> snd) (sql_live_leases d))"
    unfolding sql_live_leases_def
  proof (rule distinct_map_filter_by [OF d], unfold s)
    fix r r' y y'
    assume r: "r \<in> set (tunnels (db_tables d))" "r' \<in> set (tunnels (db_tables d))"
      and a: "(case lease_of (db_tables d) (tun_id r) of None \<Rightarrow> None
         | Some l \<Rightarrow> if db_now d < ls_expires l then Some (tun_subdomain r, tun_ip r, ls_pubkey l) else None) = Some y"
      and b: "(case lease_of (db_tables d) (tun_id r') of None \<Rightarrow> None
         | Some l \<Rightarrow> if db_now d < ls_expires l then Some (tun_subdomain r', tun_ip r', ls_pubkey l) else None) = Some y'"
      and k: "(snd \<circ> snd) y = (snd \<circ> snd) y'"
    from a b k obtain x x' where "lease_of (db_tables d) (tun_id r) = Some x" "lease_of (db_tables d) (tun_id r') = Some x'"
      "ls_pubkey x = ls_pubkey x'" by (auto split: option.splits if_splits)
    then have "x \<in> set (leases (db_tables d))" "x' \<in> set (leases (db_tables d))" "ls_tunnel x = tun_id r"
      "ls_tunnel x' = tun_id r'" "ls_pubkey x = ls_pubkey x'"
      using schema_okD(5) [OF ok] by (auto simp: lease_of_Some_iff)
    moreover from this have "x = x'" using l distinct_key_inj [of ls_pubkey] by blast
    ultimately show "r = r'" using t r distinct_key_inj [of tun_id] by metis
  qed
qed

lemma query_Inr:
  assumes "query f d = (Inr x, d')"
  shows "\<exists>d1. db_tables d1 = db_tables d \<and> db_seqs d1 = db_seqs d \<and> db_now d1 = db_now d \<and> x = f d1 \<and>
    db_tables d' = db_tables d \<and> db_now d' = db_now d \<and> db_seqs d' = db_seqs d"
  using stmt_Inr [OF assms [unfolded query_def]] by auto

lemma live_leases_cong:
  "db_tables d' = db_tables d \<Longrightarrow> db_now d' = db_now d \<Longrightarrow> sql_live_leases d' = sql_live_leases d"
  by (simp add: sql_live_leases_def cong: option.case_cong)

lemma NodeConfig_fields:
  assumes "store_NodeConfig coll base fresh dz d = (Inr cfg, d')"
  shows "nc_peers cfg = config_peers (sql_live_leases d) \<and> nc_routes cfg = config_routes base (sql_live_leases d) \<and>
    nc_version cfg = config_version (cfg\<lparr>nc_version := []\<rparr>) \<and> (nc_dns cfg = None \<longleftrightarrow> zc_ns_names dz = []) \<and>
    (\<forall>z. nc_dns cfg = Some z \<longrightarrow> dz_zone z = base \<and> dz_ns_names z = zc_ns_names dz \<and> dz_soa_email z = zc_soa_email dz)"
proof -
  from assms obtain rows d1 where q: "query sql_live_leases d = (Inr rows, d1)"
    and r: "(let cfg = \<lparr>nc_version = [], nc_peers = config_peers rows, nc_routes = config_routes base rows, nc_dns = None\<rparr>
       in if zc_ns_names dz = [] then retr (with_version cfg)
          else bindr (dnsActiveNodeIPs fresh) (\<lambda>edge.
               bindr (dnsChallenges coll) (\<lambda>chs.
               retr (with_version (cfg\<lparr>nc_dns := Some \<lparr>dz_zone = base, dz_ns_names = zc_ns_names dz,
                 dz_soa_email = zc_soa_email dz, dz_edge = edge, dz_challenges = chs\<rparr>\<rparr>))))) d1 = (Inr cfg, d')"
    by (auto simp: store_NodeConfig_def bindr_Inr)
  have "rows = sql_live_leases d" using query_Inr [OF q] live_leases_cong by metis
  with r show ?thesis
    by (auto simp: Let_def retr_def bindr_Inr with_version_def split: if_splits)
qed

lemma config_routes_set:
  "\<lparr>rt_hostname = h, rt_vpn_ip = ip\<rparr> \<in> set (config_routes base rows) \<longleftrightarrow>
   (\<exists>sub w key. (sub, w, key) \<in> set rows \<and> ip = ip4_string w \<and>
      (h = tunnel_domain sub base \<or> h = ''*.'' @ tunnel_domain sub base))"
  by (fastforce simp: config_routes_def)

lemma config_routes_distinct:
  assumes "distinct (map fst rows)" and "\<And>x. x \<in> set rows \<Longrightarrow> set (fst x) \<subseteq> set base32_alphabet"
  shows "distinct (map rt_hostname (config_routes base rows))"
  using assms
proof (induction rows)
  case (Cons x rows)
  obtain sub w key where x: "x = (sub, w, key)" by (cases x) auto
  have clean: "CHR ''*'' \<notin> set (fst y)" if "y \<in> set (x # rows)" for y
    using Cons.prems(2) [OF that] by (auto simp: base32_alphabet_def)
  have no_star: "tunnel_domain s base \<noteq> ''*.'' @ t" if "CHR ''*'' \<notin> set s" for s t
    using that by (cases s) (auto simp: tunnel_domain_def)
  have hosts: "set (map rt_hostname (config_routes base rows)) =
      (\<Union>y\<in>set rows. {tunnel_domain (fst y) base, ''*.'' @ tunnel_domain (fst y) base})"
    by (force simp: config_routes_def)
  have inj: "tunnel_domain s base = tunnel_domain t base \<longleftrightarrow> s = t" for s t
    by (simp add: tunnel_domain_def)
  have new: "sub \<noteq> fst y" if "y \<in> set rows" for y using Cons.prems(1) that by (auto simp: x)
  have sub: "CHR ''*'' \<notin> set sub" using clean [of x] by (simp add: x)
  have a: "tunnel_domain sub base \<notin> set (map rt_hostname (config_routes base rows))"
    unfolding hosts using new inj no_star [OF sub] by auto
  have b: "''*.'' @ tunnel_domain sub base \<notin> set (map rt_hostname (config_routes base rows))"
    unfolding hosts using new inj no_star [OF clean] by (auto simp del: append_Cons) metis
  have IH: "distinct (map rt_hostname (config_routes base rows))"
    using Cons by (intro Cons.IH) auto
  have "map rt_hostname (config_routes base (x # rows)) =
      tunnel_domain sub base # (''*.'' @ tunnel_domain sub base) # map rt_hostname (config_routes base rows)"
    by (simp add: config_routes_def x)
  with a b IH no_star [OF sub, of "tunnel_domain sub base"] show ?case by (simp del: append_Cons)
qed (simp add: config_routes_def)

section \<open>A key-value store\<close>

text \<open>
  The interface: what a lookup returns after a write or a deletion, where writing is allowed
  (ok), which neither operation changes.  A write of None is a deletion.
\<close>

definition kv_write :: "('k \<Rightarrow> 'v \<Rightarrow> 's \<Rightarrow> 's) \<Rightarrow> ('k \<Rightarrow> 's \<Rightarrow> 's) \<Rightarrow> 'k \<times> 'v option \<Rightarrow> 's \<Rightarrow> 's" where
  "kv_write put del w s = (case snd w of Some v \<Rightarrow> put (fst w) v s | None \<Rightarrow> del (fst w) s)"

definition last_write :: "('k \<times> 'v option) list \<Rightarrow> 'k \<Rightarrow> 'v option option" where
  "last_write ws k = map_of (rev ws) k"

locale kv_store =
  fixes get :: "'s \<Rightarrow> 'k \<Rightarrow> 'v option"
    and put :: "'k \<Rightarrow> 'v \<Rightarrow> 's \<Rightarrow> 's"
    and del :: "'k \<Rightarrow> 's \<Rightarrow> 's"
    and ok :: "'s \<Rightarrow> 'k \<Rightarrow> bool"
  assumes get_put: "ok s k \<Longrightarrow> get (put k v s) k' = (if k' = k then Some v else get s k')"
    and get_del: "ok s k \<Longrightarrow> get (del k s) k' = (if k' = k then None else get s k')"
    and ok_put: "ok s k \<Longrightarrow> ok (put k v s) k' = ok s k'"
    and ok_del: "ok s k \<Longrightarrow> ok (del k s) k' = ok s k'"
begin

lemma get_write: "ok s (fst w) \<Longrightarrow> get (kv_write put del w s) k = (if k = fst w then snd w else get s k)"
  by (simp add: kv_write_def get_put get_del split: option.splits)

lemma ok_write: "ok s (fst w) \<Longrightarrow> ok (kv_write put del w s) k = ok s k"
  by (simp add: kv_write_def ok_put ok_del split: option.splits)

text \<open>After any writes, a lookup returns the last one to that key.\<close>

lemma last_write_wins:
  assumes "\<forall>w\<in>set ws. ok s (fst w)"
  shows "get (fold (kv_write put del) ws s) k = (case last_write ws k of Some v \<Rightarrow> v | None \<Rightarrow> get s k)"
  using assms
proof (induction ws arbitrary: s)
  case (Cons w ws)
  have "ok s (fst w)" using Cons.prems by simp
  then have "\<forall>w'\<in>set ws. ok (kv_write put del w s) (fst w')" using Cons.prems by (simp add: ok_write)
  from Cons.IH [OF this] get_write [OF \<open>ok s (fst w)\<close>] show ?case
    by (cases w) (auto simp: last_write_def map_add_def split: option.splits)
qed (simp add: last_write_def)

end

text \<open>
  The rows of agent_storage: keys are pairs of a tunnel and a name, a write is allowed where
  the tunnel exists and no fault is pending.
\<close>

definition storage_get :: "db \<Rightarrow> int \<times> string \<Rightarrow> bytes option" where
  "storage_get d k = map_option sto_value (storage_row_of (db_tables d) (fst k) (snd k))"

definition storage_put :: "int \<times> string \<Rightarrow> bytes \<Rightarrow> db \<Rightarrow> db" where
  "storage_put k v d = snd (StoragePut (fst k) (snd k) v d)"

definition storage_del :: "int \<times> string \<Rightarrow> db \<Rightarrow> db" where
  "storage_del k d = snd (StorageDelete (fst k) (snd k) d)"

definition storage_writable :: "db \<Rightarrow> int \<times> string \<Rightarrow> bool" where
  "storage_writable d k \<longleftrightarrow> db_faults d = [] \<and> fst k \<in> tunnel_ids (db_tables d)"

lemma find_map_replace:
  assumes "\<And>x. P x \<Longrightarrow> P' x = Q" and "Q \<Longrightarrow> P' row" "\<not> Q \<Longrightarrow> \<not> P' row" "list_ex P xs"
    "\<And>x. P' x \<Longrightarrow> Q \<Longrightarrow> P x"
  shows "find P' (map (\<lambda>x. if P x then row else x) xs) = (if Q then Some row else find P' xs)"
proof (cases Q)
  case True
  with assms show ?thesis by (induction xs) auto
next
  case False
  then have "find P' (map (\<lambda>x. if P x then row else x) xs) = find P' xs"
    using assms(1,3) by (induction xs) auto
  with False show ?thesis by simp
qed

lemma find_append_last: "find P (xs @ [x]) = (case find P xs of Some y \<Rightarrow> Some y | None \<Rightarrow> if P x then Some x else None)"
  by (induction xs) auto

lemma storage_get_put:
  assumes "storage_writable d k"
  shows "storage_get (storage_put k v d) k' = (if k' = k then Some v else storage_get d k')"
proof -
  let ?hit = "\<lambda>k r. sto_tunnel r = fst k \<and> sto_key r = snd k"
  let ?row = "\<lparr>sto_tunnel = fst k, sto_key = snd k, sto_value = v, sto_updated = db_now d\<rparr>"
  have w: "db_faults d = []" "list_ex (\<lambda>r. tun_id r = fst k) (tunnels (db_tables d))"
    using assms by (auto simp: storage_writable_def tunnel_ids_def list_ex_iff)
  have kk: "k' = k \<longleftrightarrow> fst k = fst k' \<and> snd k = snd k'" by (auto simp: prod_eq_iff)
  show ?thesis
  proof (cases "list_ex (?hit k) (storage (db_tables d))")
    case True
    have "find (?hit k') (map (\<lambda>r. if ?hit k r then ?row else r) (storage (db_tables d))) =
        (if k' = k then Some ?row else find (?hit k') (storage (db_tables d)))"
      by (rule find_map_replace) (use True in \<open>auto simp: prod_eq_iff\<close>)
    with True w show ?thesis
      by (simp add: storage_get_def storage_put_def StoragePut_def stmt_run sql_storage_put_def Let_def storage_row_of_def)
  next
    case False
    then have "find (?hit k) (storage (db_tables d)) = None" by (auto simp: find_None_iff list_ex_iff)
    with False w kk show ?thesis
      by (auto simp: storage_get_def storage_put_def StoragePut_def stmt_run sql_storage_put_def Let_def
          storage_row_of_def find_append_last split: option.splits)
  qed
qed

lemma find_filter_other: "(\<And>x. P x \<Longrightarrow> C x) \<Longrightarrow> find P (filter C xs) = find P xs"
  by (induction xs) auto

lemma storage_del_tables:
  assumes "db_faults d = []"
  shows "db_tables (storage_del k d) = (db_tables d)\<lparr>storage :=
      filter (\<lambda>r. \<not> (sto_tunnel r = fst k \<and> sto_key r = snd k)) (storage (db_tables d))\<rparr> \<and>
    db_faults (storage_del k d) = []"
  using assms
  by (auto simp: storage_del_def StorageDelete_def require_rows_def affect_def bindr_def stmt_run throw_def retr_def)

lemma storage_get_del:
  assumes "storage_writable d k"
  shows "storage_get (storage_del k d) k' = (if k' = k then None else storage_get d k')"
proof -
  have t: "storage (db_tables (storage_del k d)) = filter (\<lambda>r. \<not> (sto_tunnel r = fst k \<and> sto_key r = snd k)) (storage (db_tables d))"
    using storage_del_tables assms by (simp add: storage_writable_def)
  show ?thesis
  proof (cases "k' = k")
    case False
    then have "find (\<lambda>r. sto_tunnel r = fst k' \<and> sto_key r = snd k') (storage (db_tables (storage_del k d))) =
        find (\<lambda>r. sto_tunnel r = fst k' \<and> sto_key r = snd k') (storage (db_tables d))"
      unfolding t by (intro find_filter_other) (auto simp: prod_eq_iff)
    with False show ?thesis by (simp add: storage_get_def storage_row_of_def)
  qed (auto simp: storage_get_def storage_row_of_def t find_None_iff)
qed

lemma storage_put_ok:
  assumes "storage_writable d k"
  shows "storage_writable (storage_put k v d) k' = storage_writable d k'"
  using assms by (simp add: storage_writable_def storage_put_def StoragePut_def stmt_run sql_storage_put_def Let_def)

lemma storage_del_ok:
  assumes "storage_writable d k"
  shows "storage_writable (storage_del k d) k' = storage_writable d k'"
  using assms storage_del_tables [of d k] by (simp add: storage_writable_def tunnel_ids_def)

interpretation storage: kv_store storage_get storage_put storage_del storage_writable
  by unfold_locales (fact storage_get_put storage_get_del storage_put_ok storage_del_ok)+

section \<open>Properties\<close>

text \<open>
  C8: The configuration sent to the nodes has one peer and two routes (the domain and its
  wildcard) for every lease in force, and nothing else; host names, keys and addresses are
  each listed once, and the version is the hash of the rest.
\<close>
theorem NodeConfig_lists_leases:
  assumes "schema_ok d" and "store_NodeConfig coll base fresh dz d = (Inr cfg, d')"
  shows "(\<forall>h ip. \<lparr>rt_hostname = h, rt_vpn_ip = ip\<rparr> \<in> set (nc_routes cfg) \<longleftrightarrow>
      (\<exists>r l. in_force d r l \<and> ip = ip4_string (tun_ip r) \<and>
        (h = tunnel_domain (tun_subdomain r) base \<or> h = ''*.'' @ tunnel_domain (tun_subdomain r) base))) \<and>
    (\<forall>k ip. \<lparr>pp_public_key = k, pp_vpn_ip = ip\<rparr> \<in> set (nc_peers cfg) \<longleftrightarrow>
      (\<exists>r l. in_force d r l \<and> ip = ip4_string (tun_ip r) \<and> k = ls_pubkey l)) \<and>
    distinct (map rt_hostname (nc_routes cfg)) \<and> distinct (map pp_public_key (nc_peers cfg)) \<and>
    distinct (map pp_vpn_ip (nc_peers cfg)) \<and> nc_version cfg = config_version (cfg\<lparr>nc_version := []\<rparr>)"
proof -
  note f = NodeConfig_fields [OF assms(2)] and live = live_leases_iff [OF assms(1)]
    and dist = live_leases_distinct [OF assms(1)]
  have routes: "\<lparr>rt_hostname = h, rt_vpn_ip = ip\<rparr> \<in> set (nc_routes cfg) \<longleftrightarrow>
      (\<exists>r l. in_force d r l \<and> ip = ip4_string (tun_ip r) \<and>
        (h = tunnel_domain (tun_subdomain r) base \<or> h = ''*.'' @ tunnel_domain (tun_subdomain r) base))" for h ip
    using f by (simp add: config_routes_set live) blast
  have peers: "\<lparr>pp_public_key = k, pp_vpn_ip = ip\<rparr> \<in> set (nc_peers cfg) \<longleftrightarrow>
      (\<exists>r l. in_force d r l \<and> ip = ip4_string (tun_ip r) \<and> k = ls_pubkey l)" for k ip
  proof -
    have "\<lparr>pp_public_key = k, pp_vpn_ip = ip\<rparr> \<in> set (nc_peers cfg) \<longleftrightarrow>
        (\<exists>sub w. (sub, w, k) \<in> set (sql_live_leases d) \<and> ip = ip4_string w)"
      using f by (force simp: config_peers_def)
    then show ?thesis by (simp add: live) blast
  qed
  have "set (fst x) \<subseteq> set base32_alphabet" if "x \<in> set (sql_live_leases d)" for x
  proof -
    from that obtain r l where "in_force d r l" "fst x = tun_subdomain r" unfolding live by auto
    then show ?thesis
      using schema_okD(3) [OF assms(1)] by (simp add: in_force_def tunnels_ok_def tunnel_row_ok_def)
  qed
  then have "distinct (map rt_hostname (nc_routes cfg))"
    using f dist(1) by (simp add: config_routes_distinct)
  moreover have "map pp_public_key (nc_peers cfg) = map (snd \<circ> snd) (sql_live_leases d)"
    "map pp_vpn_ip (nc_peers cfg) = map ip4_string (map (fst \<circ> snd) (sql_live_leases d))"
    using f by (auto simp: config_peers_def)
  moreover from this(2) have "distinct (map pp_vpn_ip (nc_peers cfg))"
    using dist(2) by (simp only: distinct_map) (auto simp: inj_on_def ip4_string_inj)
  moreover have "distinct (map pp_public_key (nc_peers cfg))"
    using dist(3) calculation(2) by simp
  ultimately show ?thesis using routes peers f by blast
qed

theorem NodeConfig_lists_leases_witness:
  "\<exists>cfg. store_NodeConfig id ''ex.org'' 90 \<lparr>zc_ns_names = [], zc_soa_email = []\<rparr> leased_db = (Inr cfg, leased_db) \<and>
     distinct (map rt_hostname (nc_routes cfg))"
proof -
  have "db_faults leased_db = []"
    by (simp add: leased_db_def first_db_def first_tunnel_def run_defs AcquireLease_def sql_upsert_lease_def lease_of_def
        sql_token_used_def)
  then obtain cfg where c: "store_NodeConfig id ''ex.org'' 90 \<lparr>zc_ns_names = [], zc_soa_email = []\<rparr> leased_db = (Inr cfg, leased_db)"
    by (simp add: store_NodeConfig_def bindr_def query_run Let_def retr_def)
  from NodeConfig_lists_leases [OF leased_db_ok c] c show ?thesis by blast
qed

text \<open>
  C15: The agents' storage is isolated and last-write-wins: after any sequence of writes and
  deletions by any tunnels, a key of a tunnel reads as the last value that tunnel wrote to it.
\<close>
theorem storage_last_write:
  assumes "db_faults d = []" and "\<forall>w\<in>set ws. fst (fst w) \<in> tunnel_ids (db_tables d)"
  shows "storage_get (fold (kv_write storage_put storage_del) ws d) (tid, key) =
    (case last_write ws (tid, key) of Some v \<Rightarrow> v | None \<Rightarrow> storage_get d (tid, key))"
  using assms by (intro storage.last_write_wins) (simp add: storage_writable_def)

theorem storage_last_write_witness:
  "storage_get (fold (kv_write storage_put storage_del) [((1, ''k''), Some [1]), ((1, ''j''), None), ((1, ''k''), Some [2])] first_db)
     (1, ''k'') = Some [2]"
proof -
  have "1 \<in> tunnel_ids (db_tables first_db)"
    by (simp add: first_db_def first_tunnel_def run_defs tunnel_ids_def)
  then show ?thesis
    by (subst storage_last_write [OF first_db_faults]) (simp_all add: last_write_def)
qed

end
