(* ===== verification/Url.thy ===== *)
theory Url
  imports Net_Addr
begin

text \<open>
  The escapes of net/url the program uses: PathEscape for a segment of a path, the escape of
  url.Values.Encode for a value of a query, and what the server decodes of them.
\<close>

definition url_unreserved :: "char \<Rightarrow> bool" where
  "url_unreserved c \<longleftrightarrow> CHR ''a'' \<le> c \<and> c \<le> CHR ''z'' \<or> is_upper c \<or> is_digit c \<or> c \<in> set ''-_.~''"

text \<open>url.PathEscape: the bytes a path segment may hold stay, the others become %XX.\<close>

definition path_safe :: "char \<Rightarrow> bool" where
  "path_safe c \<longleftrightarrow> url_unreserved c \<or> c \<in> set ''$&+:=@''"

definition upper_hex :: "nat \<Rightarrow> char" where
  "upper_hex n = (if n < 10 then char_of (48 + n) else char_of (55 + n))"

definition percent :: "char \<Rightarrow> string" where
  "percent c = [CHR ''%'', upper_hex (of_char c div 16), upper_hex (of_char c mod 16)]"

definition PathEscape :: "string \<Rightarrow> string" where
  "PathEscape s = concat (map (\<lambda>c. if path_safe c then [c] else percent c) s)"

text \<open>url.QueryEscape: a space becomes a plus sign.\<close>

definition QueryEscape :: "string \<Rightarrow> string" where
  "QueryEscape s = concat (map (\<lambda>c. if c = CHR '' '' then ''+'' else if url_unreserved c then [c] else percent c) s)"

text \<open>What the server decodes: None is a malformed escape; in a query a plus sign is a space.\<close>

fun unescape :: "bool \<Rightarrow> string \<Rightarrow> string option" where
  "unescape query [] = Some []"
| "unescape query (c # s) =
     (if c = CHR ''%'' then
        (case s of
           a # b # s' \<Rightarrow>
             (case (hex_val a, hex_val b) of
                (Some x, Some y) \<Rightarrow> map_option ((#) (char_of (16 * x + y))) (unescape query s')
              | _ \<Rightarrow> None)
         | _ \<Rightarrow> None)
      else map_option ((#) (if query \<and> c = CHR ''+'' then CHR '' '' else c)) (unescape query s))"

abbreviation PathUnescape :: "string \<Rightarrow> string option" where
  "PathUnescape \<equiv> unescape False"

abbreviation QueryUnescape :: "string \<Rightarrow> string option" where
  "QueryUnescape \<equiv> unescape True"

section \<open>The escapes are undone\<close>

lemma hex_val_upper: "n < 16 \<Longrightarrow> hex_val (upper_hex n) = Some n"
  by (cases "n < 10") (simp_all add: hex_val_def upper_hex_def Let_def)

lemma url_unreserved_not:
  "\<not> url_unreserved CHR ''%''" "\<not> url_unreserved CHR ''/''" "\<not> url_unreserved CHR ''+''"
  "\<not> url_unreserved CHR '' ''" "\<not> url_unreserved CHR ''&''" "\<not> url_unreserved CHR ''=''" "\<not> url_unreserved CHR ''?''"
  "\<not> url_unreserved CHR '';''"
  by (simp_all add: url_unreserved_def is_digit_def is_upper_def less_eq_char_def)

lemma url_unreserved_neq:
  "url_unreserved c \<Longrightarrow> c \<noteq> CHR ''%'' \<and> c \<noteq> CHR ''+'' \<and> c \<noteq> CHR ''/'' \<and> c \<noteq> CHR ''?'' \<and> c \<noteq> CHR ''&''"
  using url_unreserved_not by blast

lemma percent_unsafe: "\<not> path_safe CHR ''%''" "\<not> path_safe CHR ''/''"
  by (simp_all add: path_safe_def url_unreserved_not)

lemma PathEscape_simps [simp]:
  "PathEscape [] = []"
  "PathEscape (c # s) = (if path_safe c then [c] else percent c) @ PathEscape s"
  by (simp_all add: PathEscape_def)

lemma QueryEscape_simps [simp]:
  "QueryEscape [] = []"
  "QueryEscape (c # s) = (if c = CHR '' '' then ''+'' else if url_unreserved c then [c] else percent c) @ QueryEscape s"
  by (simp_all add: QueryEscape_def)

lemma unescape_percent: "unescape q (percent c @ s) = map_option ((#) c) (unescape q s)"
proof -
  have "char_of (16 * (of_char c div 16) + of_char c mod 16 :: nat) = c" by simp
  moreover have "hex_val (upper_hex (of_char c div 16)) = Some (of_char c div 16)"
    "hex_val (upper_hex (of_char c mod 16)) = Some (of_char c mod 16)"
    by (rule hex_val_upper, rule less_mult_imp_div_less, simp) (rule hex_val_upper, simp)
  ultimately show ?thesis by (simp add: percent_def)
qed

lemma unescape_plain:
  "c \<noteq> CHR ''%'' \<Longrightarrow> \<not> (q \<and> c = CHR ''+'') \<Longrightarrow> unescape q (c # s) = map_option ((#) c) (unescape q s)"
  by (auto simp: unescape.simps(2))

lemma map_option_Cons: "map_option ((#) c) (map_option ((@) s) x) = map_option (\<lambda>a. c # s @ a) x"
  by (cases x) simp_all

lemma map_option_same [simp]: "map_option (\<lambda>a. a) x = x"
  by (cases x) simp_all

lemma PathUnescape_escape: "PathUnescape (PathEscape s @ t) = map_option ((@) s) (PathUnescape t)"
proof (induction s)
  case (Cons c s)
  have "c \<noteq> CHR ''%''" if "path_safe c" using that percent_unsafe by blast
  then show ?case using Cons.IH
    by (simp add: unescape_percent unescape_plain map_option_Cons del: unescape.simps)
qed simp

lemma QueryUnescape_escape: "QueryUnescape (QueryEscape s @ t) = map_option ((@) s) (QueryUnescape t)"
proof (induction s)
  case (Cons c s)
  have "c \<noteq> CHR ''%'' \<and> c \<noteq> CHR ''+''" if "url_unreserved c" using that url_unreserved_not by blast
  moreover have "QueryUnescape (CHR ''+'' # u) = map_option ((#) CHR '' '') (QueryUnescape u)" for u
    by (simp add: unescape.simps(2))
  ultimately show ?case using Cons.IH
    by (auto simp: unescape_percent unescape_plain map_option_Cons simp del: unescape.simps)
qed simp

lemma QueryUnescape_QueryEscape [simp]: "QueryUnescape (QueryEscape s) = Some s"
  using QueryUnescape_escape [of s "[]"] by simp

text \<open>An escaped value holds none of the characters that delimit a query.\<close>

lemma QueryEscape_no_delimiter: "set (QueryEscape s) \<inter> set ''&=?;'' = {}"
proof -
  have hex: "upper_hex n \<notin> set ''&=?;''" if "n < 16" for n
    using hex_val_upper [OF that] by (auto simp: hex_val_def Let_def is_digit_def less_eq_char_def split: if_splits)
  have "of_char c div 16 < (16 :: nat)" "of_char c mod 16 < (16 :: nat)" for c :: char
    by (rule less_mult_imp_div_less, simp) simp
  with hex have "set (percent c) \<inter> set ''&=?;'' = {}" for c by (auto simp: percent_def)
  then show ?thesis
    using url_unreserved_not by (induction s) (simp, auto)
qed

lemma PathUnescape_join: "PathUnescape (join_with ''/'' (map PathEscape ps)) = Some (join_with ''/'' ps)"
proof (induction "''/''" ps rule: join_with.induct)
  case (2 p)
  then show ?case using PathUnescape_escape [of p "[]"] by simp
next
  case (3 p q ps)
  then show ?case by (simp add: PathUnescape_escape)
qed simp

section \<open>Clean paths\<close>

text \<open>
  path.Clean of a rooted path: empty segments and single dots go, a double dot takes the segment
  before it away.  cleanPath of net/http keeps a final slash.
\<close>

fun clean_segments :: "string list \<Rightarrow> string list \<Rightarrow> string list" where
  "clean_segments acc [] = rev acc"
| "clean_segments acc (s # ss) =
     (if s = [] \<or> s = ''.'' then clean_segments acc ss
      else if s = ''..'' then clean_segments (tl acc) ss
      else clean_segments (s # acc) ss)"

definition cleanPath :: "string \<Rightarrow> string" where
  "cleanPath p =
     (if p = [] then ''/''
      else let r = (if hd p = CHR ''/'' then p else CHR ''/'' # p);
               np = CHR ''/'' # join_with ''/'' (clean_segments [] (split_on CHR ''/'' (tl r)))
           in if last p = CHR ''/'' \<and> np \<noteq> ''/'' then np @ ''/'' else np)"

definition plain_segment :: "string \<Rightarrow> bool" where
  "plain_segment s \<longleftrightarrow> s \<noteq> [] \<and> s \<noteq> ''.'' \<and> s \<noteq> ''..''"

lemma clean_segments_plain: "(\<And>s. s \<in> set ss \<Longrightarrow> plain_segment s) \<Longrightarrow> clean_segments acc ss = rev acc @ ss"
  by (induction ss arbitrary: acc) (auto simp: plain_segment_def)

lemma join_with_not_Nil: "ss \<noteq> [] \<Longrightarrow> last ss \<noteq> [] \<Longrightarrow> join_with sep ss \<noteq> []"
  by (induction sep ss rule: join_with.induct) auto

lemma last_join_with: "ss \<noteq> [] \<Longrightarrow> last ss \<noteq> [] \<Longrightarrow> last (join_with sep ss) = last (last ss)"
proof (induction sep ss rule: join_with.induct)
  case (3 sep p q ps)
  then show ?case using join_with_not_Nil [of "q # ps" sep] by (simp add: last_append)
qed simp_all

text \<open>A path of plain segments is clean.\<close>

lemma cleanPath_plain:
  assumes "ss \<noteq> []" and "\<And>s. s \<in> set ss \<Longrightarrow> plain_segment s" and "\<And>s. s \<in> set ss \<Longrightarrow> CHR ''/'' \<notin> set s"
  shows "cleanPath (CHR ''/'' # join_with ''/'' ss) = CHR ''/'' # join_with ''/'' ss"
proof -
  have ne: "s \<noteq> []" if "s \<in> set ss" for s using assms(2) [OF that] by (simp add: plain_segment_def)
  have l: "last ss \<in> set ss" using assms(1) by simp
  have "split_on CHR ''/'' (join_with ''/'' ss) = ss" by (rule split_join [OF assms(1,3)])
  moreover have "last (join_with ''/'' ss) \<noteq> CHR ''/''"
    using last_join_with [OF assms(1) ne [OF l]] assms(3) [OF l] ne [OF l] by (metis last_in_set)
  ultimately show ?thesis
    using join_with_not_Nil [OF assms(1) ne [OF l]] clean_segments_plain [OF assms(2)] by (simp add: cleanPath_def Let_def)
qed

lemma PathEscape_inj: "PathEscape s = PathEscape t \<Longrightarrow> s = t"
  using PathUnescape_escape [of s "[]"] PathUnescape_escape [of t "[]"] by simp

lemma PathUnescape_PathEscape [simp]: "PathUnescape (PathEscape s) = Some s"
  using PathUnescape_escape [of s "[]"] by simp

lemma PathEscape_no_slash: "CHR ''/'' \<notin> set (PathEscape s)"
proof -
  have hex: "upper_hex n \<noteq> CHR ''/''" if "n < 16" for n
    using hex_val_upper [OF that] by (auto simp: hex_val_def Let_def is_digit_def less_eq_char_def split: if_splits)
  have "of_char c div 16 < (16 :: nat)" "of_char c mod 16 < (16 :: nat)" for c :: char
    by (rule less_mult_imp_div_less, simp) simp
  with hex [symmetric] have "CHR ''/'' \<notin> set (percent c)" for c by (auto simp: percent_def)
  then show ?thesis using percent_unsafe by (induction s) auto
qed

lemma plain_PathEscape: "plain_segment s \<Longrightarrow> plain_segment (PathEscape s)"
proof -
  have dots: "PathEscape [] = []" "PathEscape ''.'' = ''.''" "PathEscape ''..'' = ''..''"
    by (simp_all add: path_safe_def url_unreserved_def)
  assume "plain_segment s"
  then show ?thesis unfolding plain_segment_def using PathEscape_inj dots by metis
qed

end
