(* ===== verification/Api.thy ===== *)
theory Api
  imports Store_Config Wg_Net Url
begin

text \<open>
  The control plane of internal/api/api.go: one definition per handler, the two middlewares
  that authenticate agents and nodes, the dispatch of the mux, the mapping of errors to status
  and code, and the long poll.

  A request is what net/http hands to the handler: its path is the escaped one, as it was sent
  (URL.EscapedPath), its query is already decoded and its JSON body, when it parses within 64 KiB, is its string fields (every request type has
  only such fields; a missing one is the empty string).  The DNS provider and the limiter of
  golang.org/x/time/rate are arguments.
\<close>

section \<open>Requests and responses\<close>

record request =
  rq_method :: string
  rq_path :: string
  rq_authorization :: string
  rq_query :: "string \<Rightarrow> string"
  rq_json :: "(string \<rightharpoonup> string) option"
  rq_body :: bytes
  rq_random :: bytes

datatype body =
    NoBody
  | ErrorBody proto_Error
  | RegisterBody RegisterResponse
  | HeartbeatBody HeartbeatResponse
  | StorageListBody "proto_StorageItem list"
  | BytesBody bytes
  | ACMEBody string
  | HelloBody NodeHelloResponse
  | ConfigBody NodeConfig
  | TextBody string

record response =
  rs_status :: nat
  rs_body :: body
  rs_content_length :: "nat option"
  rs_last_modified :: "instant option"

definition respond :: "nat \<Rightarrow> body \<Rightarrow> response" where
  "respond st b = \<lparr>rs_status = st, rs_body = b, rs_content_length = None, rs_last_modified = None\<rparr>"

definition writeErr :: "nat \<Rightarrow> string \<Rightarrow> string \<Rightarrow> response" where
  "writeErr st code msg = respond st (ErrorBody \<lparr>err_code = code, err_message = msg\<rparr>)"

definition writeJSON :: "body \<Rightarrow> response" where
  "writeJSON b = respond 200 b"

text \<open>The code of an error response, if it is one.\<close>

definition code_of :: "response \<Rightarrow> string option" where
  "code_of r = (case rs_body r of ErrorBody e \<Rightarrow> Some (err_code e) | _ \<Rightarrow> None)"

text \<open>The messages of the responses, in UTF-8.\<close>

definition msg_token :: string where "msg_token = ''token ausente o con formato inv'' @ [CHR 0xC3, CHR 0xA1] @ ''lido''"
definition msg_node_token :: string where "msg_node_token = ''token de nodo inv'' @ [CHR 0xC3, CHR 0xA1] @ ''lido''"
definition msg_register :: string where "msg_register = ''wg_public_key o instance_id inv'' @ [CHR 0xC3, CHR 0xA1] @ ''lidos''"
definition msg_key :: string where "msg_key = ''clave inv'' @ [CHR 0xC3, CHR 0xA1] @ ''lida''"
definition msg_no_key :: string where "msg_no_key = ''clave inexistente''"
definition msg_large :: string where "msg_large = ''cuerpo demasiado grande''"
definition msg_no_dns :: string where "msg_no_dns = ''no hay proveedor DNS externo ni ning'' @ [CHR 0xC3, CHR 0xBA] @ ''n nodo con IP p'' @ [CHR 0xC3, CHR 0xBA] @ ''blica: DNS-01 delegado no puede funcionar''"
definition msg_rate :: string where "msg_rate = ''demasiadas solicitudes de DNS-01; esper'' @ [CHR 0xC3, CHR 0xA1] @ '' unos segundos''"
definition msg_fqdn :: string where "msg_fqdn = ''fqdn fuera del dominio asignado a este tunnel''"
definition msg_value :: string where "msg_value = ''value inv'' @ [CHR 0xC3, CHR 0xA1] @ ''lido''"
definition msg_provider :: string where "msg_provider = ''no se pudo crear el registro DNS externo''"
definition msg_wg_key :: string where "msg_wg_key = ''wg_public_key inv'' @ [CHR 0xC3, CHR 0xA1] @ ''lida''"
definition msg_internal :: string where "msg_internal = ''error interno''"
definition msg_json :: string where "msg_json = ''JSON inv'' @ [CHR 0xC3, CHR 0xA1] @ ''lido''"
definition msg_not_found :: string where "msg_not_found = ''no encontrado''"
definition msg_unauthorized :: string where "msg_unauthorized = ''token inv'' @ [CHR 0xC3, CHR 0xA1] @ ''lido o revocado''"
definition msg_held :: string where "msg_held = ''otra instancia del agente tiene el tunnel''"
definition msg_superseded :: string where "msg_superseded = ''la instancia perdi'' @ [CHR 0xC3, CHR 0xB3] @ '' el lease''"
definition msg_pubkey :: string where "msg_pubkey = ''clave p'' @ [CHR 0xC3, CHR 0xBA] @ ''blica WireGuard ya registrada''"

section \<open>The server\<close>

definition LeaseTTL :: duration where "LeaseTTL = 45 * second"
definition HeartbeatEvery :: duration where "HeartbeatEvery = 15 * second"
definition nodeFreshness :: duration where "nodeFreshness = 90 * second"
definition longPollTimeout :: duration where "longPollTimeout = 25 * second"
definition longPollTick :: duration where "longPollTick = second"

text \<open>dnsprovider.Provider: None is an error of CreateTXT, False one of DeleteRecord.\<close>

record 'p provider =
  prov_create :: "string \<Rightarrow> string \<Rightarrow> 'p \<Rightarrow> string option \<times> 'p"
  prov_delete :: "string \<Rightarrow> 'p \<Rightarrow> bool \<times> 'p"

record 'l limiter =
  lim_new :: 'l
  lim_allow :: "instant \<Rightarrow> 'l \<Rightarrow> bool \<times> 'l"

record ('p, 'l) Server =
  srv_base_domain :: string
  srv_provider :: "'p provider option"
  srv_zone :: DNSZoneConfig
  srv_limiter :: "'l limiter"
  srv_collation :: "string \<Rightarrow> string"

record ('p, 'l) api_state =
  api_db :: db
  api_prov :: 'p
  api_limiters :: "int \<rightharpoonup> 'l"

type_synonym ('p, 'l) handler = "('p, 'l) api_state \<Rightarrow> response \<times> ('p, 'l) api_state"

text \<open>Calling the store from a handler.\<close>

definition call :: "'a dbm \<Rightarrow> ('p, 'l) api_state \<Rightarrow> (store_err + 'a) \<times> ('p, 'l) api_state" where
  "call m s = (case m (api_db s) of (r, d) \<Rightarrow> (r, s\<lparr>api_db := d\<rparr>))"

definition fail :: "store_err \<Rightarrow> response" where
  "fail e =
     (case e of
        ErrUnauthorized \<Rightarrow> writeErr 401 proto_ErrUnauthorized msg_unauthorized
      | ErrLeaseHeld \<Rightarrow> writeErr 409 proto_ErrLeaseHeld msg_held
      | ErrSuperseded \<Rightarrow> writeErr 409 proto_ErrSuperseded msg_superseded
      | ErrNotFound \<Rightarrow> writeErr 404 proto_ErrNotFound msg_not_found
      | ErrPubkeyInUse \<Rightarrow> writeErr 400 proto_ErrBadRequest msg_pubkey
      | _ \<Rightarrow> writeErr 500 proto_ErrInternal msg_internal)"

definition bearer :: "request \<Rightarrow> string" where
  "bearer r = (case cut_prefix (rq_authorization r) ''Bearer '' of Some v \<Rightarrow> v | None \<Rightarrow> [])"

definition validInstance :: "string \<Rightarrow> bool" where
  "validInstance i \<longleftrightarrow> i \<noteq> [] \<and> length i \<le> 64"

definition field :: "(string \<rightharpoonup> string) \<Rightarrow> string \<Rightarrow> string" where
  "field j k = (case j k of Some v \<Rightarrow> v | None \<Rightarrow> [])"

definition bad_json :: response where
  "bad_json = writeErr 400 proto_ErrBadRequest msg_json"

section \<open>Agents\<close>

definition register :: "('p, 'l) Server \<Rightarrow> request \<Rightarrow> Tunnel \<Rightarrow> ('p, 'l) handler" where
  "register srv r t s =
     (case rq_json r of
        None \<Rightarrow> (bad_json, s)
      | Some j \<Rightarrow>
          let inst = field j ''instance_id''; key = field j ''wg_public_key''; ver = field j ''version''
          in if ParseKey key = None \<or> \<not> validInstance inst
             then (writeErr 400 proto_ErrBadRequest msg_register, s)
             else (case call (AcquireLease (t_id t) inst key ver LeaseTTL) s of
                     (Inl e, s1) \<Rightarrow> (fail e, s1)
                   | (Inr _, s1) \<Rightarrow>
                       (case call (ActiveNodes nodeFreshness) s1 of
                          (Inl e, s2) \<Rightarrow> (fail e, s2)
                        | (Inr nodes, s2) \<Rightarrow>
                            (writeJSON (RegisterBody \<lparr>rr_tunnel_id = t_id t, rr_vpn_ip = t_vpn_ip t,
                               rr_domain = tunnel_domain (t_subdomain t) (srv_base_domain srv), rr_nodes = nodes,
                               rr_lease_ttl_seconds = LeaseTTL div second,
                               rr_heartbeat_seconds = HeartbeatEvery div second\<rparr>), s2))))"

definition heartbeat :: "request \<Rightarrow> Tunnel \<Rightarrow> ('p, 'l) handler" where
  "heartbeat r t s =
     (case rq_json r of
        None \<Rightarrow> (bad_json, s)
      | Some j \<Rightarrow>
          (case call (RenewLease (t_id t) (field j ''instance_id'') LeaseTTL) s of
             (Inl e, s1) \<Rightarrow> (fail e, s1)
           | (Inr _, s1) \<Rightarrow>
               (case call (ActiveNodes nodeFreshness) s1 of
                  (Inl e, s2) \<Rightarrow> (fail e, s2)
                | (Inr nodes, s2) \<Rightarrow> (writeJSON (HeartbeatBody \<lparr>hr_nodes = nodes\<rparr>), s2))))"

definition release :: "request \<Rightarrow> Tunnel \<Rightarrow> ('p, 'l) handler" where
  "release r t s =
     (case rq_json r of
        None \<Rightarrow> (bad_json, s)
      | Some j \<Rightarrow>
          (case call (ReleaseLease (t_id t) (field j ''instance_id'')) s of
             (Inl e, s1) \<Rightarrow> (fail e, s1)
           | (Inr _, s1) \<Rightarrow> (respond 204 NoBody, s1)))"

section \<open>The agents' storage\<close>

definition maxStorageValue :: nat where
  "maxStorageValue = 2 ^ 20"

definition storageKey :: "string \<Rightarrow> response + string" where
  "storageKey key =
     (if key = [] \<or> 512 < length key \<or> contains key ''..''
      then Inl (writeErr 400 proto_ErrBadRequest msg_key) else Inr key)"

text \<open>A value of the Last-Modified header: http.TimeFormat has whole seconds.\<close>

definition whole_seconds :: "instant \<Rightarrow> instant" where
  "whole_seconds t = t div second * second"

definition storageGet :: "request \<Rightarrow> string \<Rightarrow> Tunnel \<Rightarrow> ('p, 'l) handler" where
  "storageGet r path_key t s =
     (case storageKey path_key of
        Inl e \<Rightarrow> (e, s)
      | Inr key \<Rightarrow>
          (case call (StorageGet (t_id t) key) s of
             (Inl e, s1) \<Rightarrow>
               (if e = ErrNotFound then writeErr 404 proto_ErrNotFound msg_no_key else fail e, s1)
           | (Inr (val, upd), s1) \<Rightarrow>
               (\<lparr>rs_status = 200, rs_body = (if rq_method r = ''HEAD'' then NoBody else BytesBody val),
                 rs_content_length = Some (length val), rs_last_modified = Some (whole_seconds upd)\<rparr>, s1)))"

definition storagePut :: "request \<Rightarrow> string \<Rightarrow> Tunnel \<Rightarrow> ('p, 'l) handler" where
  "storagePut r path_key t s =
     (case storageKey path_key of
        Inl e \<Rightarrow> (e, s)
      | Inr key \<Rightarrow>
          if maxStorageValue < length (rq_body r)
          then (writeErr 400 proto_ErrBadRequest msg_large, s)
          else (case call (StoragePut (t_id t) key (rq_body r)) s of
                  (Inl e, s1) \<Rightarrow> (fail e, s1)
                | (Inr _, s1) \<Rightarrow> (respond 204 NoBody, s1)))"

definition storageDelete :: "string \<Rightarrow> Tunnel \<Rightarrow> ('p, 'l) handler" where
  "storageDelete path_key t s =
     (case storageKey path_key of
        Inl e \<Rightarrow> (e, s)
      | Inr key \<Rightarrow>
          (case call (StorageDelete (t_id t) key) s of
             (Inl e, s1) \<Rightarrow>
               (if e = ErrNotFound then writeErr 404 proto_ErrNotFound msg_no_key else fail e, s1)
           | (Inr _, s1) \<Rightarrow> (respond 204 NoBody, s1)))"

definition storageList :: "('p, 'l) Server \<Rightarrow> request \<Rightarrow> Tunnel \<Rightarrow> ('p, 'l) handler" where
  "storageList srv r t s =
     (case call (StorageList (srv_collation srv) (t_id t) (rq_query r ''prefix'')) s of
        (Inl e, s1) \<Rightarrow> (fail e, s1)
      | (Inr items, s1) \<Rightarrow>
          (writeJSON (StorageListBody (map (\<lambda>it. \<lparr>psi_key = si_key it, psi_size = si_size it, psi_updated_at = si_updated_at it\<rparr>) items)), s1))"

section \<open>Delegated DNS-01\<close>

definition acme_prefix :: string where
  "acme_prefix = ''_acme-challenge.''"

definition validACMEDNSName :: "string \<Rightarrow> string \<Rightarrow> bool" where
  "validACMEDNSName fqdn domain =
     (case cut_prefix fqdn acme_prefix of
        None \<Rightarrow> False
      | Some rest \<Rightarrow> rest = domain \<or> has_suffix rest (''.'' @ domain))"

text \<open>The limiter of a tunnel, made at its first use, asked once.\<close>

definition dnsLimiter :: "('p, 'l) Server \<Rightarrow> int \<Rightarrow> ('p, 'l) api_state \<Rightarrow> 'l \<times> ('p, 'l) api_state" where
  "dnsLimiter srv tid s =
     (case api_limiters s tid of
        Some l \<Rightarrow> (l, s)
      | None \<Rightarrow>
          let l = lim_new (srv_limiter srv) in (l, s\<lparr>api_limiters := (api_limiters s)(tid \<mapsto> l)\<rparr>))"

definition allow_dns :: "('p, 'l) Server \<Rightarrow> int \<Rightarrow> ('p, 'l) api_state \<Rightarrow> bool \<times> ('p, 'l) api_state" where
  "allow_dns srv tid s =
     (case dnsLimiter srv tid s of
        (l, s1) \<Rightarrow>
          (case lim_allow (srv_limiter srv) (db_now (api_db s1)) l of
             (ok, l') \<Rightarrow> (ok, s1\<lparr>api_limiters := (api_limiters s1)(tid \<mapsto> l')\<rparr>)))"

text \<open>Without an external provider, at least one node must have a public address.\<close>

definition acme_possible :: "('p, 'l) Server \<Rightarrow> ('p, 'l) api_state \<Rightarrow> bool \<times> ('p, 'l) api_state" where
  "acme_possible srv s =
     (if srv_provider srv = None then
        (case call HasPublicNode s of (r, s1) \<Rightarrow> (r \<noteq> Inr False, s1))
      else (True, s))"

definition acmeDNSCreate :: "('p, 'l) Server \<Rightarrow> request \<Rightarrow> Tunnel \<Rightarrow> ('p, 'l) handler" where
  "acmeDNSCreate srv r t s0 =
     (case acme_possible srv s0 of
        (False, s1) \<Rightarrow> (writeErr 501 proto_ErrInternal msg_no_dns, s1)
      | (True, s1) \<Rightarrow>
          (case allow_dns srv (t_id t) s1 of
             (False, s2) \<Rightarrow> (writeErr 429 proto_ErrRateLimited msg_rate, s2)
           | (True, s2) \<Rightarrow>
               (case rq_json r of
                  None \<Rightarrow> (bad_json, s2)
                | Some j \<Rightarrow>
                    let fqdn = to_lower (trim_suffix (field j ''fqdn'') ''.''); val = field j ''value''
                    in if \<not> validACMEDNSName fqdn (tunnel_domain (t_subdomain t) (srv_base_domain srv))
                       then (writeErr 400 proto_ErrBadRequest msg_fqdn, s2)
                       else if val = [] \<or> 512 < length val then (writeErr 400 proto_ErrBadRequest msg_value, s2)
                       else
                         (case (case srv_provider srv of
                                  None \<Rightarrow> (Some [], s2)
                                | Some p \<Rightarrow>
                                    (case prov_create p fqdn val (api_prov s2) of (i, p') \<Rightarrow> (i, s2\<lparr>api_prov := p'\<rparr>))) of
                            (None, s3) \<Rightarrow> (writeErr 502 proto_ErrInternal msg_provider, s3)
                          | (Some recid, s3) \<Rightarrow>
                              (case call (CreateDNSChallenge (t_id t) fqdn val recid (rq_random r)) s3 of
                                 (Inl e, s4) \<Rightarrow> (fail e, s4)
                               | (Inr i, s4) \<Rightarrow> (writeJSON (ACMEBody i), s4))))))"

definition acmeDNSDelete :: "('p, 'l) Server \<Rightarrow> string \<Rightarrow> Tunnel \<Rightarrow> ('p, 'l) handler" where
  "acmeDNSDelete srv i t s =
     (case call (DNSChallenge (t_id t) i) s of
        (Inl e, s1) \<Rightarrow> (if e = ErrNotFound then respond 204 NoBody else fail e, s1)
      | (Inr (_, recid), s1) \<Rightarrow>
          let s2 = (case srv_provider srv of
                      Some p \<Rightarrow> if recid \<noteq> [] then s1\<lparr>api_prov := snd (prov_delete p recid (api_prov s1))\<rparr> else s1
                    | None \<Rightarrow> s1)
          in (case call (DeleteDNSChallenge (t_id t) i) s2 of
                (Inl e, s3) \<Rightarrow> (if e = ErrNotFound then respond 204 NoBody else fail e, s3)
              | (Inr _, s3) \<Rightarrow> (respond 204 NoBody, s3)))"

section \<open>Nodes\<close>

definition nodeHello :: "request \<Rightarrow> Node \<Rightarrow> ('p, 'l) handler" where
  "nodeHello r n s =
     (case rq_json r of
        None \<Rightarrow> (bad_json, s)
      | Some j \<Rightarrow>
          let key = field j ''wg_public_key''
          in if ParseKey key = None then (writeErr 400 proto_ErrBadRequest msg_wg_key, s)
             else (case call (NodeHello (n_id n) key (field j ''version'')) s of
                     (Inl e, s1) \<Rightarrow> (fail e, s1)
                   | (Inr _, s1) \<Rightarrow>
                       (writeJSON (HelloBody \<lparr>nhr_name = n_name n, nhr_gateway_ip = n_gateway_ip n\<rparr>), s1)))"

text \<open>
  The long poll.  Each look at the store either answers (an error, or a configuration whose
  version differs from ?since=) or waits for one tick.  While it waits the world moves: the
  events of the first element of the schedule happen, then one tick has passed.  The deadline
  of the context ends the wait with 304; the end of the schedule is the node hanging up, with
  no answer.
\<close>

definition config_look :: "('p, 'l) Server \<Rightarrow> string \<Rightarrow> Node \<Rightarrow> ('p, 'l) api_state \<Rightarrow> response option \<times> ('p, 'l) api_state" where
  "config_look srv since n s =
     (case call (TouchNode (n_id n)) s of
        (Inl e, s1) \<Rightarrow> (Some (fail e), s1)
      | (Inr _, s1) \<Rightarrow>
          (case call (store_NodeConfig (srv_collation srv) (srv_base_domain srv) nodeFreshness (srv_zone srv)) s1 of
             (Inl e, s2) \<Rightarrow> (Some (fail e), s2)
           | (Inr cfg, s2) \<Rightarrow> (if nc_version cfg \<noteq> since then Some (writeJSON (ConfigBody cfg)) else None, s2)))"

definition wait_tick :: "event list \<Rightarrow> ('p, 'l) api_state \<Rightarrow> ('p, 'l) api_state" where
  "wait_tick es s = s\<lparr>api_db := exec (EvTick longPollTick) (run_events es (api_db s))\<rparr>"

fun config_loop ::
  "('p, 'l) Server \<Rightarrow> string \<Rightarrow> Node \<Rightarrow> instant \<Rightarrow> event list list \<Rightarrow> ('p, 'l) api_state \<Rightarrow>
   response option \<times> ('p, 'l) api_state" where
  "config_loop srv since n deadline sched s =
     (case config_look srv since n s of
        (Some r, s1) \<Rightarrow> (Some r, s1)
      | (None, s1) \<Rightarrow>
          (case sched of
             [] \<Rightarrow> (None, s1)
           | es # rest \<Rightarrow>
               let s2 = wait_tick es s1
               in if deadline \<le> db_now (api_db s2) then (Some (respond 304 NoBody), s2)
                  else config_loop srv since n deadline rest s2))"

declare config_loop.simps [simp del]

definition nodeConfig ::
  "('p, 'l) Server \<Rightarrow> request \<Rightarrow> Node \<Rightarrow> event list list \<Rightarrow> ('p, 'l) api_state \<Rightarrow>
   response option \<times> ('p, 'l) api_state" where
  "nodeConfig srv r n sched s =
     config_loop srv (rq_query r ''since'') n (db_now (api_db s) + longPollTimeout) sched s"

section \<open>Middlewares and dispatch\<close>

definition agent :: "(Tunnel \<Rightarrow> ('p, 'l) handler) \<Rightarrow> request \<Rightarrow> ('p, 'l) handler" where
  "agent h r s =
     (case Parse (bearer r) PrefixAgent of
        Inl _ \<Rightarrow> (writeErr 401 proto_ErrUnauthorized msg_token, s)
      | Inr tok \<Rightarrow>
          (case call (AuthAgent tok) s of
             (Inl e, s1) \<Rightarrow> (fail e, s1)
           | (Inr t, s1) \<Rightarrow> h t s1))"

definition node ::
  "(Node \<Rightarrow> ('p, 'l) api_state \<Rightarrow> response option \<times> ('p, 'l) api_state) \<Rightarrow> request \<Rightarrow>
   ('p, 'l) api_state \<Rightarrow> response option \<times> ('p, 'l) api_state" where
  "node h r s =
     (case Parse (bearer r) PrefixNode of
        Inl _ \<Rightarrow> (Some (writeErr 401 proto_ErrUnauthorized msg_node_token), s)
      | Inr tok \<Rightarrow>
          (case call (AuthNode tok) s of
             (Inl e, s1) \<Rightarrow> (Some (fail e), s1)
           | (Inr n, s1) \<Rightarrow> h n s1))"

text \<open>
  The patterns of the mux: a method and a path.  ServeMux redirects a path that is not clean; it
  decodes a segment before it compares it, so an escaped slash does not separate.  The rest of a
  path of storage is its key; the id of a challenge is one segment, and a lone slash is none.  An
  unknown path is 404; the wrong method 405.
\<close>

datatype route =
    Healthz | Register | Heartbeat | Release | StorageIndex | StorageKey string
  | AcmeDNS | AcmeDNSId string | HelloRoute | ConfigRoute

definition segment_of :: "string \<Rightarrow> string" where
  "segment_of s = (case PathUnescape s of Some x \<Rightarrow> x | None \<Rightarrow> s)"

definition route_of :: "string \<Rightarrow> route option" where
  "route_of path =
     (if cleanPath path \<noteq> path then None
      else
        let segs = split_on CHR ''/'' (tl path); ls = map segment_of segs
        in if ls = [''healthz''] then Some Healthz
           else if ls = [''v1'', ''agent'', ''register''] then Some Register
           else if ls = [''v1'', ''agent'', ''heartbeat''] then Some Heartbeat
           else if ls = [''v1'', ''agent'', ''release''] then Some Release
           else if ls = [''v1'', ''agent'', ''storage''] then Some StorageIndex
           else if ls = [''v1'', ''agent'', ''acme-dns''] then Some AcmeDNS
           else if ls = [''v1'', ''node'', ''hello''] then Some HelloRoute
           else if ls = [''v1'', ''node'', ''config''] then Some ConfigRoute
           else if take 3 ls = [''v1'', ''agent'', ''storage''] then Some (StorageKey (segment_of (join_with ''/'' (drop 3 segs))))
           else if take 3 ls = [''v1'', ''agent'', ''acme-dns''] \<and> length ls = 4 \<and> ls ! 3 \<notin> {[], ''/''}
           then Some (AcmeDNSId (ls ! 3))
           else None)"

text \<open>The methods of a pattern; GET also matches HEAD.\<close>

fun methods :: "route \<Rightarrow> string list" where
  "methods Healthz = [''GET'', ''HEAD'']"
| "methods Register = [''POST'']"
| "methods Heartbeat = [''POST'']"
| "methods Release = [''POST'']"
| "methods StorageIndex = [''GET'', ''HEAD'']"
| "methods (StorageKey k) = [''GET'', ''HEAD'', ''PUT'', ''DELETE'']"
| "methods AcmeDNS = [''POST'']"
| "methods (AcmeDNSId i) = [''DELETE'']"
| "methods HelloRoute = [''POST'']"
| "methods ConfigRoute = [''GET'', ''HEAD'']"

fun agent_handler :: "('p, 'l) Server \<Rightarrow> request \<Rightarrow> route \<Rightarrow> (Tunnel \<Rightarrow> ('p, 'l) handler) option" where
  "agent_handler srv r Register = Some (register srv r)"
| "agent_handler srv r Heartbeat = Some (heartbeat r)"
| "agent_handler srv r Release = Some (release r)"
| "agent_handler srv r StorageIndex = Some (storageList srv r)"
| "agent_handler srv r (StorageKey k) =
     Some (if rq_method r = ''PUT'' then storagePut r k
           else if rq_method r = ''DELETE'' then storageDelete k else storageGet r k)"
| "agent_handler srv r AcmeDNS = Some (acmeDNSCreate srv r)"
| "agent_handler srv r (AcmeDNSId i) = Some (acmeDNSDelete srv i)"
| "agent_handler srv r _ = None"

text \<open>
  The redirects: to the clean path, and, for a method that only the patterns with a key have, from
  /v1/agent/storage to the same path with a slash.
\<close>

definition Handler ::
  "('p, 'l) Server \<Rightarrow> request \<Rightarrow> event list list \<Rightarrow> ('p, 'l) api_state \<Rightarrow> response option \<times> ('p, 'l) api_state" where
  "Handler srv r sched s =
     (case route_of (rq_path r) of
        None \<Rightarrow> (Some (respond (if cleanPath (rq_path r) \<noteq> rq_path r then 301 else 404) NoBody), s)
      | Some rt \<Rightarrow>
          if rq_method r \<notin> set (methods rt)
          then (Some (respond (if rt = StorageIndex \<and> rq_method r \<in> {''PUT'', ''DELETE''} then 301 else 405) NoBody), s)
          else
            (case agent_handler srv r rt of
               Some h \<Rightarrow> (case agent h r s of (resp, s') \<Rightarrow> (Some resp, s'))
             | None \<Rightarrow>
                 if rt = Healthz then (Some (respond 200 (TextBody (''ok'' @ [CHR 0x0A]))), s)
                 else if rt = HelloRoute then
                   node (\<lambda>n s. case nodeHello r n s of (resp, s') \<Rightarrow> (Some resp, s')) r s
                 else node (\<lambda>n. nodeConfig srv r n sched) r s))"

end
