(* ===== verification/Api_Frames.thy ===== *)
theory Api_Frames
  imports Api
begin

text \<open>
  What the handlers of the API may change.  A handler run for a tunnel changes only the rows of
  that tunnel (stays_in), and a read changes nothing but the faults to come (only_faults).
\<close>

section \<open>Confinement to one tunnel\<close>

text \<open>
  What a request of the tunnel tid may change in the tables: the lease, the stored values and
  the challenges of that tunnel, and the time its token was last used.
\<close>

definition token_view :: "token_row \<Rightarrow> string \<times> int \<times> bytes" where
  "token_view k = (tok_row_id k, tok_tunnel k, tok_hash k)"

definition confined :: "int \<Rightarrow> tables \<Rightarrow> tables \<Rightarrow> bool" where
  "confined tid t t' \<longleftrightarrow>
     accounts t' = accounts t \<and> tunnels t' = tunnels t \<and> node_rows t' = node_rows t \<and>
     map token_view (tokens t') = map token_view (tokens t) \<and>
     filter (\<lambda>k. tok_tunnel k \<noteq> tid) (tokens t') = filter (\<lambda>k. tok_tunnel k \<noteq> tid) (tokens t) \<and>
     filter (\<lambda>l. ls_tunnel l \<noteq> tid) (leases t') = filter (\<lambda>l. ls_tunnel l \<noteq> tid) (leases t) \<and>
     filter (\<lambda>r. sto_tunnel r \<noteq> tid) (storage t') = filter (\<lambda>r. sto_tunnel r \<noteq> tid) (storage t) \<and>
     filter (\<lambda>c. ch_tunnel c \<noteq> tid) (challenges t') = filter (\<lambda>c. ch_tunnel c \<noteq> tid) (challenges t)"

lemma confined_refl [simp]: "confined tid t t"
  by (simp add: confined_def)

interpretation confined: table_relation "confined tid" for tid
  by unfold_locales (simp_all add: confined_def)

lemma filter_other_map:
  assumes "\<And>x. P x \<Longrightarrow> k (g x) = tid" and "\<And>x. P x \<Longrightarrow> k x = tid"
  shows "filter (\<lambda>x. k x \<noteq> tid) (map (\<lambda>x. if P x then g x else x) xs) = filter (\<lambda>x. k x \<noteq> tid) xs"
  using assms by (induction xs) auto

lemma filter_other_filter:
  assumes "\<And>x. \<not> P x \<Longrightarrow> k x = tid"
  shows "filter (\<lambda>x. k x \<noteq> tid) (filter P xs) = filter (\<lambda>x. k x \<noteq> tid) xs"
proof -
  have "k x \<noteq> tid \<Longrightarrow> P x" for x using assms by blast
  then show ?thesis by (auto intro: filter_cong)
qed

lemma map_view_map:
  assumes "\<And>x. v (g x) = v x"
  shows "map v (map (\<lambda>x. if P x then g x else x) xs) = map v xs"
  using assms by (induction xs) auto

lemma confined_token_used: "touches (confined tid) (sql_token_used tid)"
proof -
  have "map token_view (map (\<lambda>k. if tok_tunnel k = tid then k\<lparr>tok_last_used := Some n\<rparr> else k) ks) = map token_view ks" for n ks
    by (rule map_view_map) (simp add: token_view_def)
  then show ?thesis
    unfolding sql_token_used_def
    by (intro confined.touches_stmt)
      (auto simp: touches_def confined_def simp del: map_map intro!: filter_other_map)
qed

lemma confined_leases:
  "touches (confined tid) (AcquireLease tid inst key version ttl)"
  "touches (confined tid) (RenewLease tid inst ttl)" "touches (confined tid) (ReleaseLease tid inst)"
proof -
  have up: "touches (confined tid) (stmt (sql_upsert_lease tid inst key version ttl))"
    by (intro confined.touches_stmt)
      (auto simp: touches_def sql_upsert_lease_def Let_def confined_def intro!: filter_other_map split: option.splits)
  show "touches (confined tid) (AcquireLease tid inst key version ttl)"
    unfolding touches_def
  proof
    fix d
    obtain r d' where r: "stmt (sql_upsert_lease tid inst key version ttl) d = (r, d')" by fastforce
    have "confined tid (db_tables d) (db_tables d')" using touchesD [OF up, of d] r by simp
    then show "confined tid (db_tables d) (db_tables (snd (AcquireLease tid inst key version ttl d)))"
      using touchesD [OF confined_token_used, of tid d'] r
      by (cases r) (auto simp: AcquireLease_def intro: confined.trans)
  qed
  show "touches (confined tid) (RenewLease tid inst ttl)"
    unfolding RenewLease_def sql_renew_lease_def Let_def
    by (intro confined.touches_require_rows confined.touches_stmt) (auto simp: touches_def confined_def intro!: filter_other_map)
  show "touches (confined tid) (ReleaseLease tid inst)"
    unfolding ReleaseLease_def
    by (intro confined.touches_bindr confined.touches_affect confined.touches_pure)
      (auto simp: confined_def simp del: filter_filter intro!: filter_other_filter)
qed

lemma confined_data:
  "touches (confined tid) (StoragePut tid key val)" "touches (confined tid) (StorageDelete tid key)"
  "touches (confined tid) (CreateDNSChallenge tid fqdn val2 recid rnd)" "touches (confined tid) (DeleteDNSChallenge tid i)"
proof -
  show "touches (confined tid) (StoragePut tid key val)"
    unfolding StoragePut_def
    by (intro confined.touches_stmt) (auto simp: touches_def sql_storage_put_def Let_def confined_def intro!: filter_other_map)
  show "touches (confined tid) (CreateDNSChallenge tid fqdn val2 recid rnd)"
    unfolding CreateDNSChallenge_def Let_def
    by (intro confined.touches_bindr confined.touches_stmt confined.touches_pure)
      (auto simp: touches_def sql_insert_challenge_def Let_def confined_def)
qed (auto simp: StorageDelete_def DeleteDNSChallenge_def confined_def
      simp del: filter_filter intro!: filter_other_filter confined.touches_require_rows confined.touches_affect)

text \<open>Reads change no table.\<close>

lemma confined_reads:
  "touches (confined tid) (ActiveNodes w)" "touches (confined tid) (StorageGet i key)"
  "touches (confined tid) (StorageList coll i prefix)" "touches (confined tid) HasPublicNode"
  "touches (confined tid) (DNSChallenge i c)" "touches (confined tid) (AuthAgent tok)"
  unfolding ActiveNodes_def StorageGet_def StorageList_def HasPublicNode_def DNSChallenge_def AuthAgent_def
  by (auto intro!: confined.touches_bindr confined.touches_query split: option.splits simp: confined.touches_pure)

lemmas confined_ops = confined_leases confined_data confined_reads

text \<open>The same for the state of the server: the limiters of the other tunnels are untouched too.\<close>

definition stays_in :: "int \<Rightarrow> ('p, 'l) api_state \<Rightarrow> ('p, 'l) api_state \<Rightarrow> bool" where
  "stays_in tid s s' \<longleftrightarrow>
     confined tid (db_tables (api_db s)) (db_tables (api_db s')) \<and>
     (\<forall>t. t \<noteq> tid \<longrightarrow> api_limiters s' t = api_limiters s t)"

lemma stays_in_refl [simp, intro!]: "stays_in tid s s"
  by (simp add: stays_in_def)

lemma stays_in_trans: "stays_in tid a b \<Longrightarrow> stays_in tid b c \<Longrightarrow> stays_in tid a c"
  unfolding stays_in_def by (metis confined.trans)

lemma stays_in_prov [simp]: "stays_in tid s (s'\<lparr>api_prov := p\<rparr>) = stays_in tid s s'"
  by (simp add: stays_in_def)

lemma stays_in_call:
  assumes "stays_in tid s s1" and "touches (confined tid) m"
    and "\<And>r s2. stays_in tid s s2 \<Longrightarrow> stays_in tid s (snd (f r s2))"
  shows "stays_in tid s (snd (case call m s1 of (r, s2) \<Rightarrow> f r s2))"
proof -
  obtain r s2 where c: "call m s1 = (r, s2)" by fastforce
  then have "stays_in tid s1 s2"
    using touchesD [OF assms(2), of "api_db s1"] by (auto simp: call_def stays_in_def split: prod.splits)
  with assms(1) have "stays_in tid s s2" by (rule stays_in_trans)
  with assms(3) c show ?thesis by simp
qed

lemma stays_in_sum:
  assumes "\<And>e. stays_in tid s (snd (f e))" and "\<And>x. stays_in tid s (snd (g x))"
  shows "stays_in tid s (snd (case r of Inl e \<Rightarrow> f e | Inr x \<Rightarrow> g x))"
  using assms by (cases r) auto

lemma stays_in_allow: "allow_dns srv tid s = (b, s') \<Longrightarrow> stays_in tid s s'"
  by (auto simp: allow_dns_def dnsLimiter_def stays_in_def Let_def split: option.splits prod.splits)

lemma stays_in_possible: "acme_possible srv s = (b, s') \<Longrightarrow> stays_in tid s s'"
  using stays_in_call [OF stays_in_refl confined_reads(4), of tid s "\<lambda>r s1. (r \<noteq> Inr False, s1)"]
  by (auto simp: acme_possible_def split: if_splits prod.splits)

text \<open>The store calls of a handler, in the order it makes them.\<close>

lemma call_stays:
  assumes "call m s1 = (r, s2)" and "touches (confined tid) m" and "stays_in tid s s1"
  shows "stays_in tid s s2"
  using stays_in_call [OF assms(3,2), of Pair] assms(1) by simp

lemmas handler_splits = prod.splits sum.splits option.splits if_splits

lemma register_stays: "register srv r T s = (resp, s') \<Longrightarrow> stays_in (t_id T) s s'"
  unfolding register_def Let_def
  by (auto split: handler_splits intro: call_stays [OF _ confined_ops(1)] call_stays [OF _ confined_reads(1)])

lemma heartbeat_stays: "heartbeat r T s = (resp, s') \<Longrightarrow> stays_in (t_id T) s s'"
  unfolding heartbeat_def
  by (auto split: handler_splits intro: call_stays [OF _ confined_ops(2)] call_stays [OF _ confined_reads(1)])

lemma release_stays: "release r T s = (resp, s') \<Longrightarrow> stays_in (t_id T) s s'"
  unfolding release_def
  by (auto split: handler_splits intro: call_stays [OF _ confined_ops(3)])

lemma storage_stays:
  "storageGet r k T s = (resp, s') \<Longrightarrow> stays_in (t_id T) s s'"
  "storagePut r k T s = (resp, s') \<Longrightarrow> stays_in (t_id T) s s'"
  "storageDelete k T s = (resp, s') \<Longrightarrow> stays_in (t_id T) s s'"
  "storageList srv r T s = (resp, s') \<Longrightarrow> stays_in (t_id T) s s'"
  unfolding storageGet_def storagePut_def storageDelete_def storageList_def
  by (auto split: handler_splits intro: call_stays [OF _ confined_reads(2)] call_stays [OF _ confined_reads(3)]
      call_stays [OF _ confined_data(1)] call_stays [OF _ confined_data(2)])

text \<open>A query only consumes the schedule of faults.\<close>

definition only_faults :: "db \<Rightarrow> db \<Rightarrow> bool" where
  "only_faults d d' \<longleftrightarrow> (\<exists>fs. d' = d\<lparr>db_faults := fs\<rparr>)"

lemma only_faults_refl: "only_faults d d"
  unfolding only_faults_def by (metis db.surjective db.update_convs(4))

lemma only_faults_query: "within only_faults (query f)"
proof (rule withinI)
  fix d
  have "only_faults d d'" if "next_fault d = (x, d')" for x d'
    using that only_faults_refl by (auto simp: next_fault_def only_faults_def split: list.splits)
  then show "only_faults d (snd (query f d))"
    by (auto simp: query_def stmt_def split: prod.splits fault.splits)
qed

lemma only_faults_bindr:
  assumes "within only_faults m" and "\<And>x. within only_faults (f x)"
  shows "within only_faults (bindr m f)"
proof (rule withinI)
  fix d
  obtain r d' where r: "m d = (r, d')" by fastforce
  have "only_faults d d'" using assms(1) r by (rule withinD)
  moreover have "only_faults d' (snd (f x d'))" for x using assms(2) by (simp add: within_def)
  ultimately show "only_faults d (snd (bindr m f d))"
    by (cases r) (auto simp: bindr_def r only_faults_def)
qed

lemma only_faults_pure: "within only_faults (retr x)" "within only_faults (throw e)"
  by (simp_all add: within_def retr_def throw_def only_faults_refl)

lemma reads_only_faults:
  "within only_faults (ActiveNodes w)" "within only_faults (StorageGet i key)"
  "within only_faults (StorageList coll i prefix)" "within only_faults HasPublicNode"
  "within only_faults (DNSChallenge i c)" "within only_faults (AuthAgent tok)" "within only_faults (AuthNode ntok)"
  "within only_faults (store_NodeConfig coll base fresh dz)"
  unfolding ActiveNodes_def StorageGet_def StorageList_def HasPublicNode_def DNSChallenge_def AuthAgent_def AuthNode_def
    store_NodeConfig_def dnsActiveNodeIPs_def dnsChallenges_def Let_def
  by (auto intro!: only_faults_bindr only_faults_query only_faults_pure split: option.splits)

lemma only_faults_trans: "only_faults a b \<Longrightarrow> only_faults b c \<Longrightarrow> only_faults a c"
  by (auto simp: only_faults_def)

lemma only_faults_frame: "only_faults d d' \<Longrightarrow> db_tables d' = db_tables d \<and> db_seqs d' = db_seqs d \<and> db_now d' = db_now d"
  by (auto simp: only_faults_def)

lemma call_only_faults:
  "call m s = (r, s') \<Longrightarrow> within only_faults m \<Longrightarrow> only_faults (api_db s) (api_db s') \<and> (\<exists>d. s' = s\<lparr>api_db := d\<rparr>)"
  using withinD [of only_faults m "api_db s"] by (auto simp: call_def split: prod.splits)

lemma api_db_upd [simp]:
  "api_db (s\<lparr>api_prov := p\<rparr>) = api_db s" "api_db (s\<lparr>api_limiters := l\<rparr>) = api_db s"
  by simp_all

text \<open>
  What a request for a challenge did: either it was refused before the store was written, or
  the name it asked for, lower-cased and without its final dot, lies in the tunnel's domain and
  was sent to the store.
\<close>

text \<open>The two checks of acmeDNSCreate before it reads the request, and what it does with a readable one.\<close>

lemma acme_checks:
  assumes p: "acme_possible srv s = (ok, s1)" and a: "allow_dns srv tid s1 = (al, s2)"
  shows "stays_in tid s s1" "stays_in tid s s2" "only_faults (api_db s) (api_db s1)" "only_faults (api_db s) (api_db s2)"
proof -
  show s1: "stays_in tid s s1" using p by (rule stays_in_possible)
  show "stays_in tid s s2" using s1 stays_in_allow [OF a] by (rule stays_in_trans)
  show t1: "only_faults (api_db s) (api_db s1)"
    using p call_only_faults [OF _ reads_only_faults(4), of s]
    by (auto simp: acme_possible_def only_faults_refl split: if_splits prod.splits)
  show "only_faults (api_db s) (api_db s2)"
    using a t1 by (auto simp: allow_dns_def dnsLimiter_def Let_def split: option.splits prod.splits)
qed

lemma acme_create_tail:
  assumes h: "(if \<not> valid then (writeErr 400 proto_ErrBadRequest msg_fqdn, s2)
      else if tooLong then (writeErr 400 proto_ErrBadRequest msg_value, s2)
      else case made of (None, s3) \<Rightarrow> (writeErr 502 proto_ErrInternal msg_provider, s3)
        | (Some recid, s3) \<Rightarrow> (case call (create recid) s3 of
            (Inl e, s4) \<Rightarrow> (fail e, s4) | (Inr i, s4) \<Rightarrow> (writeJSON (ACMEBody i), s4))) = (resp, s')"
    and m: "made = (rid, s3)"
  obtains (refused) st c msg s0 where "(writeErr st c msg, s0) = (resp, s')" "s0 = s2 \<or> s0 = s3" "400 \<le> st"
  | (stored) recid q where "valid" "\<not> tooLong" "call (create recid) s3 = (q, s')"
      "resp = (case q of Inl e \<Rightarrow> fail e | Inr i \<Rightarrow> writeJSON (ACMEBody i))"
proof (cases "\<not> valid \<or> tooLong \<or> rid = None")
  case True
  then obtain st c msg s0 where "(writeErr st c msg, s0) = (resp, s')" "s0 = s2 \<or> s0 = s3" "400 \<le> st"
    using h unfolding m by (simp split: if_splits; fastforce)
  then show thesis by (rule refused)
next
  case False
  then obtain recid where "rid = Some recid" by auto
  moreover obtain q s4 where c: "call (create recid) s3 = (q, s4)" by fastforce
  ultimately have "s4 = s'" "resp = (case q of Inl e \<Rightarrow> fail e | Inr i \<Rightarrow> writeJSON (ACMEBody i))"
    using h False unfolding m by (cases q; auto)+
  then show thesis using False c by (intro stored [of recid q]) auto
qed

lemma acmeDNSCreate_cases:
  assumes "acmeDNSCreate srv r T s = (resp, s')"
  obtains (refused) "stays_in (t_id T) s s'" "only_faults (api_db s) (api_db s')" "400 \<le> rs_status resp"
  | (stored) fqdn val recid s3 q j where "stays_in (t_id T) s s3" "only_faults (api_db s) (api_db s3)"
      "validACMEDNSName fqdn (tunnel_domain (t_subdomain T) (srv_base_domain srv))" "lowercase fqdn"
      "call (CreateDNSChallenge (t_id T) fqdn val recid (rq_random r)) s3 = (q, s')"
      "resp = (case q of Inl e \<Rightarrow> fail e | Inr i \<Rightarrow> writeJSON (ACMEBody i))"
      "rq_json r = Some j" "fqdn = to_lower (trim_suffix (field j ''fqdn'') ''.'')" "val = field j ''value''"
      "val \<noteq> [] \<and> length val \<le> 512"
proof -
  obtain ok s1 where p: "acme_possible srv s = (ok, s1)" by fastforce
  obtain al s2 where a: "allow_dns srv (t_id T) s1 = (al, s2)" by fastforce
  note checks = acme_checks [OF p a]
  have refuse: thesis if "(writeErr st c m, s0) = (resp, s')" "stays_in (t_id T) s s0"
      "only_faults (api_db s) (api_db s0)" "400 \<le> st" for st c m s0
    using that by (intro refused) (auto simp: writeErr_def respond_def)
  consider "\<not> ok" | "ok" "\<not> al" | "ok" "al" "rq_json r = None" | j where "ok" "al" "rq_json r = Some j" by blast
  then show thesis
  proof cases
    case 1
    then have "(writeErr 501 proto_ErrInternal msg_no_dns, s1) = (resp, s')" using assms unfolding acmeDNSCreate_def p by simp
    from refuse [OF this checks(1,3)] show thesis by simp
  next
    case 2
    then have "(writeErr 429 proto_ErrRateLimited msg_rate, s2) = (resp, s')" using assms unfolding acmeDNSCreate_def p by (simp add: a)
    from refuse [OF this checks(2,4)] show thesis by simp
  next
    case 3
    then have "(writeErr 400 proto_ErrBadRequest msg_json, s2) = (resp, s')"
      using assms unfolding acmeDNSCreate_def p bad_json_def by (simp add: a)
    from refuse [OF this checks(2,4)] show thesis by simp
  next
    case (4 j)
    define fqdn where "fqdn = to_lower (trim_suffix (field j ''fqdn'') ''.'')"
    define val where "val = field j ''value''"
    define made where "made = (case srv_provider srv of None \<Rightarrow> (Some [], s2)
       | Some pv \<Rightarrow> (case prov_create pv fqdn val (api_prov s2) of (i, p') \<Rightarrow> (i, s2\<lparr>api_prov := p'\<rparr>)))"
    have h: "(if \<not> validACMEDNSName fqdn (tunnel_domain (t_subdomain T) (srv_base_domain srv))
        then (writeErr 400 proto_ErrBadRequest msg_fqdn, s2)
        else if val = [] \<or> 512 < length val then (writeErr 400 proto_ErrBadRequest msg_value, s2)
        else case made of (None, s3) \<Rightarrow> (writeErr 502 proto_ErrInternal msg_provider, s3)
          | (Some recid, s3) \<Rightarrow> (case call (CreateDNSChallenge (t_id T) fqdn val recid (rq_random r)) s3 of
              (Inl e, s4) \<Rightarrow> (fail e, s4) | (Inr i, s4) \<Rightarrow> (writeJSON (ACMEBody i), s4))) = (resp, s')"
      using assms 4 unfolding acmeDNSCreate_def p Let_def fqdn_def val_def made_def by (simp add: a)
    obtain rid s3 where m: "made = (rid, s3)" by fastforce
    have s3: "s3 = s2 \<or> (\<exists>p. s3 = s2\<lparr>api_prov := p\<rparr>)"
      using m by (auto simp: made_def split: option.splits prod.splits)
    from h m show thesis
    proof (cases rule: acme_create_tail)
      case (refused st c msg s0)
      then show thesis using checks s3 by (intro refuse [of st c msg s0]) auto
    next
      case (stored recid q)
      then show thesis using checks s3 by (intro that(2) [of s3 fqdn val recid q j]) (auto simp: fqdn_def val_def 4(3))
    qed
  qed
qed

lemma acmeDNSCreate_stays: "acmeDNSCreate srv r T s = (resp, s') \<Longrightarrow> stays_in (t_id T) s s'"
  by (erule acmeDNSCreate_cases) (auto intro: call_stays [OF _ confined_data(3)])

lemma acmeDNSDelete_stays:
  assumes "acmeDNSDelete srv i T s = (resp, s')"
  shows "stays_in (t_id T) s s'"
proof -
  obtain r s1 where c: "call (DNSChallenge (t_id T) i) s = (r, s1)" by fastforce
  have s1: "stays_in (t_id T) s s1" by (rule call_stays [OF c confined_reads(5) stays_in_refl])
  show ?thesis
  proof (cases r)
    case (Inl e)
    then show ?thesis using assms s1 unfolding acmeDNSDelete_def c by simp
  next
    case (Inr y)
    obtain val recid where y: "y = (val, recid)" by (cases y)
    define s2 where "s2 = (case srv_provider srv of
        Some p \<Rightarrow> if recid \<noteq> [] then s1\<lparr>api_prov := snd (prov_delete p recid (api_prov s1))\<rparr> else s1 | None \<Rightarrow> s1)"
    have s2: "stays_in (t_id T) s s2" using s1 by (simp add: s2_def split: option.splits)
    obtain q s3 where d: "call (DeleteDNSChallenge (t_id T) i) s2 = (q, s3)" by fastforce
    have "s' = s3" using assms unfolding acmeDNSDelete_def c Inr y Let_def
      by (simp add: s2_def [symmetric] d split: sum.splits)
    then show ?thesis using call_stays [OF d confined_data(4) s2] by simp
  qed
qed

lemma agent_handler_stays:
  assumes "agent_handler srv r rt = Some h" and "h T s = (resp, s')"
  shows "stays_in (t_id T) s s'"
  using assms
  by (cases rt)
    (auto split: if_splits dest: register_stays heartbeat_stays release_stays storage_stays acmeDNSCreate_stays acmeDNSDelete_stays)

section \<open>The external DNS\<close>

lemma valid_name_shape:
  "validACMEDNSName f dm \<longleftrightarrow> (\<exists>u. f = acme_prefix @ u @ dm \<and> (u = [] \<or> last u = CHR ''.''))"
proof -
  have "rest = dm \<or> has_suffix rest (''.'' @ dm) \<longleftrightarrow> (\<exists>u. rest = u @ dm \<and> (u = [] \<or> last u = CHR ''.''))" for rest
  proof
    assume "rest = dm \<or> has_suffix rest (''.'' @ dm)"
    then show "\<exists>u. rest = u @ dm \<and> (u = [] \<or> last u = CHR ''.'')"
      by (auto simp: has_suffix_iff intro: exI [of _ "_ @ ''.''"])
  next
    assume "\<exists>u. rest = u @ dm \<and> (u = [] \<or> last u = CHR ''.'')"
    then obtain u where u: "rest = u @ dm" "u = [] \<or> last u = CHR ''.''" by blast
    show "rest = dm \<or> has_suffix rest (''.'' @ dm)"
    proof (cases "u = []")
      case False
      then have "u = butlast u @ ''.''" using u by (metis append_butlast_last_id)
      then show ?thesis using u(1) by (metis append_assoc has_suffix_append)
    qed (use u in simp)
  qed
  then show ?thesis by (auto simp: validACMEDNSName_def cut_prefix_Some split: option.splits)
qed

text \<open>
  A name at which the domain takes challenges: of the domain itself or of a name below it.  This
  is what validACMEDNSName is to accept.
\<close>

definition challenge_name :: "string \<Rightarrow> string \<Rightarrow> bool" where
  "challenge_name domain f \<longleftrightarrow>
     (\<exists>labels. f = ''_acme-challenge.'' @ labels @ domain \<and> (labels = [] \<or> last labels = CHR ''.''))"

lemma valid_challenge_name: "validACMEDNSName f domain \<longleftrightarrow> challenge_name domain f"
  unfolding valid_name_shape challenge_name_def by (simp add: acme_prefix_def)

text \<open>
  What a request of the tunnel tid with the given domain may make of the external DNS: nothing,
  a record at one of the domain's names, or the end of the record of one of its own challenges.
\<close>

definition provider_within :: "('p, 'l) Server \<Rightarrow> int \<Rightarrow> string \<Rightarrow> ('p, 'l) api_state \<Rightarrow> ('p, 'l) api_state \<Rightarrow> bool" where
  "provider_within srv tid domain s s' \<longleftrightarrow>
     api_prov s' = api_prov s \<or>
     (\<exists>p. srv_provider srv = Some p \<and>
        ((\<exists>f v. challenge_name domain f \<and> api_prov s' = snd (prov_create p f v (api_prov s))) \<or>
         (\<exists>c recid. c \<in> set (challenges (db_tables (api_db s))) \<and> ch_tunnel c = tid \<and> ch_record c = Some recid \<and>
            api_prov s' = snd (prov_delete p recid (api_prov s)))))"

lemma same_prov_within: "api_prov s' = api_prov s \<Longrightarrow> provider_within srv tid domain s s'"
  by (simp add: provider_within_def)

lemma call_prov: "call m s = (r, s') \<Longrightarrow> api_prov s' = api_prov s"
  by (auto simp: call_def split: prod.splits)

lemma handlers_keep_prov:
  "register srv r T s = (resp, s') \<Longrightarrow> api_prov s' = api_prov s" "heartbeat r T s = (resp, s') \<Longrightarrow> api_prov s' = api_prov s"
  "release r T s = (resp, s') \<Longrightarrow> api_prov s' = api_prov s" "storageGet r k T s = (resp, s') \<Longrightarrow> api_prov s' = api_prov s"
  "storagePut r k T s = (resp, s') \<Longrightarrow> api_prov s' = api_prov s" "storageDelete k T s = (resp, s') \<Longrightarrow> api_prov s' = api_prov s"
  "storageList srv r T s = (resp, s') \<Longrightarrow> api_prov s' = api_prov s"
  unfolding register_def heartbeat_def release_def storageGet_def storagePut_def storageDelete_def storageList_def Let_def
  by (auto split: handler_splits dest!: call_prov)

lemma acme_checks_prov:
  assumes "acme_possible srv s = (ok, s1)" and "allow_dns srv tid s1 = (al, s2)"
  shows "api_prov s1 = api_prov s" "api_prov s2 = api_prov s"
  using assms
  by (auto simp: acme_possible_def allow_dns_def dnsLimiter_def Let_def split: if_splits prod.splits option.splits dest!: call_prov)

lemma acmeDNSCreate_prov:
  assumes "acmeDNSCreate srv r T s = (resp, s')"
  shows "provider_within srv (t_id T) (tunnel_domain (t_subdomain T) (srv_base_domain srv)) s s'"
proof -
  obtain ok s1 where p: "acme_possible srv s = (ok, s1)" by fastforce
  obtain al s2 where a: "allow_dns srv (t_id T) s1 = (al, s2)" by fastforce
  note pr = acme_checks_prov [OF p a]
  show ?thesis
  proof (cases "\<not> ok \<or> \<not> al \<or> rq_json r = None")
    case True
    then have "api_prov s' = api_prov s" using assms pr by (auto simp: acmeDNSCreate_def p a split: bool.splits)
    then show ?thesis by (simp add: provider_within_def)
  next
    case False
    then obtain j where j: "rq_json r = Some j" by blast
    define f where "f = to_lower (trim_suffix (field j ''fqdn'') ''.'')"
    define v where "v = field j ''value''"
    show ?thesis
    proof (cases "\<not> validACMEDNSName f (tunnel_domain (t_subdomain T) (srv_base_domain srv)) \<or> v = [] \<or> 512 < length v")
      case True
      then have "s' = s2" using assms False by (auto simp: acmeDNSCreate_def p a j Let_def f_def v_def split: if_splits)
      then show ?thesis by (simp add: provider_within_def pr)
    next
      case valid: False
      then have name: "challenge_name (tunnel_domain (t_subdomain T) (srv_base_domain srv)) f" by (simp add: valid_challenge_name)
      have "api_prov s' = (case srv_provider srv of None \<Rightarrow> api_prov s | Some pv \<Rightarrow> snd (prov_create pv f v (api_prov s)))"
        using assms False valid pr
        by (auto simp: acmeDNSCreate_def p a j Let_def f_def [symmetric] v_def [symmetric] split: option.splits prod.splits sum.splits dest!: call_prov)
      with name show ?thesis by (auto simp: provider_within_def split: option.splits)
    qed
  qed
qed

lemma DNSChallenge_Inr:
  assumes "DNSChallenge tid i d = (Inr (val, recid), d')"
  shows "\<exists>c\<in>set (challenges (db_tables d)). ch_id c = i \<and> ch_tunnel c = tid \<and> recid = str_or_empty (ch_record c)"
proof -
  from assms obtain q d1 where q: "query (\<lambda>d. find (\<lambda>c. ch_id c = i \<and> ch_tunnel c = tid) (challenges (db_tables d))) d = (Inr q, d1)"
    and r: "(case q of None \<Rightarrow> throw ErrNotFound | Some c \<Rightarrow> retr (ch_value c, str_or_empty (ch_record c))) d1 = (Inr (val, recid), d')"
    by (auto simp: DNSChallenge_def bindr_Inr)
  from q have "q = find (\<lambda>c. ch_id c = i \<and> ch_tunnel c = tid) (challenges (db_tables d))" by (auto simp: query_def dest!: stmt_Inr)
  with r show ?thesis by (auto simp: throw_def retr_def split: option.splits dest!: find_SomeD)
qed

lemma acmeDNSDelete_prov:
  assumes "acmeDNSDelete srv i T s = (resp, s')"
  shows "provider_within srv (t_id T) domain s s'"
proof -
  obtain q s1 where c: "call (DNSChallenge (t_id T) i) s = (q, s1)" by fastforce
  have p1: "api_prov s1 = api_prov s" using c by (rule call_prov)
  show ?thesis
  proof (cases q)
    case (Inl e)
    then show ?thesis using assms p1 by (simp add: acmeDNSDelete_def c provider_within_def)
  next
    case (Inr y)
    obtain val recid where y: "y = (val, recid)" by (cases y)
    have "DNSChallenge (t_id T) i (api_db s) = (Inr (val, recid), api_db s1)" using c Inr y by (auto simp: call_def split: prod.splits)
    then obtain ch where ch: "ch \<in> set (challenges (db_tables (api_db s)))" "ch_tunnel ch = t_id T" "recid = str_or_empty (ch_record ch)"
      using DNSChallenge_Inr by blast
    have "api_prov s' = (case srv_provider srv of Some p \<Rightarrow> if recid \<noteq> [] then snd (prov_delete p recid (api_prov s)) else api_prov s | None \<Rightarrow> api_prov s)"
      using assms p1 by (auto simp: acmeDNSDelete_def c Inr y Let_def split: option.splits prod.splits sum.splits if_splits dest!: call_prov)
    moreover have "ch_record ch = Some recid" if "recid \<noteq> []" using ch(3) that by (simp add: str_or_empty_def split: option.splits)
    ultimately show ?thesis using ch by (auto simp: provider_within_def split: option.splits if_splits)
  qed
qed

lemma agent_handler_prov:
  assumes "agent_handler srv r rt = Some h" and "h T s = (resp, s')"
  shows "provider_within srv (t_id T) (tunnel_domain (t_subdomain T) (srv_base_domain srv)) s s'"
  using assms
  by (cases rt)
    (auto split: if_splits intro: acmeDNSCreate_prov acmeDNSDelete_prov same_prov_within handlers_keep_prov)

text \<open>A token that AuthAgent accepts is stored for the tunnel it returns.\<close>

lemma AuthAgent_accepts:
  assumes "AuthAgent tok d = (Inr T, d')"
  shows "only_faults d d'"
    "\<exists>k r. k \<in> set (tokens (db_tables d)) \<and> tok_row_id k = tok_id tok \<and> tok_hash k = Hash tok \<and> tok_tunnel k = t_id T \<and>
       r \<in> set (tunnels (db_tables d)) \<and> tun_id r = t_id T \<and> tun_subdomain r = t_subdomain T \<and> ip4_string (tun_ip r) = t_vpn_ip T"
proof -
  show "only_faults d d'" using withinD [OF reads_only_faults(6) assms] .
  from assms obtain q d1 where q: "query (\<lambda>d. sql_agent_by_token (tok_id tok) (db_tables d)) d = (Inr q, d1)"
    and rest: "(case q of None \<Rightarrow> throw ErrUnauthorized
       | Some (t, h) \<Rightarrow> if Verify tok h then retr t else throw ErrUnauthorized) d1 = (Inr T, d')"
    unfolding AuthAgent_def bindr_Inr by blast
  have "q = sql_agent_by_token (tok_id tok) (db_tables d)"
    using q unfolding query_def by (auto dest!: stmt_Inr)
  moreover obtain h where "q = Some (T, h)" "Verify tok h"
    using rest by (auto simp: throw_def retr_def split: option.splits if_splits)
  ultimately have "sql_agent_by_token (tok_id tok) (db_tables d) = Some (T, Hash tok)"
    by (simp add: Verify_iff)
  then obtain k r where "find (\<lambda>k. tok_row_id k = tok_id tok) (tokens (db_tables d)) = Some k"
    "tunnel_of (db_tables d) (tok_tunnel k) = Some r" "tunnel_view (db_tables d) False r = Some T" "tok_hash k = Hash tok"
    by (auto simp: sql_agent_by_token_def split: option.splits)
  then show "\<exists>k r. k \<in> set (tokens (db_tables d)) \<and> tok_row_id k = tok_id tok \<and> tok_hash k = Hash tok \<and> tok_tunnel k = t_id T \<and>
       r \<in> set (tunnels (db_tables d)) \<and> tun_id r = t_id T \<and> tun_subdomain r = t_subdomain T \<and> ip4_string (tun_ip r) = t_vpn_ip T"
    by (intro exI [of _ k] exI [of _ r]) (auto simp: tunnel_of_def tunnel_view_def dest!: find_SomeD)
qed

end
