(* ===== verification/Api_Moves.thy ===== *)
theory Api_Moves
  imports Api_Frames
begin

text \<open>
  The API as a client of the store: whatever a request makes the handlers do, the database
  moves by a sequence of the store's operations.  Which operations those are is a parameter P
  (moves_by): every handler but two uses only operations that any P of interest admits, so
  their lemmas are proved once (api_events); release and the creation of a challenge are left
  to the instance.  There are two: a challenge is created only inside its tunnel's domain
  (moves), and nothing is done against the holder of a lease (Lease_Life).
\<close>

section \<open>Sequences of operations\<close>

inductive event_step :: "(db \<Rightarrow> event \<Rightarrow> bool) \<Rightarrow> db \<Rightarrow> db \<Rightarrow> bool" for P where
  event: "valid_event e \<Longrightarrow> P d e \<Longrightarrow> event_step P d (exec e d)"

inductive_cases event_stepE: "event_step P d d'"

definition moves_by :: "(db \<Rightarrow> event \<Rightarrow> bool) \<Rightarrow> db \<Rightarrow> db \<Rightarrow> bool" where
  "moves_by P = (event_step P)\<^sup>*\<^sup>*"

lemma moves_refl [simp, intro!]: "moves_by P d d"
  by (simp add: moves_by_def)

lemma moves_trans: "moves_by P a b \<Longrightarrow> moves_by P b c \<Longrightarrow> moves_by P a c"
  unfolding moves_by_def by (rule rtranclp_trans)

lemma moves_exec: "valid_event e \<Longrightarrow> P d e \<Longrightarrow> moves_by P d (exec e d)"
  unfolding moves_by_def by (intro r_into_rtranclp event_step.event)

lemma call_moves:
  assumes "call m s = (r, s')" and "within (moves_by P) m" and "moves_by P d (api_db s)"
  shows "moves_by P d (api_db s')"
  using assms(1) withinD [OF assms(2), of "api_db s"] assms(3)
  by (auto simp: call_def split: prod.splits intro: moves_trans)

lemma node_moves:
  assumes "\<And>n s resp s'. h n s = (resp, s') \<Longrightarrow> moves_by P (api_db s) (api_db s')" and "node h r s = (resp, s')"
    and "\<And>tok. within (moves_by P) (AuthNode tok)"
  shows "moves_by P (api_db s) (api_db s')"
proof -
  have "moves_by P (api_db s) (api_db s')" if "call (AuthNode tok) s = (Inr n, s1)" "h n s1 = (resp, s')" for tok n s1
    using call_moves [OF that(1) assms(3)] assms(1) [OF that(2)] by (auto intro: moves_trans)
  then show ?thesis
    using assms(2) unfolding node_def
    by (auto split: handler_splits intro: call_moves [OF _ assms(3)])
qed

lemma config_once: "config_loop srv since n dl [] s = config_look srv since n s"
  by (simp add: config_loop.simps split: prod.splits option.splits)

section \<open>The handlers\<close>

locale api_events =
  fixes P :: "db \<Rightarrow> event \<Rightarrow> bool"
  assumes faults: "P d (EvFaults fs)"
    and acquire: "ParseKey key \<noteq> None \<Longrightarrow> P d (EvAcquireLease tid inst key version LeaseTTL)"
    and renew: "P d (EvRenewLease tid inst LeaseTTL)"
    and stored: "P d (EvStoragePut tid key val)" "P d (EvStorageDelete tid key)"
    and challenge_deleted: "P d (EvDeleteChallenge tid i)"
    and hello: "P d (EvNodeHello n key version)"
    and touch: "P d (EvTouchNode n)"
begin

lemma moves_only_faults: "only_faults d d' \<Longrightarrow> moves_by P d d'"
  using moves_exec [of "EvFaults fs" P d for fs] faults by (auto simp: only_faults_def)

lemma within_read: "within only_faults m \<Longrightarrow> within (moves_by P) m"
  by (simp add: within_def moves_only_faults)

lemmas reads = reads_only_faults [THEN within_read]

lemma acquires: "ParseKey key \<noteq> None \<Longrightarrow> within (moves_by P) (AcquireLease tid inst key version LeaseTTL)"
  using moves_exec [where P = P, OF _ acquire] by (simp add: within_def)

lemma writes:
  "within (moves_by P) (RenewLease tid inst LeaseTTL)"
  "within (moves_by P) (StoragePut tid key val)" "within (moves_by P) (StorageDelete tid key)"
  "within (moves_by P) (DeleteDNSChallenge tid i)" "within (moves_by P) (NodeHello n key version)"
  "within (moves_by P) (TouchNode n)"
  using moves_exec [where P = P, OF _ renew] moves_exec [where P = P, OF _ stored(1)] moves_exec [where P = P, OF _ stored(2)]
    moves_exec [where P = P, OF _ challenge_deleted] moves_exec [where P = P, OF _ hello] moves_exec [where P = P, OF _ touch]
  by (simp_all add: within_def)

lemmas calls = writes [THEN call_moves [rotated]] reads [THEN call_moves [rotated]]

lemma register_moves: "register srv r T s = (resp, s') \<Longrightarrow> moves_by P (api_db s) (api_db s')"
proof -
  assume h: "register srv r T s = (resp, s')"
  have granted: "moves_by P (api_db s) (api_db s')"
    if "rq_json r = Some j" "\<not> (ParseKey (field j ''wg_public_key'') = None \<or> \<not> validInstance (field j ''instance_id''))" for j
  proof -
    have "within (moves_by P) (AcquireLease (t_id T) i (field j ''wg_public_key'') v LeaseTTL)" for i v
      using that(2) acquires by blast
    note a = this [THEN call_moves [rotated], OF moves_refl]
    from h that show ?thesis
      unfolding register_def Let_def by (auto split: prod.splits sum.splits intro: a calls(7) [OF a])
  qed
  show ?thesis
    using h granted by (cases "rq_json r") (simp_all add: register_def Let_def split: if_splits)
qed

lemma heartbeat_moves: "heartbeat r T s = (resp, s') \<Longrightarrow> moves_by P (api_db s) (api_db s')"
  unfolding heartbeat_def by (auto split: handler_splits intro: calls)

lemma storage_moves:
  "storageGet r k T s = (resp, s') \<Longrightarrow> moves_by P (api_db s) (api_db s')"
  "storagePut r k T s = (resp, s') \<Longrightarrow> moves_by P (api_db s) (api_db s')"
  "storageDelete k T s = (resp, s') \<Longrightarrow> moves_by P (api_db s) (api_db s')"
  "storageList srv r T s = (resp, s') \<Longrightarrow> moves_by P (api_db s) (api_db s')"
  unfolding storageGet_def storagePut_def storageDelete_def storageList_def
  by (auto split: handler_splits intro: calls)

lemma acmeDNSDelete_moves:
  assumes "acmeDNSDelete srv i T s = (resp, s')"
  shows "moves_by P (api_db s) (api_db s')"
proof -
  obtain r s1 where c: "call (DNSChallenge (t_id T) i) s = (r, s1)" by fastforce
  have s1: "moves_by P (api_db s) (api_db s1)" by (rule calls(11) [OF moves_refl c])
  show ?thesis
  proof (cases r)
    case (Inl e)
    then show ?thesis using assms s1 unfolding acmeDNSDelete_def c by simp
  next
    case (Inr y)
    obtain val recid where y: "y = (val, recid)" by (cases y)
    define s2 where "s2 = (case srv_provider srv of
        Some p \<Rightarrow> if recid \<noteq> [] then s1\<lparr>api_prov := snd (prov_delete p recid (api_prov s1))\<rparr> else s1 | None \<Rightarrow> s1)"
    have s2: "moves_by P (api_db s) (api_db s2)" using s1 by (simp add: s2_def split: option.splits)
    obtain q s3 where d: "call (DeleteDNSChallenge (t_id T) i) s2 = (q, s3)" by fastforce
    have "s' = s3" using assms unfolding acmeDNSDelete_def c Inr y Let_def
      by (simp add: s2_def [symmetric] d split: sum.splits)
    then show ?thesis using calls(4) [OF s2 d] by simp
  qed
qed

lemma nodeHello_moves: "nodeHello r n s = (resp, s') \<Longrightarrow> moves_by P (api_db s) (api_db s')"
  unfolding nodeHello_def Let_def by (auto split: handler_splits intro: calls)

lemma config_look_moves: "config_look srv since n s = (resp, s') \<Longrightarrow> moves_by P (api_db s) (api_db s')"
  unfolding config_look_def by (auto split: handler_splits intro: calls)

lemma acmeDNSCreate_moves_by:
  assumes "acmeDNSCreate srv r T s = (resp, s')"
    and "\<And>d fqdn val recid. db_tables d = db_tables (api_db s) \<Longrightarrow>
      validACMEDNSName fqdn (tunnel_domain (t_subdomain T) (srv_base_domain srv)) \<Longrightarrow> lowercase fqdn \<Longrightarrow>
      P d (EvCreateChallenge (t_id T) fqdn val recid (rq_random r))"
  shows "moves_by P (api_db s) (api_db s')"
  using assms(1)
proof (cases rule: acmeDNSCreate_cases)
  case refused
  then show ?thesis by (simp add: moves_only_faults)
next
  case (stored fqdn val recid s3 q j)
  let ?e = "EvCreateChallenge (t_id T) fqdn val recid (rq_random r)"
  have "P (api_db s3) ?e" using only_faults_frame [OF stored(2)] stored(3,4) by (intro assms(2)) simp_all
  then have "moves_by P (api_db s3) (exec ?e (api_db s3))" by (intro moves_exec) simp_all
  moreover have "api_db s' = exec ?e (api_db s3)"
    using stored(5) by (auto simp: call_def split: prod.splits)
  ultimately show ?thesis using moves_trans [OF moves_only_faults [OF stored(2)]] by simp
qed

text \<open>A request to an agent's path: the token, then the handler.\<close>

lemma agent_moves:
  assumes "agent_handler srv r rt = Some h" and "agent h r s = (resp, s')"
    and special: "\<And>tok T s1. \<lbrakk>rt = Release \<or> rt = AcmeDNS; Parse (bearer r) PrefixAgent = Inr tok;
        AuthAgent tok (api_db s) = (Inr T, api_db s1); h T s1 = (resp, s')\<rbrakk> \<Longrightarrow> moves_by P (api_db s1) (api_db s')"
  shows "moves_by P (api_db s) (api_db s')"
proof (cases "Parse (bearer r) PrefixAgent")
  case (Inl e)
  then show ?thesis using assms(2) by (simp add: agent_def)
next
  case (Inr tok)
  obtain q s1 where c: "call (AuthAgent tok) s = (q, s1)" by fastforce
  have m: "moves_by P (api_db s) (api_db s1)" by (rule calls(12) [OF moves_refl c])
  show ?thesis
  proof (cases q)
    case (Inl e)
    then show ?thesis using assms(2) m by (simp add: agent_def Inr c)
  next
    case q: (Inr T)
    have h: "h T s1 = (resp, s')" using assms(2) by (simp add: agent_def c q Inr)
    have "moves_by P (api_db s1) (api_db s')"
    proof (cases "rt = Release \<or> rt = AcmeDNS")
      case True
      then show ?thesis using c q h by (intro special [OF True Inr, of T s1]) (auto simp: call_def split: prod.splits)
    next
      case False
      then show ?thesis using assms(1) h
        by (cases rt) (auto split: if_splits dest: register_moves heartbeat_moves storage_moves acmeDNSDelete_moves)
    qed
    with m show ?thesis by (rule moves_trans)
  qed
qed

lemma Handler_moves_by:
  assumes "Handler srv r [] s = (resp, s')"
    and special: "\<And>rt h tok T s1 rsp. \<lbrakk>route_of (rq_path r) = Some rt; agent_handler srv r rt = Some h;
        rt = Release \<or> rt = AcmeDNS; Parse (bearer r) PrefixAgent = Inr tok;
        AuthAgent tok (api_db s) = (Inr T, api_db s1); h T s1 = (rsp, s')\<rbrakk> \<Longrightarrow> moves_by P (api_db s1) (api_db s')"
  shows "moves_by P (api_db s) (api_db s')"
proof -
  have nodes: "moves_by P (api_db s) (api_db s')"
    if "node (\<lambda>n s. case nodeHello r n s of (resp, s') \<Rightarrow> (Some resp, s')) r s = (rsp, s') \<or>
        node (\<lambda>n. nodeConfig srv r n []) r s = (rsp, s')" for rsp
    using that
    by (auto elim!: node_moves [rotated, OF _ reads(7)] simp: nodeConfig_def config_once split: prod.splits
        dest: nodeHello_moves config_look_moves)
  show ?thesis
  proof (cases "route_of (rq_path r)")
    case None
    then show ?thesis using assms(1) by (simp add: Handler_def)
  next
    case rt: (Some rt)
    show ?thesis
    proof (cases "agent_handler srv r rt")
      case None
      then show ?thesis using assms(1) nodes by (auto simp: Handler_def rt split: if_splits)
    next
      case h: (Some h)
      then show ?thesis using assms(1) agent_moves [OF h _ special [OF rt h]]
        by (auto simp: Handler_def rt split: if_splits prod.splits)
    qed
  qed
qed

end

section \<open>Challenges stay in their domain\<close>

text \<open>
  An event on behalf of the API: a challenge is only created for a name in lower case inside the
  domain of the tunnel it belongs to, and a lease is only taken with a key that parses.
\<close>

fun confined_event :: "string \<Rightarrow> db \<Rightarrow> event \<Rightarrow> bool" where
  "confined_event base d (EvCreateChallenge tid fqdn val recid rnd) \<longleftrightarrow>
     lowercase fqdn \<and> (\<forall>r\<in>set (tunnels (db_tables d)).
        tun_id r = tid \<longrightarrow> validACMEDNSName fqdn (tunnel_domain (tun_subdomain r) base))"
| "confined_event base d (EvAcquireLease tid inst key version ttl) \<longleftrightarrow> ParseKey key \<noteq> None"
| "confined_event base d _ \<longleftrightarrow> True"

abbreviation moves :: "string \<Rightarrow> db \<Rightarrow> db \<Rightarrow> bool" where
  "moves base \<equiv> moves_by (confined_event base)"

interpretation confined_events: api_events "confined_event base" for base
  by unfold_locales simp_all

lemmas within_moves_read = confined_events.within_read
lemmas config_look_moves = confined_events.config_look_moves

lemma Handler_moves:
  assumes "Handler srv r [] s = (resp, s')" and "schema_ok (api_db s)"
  shows "moves (srv_base_domain srv) (api_db s) (api_db s')"
proof (rule confined_events.Handler_moves_by [OF assms(1)])
  fix rt h tok T s1 rsp
  assume h: "agent_handler srv r rt = Some h" "rt = Release \<or> rt = AcmeDNS" "h T s1 = (rsp, s')"
    and auth: "AuthAgent tok (api_db s) = (Inr T, api_db s1)"
  note f = only_faults_frame [OF AuthAgent_accepts(1) [OF auth]]
  obtain row where row: "row \<in> set (tunnels (db_tables (api_db s)))" "tun_id row = t_id T" "tun_subdomain row = t_subdomain T"
    using AuthAgent_accepts(2) [OF auth] by blast
  have "distinct (map tun_id (tunnels (db_tables (api_db s))))"
    using schema_okD(3) [OF assms(2)] by (simp add: tunnels_ok_def)
  then have one: "x = row" if "x \<in> set (tunnels (db_tables (api_db s)))" "tun_id x = t_id T" for x
    using that row by (intro distinct_key_inj [of tun_id]) auto
  from h(2) show "moves (srv_base_domain srv) (api_db s1) (api_db s')"
  proof
    assume "rt = AcmeDNS"
    then have "acmeDNSCreate srv r T s1 = (rsp, s')" using h by simp
    then show ?thesis
      by (rule confined_events.acmeDNSCreate_moves_by) (use f one row(3) in auto)
  next
    assume "rt = Release"
    then have "release r T s1 = (rsp, s')" using h by simp
    moreover have "within (moves base) (ReleaseLease tid inst)" for base tid inst
      using moves_exec [of "EvReleaseLease tid inst" "confined_event base"] by (simp add: within_def)
    ultimately show ?thesis
      unfolding release_def by (auto split: handler_splits intro: call_moves)
  qed
qed

end
