(* ===== verification/Api_Props.thy ===== *)
theory Api_Props
  imports Api_Moves
begin

text \<open>
  What the HTTP API promises.  A request to an agent's path changes at most the rows of the
  tunnel whose token it carries; the challenges that ever reach the DNS zone are names inside
  the domain of the tunnel that asked for them; what an agent stores it reads back; and the
  long poll of the nodes always answers.
\<close>

section \<open>The running server\<close>

text \<open>
  The states the control plane goes through: requests are served one after the other, a long
  poll is one look of its handler at a time (so other requests happen between two looks), and
  the operator and the clock act on the database in between.
\<close>

fun operator_event :: "event \<Rightarrow> bool" where
  "operator_event (EvCreateTunnel email plan idb sec subs) = True"
| "operator_event (EvRotateToken tid idb sec) = True"
| "operator_event (EvCreateNode name endpoint public idb sec) = True"
| "operator_event (EvSetNodePublicIP i public) = True"
| "operator_event (EvSetNodeEndpoint i endpoint) = True"
| "operator_event (EvTick t) = True"
| "operator_event (EvFaults fs) = True"
| "operator_event _ = False"

inductive served :: "('p, 'l) Server \<Rightarrow> ('p, 'l) api_state \<Rightarrow> bool" for srv where
  boot: "served srv \<lparr>api_db = db_init t fs, api_prov = p, api_limiters = Map.empty\<rparr>"
| request: "served srv s \<Longrightarrow> served srv (snd (Handler srv r [] s))"
| look: "served srv s \<Longrightarrow> served srv (snd (config_look srv since n s))"
| operate: "served srv s \<Longrightarrow> operator_event e \<Longrightarrow> valid_event e \<Longrightarrow> served srv (s\<lparr>api_db := exec e (api_db s)\<rparr>)"

lemma operator_confined: "operator_event e \<Longrightarrow> confined_event base d e"
  by (cases e) auto

lemma moves_reachable: "moves base d d' \<Longrightarrow> reachable d \<Longrightarrow> reachable d'"
  unfolding moves_by_def
  by (induction rule: rtranclp_induct) (auto elim!: event_stepE intro: reachable.step)

lemma reachable_schema: "reachable d \<Longrightarrow> schema_ok d"
  by (induction rule: reachable.induct) (auto simp: schema_ok_init exec_schema_ok)

lemma served_moves:
  assumes "served srv s"
  shows "\<exists>t fs. moves (srv_base_domain srv) (db_init t fs) (api_db s)"
  using assms
proof induction
  case (boot t fs p)
  then show ?case by auto
next
  case (request s r)
  then obtain t fs where m: "moves (srv_base_domain srv) (db_init t fs) (api_db s)" by blast
  then have "schema_ok (api_db s)" using moves_reachable [OF m reachable.start] by (rule_tac reachable_schema)
  then have "moves (srv_base_domain srv) (api_db s) (api_db (snd (Handler srv r [] s)))"
    using Handler_moves [of srv r s "fst (Handler srv r [] s)" "snd (Handler srv r [] s)"] by simp
  with m show ?case by (blast intro: moves_trans)
next
  case (look s since n)
  then obtain t fs where m: "moves (srv_base_domain srv) (db_init t fs) (api_db s)" by blast
  have "moves (srv_base_domain srv) (api_db s) (api_db (snd (config_look srv since n s)))"
    by (rule config_look_moves [of srv since n s "fst (config_look srv since n s)"]) simp
  with m show ?case by (blast intro: moves_trans)
next
  case (operate s e)
  then obtain t fs where m: "moves (srv_base_domain srv) (db_init t fs) (api_db s)" by blast
  have "moves (srv_base_domain srv) (api_db s) (exec e (api_db s))"
    using operate.hyps by (intro moves_exec operator_confined)
  with m show ?case by (auto intro: moves_trans)
qed

section \<open>Challenges stay in their tunnel's domain\<close>

definition fewer_challenges :: "tables \<Rightarrow> tables \<Rightarrow> bool" where
  "fewer_challenges t t' \<longleftrightarrow> set (challenges t') \<subseteq> set (challenges t)"

interpretation fewer_challenges: table_relation fewer_challenges
  by unfold_locales (auto simp: fewer_challenges_def)

lemma exec_fewer_challenges:
  assumes "\<nexists>tid fqdn val recid rnd. e = EvCreateChallenge tid fqdn val recid rnd"
  shows "set (challenges (db_tables (exec e d))) \<subseteq> set (challenges (db_tables d))"
proof -
  have f: "fewer_challenges t (t\<lparr>accounts := x0\<rparr>)" "fewer_challenges t (t\<lparr>tunnels := x1\<rparr>)" "fewer_challenges t (t\<lparr>tokens := x2\<rparr>)"
    "fewer_challenges t (t\<lparr>leases := x3\<rparr>)" "fewer_challenges t (t\<lparr>node_rows := x4\<rparr>)" "fewer_challenges t (t\<lparr>storage := x5\<rparr>)"
    for t x0 x1 x2 x3 x4 x5
    by (simp_all add: fewer_challenges_def)
  have used: "touches fewer_challenges (sql_token_used tid)" for tid
    unfolding sql_token_used_def by (intro fewer_challenges.touches_stmt) (simp add: touches_def fewer_challenges_def)
  have put: "touches fewer_challenges (StoragePut tid key val)" for tid key val
    unfolding StoragePut_def
    by (intro fewer_challenges.touches_stmt) (auto simp: touches_def sql_storage_put_def Let_def fewer_challenges_def)
  have del: "touches fewer_challenges (StorageDelete tid key)" "touches fewer_challenges (DeleteDNSChallenge tid key)" for tid key
    unfolding StorageDelete_def DeleteDNSChallenge_def
    by (auto intro!: fewer_challenges.touches_require_rows fewer_challenges.touches_affect simp: fewer_challenges_def)
  note create = fewer_challenges.touches_CreateTunnel [OF f(1,2,3)]
    and acquire = fewer_challenges.touches_AcquireLease [OF f(4) used] and renew = fewer_challenges.touches_RenewLease [OF f(4)]
    and release = fewer_challenges.touches_ReleaseLease [OF f(4)] and rotate = fewer_challenges.touches_RotateToken [OF f(3) f(4)]
    and nodes = fewer_challenges.touches_nodes [OF f(5)]
  have "fewer_challenges (db_tables d) (db_tables (exec e d))"
    using assms
    by (cases e)
      (simp_all add: fewer_challenges.refl touchesD [OF create] touchesD [OF acquire] touchesD [OF renew] touchesD [OF release]
        touchesD [OF rotate] touchesD [OF nodes(1)] touchesD [OF nodes(2)] touchesD [OF nodes(3)]
        touchesD [OF nodes(4)] touchesD [OF nodes(5)] touchesD [OF put] touchesD [OF del(1)] touchesD [OF del(2)])
  then show ?thesis by (simp add: fewer_challenges_def)
qed

lemma create_challenge_rows:
  "set (challenges (db_tables (snd (CreateDNSChallenge tid fqdn val recid rnd d)))) \<subseteq>
     insert \<lparr>ch_id = Random rnd, ch_tunnel = tid, ch_fqdn = fqdn, ch_value = val, ch_record = null_if_empty recid\<rparr>
       (set (challenges (db_tables d)))"
  by (auto simp: CreateDNSChallenge_def Let_def bindr_def stmt_def sql_insert_challenge_def retr_def
      split: prod.splits sum.splits fault.splits if_splits dest!: next_fault_frame)

lemma exec_keeps_tunnels: "set (tunnels (db_tables d)) \<subseteq> set (tunnels (db_tables (exec e d)))"
  using exec_tunnels [of d e] by (auto simp: adds_tunnels_def)

definition challenge_confined :: "string \<Rightarrow> tables \<Rightarrow> challenge_row \<Rightarrow> bool" where
  "challenge_confined base t c \<longleftrightarrow> lowercase (ch_fqdn c) \<and>
     (\<exists>r\<in>set (tunnels t). tun_id r = ch_tunnel c \<and> challenge_name (tunnel_domain (tun_subdomain r) base) (ch_fqdn c))"

lemma moves_confined:
  assumes "moves base d d'" and "reachable d" and "\<forall>c\<in>set (challenges (db_tables d)). challenge_confined base (db_tables d) c"
  shows "reachable d' \<and> (\<forall>c\<in>set (challenges (db_tables d')). challenge_confined base (db_tables d') c)"
  using assms(1) unfolding moves_by_def
proof (induction rule: rtranclp_induct)
  case base
  then show ?case using assms by blast
next
  case (step d1 d2)
  from step.hyps(2) obtain e where e: "d2 = exec e d1" "valid_event e" "confined_event base d1 e"
    by (auto elim: event_stepE)
  have r2: "reachable d2" using step.IH e by (auto intro: reachable.step)
  have old: "challenge_confined base (db_tables d2) c" if "c \<in> set (challenges (db_tables d1))" for c
    using step.IH that exec_keeps_tunnels [of d1 e] unfolding e(1) challenge_confined_def by blast
  have "challenge_confined base (db_tables d2) c" if c: "c \<in> set (challenges (db_tables d2))" for c
  proof (cases "c \<in> set (challenges (db_tables d1))")
    case True
    then show ?thesis by (rule old)
  next
    case False
    then obtain tid fqdn val recid rnd where ev: "e = EvCreateChallenge tid fqdn val recid rnd"
      using c exec_fewer_challenges [of e d1] unfolding e(1) by blast
    then have cf: "ch_tunnel c = tid" "ch_fqdn c = fqdn"
      using c False create_challenge_rows [of tid fqdn val recid rnd d1] unfolding e(1) by auto
    have "ch_tunnel c \<in> tunnel_ids (db_tables d2)"
      using c schema_okD(8) [OF reachable_schema [OF r2]] by (simp add: challenges_ok_def)
    then obtain r where r: "r \<in> set (tunnels (db_tables d2))" "tun_id r = tid"
      using cf by (auto simp: tunnel_ids_def)
    have "tunnels (db_tables d2) = tunnels (db_tables d1)"
      unfolding e(1) ev
      by (auto simp: CreateDNSChallenge_def Let_def bindr_def stmt_def sql_insert_challenge_def retr_def
          split: prod.splits sum.splits fault.splits if_splits dest!: next_fault_frame)
    with r e(3) cf show ?thesis unfolding ev challenge_confined_def by (auto simp: valid_challenge_name)
  qed
  with r2 show ?case by blast
qed

lemma served_confined:
  assumes "served srv s" and "c \<in> set (challenges (db_tables (api_db s)))"
  shows "challenge_confined (srv_base_domain srv) (db_tables (api_db s)) c"
proof -
  obtain t0 fs where m: "moves (srv_base_domain srv) (db_init t0 fs) (api_db s)" using served_moves [OF assms(1)] by blast
  have "\<forall>c\<in>set (challenges (db_tables (db_init t0 fs))). challenge_confined (srv_base_domain srv) (db_tables (db_init t0 fs)) c"
    by (simp add: db_init_def empty_tables_def)
  from moves_confined [OF m reachable.start this] assms(2) show ?thesis by blast
qed

lemma challenge_name_tunnel:
  "challenge_name (tunnel_domain sub base) f \<longleftrightarrow>
     (\<exists>labels. f = ''_acme-challenge.'' @ labels @ sub @ ''.'' @ base \<and> (labels = [] \<or> last labels = CHR ''.''))"
  by (simp add: challenge_name_def tunnel_domain_def)

lemma challenge_names_disjoint:
  assumes "challenge_name (tunnel_domain s1 base) f" and "challenge_name (tunnel_domain s2 base) f"
    and "length s1 = length s2"
  shows "s1 = s2"
proof -
  from assms(1,2) obtain u v where "u @ s1 @ ''.'' @ base = v @ s2 @ ''.'' @ base"
    unfolding challenge_name_tunnel by (auto simp: same_append_eq)
  then have "u @ s1 = v @ s2" by (metis append_assoc append_same_eq)
  then show ?thesis using assms(3) by (auto dest: append_eq_suffixD)
qed

section \<open>An example\<close>

text \<open>A control plane with a provider that accepts everything, right after the first tunnel was made.\<close>

definition example_server :: "(unit, unit) Server" where
  "example_server = \<lparr>srv_base_domain = ''ex.org'',
     srv_provider = Some \<lparr>prov_create = \<lambda>_ _ p. (Some ''1'', p), prov_delete = \<lambda>_ p. (True, p)\<rparr>,
     srv_zone = \<lparr>zc_ns_names = [], zc_soa_email = []\<rparr>,
     srv_limiter = \<lparr>lim_new = (), lim_allow = \<lambda>_ l. (True, l)\<rparr>, srv_collation = id\<rparr>"

definition first_token :: Token where
  "first_token = New_Token PrefixAgent [1] [2]"

definition example_request :: "string \<Rightarrow> string \<Rightarrow> (string \<rightharpoonup> string) option \<Rightarrow> bytes \<Rightarrow> request" where
  "example_request method path json body = \<lparr>rq_method = method, rq_path = path,
     rq_authorization = ''Bearer '' @ Token_String first_token, rq_query = (\<lambda>_. []), rq_json = json,
     rq_body = body, rq_random = [7]\<rparr>"

definition first_state :: "(unit, unit) api_state" where
  "first_state = \<lparr>api_db = first_db, api_prov = (), api_limiters = Map.empty\<rparr>"

definition first_T :: Tunnel where
  "first_T = \<lparr>t_id = 1, t_email = ''a@b'', t_plan = ''free'', t_subdomain = ''aaaaaaa'', t_vpn_ip = ''10.64.0.2'', t_online = False\<rparr>"

lemma first_token_parse: "Parse (Token_String first_token) PrefixAgent = Inr first_token"
  unfolding first_token_def by code_simp

lemma first_names: "take 7 (Random [0, 0, 0, 0, 0]) = ''aaaaaaa''" "ip4_string 171966466 = ''10.64.0.2''"
  by code_simp+

lemma first_token_auth: "AuthAgent first_token first_db = (Inr first_T, first_db)"
proof -
  have "AuthAgent first_token first_db = (Inr \<lparr>t_id = 1, t_email = ''a@b'', t_plan = ''free'',
      t_subdomain = take 7 (Random [0, 0, 0, 0, 0]), t_vpn_ip = ip4_string 171966466, t_online = False\<rparr>, first_db)"
    unfolding AuthAgent_run [OF first_db_faults] first_token_def
    by (simp add: first_db_def first_tunnel_def run_defs sql_agent_by_token_def tunnel_of_def tunnel_view_def
        account_of_def Verify_iff)
  then show ?thesis by (simp add: first_names first_T_def)
qed

lemma first_state_served: "served example_server first_state"
proof -
  let ?s = "\<lparr>api_db = db_init 0 [], api_prov = (), api_limiters = Map.empty\<rparr> :: (unit, unit) api_state"
  have "served example_server (?s\<lparr>api_db := exec (EvCreateTunnel ''a@b'' ''free'' [1] [2] [[0, 0, 0, 0, 0]]) (api_db ?s)\<rparr>)"
    using served.boot by (rule served.operate) simp_all
  then show ?thesis by (simp add: first_state_def first_db_def first_tunnel_def)
qed

lemma route_storage_example: "route_of ''/v1/agent/storage/k'' = Some (StorageKey ''k'')"
  by code_simp

lemma route_examples:
  "route_of ''/v1/agent/acme-dns'' = Some AcmeDNS" "route_of ''/v1/agent/register'' = Some Register"
  "route_of ''/v1/agent/heartbeat'' = Some Heartbeat" "route_of ''/v1/node/config'' = Some ConfigRoute"
  by code_simp+

lemma example_bearer: "bearer (example_request method path json body) = Token_String first_token"
  unfolding bearer_def example_request_def request.simps cut_prefix_append option.case by (rule HOL.refl)

lemma example_agent:
  "agent h (example_request method path json body) first_state = h first_T first_state"
  unfolding agent_def example_bearer first_token_parse
  by (simp add: call_def first_state_def first_token_auth)

section \<open>Properties\<close>

text \<open>
  Whatever the requests, the database of the running control plane only ever moves by
  operations of the store, so everything proved of the store's reachable states holds of it.
\<close>
theorem served_reachable:
  assumes "served srv s"
  shows "reachable (api_db s) \<and> schema_ok (api_db s)"
  using served_moves [OF assms] moves_reachable [OF _ reachable.start] reachable_schema by blast

theorem served_reachable_witness: "reachable (api_db first_state)"
  using served_reachable [OF first_state_served] by blast

text \<open>
  C17: A request to an agent's path either carries a token whose hash is stored for a tunnel,
  and then changes at most the lease, the stored values, the challenges, the limiter and the
  last use of that tunnel, and of the external DNS at most a record at one of the names of its
  domain or the record of one of its own challenges; or it is answered with a redirect or an
  error and changes no table, no limiter and nothing of the external DNS.  This holds under any
  network faults.
\<close>
theorem agent_request_confined:
  assumes "route_of (rq_path r) = Some rt" and "agent_handler srv r rt = Some h"
    and "Handler srv r sched s = (resp, s')"
  shows "(\<exists>tok k row. Parse (bearer r) PrefixAgent = Inr tok \<and> k \<in> set (tokens (db_tables (api_db s))) \<and>
      tok_row_id k = tok_id tok \<and> tok_hash k = Hash tok \<and>
      row \<in> set (tunnels (db_tables (api_db s))) \<and> tun_id row = tok_tunnel k \<and> stays_in (tok_tunnel k) s s' \<and>
      provider_within srv (tok_tunnel k) (tunnel_domain (tun_subdomain row) (srv_base_domain srv)) s s') \<or>
    (db_tables (api_db s') = db_tables (api_db s) \<and> api_limiters s' = api_limiters s \<and> api_prov s' = api_prov s \<and>
      (\<exists>e. resp = Some e \<and> 300 \<le> rs_status e))"
proof (cases "rq_method r \<in> set (methods rt)")
  case False
  then show ?thesis using assms by (auto simp: Handler_def respond_def)
next
  case True
  obtain e where e: "agent h r s = (e, s')" "resp = Some e"
    using assms True by (auto simp: Handler_def split: prod.splits)
  show ?thesis
  proof (cases "Parse (bearer r) PrefixAgent")
    case (Inl x)
    then show ?thesis using e by (auto simp: agent_def writeErr_def respond_def)
  next
    case (Inr tok)
    obtain q s1 where c: "call (AuthAgent tok) s = (q, s1)" by fastforce
    from call_only_faults [OF c reads_only_faults(6)]
    have f: "db_tables (api_db s1) = db_tables (api_db s)" "api_limiters s1 = api_limiters s" "api_prov s1 = api_prov s"
      by (auto dest: only_faults_frame)
    show ?thesis
    proof (cases q)
      case (Inl x)
      then have "e = fail x" "s' = s1" using e(1) \<open>Parse _ _ = Inr tok\<close> by (simp_all add: agent_def c)
      then show ?thesis using f e(2) by (auto simp: fail_def writeErr_def respond_def split: store_err.split)
    next
      case (Inr T)
      then have h: "h T s1 = (e, s')" using e(1) \<open>Parse _ _ = Inr tok\<close> by (simp add: agent_def c)
      have auth: "AuthAgent tok (api_db s) = (Inr T, api_db s1)"
        using c Inr by (auto simp: call_def split: prod.splits)
      from AuthAgent_accepts(2) [OF auth] obtain k row where k: "k \<in> set (tokens (db_tables (api_db s)))"
        "tok_row_id k = tok_id tok" "tok_hash k = Hash tok" "tok_tunnel k = t_id T"
        "row \<in> set (tunnels (db_tables (api_db s)))" "tun_id row = t_id T" "tun_subdomain row = t_subdomain T" by blast
      have "provider_within srv (t_id T) (tunnel_domain (t_subdomain T) (srv_base_domain srv)) s1 s'"
        by (rule agent_handler_prov [OF assms(2) h])
      then have pv: "provider_within srv (t_id T) (tunnel_domain (tun_subdomain row) (srv_base_domain srv)) s s'"
        using f by (simp add: provider_within_def k(7))
      have "stays_in (t_id T) s s1" using f by (simp add: stays_in_def)
      then have st: "stays_in (t_id T) s s'" using agent_handler_stays [OF assms(2) h] by (rule stays_in_trans)
      show ?thesis
        using k(1-3,5) \<open>Parse _ _ = Inr tok\<close> st pv by (intro disjI1 exI [of _ tok] exI [of _ k] exI [of _ row]) (simp add: k(4,6))
    qed
  qed
qed

theorem agent_request_confined_witness:
  "stays_in 1 first_state (snd (Handler example_server (example_request ''PUT'' ''/v1/agent/storage/k'' None [1, 2]) [] first_state))"
proof -
  let ?r = "example_request ''PUT'' ''/v1/agent/storage/k'' None [1, 2]"
  have path: "route_of (rq_path ?r) = Some (StorageKey ''k'')"
    using route_storage_example by (simp add: example_request_def)
  obtain resp s' where h: "Handler example_server ?r [] first_state = (resp, s')" by fastforce
  have one: "k \<in> set (tokens (db_tables (api_db first_state))) \<Longrightarrow> tok_tunnel k = 1" for k
    by (simp add: first_state_def first_db_def first_tunnel_def run_defs)
  from agent_request_confined [OF path agent_handler.simps(5) h] one show ?thesis
    unfolding h by (auto simp: stays_in_def)
qed

text \<open>
  C16: Every challenge the store ever holds, and so every TXT record the authoritative zone can
  publish, is named _acme-challenge, then labels each with its dot or none, then the domain of
  the tunnel it belongs to; and no two tunnels can have a challenge of the same name: no agent
  can obtain a certificate for another tunnel's domain.
\<close>
theorem challenges_confined:
  assumes "served srv s" and "t = db_tables (api_db s)"
  shows "(\<forall>c\<in>set (challenges t). \<exists>r\<in>set (tunnels t). tun_id r = ch_tunnel c \<and>
      (\<exists>labels. ch_fqdn c = ''_acme-challenge.'' @ labels @ tun_subdomain r @ ''.'' @ srv_base_domain srv \<and>
         (labels = [] \<or> last labels = CHR ''.''))) \<and>
    (\<forall>c\<in>set (challenges t). \<forall>c'\<in>set (challenges t). ch_fqdn c = ch_fqdn c' \<longrightarrow> ch_tunnel c = ch_tunnel c')"
proof -
  obtain t0 fs where m: "moves (srv_base_domain srv) (db_init t0 fs) (api_db s)" using served_moves [OF assms(1)] by blast
  have conf: "challenge_confined (srv_base_domain srv) t c" if "c \<in> set (challenges t)" for c
    using served_confined [OF assms(1)] that by (simp add: assms(2))
  have ok: "tunnels_ok (db_seqs (api_db s)) t"
    using moves_reachable [OF m reachable.start] assms(2) by (blast intro: schema_okD(3) reachable_schema)
  have "ch_tunnel c = ch_tunnel c'" if c: "c \<in> set (challenges t)" "c' \<in> set (challenges t)" "ch_fqdn c = ch_fqdn c'" for c c'
  proof -
    from conf [OF c(1)] conf [OF c(2)] obtain r r' where
      r: "r \<in> set (tunnels t)" "tun_id r = ch_tunnel c" "challenge_name (tunnel_domain (tun_subdomain r) (srv_base_domain srv)) (ch_fqdn c)"
      and r': "r' \<in> set (tunnels t)" "tun_id r' = ch_tunnel c'" "challenge_name (tunnel_domain (tun_subdomain r') (srv_base_domain srv)) (ch_fqdn c)"
      unfolding challenge_confined_def c(3) by blast
    have "length (tun_subdomain r) = length (tun_subdomain r')"
      using ok r(1) r'(1) by (simp add: tunnels_ok_def tunnel_row_ok_def)
    with r(3) r'(3) have "tun_subdomain r = tun_subdomain r'" by (rule challenge_names_disjoint)
    have "distinct (map tun_subdomain (tunnels t))" using ok by (simp add: tunnels_ok_def)
    from distinct_key_inj [OF this r(1) r'(1) \<open>tun_subdomain r = _\<close>] show ?thesis using r(2) r'(2) by simp
  qed
  moreover have "\<exists>r\<in>set (tunnels t). tun_id r = ch_tunnel c \<and>
      (\<exists>labels. ch_fqdn c = ''_acme-challenge.'' @ labels @ tun_subdomain r @ ''.'' @ srv_base_domain srv \<and>
         (labels = [] \<or> last labels = CHR ''.''))" if "c \<in> set (challenges t)" for c
    using conf [OF that] unfolding challenge_confined_def challenge_name_tunnel by blast
  ultimately show ?thesis by blast
qed

text \<open>A request for a challenge inside the tunnel's domain is granted.\<close>

definition example_acme :: request where
  "example_acme = example_request ''POST'' ''/v1/agent/acme-dns''
     (Some [''fqdn'' \<mapsto> ''_acme-challenge.aaaaaaa.ex.org.'', ''value'' \<mapsto> ''v'']) []"

definition example_row :: challenge_row where
  "example_row = \<lparr>ch_id = Random [7], ch_tunnel = 1, ch_fqdn = ''_acme-challenge.aaaaaaa.ex.org'', ch_value = ''v'', ch_record = Some ''1''\<rparr>"

lemma example_granted:
  assumes srv: "srv_base_domain srv = srv_base_domain example_server" "srv_provider srv = srv_provider example_server"
      "srv_limiter srv = srv_limiter example_server"
    and d: "db_faults d = []" "challenges (db_tables d) = []" "list_ex (\<lambda>r. tun_id r = 1) (tunnels (db_tables d))"
    and auth: "AuthAgent first_token d = (Inr first_T, d)"
  shows "\<exists>s. Handler srv example_acme [] (first_state\<lparr>api_db := d\<rparr>) = (Some (writeJSON (ACMEBody (Random [7]))), s) \<and>
    api_db s = put_tables (\<lambda>t. t\<lparr>challenges := [example_row]\<rparr>) d"
proof -
  let ?s = "first_state\<lparr>api_db := d\<rparr>"
  have name: "to_lower (trim_suffix ''_acme-challenge.aaaaaaa.ex.org.'' ''.'') = ''_acme-challenge.aaaaaaa.ex.org''"
    by code_simp
  have valid: "validACMEDNSName ''_acme-challenge.aaaaaaa.ex.org'' ''aaaaaaa.ex.org''" by code_simp
  have path: "route_of (rq_path example_acme) = Some AcmeDNS" "rq_method example_acme = ''POST''"
    by (simp_all add: example_acme_def example_request_def route_examples)
  have create: "call (CreateDNSChallenge 1 ''_acme-challenge.aaaaaaa.ex.org'' ''v'' ''1'' [7]) s =
      (Inr (Random [7]), s\<lparr>api_db := put_tables (\<lambda>t. t\<lparr>challenges := [example_row]\<rparr>) d\<rparr>)"
    if "api_db s = d" for s :: "(unit, unit) api_state"
    using d by (simp add: that call_def run_defs CreateDNSChallenge_def sql_insert_challenge_def example_row_def null_if_empty_def)
  have poss: "acme_possible srv s = (True, s)" for s
    by (simp add: acme_possible_def srv example_server_def)
  have allow: "allow_dns srv 1 ?s = (True, ?s\<lparr>api_limiters := [1 \<mapsto> ()]\<rparr>)"
    by (simp add: allow_dns_def dnsLimiter_def srv example_server_def first_state_def)
  have json: "rq_json example_acme = Some [''fqdn'' \<mapsto> ''_acme-challenge.aaaaaaa.ex.org.'', ''value'' \<mapsto> ''v'']"
    "rq_random example_acme = [7]"
    by (simp_all add: example_acme_def example_request_def)
  have fields: "field [''fqdn'' \<mapsto> x, ''value'' \<mapsto> y] ''fqdn'' = x" "field [''fqdn'' \<mapsto> x, ''value'' \<mapsto> y] ''value'' = y" for x y
    by (simp_all add: field_def)
  have names: "tunnel_domain (t_subdomain first_T) (srv_base_domain srv) = ''aaaaaaa.ex.org''" "t_id first_T = 1"
    by (simp_all add: tunnel_domain_def first_T_def srv example_server_def)
  have prov: "srv_provider srv = Some \<lparr>prov_create = \<lambda>_ _ p. (Some ''1'', p), prov_delete = \<lambda>_ p. (True, p)\<rparr>"
    by (simp add: srv example_server_def)
  have "\<exists>s. acmeDNSCreate srv example_acme first_T ?s = (writeJSON (ACMEBody (Random [7])), s) \<and>
     api_db s = put_tables (\<lambda>t. t\<lparr>challenges := [example_row]\<rparr>) d"
    unfolding acmeDNSCreate_def poss allow json prod.case bool.case option.case Let_def fields name names prov
    by (simp add: valid create)
  moreover have "agent h example_acme ?s = h first_T ?s" for h
    unfolding agent_def example_acme_def example_bearer first_token_parse by (simp add: call_def auth)
  ultimately show ?thesis by (auto simp: Handler_def path)
qed

lemma example_challenge:
  "\<exists>s. Handler example_server example_acme [] first_state = (Some (writeJSON (ACMEBody (Random [7]))), s) \<and>
     challenges (db_tables (api_db s)) = [example_row]"
proof -
  have "db_faults first_db = []" "challenges (db_tables first_db) = []" "list_ex (\<lambda>r. tun_id r = 1) (tunnels (db_tables first_db))"
    by (simp_all add: first_db_def first_tunnel_def run_defs)
  moreover have "first_state\<lparr>api_db := first_db\<rparr> = first_state" by (simp add: first_state_def)
  ultimately show ?thesis using example_granted [of example_server first_db] first_token_auth by (auto simp: put_tables_def)
qed

theorem challenges_confined_witness:
  "\<exists>s c r. served example_server s \<and> c \<in> set (challenges (db_tables (api_db s))) \<and>
     r \<in> set (tunnels (db_tables (api_db s))) \<and> tun_id r = ch_tunnel c \<and>
     (\<exists>labels. ch_fqdn c = ''_acme-challenge.'' @ labels @ tun_subdomain r @ ''.ex.org'')"
proof -
  obtain s where s: "snd (Handler example_server example_acme [] first_state) = s" "challenges (db_tables (api_db s)) = [example_row]"
    using example_challenge by fastforce
  have "served example_server s" unfolding s(1) [symmetric] by (rule served.request [OF first_state_served])
  moreover obtain c where "c \<in> set (challenges (db_tables (api_db s)))" using s(2) by fastforce
  moreover have "srv_base_domain example_server = ''ex.org''" by (simp add: example_server_def)
  ultimately show ?thesis using challenges_confined [OF \<open>served example_server s\<close> HOL.refl] by fastforce
qed

section \<open>Storage and the long poll\<close>

lemma Handler_storage:
  assumes "route_of (rq_path r) = Some (StorageKey key)" and "rq_method r \<in> {''GET'', ''PUT''}"
  shows "Handler srv r sched s =
    (case agent (if rq_method r = ''PUT'' then storagePut r key else storageGet r key) r s of (e, s') \<Rightarrow> (Some e, s'))"
  using assms by (auto simp: Handler_def)

lemma StoragePut_done:
  assumes "db_faults d = []" and "StoragePut tid key v d = (Inr (), d')"
  shows "db_faults d' = []" "accounts (db_tables d') = accounts (db_tables d)" "tunnels (db_tables d') = tunnels (db_tables d)"
    "tokens (db_tables d') = tokens (db_tables d)"
  using assms by (auto simp: StoragePut_def stmt_run sql_storage_put_def Let_def split: if_splits)

lemma AuthAgent_cong:
  assumes "db_faults d = []" "db_faults d' = []" "accounts (db_tables d') = accounts (db_tables d)"
    "tunnels (db_tables d') = tunnels (db_tables d)" "tokens (db_tables d') = tokens (db_tables d)"
    and "AuthAgent tok d = (Inr T, d)"
  shows "AuthAgent tok d' = (Inr T, d')"
proof -
  have "sql_agent_by_token i (db_tables d') = sql_agent_by_token i (db_tables d)" for i
    using assms(3-5) by (auto simp: sql_agent_by_token_def tunnel_of_def tunnel_view_def account_of_def split: option.splits)
  then show ?thesis
    using assms(1,2,6) by (auto simp: AuthAgent_run split: option.splits if_splits)
qed

text \<open>
  What an agent stores it reads back: after a PUT answered 204, a GET of the same key with
  the same token returns 200 with exactly the bytes sent, and reading changes nothing.
\<close>
lemma storage_put_get:
  assumes "db_faults (api_db s) = []"
    and put: "route_of (rq_path r1) = Some (StorageKey key)" "rq_method r1 = ''PUT''"
    and get: "route_of (rq_path r2) = Some (StorageKey key)" "rq_method r2 = ''GET''" "rq_authorization r2 = rq_authorization r1"
    and done1: "Handler srv r1 sched1 s = (Some resp1, s1)" "rs_status resp1 = 204"
  shows "\<exists>resp2. Handler srv r2 sched2 s1 = (Some resp2, s1) \<and> rs_status resp2 = 200 \<and> rs_body resp2 = BytesBody (rq_body r1)"
proof -
  have "agent (storagePut r1 key) r1 s = (resp1, s1)"
    using done1(1) put by (auto simp: Handler_storage split: prod.splits)
  moreover from this obtain tok where p: "Parse (bearer r1) PrefixAgent = Inr tok"
    using done1(2) by (auto simp: agent_def writeErr_def respond_def split: sum.splits)
  moreover from calculation done1(2) have "AuthAgent tok (api_db s) \<noteq> (Inl ErrUnauthorized, api_db s)"
    by (auto simp: agent_def call_def fail_def writeErr_def respond_def)
  ultimately obtain tok T where tok: "Parse (bearer r1) PrefixAgent = Inr tok" "AuthAgent tok (api_db s) = (Inr T, api_db s)"
    and h: "storagePut r1 key T s = (resp1, s1)"
    using AuthAgent_total [OF assms(1), of tok] by (auto simp: agent_def call_def)
  have key: "storageKey key = Inr key" and len: "\<not> maxStorageValue < length (rq_body r1)"
    using h done1(2) by (auto simp: storagePut_def storageKey_def writeErr_def respond_def split: if_splits)
  obtain d1 where p: "StoragePut (t_id T) key (rq_body r1) (api_db s) = (Inr (), d1)" and s1: "s1 = s\<lparr>api_db := d1\<rparr>"
    using h done1(2) key len
    by (auto simp: storagePut_def call_def fail_def writeErr_def respond_def split: sum.splits prod.splits store_err.splits)
  note p1 = StoragePut_done [OF assms(1) p]
  have auth: "AuthAgent tok d1 = (Inr T, d1)"
    by (rule AuthAgent_cong [OF assms(1) p1 tok(2)])
  have "t_id T \<in> tunnel_ids (db_tables (api_db s))"
    using AuthAgent_accepts(2) [OF tok(2)] by (auto simp: tunnel_ids_def intro: rev_image_eqI)
  then have "storage_get d1 (t_id T, key) = Some (rq_body r1)"
    using storage_get_put [of "api_db s" "(t_id T, key)" "rq_body r1" "(t_id T, key)"] assms(1) p
    by (simp add: storage_writable_def storage_put_def)
  then obtain row where row: "storage_row_of (db_tables d1) (t_id T) key = Some row" "sto_value row = rq_body r1"
    by (auto simp: storage_get_def)
  have "agent (storageGet r2 key) r2 s1 = storageGet r2 key T s1"
    using tok(1) get(3) auth by (simp add: agent_def bearer_def call_def s1)
  also have "\<dots> = (\<lparr>rs_status = 200, rs_body = BytesBody (rq_body r1), rs_content_length = Some (length (rq_body r1)), rs_last_modified = Some (whole_seconds (sto_updated row))\<rparr>, s1)"
    using row p1(1) get(2)
    by (simp add: storageGet_def key call_def s1 StorageGet_def bindr_def query_run retr_def)
  finally show ?thesis using get by (simp add: Handler_storage)
qed

lemma storage_put_get_ready:
  assumes "length b \<le> 100"
  shows "\<exists>resp1 s1. Handler example_server (example_request ''PUT'' (''/v1/agent/storage/'' @ ''k'') None b) [] first_state = (Some resp1, s1) \<and>
     rs_status resp1 = 204 \<and> rs_body resp1 = NoBody"
proof -
  have key: "storageKey ''k'' = Inr ''k''" by code_simp
  have small: "\<not> maxStorageValue < length b" using assms by (simp add: maxStorageValue_def)
  have "\<exists>d. StoragePut 1 ''k'' b first_db = (Inr (), d)"
    by (simp add: first_db_def first_tunnel_def run_defs StoragePut_def sql_storage_put_def)
  then obtain d where "StoragePut 1 ''k'' b first_db = (Inr (), d)" ..
  then have "storagePut (example_request ''PUT'' (''/v1/agent/storage/'' @ ''k'') None b) ''k'' first_T first_state =
      (respond 204 NoBody, first_state\<lparr>api_db := d\<rparr>)"
    using small by (simp add: storagePut_def key call_def first_state_def first_T_def example_request_def)
  then show ?thesis
    by (subst Handler_storage [where key = "''k''"]) (simp_all add: example_agent, simp_all add: example_request_def respond_def route_storage_example)
qed

lemma storage_put_get_example:
  "\<exists>s1 resp2. Handler example_server (example_request ''GET'' (''/v1/agent/storage/'' @ ''k'') None []) [] s1 = (Some resp2, s1) \<and>
     rs_body resp2 = BytesBody [1, 2]"
proof -
  let ?r1 = "example_request ''PUT'' (''/v1/agent/storage/'' @ ''k'') None [1, 2]"
  obtain resp1 s1 where h: "Handler example_server ?r1 [] first_state = (Some resp1, s1)" "rs_status resp1 = 204"
    using storage_put_get_ready [of "[1, 2]"] by auto
  have "db_faults (api_db first_state) = []" by (simp add: first_state_def first_db_faults)
  from storage_put_get [OF this _ _ _ _ _ h, of "''k''" "example_request ''GET'' (''/v1/agent/storage/'' @ ''k'') None []" "[]"]
  show ?thesis by (auto simp: example_request_def route_storage_example)
qed

text \<open>Time does not pass inside a look, and at least one tick passes between two.\<close>

lemma config_look_now: "db_now (api_db (snd (config_look srv since n s))) = db_now (api_db s)"
proof -
  obtain r s1 where t: "call (TouchNode (n_id n)) s = (r, s1)" by fastforce
  have "growth (api_db s) (api_db s1)"
    using withinD [OF growth.within_node_updates(4), of "n_id n" "api_db s"] t by (auto simp: call_def split: prod.splits)
  moreover obtain q s2 where c: "call (store_NodeConfig (srv_collation srv) (srv_base_domain srv) nodeFreshness (srv_zone srv)) s1 = (q, s2)"
    by fastforce
  moreover have "growth (api_db s1) (api_db s2)"
    using withinD [OF growth.within_node_queries(7), of _ _ _ _ "api_db s1"] c by (auto simp: call_def split: prod.splits)
  ultimately show ?thesis by (cases r; cases q) (auto simp: config_look_def t growth_def)
qed

lemma run_events_now:
  "\<forall>e\<in>set es. valid_event e \<Longrightarrow> db_now d \<le> db_now (run_events es d)"
  using exec_growth by (induction es arbitrary: d) (auto intro: order_trans)

definition poll_answer :: "string \<Rightarrow> response \<Rightarrow> bool" where
  "poll_answer since r \<longleftrightarrow>
     (rs_status r = 200 \<and> (\<exists>cfg. rs_body r = ConfigBody cfg \<and> nc_version cfg \<noteq> since)) \<or>
     (rs_status r = 304 \<and> rs_body r = NoBody) \<or> 400 \<le> rs_status r"

lemma fail_status: "400 \<le> rs_status (fail e)"
  by (auto simp: fail_def writeErr_def respond_def split: store_err.split)

lemma config_look_answer: "config_look srv since n s = (Some r, s') \<Longrightarrow> poll_answer since r \<and> rs_status r \<noteq> 304"
  by (auto simp: config_look_def poll_answer_def fail_status writeJSON_def respond_def split: prod.splits sum.splits if_splits)
    (auto simp: fail_def writeErr_def respond_def split: store_err.splits)

lemma config_loop_answers:
  assumes "\<forall>es\<in>set sched. \<forall>e\<in>set es. valid_event e" and "deadline \<le> db_now (api_db s) + int (length sched) * second" "sched \<noteq> []"
  shows "\<exists>r s'. config_loop srv since n deadline sched s = (Some r, s') \<and> poll_answer since r \<and>
    (rs_status r = 304 \<longrightarrow> deadline \<le> db_now (api_db s'))"
  using assms
proof (induction srv since n deadline sched s rule: config_loop.induct)
  case (1 srv since n deadline sched s)
  obtain o1 s1 where l: "config_look srv since n s = (o1, s1)" by fastforce
  have now: "db_now (api_db s1) = db_now (api_db s)" using config_look_now [of srv since n s] l by simp
  show ?case
  proof (cases o1)
    case (Some r)
    then show ?thesis using l config_look_answer [of srv since n s r s1] by (subst config_loop.simps) auto
  next
    case None
    obtain es rest where sched: "sched = es # rest" using 1(4) by (cases sched) auto
    let ?s2 = "wait_tick es s1"
    have t: "db_now (api_db s) + second \<le> db_now (api_db ?s2)"
      using run_events_now [of es "api_db s1"] 1(2) now by (simp add: wait_tick_def sched longPollTick_def)
    show ?thesis
    proof (cases "deadline \<le> db_now (api_db ?s2)")
      case True
      then show ?thesis
        by (subst config_loop.simps) (simp add: l None sched Let_def poll_answer_def respond_def)
    next
      case False
      have "\<exists>r s'. config_loop srv since n deadline rest ?s2 = (Some r, s') \<and> poll_answer since r \<and>
          (rs_status r = 304 \<longrightarrow> deadline \<le> db_now (api_db s'))"
      proof (rule 1(1) [OF l [symmetric] None sched HOL.refl False])
        show "\<forall>es\<in>set rest. \<forall>e\<in>set es. valid_event e" using 1(2) sched by simp
        show "deadline \<le> db_now (api_db ?s2) + int (length rest) * second"
          using 1(3) t by (simp add: sched algebra_simps)
        show "rest \<noteq> []" using 1(3) t False by (auto simp: sched)
      qed
      then show ?thesis using False by (subst config_loop.simps) (simp add: l None sched Let_def)
    qed
  qed
qed

text \<open>
  C19: The long poll always answers: whatever happens to the database meanwhile, 25 ticks after
  the request at the latest the node has a response, which is an error, a configuration whose
  version is not the one it said it had, or 304, and 304 is only sent once the 25 seconds of the
  deadline have passed.
\<close>
theorem nodeConfig_answers:
  assumes "length sched = 25" and "\<forall>es\<in>set sched. \<forall>e\<in>set es. valid_event e"
  shows "\<exists>resp s'. nodeConfig srv r n sched s = (Some resp, s') \<and> poll_answer (rq_query r ''since'') resp \<and>
    (rs_status resp \<noteq> 304 \<or> db_now (api_db s) + longPollTimeout \<le> db_now (api_db s'))"
proof -
  have "sched \<noteq> []" using assms(1) by auto
  moreover have "db_now (api_db s) + longPollTimeout \<le> db_now (api_db s) + int (length sched) * second"
    by (simp add: longPollTimeout_def assms(1))
  ultimately show ?thesis
    using config_loop_answers [OF assms(2)] unfolding nodeConfig_def by blast
qed

theorem nodeConfig_answers_witness:
  "\<exists>resp s'. nodeConfig example_server (example_request ''GET'' ''/v1/node/config'' None [])
     \<lparr>n_id = 1, n_name = ''n'', n_endpoint = [], n_gateway_ip = [], n_public_key = [], n_public_ip = [], n_last_seen = None\<rparr>
     (replicate 25 [EvTick 1]) first_state = (Some resp, s')"
proof -
  have "\<forall>es\<in>set (replicate 25 [EvTick 1]). \<forall>e\<in>set es. valid_event e" by simp
  from nodeConfig_answers [OF length_replicate this] show ?thesis by blast
qed

section \<open>Names the API can never accept\<close>

text \<open>
  acmeDNSCreate lower-cases the requested name before it compares it with the tunnel's domain,
  and takes the base domain as it was configured: with an upper-case letter in it no name is
  ever accepted.
\<close>
lemma uppercase_base_rejects:
  assumes "\<not> lowercase base"
  shows "\<not> validACMEDNSName (to_lower f) (tunnel_domain sub base)"
proof
  assume "validACMEDNSName (to_lower f) (tunnel_domain sub base)"
  then obtain u where "to_lower f = acme_prefix @ u @ sub @ ''.'' @ base"
    by (auto simp: valid_name_shape tunnel_domain_def)
  then have "lowercase (acme_prefix @ u @ sub @ ''.'' @ base)" by (metis lowercase_to_lower)
  then show False using assms by (simp add: lowercase_def)
qed

end
