(* ===== verification/Api_Client.thy ===== *)
theory Api_Client
  imports Api
begin

text \<open>
  internal/apiclient: the HTTP client of the control plane that nodes and agents use.  What
  comes back is a reply of HTTP: a status, the header fields the callers read and the body,
  already decoded from JSON the two ways the client tries (as an error object, as the expected
  value); a request that fails below HTTP has no reply.
\<close>

record Client =
  cl_base_url :: string
  cl_token :: string

definition New_Client :: "string \<Rightarrow> string \<Rightarrow> Client" where
  "New_Client base tok = \<lparr>cl_base_url = trim_suffix base ''/'', cl_token = tok\<rparr>"

text \<open>The request both Do and Raw send: absolute URL, bearer token, type of the content.\<close>

record 'i http_request =
  ht_method :: string
  ht_url :: string
  ht_authorization :: string
  ht_content_type :: string
  ht_payload :: 'i

definition do_request :: "Client \<Rightarrow> string \<Rightarrow> string \<Rightarrow> 'i \<Rightarrow> 'i http_request" where
  "do_request c method path body =
     \<lparr>ht_method = method, ht_url = cl_base_url c @ path, ht_authorization = ''Bearer '' @ cl_token c,
      ht_content_type = ''application/json'', ht_payload = body\<rparr>"

definition raw_request :: "Client \<Rightarrow> string \<Rightarrow> string \<Rightarrow> bytes \<Rightarrow> bytes http_request" where
  "raw_request c method path body =
     \<lparr>ht_method = method, ht_url = cl_base_url c @ path, ht_authorization = ''Bearer '' @ cl_token c,
      ht_content_type = ''application/octet-stream'', ht_payload = body\<rparr>"

record 'b http_reply =
  hx_status :: nat
  hx_status_line :: string
  hx_error :: "proto_Error option"
  hx_value :: "'b option"
  hx_last_modified :: "instant option"
  hx_content_length :: "nat option"

text \<open>The errors a caller can tell apart; all the others are OtherError.\<close>

datatype client_error = ErrNotModified | ApiError nat string string | OtherError

definition Code :: "client_error \<Rightarrow> string" where
  "Code e = (case e of ApiError st code msg \<Rightarrow> code | _ \<Rightarrow> [])"

text \<open>The error of a reply from 400 up, also when its body is not one of the API's.\<close>

definition api_error :: "'b http_reply \<Rightarrow> client_error" where
  "api_error r =
     (case hx_error r of
        Some pe \<Rightarrow> ApiError (hx_status r) (err_code pe) (err_message pe)
      | None \<Rightarrow> ApiError (hx_status r) proto_ErrInternal (hx_status_line r))"

text \<open>Do with an out to fill, and without one (Do_none).\<close>

definition Do :: "'b http_reply option \<Rightarrow> client_error + 'b" where
  "Do reply =
     (case reply of
        None \<Rightarrow> Inl OtherError
      | Some r \<Rightarrow>
          if hx_status r = 304 then Inl ErrNotModified
          else if 400 \<le> hx_status r then Inl (api_error r)
          else (case hx_value r of Some v \<Rightarrow> Inr v | None \<Rightarrow> Inl OtherError))"

definition Do_none :: "'b http_reply option \<Rightarrow> client_error + unit" where
  "Do_none reply =
     (case reply of
        None \<Rightarrow> Inl OtherError
      | Some r \<Rightarrow>
          if hx_status r = 304 then Inl ErrNotModified
          else if 400 \<le> hx_status r then Inl (api_error r)
          else Inr ())"

definition Raw :: "'b http_reply option \<Rightarrow> client_error + 'b \<times> instant option \<times> nat option" where
  "Raw reply =
     (case reply of
        None \<Rightarrow> Inl OtherError
      | Some r \<Rightarrow>
          if 400 \<le> hx_status r then Inl (api_error r)
          else (case hx_value r of
                  Some v \<Rightarrow> Inr (v, hx_last_modified r, hx_content_length r)
                | None \<Rightarrow> Inl OtherError))"

section \<open>The client in front of the server\<close>

text \<open>
  What HTTP delivers of a response of the API: the body as the client decodes it, and no body
  at all in answer to HEAD (net/http drops what the handler writes).
\<close>

definition status_text :: "nat \<Rightarrow> string" where
  "status_text st =
     (case map_of [(200, ''OK''), (204, ''No Content''), (301, ''Moved Permanently''), (304, ''Not Modified''), (400, ''Bad Request''),
        (401, ''Unauthorized''), (404, ''Not Found''), (405, ''Method Not Allowed''), (409, ''Conflict''),
        (429, ''Too Many Requests''), (500, ''Internal Server Error''), (501, ''Not Implemented''),
        (502, ''Bad Gateway'')] st of Some t \<Rightarrow> t | None \<Rightarrow> [])"

definition status_line :: "nat \<Rightarrow> string" where
  "status_line st = nat_string st @ '' '' @ status_text st"

definition over_http :: "(body \<Rightarrow> 'b option) \<Rightarrow> string \<Rightarrow> response \<Rightarrow> 'b http_reply" where
  "over_http decode method r =
     (let b = (if method = ''HEAD'' then NoBody else rs_body r)
      in \<lparr>hx_status = rs_status r, hx_status_line = status_line (rs_status r),
          hx_error = (case b of ErrorBody e \<Rightarrow> Some e | _ \<Rightarrow> None),
          hx_value = decode b, hx_last_modified = rs_last_modified r, hx_content_length = rs_content_length r\<rparr>)"

lemma Code_writeErr:
  assumes "400 \<le> st" and "method \<noteq> ''HEAD''"
  shows "Do (Some (over_http dec method (writeErr st code msg))) = Inl (ApiError st code msg)"
    "Do_none (Some (over_http dec method (writeErr st code msg))) = Inl (ApiError st code msg)"
    "Raw (Some (over_http dec method (writeErr st code msg))) = Inl (ApiError st code msg)"
  using assms
  by (simp_all add: Do_def Do_none_def Raw_def over_http_def writeErr_def respond_def api_error_def Let_def)

text \<open>
  In answer to HEAD the client cannot read the error's code: every error of the API looks like
  an internal one, whatever its status.
\<close>

lemma Code_HEAD:
  assumes "400 \<le> rs_status r"
  shows "\<exists>e. Raw (Some (over_http dec ''HEAD'' r)) = Inl e \<and> Code e = proto_ErrInternal"
  using assms by (simp add: Raw_def over_http_def api_error_def Let_def Code_def)

end
