(* ===== verification/Dns_Server.thy ===== *)
theory Dns_Server
  imports Net_Addr
begin

text \<open>
  internal/dnsserver: the authoritative answer to a query (Answer), the records it is made of
  and the normalisation of a zone (SetZone).  Two functions come from the library
  github.com/miekg/dns and are arguments: Fqdn, which appends the final dot when it is missing,
  and IsSubDomain.  Messages keep the fields Answer sets; the name, class and TTL of a record
  are in its header.
\<close>

section \<open>Messages\<close>

record dns_lib =
  lib_Fqdn :: "string \<Rightarrow> string"
  lib_IsSubDomain :: "string \<Rightarrow> string \<Rightarrow> bool"

text \<open>Record types and response codes, by their numbers.\<close>

definition TypeA :: nat where "TypeA = 1"
definition TypeNS :: nat where "TypeNS = 2"
definition TypeSOA :: nat where "TypeSOA = 6"
definition TypeTXT :: nat where "TypeTXT = 16"
definition RcodeSuccess :: nat where "RcodeSuccess = 0"
definition RcodeFormatError :: nat where "RcodeFormatError = 1"
definition RcodeNameError :: nat where "RcodeNameError = 3"
definition RcodeRefused :: nat where "RcodeRefused = 5"

lemmas dns_numbers = TypeA_def TypeNS_def TypeSOA_def TypeTXT_def
  RcodeSuccess_def RcodeFormatError_def RcodeNameError_def RcodeRefused_def

datatype rdata =
    RD_A bytes
  | RD_NS string
  | RD_TXT "string list"
  | RD_SOA string string "32 word" nat nat nat nat

record RR =
  rr_name :: string
  rr_type :: nat
  rr_ttl :: nat
  rr_data :: rdata

record question =
  q_name :: string
  q_type :: nat

record msg =
  m_questions :: "question list"
  m_rcode :: nat
  m_authoritative :: bool
  m_answer :: "RR list"
  m_ns :: "RR list"

text \<open>SetReply and SetRcode: the first question is copied, the sections are empty.\<close>

definition SetReply :: "question list \<Rightarrow> msg" where
  "SetReply qs = \<lparr>m_questions = take 1 qs, m_rcode = RcodeSuccess, m_authoritative = False, m_answer = [], m_ns = []\<rparr>"

definition SetRcode :: "nat \<Rightarrow> question list \<Rightarrow> msg" where
  "SetRcode rc qs = (SetReply qs)\<lparr>m_rcode := rc\<rparr>"

section \<open>Zones\<close>

definition defaultTTL :: nat where
  "defaultTTL = 30"

record Zone =
  z_name :: string
  z_ns_names :: "string list"
  z_soa_email :: string
  z_edge :: "string list"
  z_challenges :: "string \<rightharpoonup> string list"

definition empty_zone :: Zone where
  "empty_zone = \<lparr>z_name = [], z_ns_names = [], z_soa_email = [], z_edge = [], z_challenges = Map.empty\<rparr>"

definition rname :: "dns_lib \<Rightarrow> string \<Rightarrow> string \<Rightarrow> string" where
  "rname lib email zone =
     (if email = [] then lib_Fqdn lib (''hostmaster.'' @ trim_suffix zone ''.'')
      else case cut email CHR ''@'' of
             None \<Rightarrow> lib_Fqdn lib email
           | Some (local, domain) \<Rightarrow>
               lib_Fqdn lib (replace_byte local CHR ''.'' [CHR 0x5C, CHR ''.''] @ ''.'' @ domain))"

text \<open>The serial is the clock in seconds, cut to 32 bits.\<close>

definition soaRecord :: "dns_lib \<Rightarrow> int \<Rightarrow> Zone \<Rightarrow> RR" where
  "soaRecord lib now z =
     \<lparr>rr_name = z_name z, rr_type = TypeSOA, rr_ttl = defaultTTL,
      rr_data = RD_SOA (case z_ns_names z of [] \<Rightarrow> z_name z | ns # _ \<Rightarrow> ns) (rname lib (z_soa_email z) (z_name z))
        (word_of_int now) 3600 600 604800 defaultTTL\<rparr>"

section \<open>Answer\<close>

definition a_records :: "string \<Rightarrow> string list \<Rightarrow> RR list" where
  "a_records name edge =
     List.map_filter
       (\<lambda>ip. case ParseAddr ip of
               Some addr \<Rightarrow>
                 if Is4 addr
                 then Some \<lparr>rr_name = name, rr_type = TypeA, rr_ttl = defaultTTL, rr_data = RD_A (AsSlice addr)\<rparr>
                 else None
             | None \<Rightarrow> None) edge"

definition answer_records :: "dns_lib \<Rightarrow> int \<Rightarrow> Zone \<Rightarrow> question \<Rightarrow> RR list" where
  "answer_records lib now z q =
     (let qname = to_lower (q_name q)
      in if q_type q = TypeSOA then (if qname = z_name z then [soaRecord lib now z] else [])
         else if q_type q = TypeNS then
           (if qname = z_name z
            then map (\<lambda>ns. \<lparr>rr_name = q_name q, rr_type = TypeNS, rr_ttl = defaultTTL, rr_data = RD_NS ns\<rparr>) (z_ns_names z)
            else [])
         else if q_type q = TypeTXT then
           map (\<lambda>v. \<lparr>rr_name = q_name q, rr_type = TypeTXT, rr_ttl = defaultTTL, rr_data = RD_TXT [v]\<rparr>)
             (case z_challenges z qname of Some vs \<Rightarrow> vs | None \<Rightarrow> [])
         else if q_type q = TypeA then a_records (q_name q) (z_edge z)
         else [])"

definition Answer :: "dns_lib \<Rightarrow> int \<Rightarrow> Zone option \<Rightarrow> question list \<Rightarrow> msg" where
  "Answer lib now zone qs =
     (case qs of
        [q] \<Rightarrow>
          (case zone of
             None \<Rightarrow> SetRcode RcodeRefused qs
           | Some z \<Rightarrow>
               if z_name z = [] \<or> \<not> lib_IsSubDomain lib (z_name z) (to_lower (q_name q))
               then SetRcode RcodeRefused qs
               else
                 let ans = answer_records lib now z q
                 in (SetReply qs)\<lparr>m_authoritative := True, m_answer := ans,
                      m_ns := (if ans = [] then [soaRecord lib now z] else [])\<rparr>)
      | _ \<Rightarrow> SetRcode RcodeFormatError qs)"

section \<open>SetZone\<close>

text \<open>
  normalize ranges over the challenges in the order the map gives them, an argument; two names
  that differ only in case or the final dot become one, the later one winning.
\<close>

definition norm_name :: "dns_lib \<Rightarrow> string \<Rightarrow> string" where
  "norm_name lib s = lib_Fqdn lib (to_lower s)"

definition normalize :: "dns_lib \<Rightarrow> string list \<Rightarrow> Zone \<Rightarrow> Zone" where
  "normalize lib order z =
     \<lparr>z_name = (if z_name z \<noteq> [] then norm_name lib (z_name z) else []),
      z_ns_names = map (norm_name lib) (z_ns_names z),
      z_soa_email = z_soa_email z,
      z_edge = z_edge z,
      z_challenges = foldl (\<lambda>m f. case z_challenges z f of Some vs \<Rightarrow> m(norm_name lib f \<mapsto> vs) | None \<Rightarrow> m) Map.empty order\<rparr>"

text \<open>
  The server holds the zone it answers from.  serve_query is the handler at the level of messages:
  how a message is packed, and that WriteMsg gives up on one that cannot be (a character string of
  more than 255 bytes, an escape, the size of a datagram), is the library's.
\<close>

record dns_server =
  srv_zone_now :: Zone

definition New_Dns :: dns_server where
  "New_Dns = \<lparr>srv_zone_now = empty_zone\<rparr>"

definition SetZone :: "dns_lib \<Rightarrow> string list \<Rightarrow> Zone \<Rightarrow> dns_server \<Rightarrow> dns_server" where
  "SetZone lib order z s = s\<lparr>srv_zone_now := normalize lib order z\<rparr>"

definition serve_query :: "dns_lib \<Rightarrow> int \<Rightarrow> dns_server \<Rightarrow> question list \<Rightarrow> msg" where
  "serve_query lib now s qs = Answer lib now (Some (srv_zone_now s)) qs"

text \<open>
  Serve: it starts a UDP and a TCP listener and waits for the first of them to return or for its
  context; either way it shuts both down, in this order, and returns the listener's error.  None
  is that it still waits.
\<close>

datatype dns_transport = UDP | TCP

datatype dns_serve_event = ListenerReturned dns_transport "string option" | ServeCtxDone

definition dns_Serve :: "dns_serve_event list \<Rightarrow> (string option \<times> dns_transport list) option" where
  "dns_Serve evs =
     (case evs of
        [] \<Rightarrow> None
      | e # later \<Rightarrow> Some (case e of ListenerReturned l err \<Rightarrow> err | ServeCtxDone \<Rightarrow> None, [UDP, TCP]))"

section \<open>What the library promises\<close>

text \<open>
  Fqdn leaves a name that ends in a dot alone and appends one otherwise (for names without
  escapes); IsSubDomain holds of a name and the names below it, by whole labels.
\<close>

definition dns_fqdn :: "string \<Rightarrow> string" where
  "dns_fqdn s = (if has_suffix s ''.'' then s else s @ ''.'')"

definition dns_below :: "string \<Rightarrow> string \<Rightarrow> bool" where
  "dns_below parent child \<longleftrightarrow> child = parent \<or> has_suffix child (''.'' @ parent)"

definition dns_contract :: "dns_lib \<Rightarrow> bool" where
  "dns_contract lib \<longleftrightarrow>
     (\<forall>s. CHR 0x5C \<notin> set s \<longrightarrow> lib_Fqdn lib s = dns_fqdn s) \<and>
     (\<forall>p c. CHR 0x5C \<notin> set p \<longrightarrow> CHR 0x5C \<notin> set c \<longrightarrow> p \<noteq> ''.'' \<longrightarrow> has_suffix p ''.'' \<longrightarrow> has_suffix c ''.'' \<longrightarrow>
        lowercase p \<longrightarrow> lowercase c \<longrightarrow> lib_IsSubDomain lib p c = dns_below p c)"

text \<open>A library that does what is documented.\<close>

definition plain_lib :: dns_lib where
  "plain_lib = \<lparr>lib_Fqdn = dns_fqdn, lib_IsSubDomain = dns_below\<rparr>"

lemma plain_lib_contract: "dns_contract plain_lib"
  by (simp add: dns_contract_def plain_lib_def)

section \<open>Facts\<close>

text \<open>The challenges of a normalised zone, when no two names collide.\<close>

lemma fold_updates:
  assumes "\<And>f g. f \<in> set order \<Longrightarrow> g \<in> set order \<Longrightarrow> n f = n g \<Longrightarrow> f = g"
    and "set order \<subseteq> dom t"
  shows "foldl (\<lambda>m f. case t f of Some vs \<Rightarrow> m(n f \<mapsto> vs) | None \<Rightarrow> m) m0 order k =
    (if \<exists>f\<in>set order. n f = k then t (THE f. f \<in> set order \<and> n f = k) else m0 k)"
  using assms
proof (induction order arbitrary: m0)
  case (Cons f fs)
  then obtain vs where vs: "t f = Some vs" by auto
  have IH: "foldl (\<lambda>m f. case t f of Some vs \<Rightarrow> m(n f \<mapsto> vs) | None \<Rightarrow> m) (m0(n f \<mapsto> vs)) fs k =
    (if \<exists>f\<in>set fs. n f = k then t (THE f. f \<in> set fs \<and> n f = k) else (m0(n f \<mapsto> vs)) k)"
    using Cons.prems by (intro Cons.IH) auto
  show ?case
  proof (cases "\<exists>g\<in>set fs. n g = k")
    case True
    then obtain g where g: "g \<in> set fs" "n g = k" by blast
    have "(THE f. f \<in> set fs \<and> n f = k) = g" using g Cons.prems(1) by (intro the_equality) auto
    moreover have "(THE x. x \<in> set (f # fs) \<and> n x = k) = g" using g Cons.prems(1) by (intro the_equality) auto
    ultimately show ?thesis using IH vs g by auto
  next
    case False
    show ?thesis
    proof (cases "n f = k")
      case True
      have "(THE x. x \<in> set (f # fs) \<and> n x = k) = f" using True Cons.prems(1) by (intro the_equality) auto
      then show ?thesis using IH vs True False by auto
    qed (use IH vs False in auto)
  qed
qed simp

lemma normalize_challenges:
  assumes "inj_on (norm_name lib) (dom (z_challenges z))" and "set order = dom (z_challenges z)" and "f \<in> dom (z_challenges z)"
  shows "z_challenges (normalize lib order z) (norm_name lib f) = z_challenges z f"
proof -
  have inj: "g = h" if "g \<in> set order" "h \<in> set order" "norm_name lib g = norm_name lib h" for g h
    using that assms(1,2) by (auto dest: inj_onD)
  have "(THE g. g \<in> set order \<and> norm_name lib g = norm_name lib f) = f"
    using assms inj by (intro the_equality) auto
  then show ?thesis
    using fold_updates [of order "norm_name lib" "z_challenges z" Map.empty "norm_name lib f"] inj assms
    by (auto simp: normalize_def)
qed

lemma normalize_no_challenge:
  assumes "k \<notin> norm_name lib ` dom (z_challenges z)" and "set order = dom (z_challenges z)"
  shows "z_challenges (normalize lib order z) k = None"
proof -
  have "foldl (\<lambda>m f. case z_challenges z f of Some vs \<Rightarrow> m(norm_name lib f \<mapsto> vs) | None \<Rightarrow> m) m0 fs k = m0 k"
    if "\<forall>f\<in>set fs. norm_name lib f \<noteq> k" for m0 fs
    using that by (induction fs arbitrary: m0) (auto split: option.splits)
  moreover have "\<forall>f\<in>set order. norm_name lib f \<noteq> k" using assms by auto
  ultimately show ?thesis by (simp add: normalize_def)
qed

text \<open>
  C24: The server is authoritative for its zone and for nothing else: with one question under
  the zone the reply is authoritative, never an error, and says so with the zone's SOA when it
  has no record of that kind; any other query is refused (or a format error) with empty
  sections.  No query is ever answered that a name does not exist.
\<close>
theorem Answer_authority:
  shows "m_rcode (Answer lib now zone qs) \<noteq> RcodeNameError \<and>
    (m_authoritative (Answer lib now zone qs) \<longleftrightarrow>
       (\<exists>q z. qs = [q] \<and> zone = Some z \<and> z_name z \<noteq> [] \<and> lib_IsSubDomain lib (z_name z) (to_lower (q_name q)))) \<and>
    (\<not> m_authoritative (Answer lib now zone qs) \<longrightarrow> m_answer (Answer lib now zone qs) = [] \<and> m_ns (Answer lib now zone qs) = [] \<and>
       m_rcode (Answer lib now zone qs) = (if length qs = 1 then RcodeRefused else RcodeFormatError)) \<and>
    (m_authoritative (Answer lib now zone qs) \<longrightarrow> m_rcode (Answer lib now zone qs) = RcodeSuccess \<and>
       (m_answer (Answer lib now zone qs) = []) = (m_ns (Answer lib now zone qs) \<noteq> []) \<and>
       (\<forall>rr\<in>set (m_answer (Answer lib now zone qs)). rr_type rr = q_type (hd qs)))"
proof -
  have types: "rr_type rr = q_type q" if "rr \<in> set (answer_records lib now z q)" for rr z q
    using that
    by (auto simp: answer_records_def Let_def soaRecord_def a_records_def List.map_filter_def split: if_splits option.splits)
  show ?thesis
  proof (cases qs)
    case Nil
    then show ?thesis by (simp add: Answer_def SetRcode_def SetReply_def dns_numbers)
  next
    case (Cons q rest)
    then show ?thesis using types
      by (cases rest; cases zone) (auto simp: Answer_def SetRcode_def SetReply_def dns_numbers Let_def)
  qed
qed

theorem Answer_authority_witness:
  "m_rcode (Answer plain_lib 0 (Some empty_zone) [\<lparr>q_name = ''a.b.'', q_type = TypeA\<rparr>]) = RcodeRefused"
  using Answer_authority [of plain_lib 0 "Some empty_zone" "[\<lparr>q_name = ''a.b.'', q_type = TypeA\<rparr>]"]
  by (simp add: empty_zone_def)

end
