(* ===== verification/Pipe.thy ===== *)
theory Pipe
  imports Prelude
begin

text \<open>
  internal/pipe: Join copies between two connections with two goroutines.  The model is a step
  relation: each step is one goroutine moving some bytes, meeting the end of its source, or
  meeting an error; the steps of the two interleave in any order.

  An end is one of the two connections seen from Join: the bytes its peer will still send, what
  Join has written to it, and how far it is closed.
\<close>

section \<open>The state of Join\<close>

text \<open>unwrap strips the wrappers (PrefixConn, addrConn) that hide the real connection.\<close>

datatype conn = TCPConn nat | TLSConn nat | OtherConn nat | Wrapped conn

fun unwrap :: "conn \<Rightarrow> conn" where
  "unwrap (Wrapped c) = unwrap c"
| "unwrap c = c"

text \<open>The connections that implement CloseWrite: TCP and TLS ones.\<close>

fun closeWriter :: "conn \<Rightarrow> bool" where
  "closeWriter (TCPConn i) = True"
| "closeWriter (TLSConn i) = True"
| "closeWriter _ = False"

text \<open>
  ep_ends: whether the peer will end its stream after these bytes (a silent peer keeps a reader
  waiting).  ep_broken: the connection failed, in the network or at the peer.
\<close>

record endpoint =
  ep_conn :: conn
  ep_inbox :: bytes
  ep_ends :: bool
  ep_sent :: bytes
  ep_write_closed :: bool
  ep_closed :: bool
  ep_broken :: bool

datatype side = A | B

fun other :: "side \<Rightarrow> side" where
  "other A = B"
| "other B = A"

text \<open>
  copyAndClose(dst, src) is named after its source; a goroutine is done when it returned.
  j_failed: some goroutine met an error.
\<close>

record join_state =
  j_end :: "side \<Rightarrow> endpoint"
  j_done :: "side \<Rightarrow> bool"
  j_failed :: bool
  j_returned :: bool

definition set_end :: "side \<Rightarrow> endpoint \<Rightarrow> join_state \<Rightarrow> join_state" where
  "set_end x e s = s\<lparr>j_end := (j_end s)(x := e)\<rparr>"

definition finish :: "side \<Rightarrow> join_state \<Rightarrow> join_state" where
  "finish x s = s\<lparr>j_done := (j_done s)(x := True)\<rparr>"

text \<open>What happens to dst at the end of src: a half close, or a full one.\<close>

definition at_eof :: "endpoint \<Rightarrow> endpoint" where
  "at_eof e = (if closeWriter (unwrap (ep_conn e)) then e\<lparr>ep_write_closed := True\<rparr>
               else e\<lparr>ep_write_closed := True, ep_closed := True\<rparr>)"

definition close_end :: "endpoint \<Rightarrow> endpoint" where
  "close_end e = e\<lparr>ep_write_closed := True, ep_closed := True\<rparr>"

text \<open>The two errors of io.Copy: of a read, and of a write, which needs something to write.\<close>

definition read_fails :: "endpoint \<Rightarrow> bool" where
  "read_fails e \<longleftrightarrow> ep_closed e \<or> ep_broken e"

definition write_fails :: "endpoint \<Rightarrow> bool" where
  "write_fails e \<longleftrightarrow> ep_closed e \<or> ep_write_closed e \<or> ep_broken e"

text \<open>One step of Join: io.Copy moves some bytes, sees the end of its source, or fails; or both are done.\<close>

inductive join_step :: "join_state \<Rightarrow> join_state \<Rightarrow> bool" where
  copy: "\<not> j_done s x \<Longrightarrow> \<not> read_fails (j_end s x) \<Longrightarrow> \<not> write_fails (j_end s (other x)) \<Longrightarrow>
    ep_inbox (j_end s x) = bs @ rest \<Longrightarrow> bs \<noteq> [] \<Longrightarrow>
    join_step s (set_end (other x) ((j_end s (other x))\<lparr>ep_sent := ep_sent (j_end s (other x)) @ bs\<rparr>)
      (set_end x ((j_end s x)\<lparr>ep_inbox := rest\<rparr>) s))"
| eof: "\<not> j_done s x \<Longrightarrow> \<not> read_fails (j_end s x) \<Longrightarrow> ep_inbox (j_end s x) = [] \<Longrightarrow> ep_ends (j_end s x) \<Longrightarrow>
    join_step s (finish x (set_end (other x) (at_eof (j_end s (other x))) s))"
| error: "\<not> j_done s x \<Longrightarrow> read_fails (j_end s x) \<or> ep_inbox (j_end s x) \<noteq> [] \<and> write_fails (j_end s (other x)) \<Longrightarrow>
    join_step s (finish x (set_end x (close_end (j_end s x))
      (set_end (other x) (close_end (j_end s (other x))) s))\<lparr>j_failed := True\<rparr>)"
| return: "j_done s A \<Longrightarrow> j_done s B \<Longrightarrow> \<not> j_returned s \<Longrightarrow>
    join_step s (set_end A (close_end (j_end s A)) (set_end B (close_end (j_end s B)) s)\<lparr>j_returned := True\<rparr>)"

inductive_cases join_stepE: "join_step s s'"

text \<open>Outside Join: a connection breaks.\<close>

inductive net_step :: "join_state \<Rightarrow> join_state \<Rightarrow> bool" where
  broken: "\<not> ep_broken (j_end s x) \<Longrightarrow> net_step s (set_end x ((j_end s x)\<lparr>ep_broken := True\<rparr>) s)"

definition pipe_step :: "join_state \<Rightarrow> join_state \<Rightarrow> bool" where
  "pipe_step s s' \<longleftrightarrow> join_step s s' \<or> net_step s s'"

definition fresh_end :: "conn \<Rightarrow> bytes \<Rightarrow> bool \<Rightarrow> endpoint" where
  "fresh_end c stream ends = \<lparr>ep_conn = c, ep_inbox = stream, ep_ends = ends, ep_sent = [], ep_write_closed = False,
     ep_closed = False, ep_broken = False\<rparr>"

definition Join_start :: "endpoint \<Rightarrow> endpoint \<Rightarrow> join_state" where
  "Join_start a b = \<lparr>j_end = (\<lambda>x. case x of A \<Rightarrow> a | B \<Rightarrow> b), j_done = (\<lambda>_. False), j_failed = False, j_returned = False\<rparr>"

text \<open>A goroutine that waits: its peer is alive and silent.\<close>

definition waiting :: "join_state \<Rightarrow> side \<Rightarrow> bool" where
  "waiting s x \<longleftrightarrow> \<not> j_done s x \<and> \<not> read_fails (j_end s x) \<and> ep_inbox (j_end s x) = [] \<and> \<not> ep_ends (j_end s x)"

section \<open>Facts\<close>

lemma other_other [simp]: "other (other x) = x" "other x \<noteq> x" "x \<noteq> other x"
  by (cases x; simp)+

lemma all_side: "(\<forall>x. P x) \<longleftrightarrow> P A \<and> P B"
  by (metis side.exhaust)

lemma ex_side: "(\<exists>x. P x) \<longleftrightarrow> P A \<or> P B"
  by (metis side.exhaust)

lemma set_end_simps [simp]:
  "j_end (set_end x e s) = (j_end s)(x := e)" "j_done (set_end x e s) = j_done s"
  "j_failed (set_end x e s) = j_failed s" "j_returned (set_end x e s) = j_returned s"
  by (simp_all add: set_end_def)

lemma finish_simps [simp]:
  "j_end (finish x s) = j_end s" "j_done (finish x s) = (j_done s)(x := True)"
  "j_failed (finish x s) = j_failed s" "j_returned (finish x s) = j_returned s"
  by (simp_all add: finish_def)

lemma at_eof_simps [simp]:
  "ep_conn (at_eof e) = ep_conn e" "ep_inbox (at_eof e) = ep_inbox e" "ep_sent (at_eof e) = ep_sent e"
  "ep_ends (at_eof e) = ep_ends e" "ep_broken (at_eof e) = ep_broken e"
  "ep_write_closed (at_eof e)" "ep_closed (at_eof e) \<longleftrightarrow> ep_closed e \<or> \<not> closeWriter (unwrap (ep_conn e))"
  by (simp_all add: at_eof_def)

lemma close_end_simps [simp]:
  "ep_conn (close_end e) = ep_conn e" "ep_inbox (close_end e) = ep_inbox e" "ep_sent (close_end e) = ep_sent e"
  "ep_ends (close_end e) = ep_ends e" "ep_broken (close_end e) = ep_broken e"
  "ep_write_closed (close_end e)" "ep_closed (close_end e)"
  by (simp_all add: close_end_def)

lemmas fails_defs = read_fails_def write_fails_def

text \<open>
  The invariant.  Nothing is lost or reordered: what was sent to one end and what is still to
  come from the other make the other's stream.  After an error both ends are closed, and so they
  are at the return.  An end is written to until the goroutine that writes to it is done.
\<close>

definition join_inv :: "endpoint \<Rightarrow> endpoint \<Rightarrow> join_state \<Rightarrow> bool" where
  "join_inv a b s \<longleftrightarrow>
     ep_sent (j_end s B) @ ep_inbox (j_end s A) = ep_inbox a \<and> ep_sent (j_end s A) @ ep_inbox (j_end s B) = ep_inbox b \<and>
     ep_conn (j_end s A) = ep_conn a \<and> ep_conn (j_end s B) = ep_conn b \<and>
     ep_ends (j_end s A) = ep_ends a \<and> ep_ends (j_end s B) = ep_ends b \<and>
     (j_failed s \<or> j_returned s \<longrightarrow> (\<forall>x. ep_closed (j_end s x))) \<and> (j_returned s \<longrightarrow> (\<forall>x. j_done s x)) \<and>
     (\<forall>x. \<not> j_failed s \<longrightarrow> ep_write_closed (j_end s x) \<or> ep_closed (j_end s x) \<longrightarrow> j_done s (other x))"

text \<open>
  While no connection is broken, a goroutine that is done has copied everything, unless its source
  cannot half-close and the other goroutine, done with all of its own, closed it.
\<close>

definition copied :: "join_state \<Rightarrow> side \<Rightarrow> bool" where
  "copied s x \<longleftrightarrow> j_done s x \<and> ep_inbox (j_end s x) = []"

definition sound_inv :: "join_state \<Rightarrow> bool" where
  "sound_inv s \<longleftrightarrow> (\<exists>x. ep_broken (j_end s x)) \<or>
     (\<forall>x. (j_done s x \<longrightarrow> copied s x \<or> \<not> closeWriter (unwrap (ep_conn (j_end s x))) \<and> copied s (other x)) \<and>
       (ep_closed (j_end s x) \<longrightarrow> \<not> j_done s x \<longrightarrow> \<not> closeWriter (unwrap (ep_conn (j_end s x))) \<and> copied s (other x)) \<and>
       (ep_write_closed (j_end s x) \<or> ep_closed (j_end s x) \<longrightarrow> j_done s (other x)))"

definition ready :: "endpoint \<Rightarrow> bool" where
  "ready e \<longleftrightarrow> ep_sent e = [] \<and> \<not> ep_write_closed e \<and> \<not> ep_closed e \<and> \<not> ep_broken e"

lemma join_inv_start: "ready a \<Longrightarrow> ready b \<Longrightarrow> join_inv a b (Join_start a b) \<and> sound_inv (Join_start a b)"
  by (simp add: join_inv_def sound_inv_def ready_def Join_start_def all_side)

lemma join_inv_step:
  assumes "pipe_step s s'" and "join_inv a b s"
  shows "join_inv a b s'"
  using assms(1) unfolding pipe_step_def
proof
  assume "join_step s s'"
  then show ?thesis
  proof cases
    case (copy x bs rest)
    then show ?thesis using assms(2) by (cases x) (auto simp: join_inv_def all_side)
  next
    case (eof x)
    then show ?thesis using assms(2) by (cases x) (auto simp: join_inv_def all_side fails_defs)
  next
    case (error x)
    then show ?thesis using assms(2) by (cases x) (auto simp: join_inv_def all_side)
  next
    case return
    then show ?thesis using assms(2) by (auto simp: join_inv_def all_side)
  qed
next
  assume "net_step s s'"
  then show ?thesis
  proof cases
    case (broken x)
    then show ?thesis using assms(2) by (cases x) (auto simp: join_inv_def all_side)
  qed
qed

lemma sound_inv_step:
  assumes "pipe_step s s'" and "sound_inv s"
  shows "sound_inv s'"
  using assms(1) unfolding pipe_step_def
proof
  assume "join_step s s'"
  then show ?thesis
  proof cases
    case (copy x bs rest)
    then show ?thesis using assms(2) by (cases x) (auto simp: sound_inv_def all_side ex_side copied_def fails_defs)
  next
    case (eof x)
    then show ?thesis using assms(2) by (cases x) (auto simp: sound_inv_def all_side ex_side copied_def fails_defs)
  next
    case (error x)
    then show ?thesis using assms(2) by (cases x) (auto simp: sound_inv_def all_side ex_side copied_def fails_defs)
  next
    case return
    then show ?thesis using assms(2) by (auto simp: sound_inv_def all_side ex_side copied_def)
  qed
next
  assume "net_step s s'"
  then show ?thesis by cases (auto simp: sound_inv_def)
qed

lemma join_run:
  assumes "pipe_step\<^sup>*\<^sup>* (Join_start a b) s" and "ready a" and "ready b"
  shows "join_inv a b s \<and> sound_inv s"
  using assms(1)
  by (induction rule: rtranclp_induct) (use join_inv_start [OF assms(2,3)] join_inv_step sound_inv_step in blast)+

text \<open>What is left to do shrinks with each step.\<close>

definition join_work :: "join_state \<Rightarrow> nat" where
  "join_work s = length (ep_inbox (j_end s A)) + length (ep_inbox (j_end s B)) +
     of_bool (\<not> j_done s A) + of_bool (\<not> j_done s B) + of_bool (\<not> j_returned s) +
     of_bool (\<not> ep_broken (j_end s A)) + of_bool (\<not> ep_broken (j_end s B))"

lemma pipe_step_work: "pipe_step s s' \<Longrightarrow> join_work s' < join_work s"
  unfolding pipe_step_def
proof (elim disjE)
  assume "join_step s s'"
  then show ?thesis
  proof cases
    case (copy x bs rest)
    then show ?thesis by (cases x) (auto simp: join_work_def)
  next
    case (eof x)
    then show ?thesis by (cases x) (auto simp: join_work_def)
  next
    case (error x)
    then show ?thesis by (cases x) (auto simp: join_work_def)
  next
    case return
    then show ?thesis by (auto simp: join_work_def)
  qed
next
  assume "net_step s s'"
  then show ?thesis
  proof cases
    case (broken x)
    then show ?thesis by (cases x) (auto simp: join_work_def)
  qed
qed

lemma pipe_relpow_work: "(pipe_step ^^ n) s s' \<Longrightarrow> n + join_work s' \<le> join_work s"
proof (induction n arbitrary: s')
  case (Suc n)
  then obtain u where "(pipe_step ^^ n) s u" "pipe_step u s'" by auto
  with Suc.IH [of u] pipe_step_work [of u s'] show ?case by simp
qed simp

text \<open>Join can move unless it has returned or a goroutine waits for a silent peer.\<close>

lemma goroutine_moves:
  assumes "\<not> j_done s x"
  shows "waiting s x \<or> (\<exists>s'. join_step s s')"
proof (cases "ep_inbox (j_end s x)")
  case Nil
  then show ?thesis using assms join_step.eof [of s x] join_step.error [of s x] by (auto simp: waiting_def)
next
  case (Cons c cs)
  then show ?thesis using assms join_step.copy [of s x "[c]" cs] join_step.error [of s x] by fastforce
qed

lemma join_stuck:
  assumes "join_inv a b s" and "\<nexists>s'. join_step s s'"
  shows "j_returned s \<or> \<not> j_failed s \<and> (\<exists>x. waiting s x)"
proof (cases "j_returned s")
  case False
  then obtain x where "\<not> j_done s x" using assms(2) join_step.return [of s] by blast
  then have w: "waiting s x" using goroutine_moves assms(2) by blast
  then have "\<not> j_failed s" using assms(1) by (auto simp: join_inv_def waiting_def fails_defs)
  with w show ?thesis by blast
qed simp

lemma join_reaches_return:
  assumes "join_inv a b s" and "ep_ends a" and "ep_ends b"
  shows "\<exists>s'. join_step\<^sup>*\<^sup>* s s' \<and> j_returned s'"
  using assms(1)
proof (induction "join_work s" arbitrary: s rule: less_induct)
  case less
  show ?case
  proof (cases "\<exists>u. join_step s u")
    case True
    then obtain u where u: "join_step s u" by blast
    then have p: "pipe_step s u" by (simp add: pipe_step_def)
    from less.hyps [OF pipe_step_work [OF p] join_inv_step [OF p less.prems]] u show ?thesis
      by (blast intro: converse_rtranclp_into_rtranclp)
  next
    case False
    have "\<not> waiting s x" for x using less.prems assms(2,3) by (cases x) (auto simp: join_inv_def waiting_def)
    then have "j_returned s" using join_stuck [OF less.prems False] by blast
    then show ?thesis by blast
  qed
qed

section \<open>Properties\<close>

text \<open>
  C25: Whatever the order in which the two goroutines run and whatever breaks, what Join has
  delivered to each end is always a prefix of what the other end sent.  When Join returned and no
  connection broke, one direction at least is complete, and so is the stream of every end that can
  be half-closed: passing the end of one direction on does not cut the other.
\<close>
theorem Join_delivers:
  assumes "pipe_step\<^sup>*\<^sup>* (Join_start a b) s" and "ready a" and "ready b"
  shows "(\<exists>rest. ep_inbox a = ep_sent (j_end s B) @ rest) \<and> (\<exists>rest. ep_inbox b = ep_sent (j_end s A) @ rest) \<and>
    (j_returned s \<and> \<not> ep_broken (j_end s A) \<and> \<not> ep_broken (j_end s B) \<longrightarrow>
       (ep_sent (j_end s B) = ep_inbox a \<or> ep_sent (j_end s A) = ep_inbox b) \<and>
       (closeWriter (unwrap (ep_conn a)) \<longrightarrow> ep_sent (j_end s B) = ep_inbox a) \<and>
       (closeWriter (unwrap (ep_conn b)) \<longrightarrow> ep_sent (j_end s A) = ep_inbox b))"
proof -
  have inv: "join_inv a b s" "sound_inv s" using join_run [OF assms] by simp_all
  then have stream: "ep_sent (j_end s B) @ ep_inbox (j_end s A) = ep_inbox a" "ep_sent (j_end s A) @ ep_inbox (j_end s B) = ep_inbox b"
    "ep_conn (j_end s A) = ep_conn a" "ep_conn (j_end s B) = ep_conn b"
    by (simp_all add: join_inv_def)
  have "(ep_inbox (j_end s A) = [] \<or> ep_inbox (j_end s B) = []) \<and>
      (closeWriter (unwrap (ep_conn a)) \<longrightarrow> ep_inbox (j_end s A) = []) \<and> (closeWriter (unwrap (ep_conn b)) \<longrightarrow> ep_inbox (j_end s B) = [])"
    if "j_returned s" "\<not> ep_broken (j_end s A)" "\<not> ep_broken (j_end s B)"
    using inv that stream(3,4) by (auto simp: join_inv_def sound_inv_def all_side ex_side copied_def)
  moreover have "\<exists>rest. ep_inbox a = ep_sent (j_end s B) @ rest" "\<exists>rest. ep_inbox b = ep_sent (j_end s A) @ rest"
    using stream(1,2) by metis+
  ultimately show ?thesis using stream(1,2) by auto
qed

text \<open>
  C26: Join ends.  No run has more steps than the bytes both sides will send plus five, whatever
  breaks.  When Join has returned, both goroutines are done and both connections closed.  Where it
  can make no step it has returned, or no goroutine met an error and one waits for a peer that is
  alive and silent: an error on one side never leaves the other hanging.  And if both peers end
  their streams it can always still get to its return.
\<close>
theorem Join_terminates:
  assumes "(pipe_step ^^ n) (Join_start a b) s" and "ready a" and "ready b"
  shows "n \<le> length (ep_inbox a) + length (ep_inbox b) + 5 \<and>
    (j_returned s \<longrightarrow> (\<forall>x. j_done s x \<and> ep_closed (j_end s x))) \<and>
    ((\<nexists>s'. join_step s s') \<longrightarrow> j_returned s \<or> \<not> j_failed s \<and> (\<exists>x. waiting s x)) \<and>
    (ep_ends a \<and> ep_ends b \<longrightarrow> (\<exists>s'. join_step\<^sup>*\<^sup>* s s' \<and> j_returned s'))"
proof -
  have "join_work (Join_start a b) \<le> length (ep_inbox a) + length (ep_inbox b) + 5"
    by (simp add: join_work_def Join_start_def)
  then have "n \<le> length (ep_inbox a) + length (ep_inbox b) + 5" using pipe_relpow_work [OF assms(1)] by simp
  moreover have inv: "join_inv a b s" using join_run [OF relpowp_imp_rtranclp [OF assms(1)] assms(2,3)] by simp
  moreover have "j_returned s \<longrightarrow> (\<forall>x. j_done s x \<and> ep_closed (j_end s x))" using inv by (simp add: join_inv_def)
  ultimately show ?thesis using join_stuck join_reaches_return by blast
qed

text \<open>The half close works: while no connection broke, an end with CloseWrite stays open until Join returns.\<close>

lemma Join_half_close:
  assumes "pipe_step\<^sup>*\<^sup>* (Join_start a b) s" and "ready a" and "ready b"
    and "\<not> ep_broken (j_end s A)" and "\<not> ep_broken (j_end s B)" and "\<not> j_done s x"
    and "closeWriter (unwrap (ep_conn (j_end s x)))"
  shows "\<not> ep_closed (j_end s x)"
  using join_run [OF assms(1-3)] assms(4-7) by (auto simp: sound_inv_def ex_side)

text \<open>
  A client sends a request and ends its stream; the server answers: both through TCP connections.
\<close>

definition client_end :: endpoint where "client_end = fresh_end (TCPConn 0) [1] True"
definition server_end :: endpoint where "server_end = fresh_end (Wrapped (TCPConn 1)) [2] True"

lemma example_ready: "ready client_end" "ready server_end"
  by (simp_all add: ready_def client_end_def server_end_def fresh_end_def)

lemma join_step_keeps_net: "join_step s s' \<Longrightarrow> ep_broken (j_end s' x) = ep_broken (j_end s x)"
  by (induction rule: join_step.induct) auto

lemma join_steps_keep_net: "join_step\<^sup>*\<^sup>* s s' \<Longrightarrow> ep_broken (j_end s' x) = ep_broken (j_end s x)"
  by (induction rule: rtranclp_induct) (auto dest: join_step_keeps_net)

lemma join_steps_pipe: "join_step\<^sup>*\<^sup>* s s' \<Longrightarrow> pipe_step\<^sup>*\<^sup>* s s'"
  by (rule rtranclp_mono [THEN predicate2D, rotated], assumption) (auto simp: pipe_step_def)

lemma example_join: "\<exists>s. join_step\<^sup>*\<^sup>* (Join_start client_end server_end) s \<and> j_returned s"
  using join_reaches_return [of client_end server_end] join_inv_start [OF example_ready]
  by (auto simp: client_end_def server_end_def fresh_end_def)

theorem Join_delivers_witness:
  "\<exists>s. pipe_step\<^sup>*\<^sup>* (Join_start client_end server_end) s \<and> j_returned s \<and> ep_sent (j_end s B) = [1] \<and> ep_sent (j_end s A) = [2]"
proof -
  obtain s where s: "join_step\<^sup>*\<^sup>* (Join_start client_end server_end) s" "j_returned s" using example_join by blast
  have "\<not> ep_broken (j_end s A)" "\<not> ep_broken (j_end s B)"
    using join_steps_keep_net [OF s(1)] by (simp_all add: Join_start_def client_end_def server_end_def fresh_end_def)
  with Join_delivers [OF join_steps_pipe [OF s(1)] example_ready] s show ?thesis
    by (intro exI [of _ s]) (simp add: join_steps_pipe client_end_def server_end_def fresh_end_def)
qed

theorem Join_terminates_witness:
  "\<exists>s. join_step\<^sup>*\<^sup>* (Join_start client_end server_end) s \<and> j_returned s"
  using Join_terminates [of 0, OF _ example_ready] by (auto simp: client_end_def server_end_def fresh_end_def)

end
