(* ===== verification/Relay_Node.thy ===== *)
theory Relay_Node
  imports Sni Proxy_Proto Wg_Net Store_Config Api_Client Dns_Server
begin

text \<open>
  internal/node: the data plane.  A node keeps the WireGuard peers, the table of routes and the
  zone of its DNS server; the long-poll loop (syncLoop) replaces them from the configuration
  the control plane sends (apply), and each incoming connection is handled on its own
  (handleTLS, the HTTP redirector).

  Go ranges over maps in any order: the orders are arguments (ne_peer_order, ne_name_order), as
  is the device.  What the network answers (the replies of the API, whether a dial succeeds) is
  an argument of the operation that asks.
\<close>

section \<open>State\<close>

definition AgentPort :: "16 word" where
  "AgentPort = 443"

record node_config =
  ncf_api_url :: string
  ncf_token :: string
  ncf_wg_port :: int
  ncf_https_listen :: string
  ncf_http_listen :: string
  ncf_dns_listen :: string
  ncf_local_routes :: "string \<rightharpoonup> string"

record 'dev node_state =
  ns_net :: "'dev Net"
  ns_routes :: "string \<rightharpoonup> addr"
  ns_dns :: dns_server

record 'dev node_env =
  ne_ipc :: "ipc_line list \<Rightarrow> 'dev \<Rightarrow> 'dev option"
  ne_lib :: dns_lib
  ne_peer_order :: "(Key \<rightharpoonup> Peer) \<Rightarrow> Key list"
  ne_name_order :: "(string \<rightharpoonup> string list) \<Rightarrow> string list"

definition orders_ok :: "'dev node_env \<Rightarrow> bool" where
  "orders_ok env \<longleftrightarrow> (\<forall>m. finite (dom m) \<longrightarrow> set (ne_peer_order env m) = dom m) \<and>
     (\<forall>m. finite (dom m) \<longrightarrow> set (ne_name_order env m) = dom m)"

section \<open>Applying a configuration\<close>

fun apply_peers :: "proto_Peer list \<Rightarrow> Peer list option" where
  "apply_peers [] = Some []"
| "apply_peers (p # ps) =
     (case ParseKey (pp_public_key p) of
        None \<Rightarrow> None
      | Some key \<Rightarrow>
          (case ParseAddr (pp_vpn_ip p) of
             None \<Rightarrow> None
           | Some ip \<Rightarrow>
               map_option (\<lambda>rest. \<lparr>peer_key = key, peer_allowed = PrefixFrom ip 32, peer_endpoint = addr_port_zero,
                 peer_keepalive = 0\<rparr> # rest) (apply_peers ps)))"

fun apply_routes :: "proto_Route list \<Rightarrow> (string \<rightharpoonup> addr) \<Rightarrow> (string \<rightharpoonup> addr) option" where
  "apply_routes [] m = Some m"
| "apply_routes (r # rs) m =
     (case ParseAddr (rt_vpn_ip r) of
        None \<Rightarrow> None
      | Some ip \<Rightarrow> apply_routes rs (m(to_lower (rt_hostname r) \<mapsto> ip)))"

definition node_dnsChallenges :: "DNSTXT list \<Rightarrow> string \<rightharpoonup> string list" where
  "node_dnsChallenges txt =
     foldl (\<lambda>m c. m(txt_fqdn c \<mapsto> (case m (txt_fqdn c) of Some vs \<Rightarrow> vs | None \<Rightarrow> []) @ [txt_value c])) Map.empty txt"

definition zone_of :: "DNSZone \<Rightarrow> Zone" where
  "zone_of d = \<lparr>z_name = dz_zone d, z_ns_names = dz_ns_names d, z_soa_email = dz_soa_email d, z_edge = dz_edge d,
     z_challenges = node_dnsChallenges (dz_challenges d)\<rparr>"

definition apply_config :: "'dev node_env \<Rightarrow> NodeConfig \<Rightarrow> 'dev node_state \<Rightarrow> bool \<times> 'dev node_state" where
  "apply_config env cfg s =
     (case apply_peers (nc_peers cfg) of
        None \<Rightarrow> (False, s)
      | Some peers \<Rightarrow>
          (case apply_routes (nc_routes cfg) Map.empty of
             None \<Rightarrow> (False, s)
           | Some routes \<Rightarrow>
               (case SetPeers (ne_ipc env) (ne_peer_order env (net_peers (ns_net s))) (ne_peer_order env (want_of peers))
                       peers (ns_net s) of
                  (False, n) \<Rightarrow> (False, s\<lparr>ns_net := n\<rparr>)
                | (True, n) \<Rightarrow>
                    (True, s\<lparr>ns_net := n, ns_routes := routes,
                       ns_dns := (case nc_dns cfg of
                          None \<Rightarrow> ns_dns s
                        | Some d \<Rightarrow> SetZone (ne_lib env) (ne_name_order env (z_challenges (zone_of d))) (zone_of d) (ns_dns s))\<rparr>))))"

section \<open>The loops against the control plane\<close>

text \<open>
  hello: the replies to the attempts in turn, and the time waited before each new attempt.
  While the replies last without an answer that ends it, the node keeps trying.
\<close>

datatype hello_result = HelloOk NodeHelloResponse | HelloRejected | HelloRetrying duration

fun hello :: "duration \<Rightarrow> NodeHelloResponse http_reply option list \<Rightarrow> hello_result \<times> duration list" where
  "hello backoff [] = (HelloRetrying backoff, [])"
| "hello backoff (reply # replies) =
     (case Do reply of
        Inr resp \<Rightarrow> (HelloOk resp, [])
      | Inl e \<Rightarrow>
          if Code e = proto_ErrUnauthorized then (HelloRejected, [])
          else (case hello (min (backoff * 2) (30 * second)) replies of (r, ws) \<Rightarrow> (r, backoff # ws)))"

text \<open>One turn of syncLoop: the version it knows, the pause it makes, or the end of the loop.\<close>

datatype 'dev sync_result = SyncRejected | SyncNext string duration "'dev node_state"

definition sync_path :: "string \<Rightarrow> string" where
  "sync_path version = ''/v1/node/config?since='' @ version"

definition sync_turn :: "'dev node_env \<Rightarrow> NodeConfig http_reply option \<Rightarrow> string \<Rightarrow> 'dev node_state \<Rightarrow> 'dev sync_result" where
  "sync_turn env reply version s =
     (case Do reply of
        Inl e \<Rightarrow>
          if e = ErrNotModified then SyncNext version 0 s
          else if Code e = proto_ErrUnauthorized then SyncRejected
          else SyncNext version (3 * second) s
      | Inr cfg \<Rightarrow>
          (case apply_config env cfg s of
             (False, s') \<Rightarrow> SyncNext version (3 * second) s'
           | (True, s') \<Rightarrow> SyncNext (nc_version cfg) 0 s'))"

fun syncLoop :: "'dev node_env \<Rightarrow> NodeConfig http_reply option list \<Rightarrow> string \<Rightarrow> 'dev node_state \<Rightarrow> 'dev sync_result" where
  "syncLoop env [] version s = SyncNext version 0 s"
| "syncLoop env (reply # replies) version s =
     (case sync_turn env reply version s of
        SyncRejected \<Rightarrow> SyncRejected
      | SyncNext v wait s' \<Rightarrow> syncLoop env replies v s')"

section \<open>Connections\<close>

text \<open>
  What becomes of a TLS connection: it is cut, joined to a local target, or joined to an agent
  after the PROXY header was written to it.
\<close>

datatype tls_outcome =
    TLSClosed
  | JoinedLocal string prefix_conn
  | JoinedAgent addr_port bytes prefix_conn

definition handleTLS ::
  "node_config \<Rightarrow> (bytes \<Rightarrow> nat \<times> string option) \<Rightarrow> (string \<Rightarrow> bool) \<Rightarrow> (addr_port \<Rightarrow> bool) \<Rightarrow> bool \<Rightarrow>
   addr_port \<Rightarrow> addr_port \<Rightarrow> bytes \<Rightarrow> 'dev node_state \<Rightarrow> tls_outcome" where
  "handleTLS cfg hel dialTCP dialWG writeOk remote local conn s =
     (case Peek hel conn of
        Inl e \<Rightarrow> TLSClosed
      | Inr (host, c) \<Rightarrow>
          (case Match (ncf_local_routes cfg) host of
             Some target \<Rightarrow> if dialTCP target then JoinedLocal target c else TLSClosed
           | None \<Rightarrow>
               (case Match (ns_routes s) host of
                  None \<Rightarrow> TLSClosed
                | Some ip \<Rightarrow>
                    let dst = \<lparr>ap_addr = ip, ap_port = AgentPort\<rparr>
                    in if \<not> dialWG dst then TLSClosed
                       else if \<not> writeOk then TLSClosed
                       else JoinedAgent dst (Header remote local) c)))"

text \<open>The redirector: None is a connection cut without an answer.\<close>

definition redirect_host :: "string \<Rightarrow> string" where
  "redirect_host h =
     (let host = to_lower h in case SplitHostPort host of Some (h', port) \<Rightarrow> h' | None \<Rightarrow> host)"

definition serveHTTP :: "node_config \<Rightarrow> 'dev node_state \<Rightarrow> string \<Rightarrow> string \<Rightarrow> (nat \<times> string) option" where
  "serveHTTP cfg s reqHost uri =
     (let host = redirect_host reqHost
      in if Match (ncf_local_routes cfg) host = None \<and> Match (ns_routes s) host = None then None
         else Some (308, ''https://'' @ host @ uri))"

text \<open>
  ParseLocalRoutes reads lines with a bufio.Scanner, which stops without an error the code
  looks at when a line is too long for its buffer.
\<close>

definition maxScanLine :: nat where
  "maxScanLine = 65535"

fun local_lines :: "string list \<Rightarrow> (string \<rightharpoonup> string) \<Rightarrow> (string \<rightharpoonup> string) option" where
  "local_lines [] m = Some m"
| "local_lines (l # ls) m =
     (if maxScanLine < length l then Some m
      else
        let line = trim_space l
        in if line = [] then local_lines ls m
           else case cut line CHR ''='' of
                  None \<Rightarrow> None
                | Some (host, target) \<Rightarrow> local_lines ls (m(to_lower (trim_space host) \<mapsto> trim_space target)))"

definition ParseLocalRoutes :: "string \<Rightarrow> (string \<rightharpoonup> string) option" where
  "ParseLocalRoutes s = local_lines (split_on CHR 0x0A (replace_byte s CHR '','' [CHR 0x0A])) Map.empty"

section \<open>Facts\<close>

lemma apply_failed_routes:
  assumes "apply_config env cfg s = (False, s')"
  shows "ns_routes s' = ns_routes s" "ns_dns s' = ns_dns s" "net_peers (ns_net s') = net_peers (ns_net s)"
    "net_dev (ns_net s') = net_dev (ns_net s)"
  using assms
  by (auto simp: apply_config_def SetPeers_def Let_def split: option.splits prod.splits bool.splits if_splits)

text \<open>The table of routes of a list of routes with pairwise different names.\<close>

lemma apply_routes_map_of:
  assumes "apply_routes rs m = Some t"
  shows "\<exists>kvs. t = m ++ map_of (rev kvs) \<and> map fst kvs = map (\<lambda>r. to_lower (rt_hostname r)) rs \<and>
    (\<forall>k a. (k, a) \<in> set kvs \<longleftrightarrow> (\<exists>r\<in>set rs. k = to_lower (rt_hostname r) \<and> ParseAddr (rt_vpn_ip r) = Some a))"
  using assms
proof (induction rs arbitrary: m)
  case (Cons r rs)
  then obtain ip where ip: "ParseAddr (rt_vpn_ip r) = Some ip"
    and t: "apply_routes rs (m(to_lower (rt_hostname r) \<mapsto> ip)) = Some t"
    by (auto split: option.splits)
  from Cons.IH [OF t] obtain kvs where k: "t = m(to_lower (rt_hostname r) \<mapsto> ip) ++ map_of (rev kvs)"
    "map fst kvs = map (\<lambda>r. to_lower (rt_hostname r)) rs"
    "\<forall>k a. (k, a) \<in> set kvs \<longleftrightarrow> (\<exists>r\<in>set rs. k = to_lower (rt_hostname r) \<and> ParseAddr (rt_vpn_ip r) = Some a)"
    by blast
  show ?case
    by (rule exI [of _ "(to_lower (rt_hostname r), ip) # kvs"])
      (use k ip in \<open>auto simp: map_add_def fun_eq_iff split: option.splits\<close>)
qed (auto intro: exI [of _ "[]"])

lemma apply_routes_iff:
  assumes "apply_routes rs Map.empty = Some t" and "distinct (map (\<lambda>r. to_lower (rt_hostname r)) rs)"
  shows "t k = Some a \<longleftrightarrow> (\<exists>r\<in>set rs. k = to_lower (rt_hostname r) \<and> ParseAddr (rt_vpn_ip r) = Some a)"
proof -
  from apply_routes_map_of [OF assms(1)] obtain kvs where k: "t = map_of (rev kvs)"
    "map fst kvs = map (\<lambda>r. to_lower (rt_hostname r)) rs"
    "\<forall>k a. (k, a) \<in> set kvs \<longleftrightarrow> (\<exists>r\<in>set rs. k = to_lower (rt_hostname r) \<and> ParseAddr (rt_vpn_ip r) = Some a)"
    by auto
  have "distinct (map fst (rev kvs))" using assms(2) unfolding rev_map [symmetric] distinct_rev k(2) .
  then have "t k = Some a \<longleftrightarrow> (k, a) \<in> set kvs" by (simp add: k(1))
  with k(3) show ?thesis by simp
qed

section \<open>Routes of the tunnels\<close>

lemma in_domain_same:
  assumes "in_domain (a @ base) h" and "in_domain (b @ base) h" and "length a = length b"
  shows "a = b"
proof -
  have "\<exists>u. h = u @ c @ base" if "in_domain (c @ base) h" for c
    using that unfolding in_domain_def by (metis append.assoc append_Cons append_Nil)
  then obtain u v where "h = u @ a @ base" "h = v @ b @ base" using assms by metis
  then have "u @ a = v @ b" by simp
  then show ?thesis using assms(3) by (auto dest: append_eq_suffixD)
qed

lemma to_lower_base32: "set sub \<subseteq> set base32_alphabet \<Longrightarrow> to_lower sub = sub"
proof -
  have "\<forall>c\<in>set base32_alphabet. \<not> is_upper c" by (simp add: base32_alphabet_def is_upper_def less_eq_char_def)
  then show "to_lower sub = sub" if "set sub \<subseteq> set base32_alphabet"
    using that by (intro to_lower_id) (unfold lowercase_def, blast)
qed

text \<open>A table that has, for some tunnels, exactly the domain and its wildcard.\<close>

definition tunnel_table :: "(string \<rightharpoonup> 'a) \<Rightarrow> (string \<times> 'w) set \<Rightarrow> ('w \<Rightarrow> 'a) \<Rightarrow> nat \<Rightarrow> string \<Rightarrow> bool" where
  "tunnel_table t rows f n base \<longleftrightarrow>
     (\<forall>k a. t k = Some a \<longleftrightarrow> (\<exists>(sub, w)\<in>rows. a = f w \<and> (k = sub @ base \<or> k = ''*.'' @ sub @ base))) \<and>
     (\<forall>(sub, w)\<in>rows. length sub = n \<and> CHR ''*'' \<notin> set sub) \<and>
     (\<forall>sub w w'. (sub, w) \<in> rows \<longrightarrow> (sub, w') \<in> rows \<longrightarrow> w = w') \<and> n \<noteq> 0"

lemma tunnel_tableD:
  assumes "tunnel_table t rows f n base"
  shows "t k = Some a \<Longrightarrow> \<exists>sub w. (sub, w) \<in> rows \<and> a = f w \<and> (k = sub @ base \<or> k = ''*.'' @ sub @ base)"
    and "(sub, w) \<in> rows \<Longrightarrow> t (sub @ base) = Some (f w)" and "(sub, w) \<in> rows \<Longrightarrow> t (''*.'' @ sub @ base) = Some (f w)"
    and "(sub, w) \<in> rows \<Longrightarrow> (sub', w') \<in> rows \<Longrightarrow> length sub = length sub'"
    and "(sub, w) \<in> rows \<Longrightarrow> ''*.'' @ q \<noteq> sub @ base"
    and "(sub, w) \<in> rows \<Longrightarrow> (sub, w') \<in> rows \<Longrightarrow> w = w'"
proof -
  have t: "t k = Some a \<longleftrightarrow> (\<exists>(sub, w)\<in>rows. a = f w \<and> (k = sub @ base \<or> k = ''*.'' @ sub @ base))" for k a
    using assms by (simp add: tunnel_table_def)
  show "t k = Some a \<Longrightarrow> \<exists>sub w. (sub, w) \<in> rows \<and> a = f w \<and> (k = sub @ base \<or> k = ''*.'' @ sub @ base)"
    unfolding t by blast
  show "(sub, w) \<in> rows \<Longrightarrow> t (sub @ base) = Some (f w)" "(sub, w) \<in> rows \<Longrightarrow> t (''*.'' @ sub @ base) = Some (f w)"
    unfolding t by blast+
  have subs: "length sub = n \<and> CHR ''*'' \<notin> set sub \<and> n \<noteq> 0" if "(sub, w) \<in> rows" for sub w
    using assms that by (auto simp: tunnel_table_def)
  show "(sub, w) \<in> rows \<Longrightarrow> (sub', w') \<in> rows \<Longrightarrow> length sub = length sub'" using subs by metis
  show "''*.'' @ q \<noteq> sub @ base" if "(sub, w) \<in> rows" using subs [OF that] by (cases sub) auto
  show "(sub, w) \<in> rows \<Longrightarrow> (sub, w') \<in> rows \<Longrightarrow> w = w'" using assms unfolding tunnel_table_def by blast
qed

lemma in_domain_below_star: "in_domain d (''*.'' @ d)"
  unfolding in_domain_def by (rule disjI2, rule exI [of _ "''*''"]) simp

lemma Match_tunnels_sound:
  assumes tab: "tunnel_table t rows f n base" and "Match t h = Some a"
  shows "\<exists>(sub, w)\<in>rows. a = f w \<and> in_domain (sub @ base) h"
  using assms(2)
proof (cases rule: sni.hit_cases)
  case 1
  then obtain sub w where "(sub, w) \<in> rows" "a = f w" "h = sub @ base \<or> h = ''*.'' @ sub @ base"
    using tunnel_tableD(1) [OF tab] by blast
  moreover from this(3) have "in_domain (sub @ base) h" using in_domain_below_star by (auto simp: in_domain_def)
  ultimately show ?thesis by blast
next
  case (2 u p)
  then obtain sub w where sw: "(sub, w) \<in> rows" "a = f w" "''*.'' @ p = sub @ base \<or> ''*.'' @ p = ''*.'' @ sub @ base"
    using tunnel_tableD(1) [OF tab] by blast
  then have "p = sub @ base" using tunnel_tableD(5) [OF tab] by blast
  then have "in_domain (sub @ base) h" using 2(1) by (auto simp: in_domain_def)
  with sw show ?thesis by blast
qed

text \<open>No pattern more specific than the domain of a tunnel covers a name below it.\<close>

lemma tunnel_table_no_deeper:
  assumes tab: "tunnel_table t rows f n base" and sw: "(sub, w) \<in> rows" and q: "length (sub @ base) < length q"
  shows "t (''*.'' @ q) = None"
proof (rule ccontr)
  assume "t (''*.'' @ q) \<noteq> None"
  then obtain sub' w' where s': "(sub', w') \<in> rows" "''*.'' @ q = sub' @ base \<or> ''*.'' @ q = ''*.'' @ sub' @ base"
    using tunnel_tableD(1) [OF tab] by blast
  then have "length q = length (sub @ base)" using tunnel_tableD(5) [OF tab s'(1)] tunnel_tableD(4) [OF tab s'(1) sw] by auto
  with q show False by simp
qed

lemma Match_tunnels_complete:
  assumes tab: "tunnel_table t rows f n base" and sw: "(sub, w) \<in> rows" and h: "in_domain (sub @ base) h"
  shows "Match t h = Some (f w)"
proof (cases "t h")
  case (Some b)
  then obtain sub' w' where s': "(sub', w') \<in> rows" "b = f w'" "h = sub' @ base \<or> h = ''*.'' @ sub' @ base"
    using tunnel_tableD(1) [OF tab] by blast
  then have "in_domain (sub' @ base) h" using in_domain_below_star by (auto simp: in_domain_def)
  then have "sub' = sub" using in_domain_same [OF _ h] tunnel_tableD(4) [OF tab s'(1) sw] by blast
  then have "b = f w" using tunnel_tableD(6) [OF tab] s' sw by blast
  with Some show ?thesis using sni.exact [of t h b] by simp
next
  case None
  then have "h \<noteq> sub @ base" using tunnel_tableD(2) [OF tab sw] by auto
  with h obtain u where u: "h = u @ CHR ''.'' # (sub @ base)" by (auto simp: in_domain_def)
  show ?thesis
    by (rule sni.wildcard [OF None u tunnel_tableD(3) [OF tab sw]]) (rule tunnel_table_no_deeper [OF tab sw])
qed

lemma Match_tunnels:
  assumes "tunnel_table t rows f n base"
  shows "Match t h = Some a \<longleftrightarrow> (\<exists>(sub, w)\<in>rows. a = f w \<and> in_domain (sub @ base) h)"
proof
  assume "\<exists>(sub, w)\<in>rows. a = f w \<and> in_domain (sub @ base) h"
  then obtain sub w where "(sub, w) \<in> rows" "a = f w" "in_domain (sub @ base) h" by blast
  then show "Match t h = Some a" using Match_tunnels_complete [OF assms] by simp
qed (rule Match_tunnels_sound [OF assms])

end
