(* ===== verification/Relay_Props.thy ===== *)
theory Relay_Props
  imports Relay_Node "HOL-Library.List_Lexorder"
begin

text \<open>
  What a node does with the configuration of the control plane: connections reach exactly the
  tunnel that owns the host name, with the bytes the visitor sent; a configuration it cannot
  apply changes nothing it routes by; its DNS answers with the challenges of the configuration;
  and its retries back off.
\<close>

section \<open>From the leases to the routes\<close>

lemma tunnel_domain_lower:
  "set sub \<subseteq> set base32_alphabet \<Longrightarrow> to_lower (tunnel_domain sub base) = sub @ CHR ''.'' # to_lower base"
  by (simp add: tunnel_domain_def to_lower_base32)

text \<open>The host names a node keeps of the routes of a configuration, and their addresses.\<close>

lemma config_routes_addr:
  "(\<exists>r\<in>set (config_routes base rows). k = to_lower (rt_hostname r) \<and> ParseAddr (rt_vpn_ip r) = Some a) \<longleftrightarrow>
   (\<exists>sub w key. (sub, w, key) \<in> set rows \<and> a = Addr4 w \<and>
      (k = to_lower (tunnel_domain sub base) \<or> k = to_lower (''*.'' @ tunnel_domain sub base)))" (is "?l \<longleftrightarrow> ?r")
proof
  assume ?l
  then obtain h ip where "\<lparr>rt_hostname = h, rt_vpn_ip = ip\<rparr> \<in> set (config_routes base rows)" "k = to_lower h" "ParseAddr ip = Some a"
    by (metis proto_Route.cases proto_Route.select_convs(1,2))
  moreover from this(1) obtain sub w key where "(sub, w, key) \<in> set rows" "ip = ip4_string w"
    "h = tunnel_domain sub base \<or> h = ''*.'' @ tunnel_domain sub base" unfolding config_routes_set by blast
  ultimately show ?r using ParseAddr_ip4_string [of w] by (metis option.inject)
next
  assume ?r
  then obtain sub w key where r: "(sub, w, key) \<in> set rows" "a = Addr4 w"
    "k = to_lower (tunnel_domain sub base) \<or> k = to_lower (''*.'' @ tunnel_domain sub base)" by blast
  then obtain h where "h = tunnel_domain sub base \<or> h = ''*.'' @ tunnel_domain sub base" "k = to_lower h" by blast
  moreover from this(1) r(1) have "\<lparr>rt_hostname = h, rt_vpn_ip = ip4_string w\<rparr> \<in> set (config_routes base rows)"
    unfolding config_routes_set by blast
  ultimately show ?l using r(2) ParseAddr_ip4_string [of w] by (metis proto_Route.select_convs(1,2))
qed

lemma config_routes_lower:
  assumes "\<And>sub w key. (sub, w, key) \<in> set rows \<Longrightarrow> set sub \<subseteq> set base32_alphabet"
  shows "map (\<lambda>r. to_lower (rt_hostname r)) (config_routes base rows) = map rt_hostname (config_routes (to_lower base) rows)"
  using assms
proof (induction rows)
  case (Cons x rows)
  obtain sub w key where x: "x = (sub, w, key)" by (cases x)
  have "to_lower sub = sub" using Cons.prems [of sub w key] x by (simp add: to_lower_base32)
  moreover have "map (\<lambda>r. to_lower (rt_hostname r)) (config_routes base rows) = map rt_hostname (config_routes (to_lower base) rows)"
    by (rule Cons.IH) (rule Cons.prems [OF list.set_intros(2)])
  ultimately show ?case by (simp add: x config_routes_def tunnel_domain_def)
qed (simp add: config_routes_def)

lemma routes_of_config:
  assumes ok: "schema_ok d" and cfg: "store_NodeConfig coll base fresh dz d = (Inr cfg, d')"
    and t: "apply_routes (nc_routes cfg) Map.empty = Some t"
  shows "t k = Some a \<longleftrightarrow> (\<exists>(sub, w)\<in>(\<lambda>(s, w, key). (s, w)) ` set (sql_live_leases d). a = Addr4 w \<and>
     (k = sub @ (CHR ''.'' # to_lower base) \<or> k = ''*.'' @ sub @ (CHR ''.'' # to_lower base)))"
proof -
  let ?rows = "sql_live_leases d"
  have routes: "nc_routes cfg = config_routes base ?rows" using NodeConfig_fields [OF cfg] by blast
  have alpha: "set (fst x) \<subseteq> set base32_alphabet" if "x \<in> set ?rows" for x
  proof -
    from that obtain r l where "in_force d r l" "fst x = tun_subdomain r" unfolding live_leases_iff [OF ok] by auto
    then show ?thesis
      using schema_okD(3) [OF ok] by (simp add: in_force_def tunnels_ok_def tunnel_row_ok_def)
  qed
  then have alpha3: "set sub \<subseteq> set base32_alphabet" if "(sub, w, key) \<in> set ?rows" for sub w key using that by force
  have low: "to_lower (tunnel_domain sub base) = sub @ (CHR ''.'' # to_lower base)"
    "to_lower (''*.'' @ tunnel_domain sub base) = ''*.'' @ sub @ (CHR ''.'' # to_lower base)" if "(sub, w, key) \<in> set ?rows" for sub w key
    using to_lower_base32 [OF alpha3 [OF that]] by (simp_all add: tunnel_domain_def)
  have "distinct (map (\<lambda>r. to_lower (rt_hostname r)) (nc_routes cfg))"
    using config_routes_distinct [OF live_leases_distinct(1) [OF ok] alpha, of "to_lower base"] config_routes_lower [OF alpha3]
    by (simp add: routes)
  from apply_routes_iff [OF t this] have "t k = Some a \<longleftrightarrow> (\<exists>sub w key. (sub, w, key) \<in> set ?rows \<and> a = Addr4 w \<and>
      (k = to_lower (tunnel_domain sub base) \<or> k = to_lower (''*.'' @ tunnel_domain sub base)))"
    unfolding routes config_routes_addr .
  also have "\<dots> \<longleftrightarrow> (\<exists>sub w key. (sub, w, key) \<in> set ?rows \<and> a = Addr4 w \<and>
      (k = sub @ (CHR ''.'' # to_lower base) \<or> k = ''*.'' @ sub @ (CHR ''.'' # to_lower base)))"
    using low by metis
  also have "\<dots> \<longleftrightarrow> (\<exists>(sub, w)\<in>(\<lambda>(s, w, key). (s, w)) ` set ?rows. a = Addr4 w \<and>
     (k = sub @ (CHR ''.'' # to_lower base) \<or> k = ''*.'' @ sub @ (CHR ''.'' # to_lower base)))"
    by force
  finally show ?thesis .
qed

lemma apply_config_True:
  assumes "apply_config env cfg s = (True, s')"
  shows "apply_routes (nc_routes cfg) Map.empty = Some (ns_routes s')"
    "ns_dns s' = (case nc_dns cfg of None \<Rightarrow> ns_dns s
       | Some d \<Rightarrow> SetZone (ne_lib env) (ne_name_order env (z_challenges (zone_of d))) (zone_of d) (ns_dns s))"
  using assms
  by (auto simp: apply_config_def split: option.splits prod.splits bool.splits)

lemma relay_routes:
  assumes ok: "schema_ok d" and cfg: "store_NodeConfig coll base fresh dz d = (Inr cfg, d')"
    and app: "apply_config env cfg s = (True, s')"
  shows "Match (ns_routes s') host = Some ip \<longleftrightarrow>
    (\<exists>r l. in_force d r l \<and> ip = Addr4 (tun_ip r) \<and> in_domain (to_lower (tunnel_domain (tun_subdomain r) base)) host)"
proof -
  let ?rows = "(\<lambda>(s, w, key). (s, w)) ` set (sql_live_leases d)"
  have rows: "(sub, w) \<in> ?rows \<longleftrightarrow> (\<exists>r l. in_force d r l \<and> sub = tun_subdomain r \<and> w = tun_ip r)" for sub w
    by (force simp: live_leases_iff [OF ok] image_iff)
  have tun: "length (tun_subdomain r) = 7 \<and> set (tun_subdomain r) \<subseteq> set base32_alphabet" if "in_force d r l" for r l
    using that schema_okD(3) [OF ok] by (simp add: in_force_def tunnels_ok_def tunnel_row_ok_def)
  have "CHR ''*'' \<notin> set base32_alphabet" by (simp add: base32_alphabet_def)
  then have subs: "length sub = 7 \<and> CHR ''*'' \<notin> set sub" if "(sub, w) \<in> ?rows" for sub w
    using that tun unfolding rows by blast
  have one: "w = w'" if "(sub, w) \<in> ?rows" "(sub, w') \<in> ?rows" for sub w w'
  proof -
    from that obtain r l r' l' where "in_force d r l" "in_force d r' l'" "tun_subdomain r = tun_subdomain r'" "w = tun_ip r" "w' = tun_ip r'"
      unfolding rows by metis
    then show ?thesis
      using schema_okD(3) [OF ok] distinct_key_inj [of tun_subdomain] by (auto simp: in_force_def tunnels_ok_def)
  qed
  have "tunnel_table (ns_routes s') ?rows Addr4 7 (CHR ''.'' # to_lower base)"
    unfolding tunnel_table_def
  proof (intro conjI allI ballI impI)
    show "case x of (sub, w) \<Rightarrow> length sub = 7 \<and> CHR ''*'' \<notin> set sub" if "x \<in> ?rows" for x
      using subs that by (cases x) blast
  qed (use routes_of_config [OF ok cfg apply_config_True(1) [OF app]] one in \<open>simp_all\<close>)
  then have "Match (ns_routes s') host = Some ip \<longleftrightarrow>
      (\<exists>(sub, w)\<in>?rows. ip = Addr4 w \<and> in_domain (sub @ CHR ''.'' # to_lower base) host)"
    by (rule Match_tunnels)
  also have "\<dots> \<longleftrightarrow> (\<exists>sub w. (sub, w) \<in> ?rows \<and> ip = Addr4 w \<and> in_domain (sub @ CHR ''.'' # to_lower base) host)"
    by (simp only: Bex_def split_paired_Ex case_prod_conv)
  also have "\<dots> \<longleftrightarrow> (\<exists>r l. in_force d r l \<and> ip = Addr4 (tun_ip r) \<and> in_domain (tun_subdomain r @ CHR ''.'' # to_lower base) host)"
    unfolding rows by blast
  also have "\<dots> \<longleftrightarrow> (\<exists>r l. in_force d r l \<and> ip = Addr4 (tun_ip r) \<and> in_domain (to_lower (tunnel_domain (tun_subdomain r) base)) host)"
    using tun by (simp add: tunnel_domain_lower cong: conj_cong)
  finally show ?thesis .
qed

section \<open>The zone\<close>

lemma node_dnsChallenges_values:
  "node_dnsChallenges cs f =
     (let vs = map txt_value (filter (\<lambda>c. txt_fqdn c = f) cs) in if vs = [] then None else Some vs)"
proof -
  have "foldl (\<lambda>m c. m(txt_fqdn c \<mapsto> (case m (txt_fqdn c) of Some vs \<Rightarrow> vs | None \<Rightarrow> []) @ [txt_value c])) m cs f =
     (let vs = map txt_value (filter (\<lambda>c. txt_fqdn c = f) cs)
      in if vs = [] then m f else Some ((case m f of Some vs \<Rightarrow> vs | None \<Rightarrow> []) @ vs))" for m
    by (induction cs arbitrary: m) (auto simp: Let_def)
  then show ?thesis by (simp add: node_dnsChallenges_def Let_def)
qed

text \<open>A name as the API stores it: lower case, no escapes, no final dot.\<close>

definition stored_name :: "string \<Rightarrow> bool" where
  "stored_name f \<longleftrightarrow> lowercase f \<and> CHR 0x5C \<notin> set f \<and> \<not> has_suffix f ''.''"

lemma norm_stored:
  assumes "dns_contract lib" and "stored_name f"
  shows "norm_name lib f = f @ ''.''"
  using assms by (simp add: stored_name_def dns_contract_def norm_name_def to_lower_id dns_fqdn_def)

lemma zone_challenges:
  assumes lib: "dns_contract (ne_lib env)" and ord: "orders_ok env"
    and names: "\<forall>c\<in>set (dz_challenges dz). stored_name (txt_fqdn c)" and f: "stored_name f"
  shows "z_challenges (normalize (ne_lib env) (ne_name_order env (z_challenges (zone_of dz))) (zone_of dz)) (f @ ''.'') =
    (let vs = map txt_value (filter (\<lambda>c. txt_fqdn c = f) (dz_challenges dz)) in if vs = [] then None else Some vs)"
proof -
  let ?m = "z_challenges (zone_of dz)"
  have m: "?m k = (let vs = map txt_value (filter (\<lambda>c. txt_fqdn c = k) (dz_challenges dz)) in if vs = [] then None else Some vs)" for k
    by (simp add: zone_of_def node_dnsChallenges_values)
  have dom_m: "dom ?m = txt_fqdn ` set (dz_challenges dz)"
    by (auto simp: dom_def m Let_def filter_empty_conv split: if_splits)
  then have stored: "stored_name k" if "k \<in> dom ?m" for k using names that by auto
  have ord': "set (ne_name_order env ?m) = dom ?m"
    using ord dom_m by (simp add: orders_ok_def)
  have inj: "inj_on (norm_name (ne_lib env)) (dom ?m)"
  proof (rule inj_onI)
    fix x y assume "x \<in> dom ?m" "y \<in> dom ?m" "norm_name (ne_lib env) x = norm_name (ne_lib env) y"
    then have "x @ ''.'' = y @ ''.''" using norm_stored [OF lib stored] by metis
    then show "x = y" by simp
  qed
  show ?thesis
  proof (cases "f \<in> dom ?m")
    case True
    then show ?thesis
      using normalize_challenges [OF inj ord' True] m [of f] by (simp add: norm_stored [OF lib f])
  next
    case False
    have "f @ ''.'' \<notin> norm_name (ne_lib env) ` dom ?m"
      using False norm_stored [OF lib stored] by auto
    then show ?thesis using normalize_no_challenge [OF _ ord'] False m [of f] by (auto simp: domIff)
  qed
qed

section \<open>An example relay\<close>

text \<open>
  A device that accepts whatever it is given, maps enumerated in order, and the configuration of
  the store in which the first tunnel has a lease with a well-formed key.
\<close>

definition plain_env :: "unit node_env" where
  "plain_env = \<lparr>ne_ipc = \<lambda>ls d. Some d, ne_lib = plain_lib, ne_peer_order = \<lambda>m. sorted_list_of_set (dom m),
     ne_name_order = \<lambda>m. sorted_list_of_set (dom m)\<rparr>"

definition idle_node :: "unit node_state" where
  "idle_node = \<lparr>ns_net = \<lparr>net_dev = (), net_peers = Map.empty\<rparr>, ns_routes = Map.empty, ns_dns = New_Dns\<rparr>"

definition plain_ncf :: node_config where
  "plain_ncf = \<lparr>ncf_api_url = [], ncf_token = [], ncf_wg_port = 51820, ncf_https_listen = [], ncf_http_listen = [],
     ncf_dns_listen = [], ncf_local_routes = Map.empty\<rparr>"

lemma plain_env_orders: "orders_ok plain_env"
  by (simp add: orders_ok_def plain_env_def)

lemma apply_plain:
  assumes "apply_peers (nc_peers cfg) = Some ps" and "apply_routes (nc_routes cfg) Map.empty = Some t"
  shows "\<exists>s'. apply_config plain_env cfg s = (True, s')"
  using assms by (simp add: apply_config_def plain_env_def SetPeers_def Let_def)

definition keyed_db :: db where
  "keyed_db = snd (AcquireLease 1 ''i1'' (Key_String (replicate 32 0)) ''v1'' 45 first_db)"

lemma keyed_db_ok: "schema_ok keyed_db"
  unfolding keyed_db_def by (rule keepsD [OF keeps_AcquireLease first_db_ok])

lemma keyed_db_live:
  "sql_live_leases keyed_db = [(take 7 (Random [0, 0, 0, 0, 0]), 171966466, Key_String (replicate 32 0))]"
  by (simp add: keyed_db_def first_db_def first_tunnel_def run_defs AcquireLease_def sql_upsert_lease_def lease_of_def
      sql_live_leases_def List.map_filter_def sql_token_used_def)

lemma keyed_config:
  "\<exists>cfg s'. store_NodeConfig id ''ex.org'' 90 \<lparr>zc_ns_names = [], zc_soa_email = []\<rparr> keyed_db = (Inr cfg, keyed_db) \<and>
     apply_config plain_env cfg idle_node = (True, s')"
proof -
  have "db_faults keyed_db = []"
    by (simp add: keyed_db_def first_db_def first_tunnel_def run_defs AcquireLease_def sql_upsert_lease_def lease_of_def
        sql_token_used_def)
  then obtain cfg where c: "store_NodeConfig id ''ex.org'' 90 \<lparr>zc_ns_names = [], zc_soa_email = []\<rparr> keyed_db = (Inr cfg, keyed_db)"
    by (simp add: store_NodeConfig_def bindr_def query_run Let_def retr_def)
  note f = NodeConfig_fields [OF c]
  obtain ps where "apply_peers (nc_peers cfg) = Some ps"
    using f by (simp add: config_peers_def keyed_db_live ParseKey_String ParseAddr_ip4_string)
  moreover obtain t where "apply_routes (nc_routes cfg) Map.empty = Some t"
    using f by (simp add: config_routes_def keyed_db_live ParseAddr_ip4_string)
  ultimately show ?thesis using apply_plain c by blast
qed

section \<open>Properties\<close>

text \<open>
  A TLS connection whose SNI matches no local route is joined to an agent exactly when
  some tunnel had a lease in force in the configuration applied and the name is that tunnel's
  domain or lies below it; it is then dialled at that tunnel's address and no other, port 443.
\<close>
theorem relay_dispatch:
  assumes "schema_ok d" and "store_NodeConfig coll base fresh dz d = (Inr cfg, d')"
    and "apply_config env cfg s = (True, s')" and "hel conn = (n, Some name)" and "name \<noteq> []"
    and "Match (ncf_local_routes ncf) (to_lower name) = None"
  shows "handleTLS ncf hel dialTCP dialWG wok remote local conn s' = JoinedAgent dst hdr c \<longleftrightarrow>
    (\<exists>r l. in_force d r l \<and> in_domain (to_lower (tunnel_domain (tun_subdomain r) base)) (to_lower name) \<and>
       dst = \<lparr>ap_addr = Addr4 (tun_ip r), ap_port = AgentPort\<rparr>) \<and>
    dialWG dst \<and> wok \<and> hdr = Header remote local \<and> c = NewPrefixConn (drop n conn) (take n conn)"
proof -
  have peek: "Peek hel conn = Inr (to_lower name, NewPrefixConn (drop n conn) (take n conn))"
    using assms(4,5) by (simp add: Peek_def)
  show ?thesis
  proof (cases "Match (ns_routes s') (to_lower name)")
    case None
    then have no: "\<not> (in_force d r l \<and> in_domain (to_lower (tunnel_domain (tun_subdomain r) base)) (to_lower name))" for r l
      using relay_routes [OF assms(1-3), of "to_lower name" "Addr4 (tun_ip r)"] by auto
    have "handleTLS ncf hel dialTCP dialWG wok remote local conn s' = TLSClosed"
      by (simp add: handleTLS_def peek None assms(6))
    with no show ?thesis by (metis tls_outcome.distinct(3))
  next
    case (Some ip)
    then obtain r l where r: "in_force d r l" "ip = Addr4 (tun_ip r)"
      "in_domain (to_lower (tunnel_domain (tun_subdomain r) base)) (to_lower name)"
      using relay_routes [OF assms(1-3)] by blast
    have other: "Addr4 (tun_ip q) = ip"
      if "in_force d q m" "in_domain (to_lower (tunnel_domain (tun_subdomain q) base)) (to_lower name)" for q m
      using that relay_routes [OF assms(1-3), of "to_lower name" "Addr4 (tun_ip q)"] Some by auto
    have "handleTLS ncf hel dialTCP dialWG wok remote local conn s' =
        (let dst = \<lparr>ap_addr = ip, ap_port = AgentPort\<rparr>
         in if \<not> dialWG dst then TLSClosed else if \<not> wok then TLSClosed
            else JoinedAgent dst (Header remote local) (NewPrefixConn (drop n conn) (take n conn)))"
      by (simp add: handleTLS_def peek Some assms(6))
    moreover have "(\<exists>r l. in_force d r l \<and> in_domain (to_lower (tunnel_domain (tun_subdomain r) base)) (to_lower name) \<and>
       dst = \<lparr>ap_addr = Addr4 (tun_ip r), ap_port = AgentPort\<rparr>) \<longleftrightarrow> dst = \<lparr>ap_addr = ip, ap_port = AgentPort\<rparr>"
      using r other by blast
    ultimately show ?thesis by (auto simp: Let_def)
  qed
qed

theorem relay_dispatch_witness:
  "\<exists>cfg s'. apply_config plain_env cfg idle_node = (True, s') \<and>
     handleTLS plain_ncf (\<lambda>_. (0, Some (tunnel_domain (take 7 (Random [0, 0, 0, 0, 0])) ''ex.org''))) (\<lambda>_. True) (\<lambda>_. True) True
       addr_port_zero addr_port_zero [] s' =
     JoinedAgent \<lparr>ap_addr = Addr4 171966466, ap_port = AgentPort\<rparr> (Header addr_port_zero addr_port_zero) (NewPrefixConn [] [])"
proof -
  let ?sub = "take 7 (Random [0, 0, 0, 0, 0])"
  obtain cfg s' where c: "store_NodeConfig id ''ex.org'' 90 \<lparr>zc_ns_names = [], zc_soa_email = []\<rparr> keyed_db = (Inr cfg, keyed_db)"
    and a: "apply_config plain_env cfg idle_node = (True, s')"
    using keyed_config by blast
  have "(?sub, 171966466, Key_String (replicate 32 0)) \<in> set (sql_live_leases keyed_db)" by (simp add: keyed_db_live)
  then obtain r l where r: "in_force keyed_db r l" "tun_subdomain r = ?sub" "tun_ip r = 171966466"
    unfolding live_leases_iff [OF keyed_db_ok] by auto
  have name: "tunnel_domain ?sub ''ex.org'' \<noteq> []" by (simp add: tunnel_domain_def)
  have "Match (ncf_local_routes plain_ncf) (to_lower (tunnel_domain ?sub ''ex.org'')) = None"
    by (rule sni.miss) (simp_all add: plain_ncf_def)
  from relay_dispatch [OF keyed_db_ok c a _ name this, where conn = "[]" and n = 0 and dialTCP = "\<lambda>_. True" and dialWG = "\<lambda>_. True"
      and wok = True and remote = addr_port_zero and local = addr_port_zero and hel = "\<lambda>_. (0, Some (tunnel_domain ?sub ''ex.org''))"
      and dst = "\<lparr>ap_addr = Addr4 171966466, ap_port = AgentPort\<rparr>" and hdr = "Header addr_port_zero addr_port_zero"
      and c = "NewPrefixConn [] []"]
  show ?thesis using a r by (auto simp: in_domain_def intro!: exI [of _ cfg] exI [of _ s'])
qed

text \<open>
  C27: What the agent reads is what the visitor sent: of the connection handed to an agent, the
  PROXY header parses without error and gives the visitor's address and port, and the bytes
  after it are the visitor's stream from its first byte, ClientHello included.
\<close>
theorem relay_transparent:
  assumes "handleTLS ncf hel dialTCP dialWG wok remote local conn s = JoinedAgent dst hdr c"
    and "ap_addr remote \<noteq> AddrZero" and "ap_addr local \<noteq> AddrZero"
  shows "rr_err (Read (hdr @ stream_of c)) = None \<and> rr_rest (Read (hdr @ stream_of c)) = conn \<and>
    ap_port (rr_src (Read (hdr @ stream_of c))) = ap_port remote \<and>
    Unmap (ap_addr (rr_src (Read (hdr @ stream_of c)))) = strip_zone (Unmap (ap_addr remote))"
proof -
  obtain host where p: "Peek hel conn = Inr (host, c)" and h: "hdr = Header remote local"
    using assms(1) by (auto simp: handleTLS_def Let_def split: sum.splits prod.splits option.splits if_splits)
  show ?thesis using assms(2,3) by (simp add: h Read_Header Peek_stream [OF p] Unmap_carried)
qed

theorem relay_transparent_witness:
  "\<exists>hdr c. handleTLS plain_ncf (\<lambda>_. (1, Some ''h'')) (\<lambda>_. True) (\<lambda>_. True) True \<lparr>ap_addr = Addr4 9, ap_port = 7\<rparr> \<lparr>ap_addr = Addr4 8, ap_port = 443\<rparr>
       [1, 2] (idle_node\<lparr>ns_routes := [''h'' \<mapsto> Addr4 5]\<rparr>) = JoinedAgent \<lparr>ap_addr = Addr4 5, ap_port = AgentPort\<rparr> hdr c \<and>
     rr_rest (Read (hdr @ stream_of c)) = [1, 2]"
proof -
  have m: "Match (ncf_local_routes plain_ncf) ''h'' = None" "Match [''h'' \<mapsto> Addr4 5] ''h'' = Some (Addr4 5)"
    by (rule sni.miss, simp_all add: plain_ncf_def sni.exact)
  have "Peek (\<lambda>_. (1, Some ''h'')) [1, 2] = Inr (''h'', NewPrefixConn [2] [1])"
    by (simp add: Peek_def to_lower_def lower_char_def is_upper_def less_eq_char_def)
  with m have "\<exists>hdr c. handleTLS plain_ncf (\<lambda>_. (1, Some ''h'')) (\<lambda>_. True) (\<lambda>_. True) True \<lparr>ap_addr = Addr4 9, ap_port = 7\<rparr> \<lparr>ap_addr = Addr4 8, ap_port = 443\<rparr>
      [1, 2] (idle_node\<lparr>ns_routes := [''h'' \<mapsto> Addr4 5]\<rparr>) = JoinedAgent \<lparr>ap_addr = Addr4 5, ap_port = AgentPort\<rparr> hdr c"
    by (simp add: handleTLS_def)
  then show ?thesis using relay_transparent by fastforce
qed

text \<open>
  The sync loop is all or nothing in what the node routes by: after a turn either the
  version, the routes, the peers and the zone are those from before (whatever failed), and the
  loop pauses three seconds unless nothing was wrong, or they are those of the configuration
  received, whose version is the one asked from then on.
\<close>
theorem sync_turn_all_or_nothing:
  assumes "sync_turn env reply version s = SyncNext v wait s'"
  shows "(v = version \<and> ns_routes s' = ns_routes s \<and> ns_dns s' = ns_dns s \<and> net_peers (ns_net s') = net_peers (ns_net s) \<and>
       wait = (if Do reply = Inl ErrNotModified then 0 else 3 * second)) \<or>
    (\<exists>cfg. Do reply = Inr cfg \<and> v = nc_version cfg \<and> wait = 0 \<and> apply_config env cfg s = (True, s') \<and>
       apply_routes (nc_routes cfg) Map.empty = Some (ns_routes s'))"
proof (cases "Do reply")
  case (Inl e)
  then show ?thesis using assms by (auto simp: sync_turn_def split: if_splits)
next
  case (Inr cfg)
  obtain ok s1 where a: "apply_config env cfg s = (ok, s1)" by fastforce
  show ?thesis
  proof (cases ok)
    case True
    then show ?thesis using assms Inr a apply_config_True(1) by (auto simp: sync_turn_def)
  next
    case False
    then show ?thesis using assms Inr a apply_failed_routes [of env cfg s s1] by (auto simp: sync_turn_def)
  qed
qed

theorem sync_turn_all_or_nothing_witness:
  "\<exists>s'. sync_turn plain_env None ''v'' idle_node = SyncNext ''v'' (3 * second) s' \<and> ns_routes s' = Map.empty"
proof -
  have "sync_turn plain_env None ''v'' idle_node = SyncNext ''v'' (3 * second) idle_node"
    by (simp add: sync_turn_def Do_def Code_def proto_ErrUnauthorized_def)
  from sync_turn_all_or_nothing [OF this] this show ?thesis by (auto simp: idle_node_def)
qed

text \<open>
  The node's first contact backs off: the pauses between attempts are 1, 2, 4, 8, 16 and
  then 30 seconds, one for each failed attempt, and it stops at the first reply that accepts or
  rejects its token.
\<close>
theorem hello_backoff:
  assumes "hello second replies = (result, waits)"
  shows "(\<forall>i < length waits. waits ! i = min (2 ^ i * second) (30 * second)) \<and> length waits \<le> length replies \<and>
    (\<forall>i < length waits. \<exists>e. Do (replies ! i) = Inl e \<and> Code e \<noteq> proto_ErrUnauthorized) \<and>
    (length waits < length replies \<longrightarrow>
       (case Do (replies ! length waits) of Inr resp \<Rightarrow> result = HelloOk resp
        | Inl e \<Rightarrow> Code e = proto_ErrUnauthorized \<and> result = HelloRejected))"
proof -
  have step: "min (min (2 ^ k * second) (30 * second) * 2) (30 * second) = min (2 ^ Suc k * second) (30 * second)" for k
    by (simp add: min_def second_def)
  have "hello (min (2 ^ k * second) (30 * second)) replies = (result, waits) \<Longrightarrow>
    (\<forall>i < length waits. waits ! i = min (2 ^ (k + i) * second) (30 * second)) \<and> length waits \<le> length replies \<and>
    (\<forall>i < length waits. \<exists>e. Do (replies ! i) = Inl e \<and> Code e \<noteq> proto_ErrUnauthorized) \<and>
    (length waits < length replies \<longrightarrow>
       (case Do (replies ! length waits) of Inr resp \<Rightarrow> result = HelloOk resp
        | Inl e \<Rightarrow> Code e = proto_ErrUnauthorized \<and> result = HelloRejected))" for k
  proof (induction replies arbitrary: k waits)
    case (Cons reply replies)
    show ?case
    proof (cases "Do reply")
      case (Inl e)
      show ?thesis
      proof (cases "Code e = proto_ErrUnauthorized")
        case True
        then show ?thesis using Cons.prems Inl by auto
      next
        case False
        obtain ws where w: "waits = min (2 ^ k * second) (30 * second) # ws"
          and h: "hello (min (2 ^ Suc k * second) (30 * second)) replies = (result, ws)"
          using Cons.prems Inl False by (auto simp: step split: prod.splits)
        from Cons.IH [OF h] show ?thesis
          using Inl False unfolding w by (auto simp: nth_Cons less_Suc_eq_0_disj split: nat.splits)
      qed
    next
      case (Inr resp)
      then show ?thesis using Cons.prems by auto
    qed
  qed auto
  from this [of 0] show ?thesis using assms by (simp add: second_def)
qed

theorem hello_backoff_witness:
  "snd (hello second [None, None]) ! 1 = 2 * second"
proof -
  have "hello second [None, None] = (HelloRetrying (4 * second), [second, 2 * second])"
    by (simp add: Do_def Code_def proto_ErrUnauthorized_def second_def)
  from hello_backoff [OF this] show ?thesis using \<open>hello second [None, None] = _\<close> by (simp add: second_def)
qed

lemma zone_answers_challenges:
  assumes "dns_contract (ne_lib env)" and "orders_ok env"
    and z: "srv_zone_now srv = normalize (ne_lib env) (ne_name_order env (z_challenges (zone_of dz))) (zone_of dz)"
    and zone: "stored_name (dz_zone dz)" "dz_zone dz \<noteq> []"
    and names: "\<forall>c\<in>set (dz_challenges dz). stored_name (txt_fqdn c)" and f: "stored_name f" "in_domain (dz_zone dz) f"
    and qn: "to_lower qn = f @ ''.''"
  shows "m_authoritative (serve_query (ne_lib env) now srv [\<lparr>q_name = qn, q_type = TypeTXT\<rparr>])"
    and "m_rcode (serve_query (ne_lib env) now srv [\<lparr>q_name = qn, q_type = TypeTXT\<rparr>]) = RcodeSuccess"
    and "map rr_data (m_answer (serve_query (ne_lib env) now srv [\<lparr>q_name = qn, q_type = TypeTXT\<rparr>])) =
      map (\<lambda>c. RD_TXT [txt_value c]) (filter (\<lambda>c. txt_fqdn c = f) (dz_challenges dz))"
proof -
  let ?z = "normalize (ne_lib env) (ne_name_order env (z_challenges (zone_of dz))) (zone_of dz)"
  have name: "z_name ?z = dz_zone dz @ ''.''"
    using zone(2) norm_stored [OF assms(1) zone(1)] by (simp add: normalize_def zone_of_def)
  have "lib_IsSubDomain (ne_lib env) (dz_zone dz @ ''.'') (f @ ''.'') = dns_below (dz_zone dz @ ''.'') (f @ ''.'')"
  proof -
    have "CHR 0x5C \<notin> set (dz_zone dz @ ''.'')" "CHR 0x5C \<notin> set (f @ ''.'')" "dz_zone dz @ ''.'' \<noteq> ''.''"
      "has_suffix (dz_zone dz @ ''.'') ''.''" "has_suffix (f @ ''.'') ''.''"
      "lowercase (dz_zone dz @ ''.'')" "lowercase (f @ ''.'')"
      using zone f(1) by (auto simp: stored_name_def lowercase_def has_suffix_iff is_upper_def less_eq_char_def)
    then show ?thesis using assms(1) unfolding dns_contract_def by blast
  qed
  also have "dns_below (dz_zone dz @ ''.'') (f @ ''.'')"
    using f(2) by (auto simp: dns_below_def in_domain_def has_suffix_iff)
  finally have below: "lib_IsSubDomain (ne_lib env) (z_name ?z) (to_lower qn)" by (simp add: name qn)
  note ch = zone_challenges [OF assms(1,2) names f(1)]
  note defs = serve_query_def z Answer_def answer_records_def dns_numbers Let_def SetReply_def comp_def
  show "m_authoritative (serve_query (ne_lib env) now srv [\<lparr>q_name = qn, q_type = TypeTXT\<rparr>])"
    "m_rcode (serve_query (ne_lib env) now srv [\<lparr>q_name = qn, q_type = TypeTXT\<rparr>]) = RcodeSuccess"
    using below name by (simp_all add: defs)
  show "map rr_data (m_answer (serve_query (ne_lib env) now srv [\<lparr>q_name = qn, q_type = TypeTXT\<rparr>])) =
      map (\<lambda>c. RD_TXT [txt_value c]) (filter (\<lambda>c. txt_fqdn c = f) (dz_challenges dz))"
    using below name qn ch by (simp add: defs split: option.splits)
qed

text \<open>
  Once a configuration with a zone is applied, the node answers a TXT query for a
  challenge name, in whatever case it is asked, with exactly the values of the challenges of
  that name, in the order of the configuration.
\<close>
theorem relay_answers_challenges:
  assumes "dns_contract (ne_lib env)" and "orders_ok env" and "apply_config env cfg s = (True, s')"
    and "nc_dns cfg = Some dz" and "stored_name (dz_zone dz)" and "dz_zone dz \<noteq> []"
    and "\<forall>c\<in>set (dz_challenges dz). stored_name (txt_fqdn c)" and "stored_name f" and "in_domain (dz_zone dz) f"
    and "to_lower qn = f @ ''.''"
  shows "m_authoritative (serve_query (ne_lib env) now (ns_dns s') [\<lparr>q_name = qn, q_type = TypeTXT\<rparr>]) \<and>
    map rr_data (m_answer (serve_query (ne_lib env) now (ns_dns s') [\<lparr>q_name = qn, q_type = TypeTXT\<rparr>])) =
      map (\<lambda>c. RD_TXT [txt_value c]) (filter (\<lambda>c. txt_fqdn c = f) (dz_challenges dz))"
proof -
  have "srv_zone_now (ns_dns s') = normalize (ne_lib env) (ne_name_order env (z_challenges (zone_of dz))) (zone_of dz)"
    using apply_config_True(2) [OF assms(3)] assms(4) by (simp add: SetZone_def)
  from zone_answers_challenges [OF assms(1,2) this assms(5-10)] show ?thesis by blast
qed

theorem relay_answers_challenges_witness:
  "\<exists>s'. apply_config plain_env \<lparr>nc_version = ''1'', nc_peers = [], nc_routes = [],
       nc_dns = Some \<lparr>dz_zone = ''z'', dz_ns_names = [], dz_soa_email = [], dz_edge = [],
         dz_challenges = [\<lparr>txt_fqdn = ''a.z'', txt_value = ''v''\<rparr>, \<lparr>txt_fqdn = ''b.z'', txt_value = ''w''\<rparr>]\<rparr>\<rparr> idle_node = (True, s') \<and>
     map rr_data (m_answer (serve_query plain_lib 0 (ns_dns s') [\<lparr>q_name = ''A.z.'', q_type = TypeTXT\<rparr>])) = [RD_TXT [''v'']]"
proof -
  let ?z = "\<lparr>dz_zone = ''z'', dz_ns_names = [], dz_soa_email = [], dz_edge = [],
         dz_challenges = [\<lparr>txt_fqdn = ''a.z'', txt_value = ''v''\<rparr>, \<lparr>txt_fqdn = ''b.z'', txt_value = ''w''\<rparr>]\<rparr>"
  let ?c = "\<lparr>nc_version = ''1'', nc_peers = [], nc_routes = [], nc_dns = Some ?z\<rparr>"
  obtain s' where a: "apply_config plain_env ?c idle_node = (True, s')" using apply_plain [of ?c "[]" Map.empty idle_node] by auto
  have lib: "ne_lib plain_env = plain_lib" by (simp add: plain_env_def)
  have names: "stored_name ''z''" "stored_name ''a.z''" "stored_name ''b.z''"
    by (simp_all add: stored_name_def lowercase_def is_upper_def less_eq_char_def has_suffix_def)
  have "in_domain ''z'' ''a.z''" by (simp add: in_domain_def)
  moreover have "to_lower ''A.z.'' = ''a.z'' @ ''.''" by code_simp
  ultimately show ?thesis
    using relay_answers_challenges [OF _ plain_env_orders a, of ?z "''a.z''" "''A.z.''" 0] a names
    by (simp add: lib plain_lib_contract)
qed

end
