(* ===== verification/Agent_Config.thy ===== *)
theory Agent_Config
  imports Net_Addr Sni
begin

text \<open>
  internal/agent/config.go: the file of an agent, wgrelay.yml, and the routes it declares.
  LoadFile reads it, substitutes the environment (os.ExpandEnv), decodes it and checks each
  route; Resolve turns the hosts of the routes into names below the domain the control plane
  assigned.  The decoder (gopkg.in/yaml.v3) and url.Parse are arguments: of a URL the agent
  uses the scheme and the host.
\<close>

section \<open>The file\<close>

record ACME =
  acme_email :: string
  acme_ca :: string
  acme_trusted_roots :: string
  acme_dns_resolvers :: "string list"

definition LetsEncryptProduction :: string where
  "LetsEncryptProduction = ''https://acme-v02.api.letsencrypt.org/directory''"

definition CAOrDefault :: "ACME \<Rightarrow> string" where
  "CAOrDefault a = (if acme_ca a \<noteq> [] then acme_ca a else LetsEncryptProduction)"

record RouteSpec =
  sp_host :: string
  sp_mode :: string
  sp_to :: string
  sp_proxy_protocol :: bool
  sp_export_cert :: string

record File =
  fl_relay :: string
  fl_acme :: ACME
  fl_routes :: "RouteSpec list"

definition ModePassthrough :: string where
  "ModePassthrough = ''passthrough''"

definition ModeTerminate :: string where
  "ModeTerminate = ''terminate''"

lemma modes_differ [simp]: "ModePassthrough \<noteq> ModeTerminate" "ModeTerminate \<noteq> ModePassthrough"
  "ModeTerminate \<noteq> []" "ModePassthrough \<noteq> []"
  by (simp_all add: ModePassthrough_def ModeTerminate_def)

section \<open>The environment\<close>

text \<open>os.Expand: $name, ${name} and the one-character shell variables; a dollar at the end, or
  before anything else, stays; a malformed ${ is eaten.\<close>

definition isShellSpecialVar :: "char \<Rightarrow> bool" where
  "isShellSpecialVar c \<longleftrightarrow> c \<in> set ''*#$@!?-0123456789''"

definition isAlphaNum :: "char \<Rightarrow> bool" where
  "isAlphaNum c \<longleftrightarrow> c = CHR ''_'' \<or> is_digit c \<or> (CHR ''a'' \<le> c \<and> c \<le> CHR ''z'') \<or> is_upper c"

definition getShellName :: "string \<Rightarrow> string \<times> nat" where
  "getShellName s =
     (if hd s = CHR ''{'' then
        if 2 < length s \<and> isShellSpecialVar (s ! 1) \<and> s ! 2 = CHR ''}'' then ([s ! 1], 3)
        else (case index_byte s CHR ''}'' of
                Some i \<Rightarrow> if i = 1 then ([], 2) else (take (i - 1) (drop 1 s), i + 1)
              | None \<Rightarrow> ([], 1))
      else if isShellSpecialVar (hd s) then ([hd s], 1)
      else let name = takeWhile isAlphaNum s in (name, length name))"

function Expand :: "(string \<Rightarrow> string) \<Rightarrow> string \<Rightarrow> string" where
  "Expand mapping [] = []"
| "Expand mapping (c # s) =
     (if c = CHR ''$'' \<and> s \<noteq> [] then
        (case getShellName s of (name, w) \<Rightarrow>
           (if name = [] then (if 0 < w then [] else [c]) else mapping name) @ Expand mapping (drop w s))
      else c # Expand mapping s)"
  by pat_completeness auto
termination by (relation "measure (length \<circ> snd)") auto

section \<open>LoadFile\<close>

record url =
  url_scheme :: string
  url_host :: string

datatype load_error =
    ReadFailed
  | TokenInFile
  | BadYaml string
  | MissingHost nat
  | BadTarget string
  | BadScheme string string
  | BadHostPort string
  | UnknownMode string string
  | ExportNotPassthrough string

text \<open>The body of the loop over the routes; n counts them from 1.\<close>

definition check_target :: "(string \<Rightarrow> url option) \<Rightarrow> nat \<Rightarrow> RouteSpec \<Rightarrow> load_error + RouteSpec" where
  "check_target urlParse n r =
     (if sp_host r = [] then Inl (MissingHost n)
      else if sp_mode r = ModeTerminate then
        let r' = (if contains (sp_to r) ''://'' then r else r\<lparr>sp_to := ''http://'' @ sp_to r\<rparr>)
        in (case urlParse (sp_to r') of
              None \<Rightarrow> Inl (BadTarget (sp_host r'))
            | Some u \<Rightarrow>
                if url_host u = [] then Inl (BadTarget (sp_host r'))
                else if url_scheme u \<in> {''http'', ''https'', ''tcp''} then Inr r'
                else Inl (BadScheme (sp_host r') (url_scheme u)))
      else if sp_mode r = ModePassthrough then
        (case SplitHostPort (sp_to r) of None \<Rightarrow> Inl (BadHostPort (sp_host r)) | Some _ \<Rightarrow> Inr r)
      else Inl (UnknownMode (sp_host r) (sp_mode r)))"

definition check_route :: "(string \<Rightarrow> url option) \<Rightarrow> nat \<Rightarrow> RouteSpec \<Rightarrow> load_error + RouteSpec" where
  "check_route urlParse n r =
     (case check_target urlParse n (if sp_mode r = [] then r\<lparr>sp_mode := ModeTerminate\<rparr> else r) of
        Inl e \<Rightarrow> Inl e
      | Inr r' \<Rightarrow>
          if sp_export_cert r' \<noteq> [] \<and> sp_mode r' \<noteq> ModePassthrough then Inl (ExportNotPassthrough (sp_host r'))
          else Inr r')"

fun check_routes :: "(string \<Rightarrow> url option) \<Rightarrow> nat \<Rightarrow> RouteSpec list \<Rightarrow> load_error + RouteSpec list" where
  "check_routes urlParse n [] = Inr []"
| "check_routes urlParse n (r # rs) =
     (case check_route urlParse (n + 1) r of
        Inl e \<Rightarrow> Inl e
      | Inr r' \<Rightarrow> (case check_routes urlParse (n + 1) rs of Inl e \<Rightarrow> Inl e | Inr rs' \<Rightarrow> Inr (r' # rs')))"

definition LoadFile ::
  "(string \<Rightarrow> string) \<Rightarrow> (string \<Rightarrow> string + File) \<Rightarrow> (string \<Rightarrow> url option) \<Rightarrow> string option \<Rightarrow> load_error + File" where
  "LoadFile getenv decode urlParse content =
     (case content of
        None \<Rightarrow> Inl ReadFailed
      | Some raw \<Rightarrow>
          (case decode (Expand getenv raw) of
             Inl msg \<Rightarrow> Inl (if contains msg ''field token'' then TokenInFile else BadYaml msg)
           | Inr f \<Rightarrow>
               (case check_routes urlParse 0 (fl_routes f) of
                  Inl e \<Rightarrow> Inl e
                | Inr rs \<Rightarrow> Inr (f\<lparr>fl_routes := rs\<rparr>))))"

section \<open>Resolve\<close>

datatype host_error = BadWildcard string | ForeignHost string string | DuplicateRoute string

text \<open>The two switches of the loop body, and the name they give one route.\<close>

definition resolve_star :: "string \<Rightarrow> string \<Rightarrow> (string \<times> string) option" where
  "resolve_star domain h =
     (if h = ''*'' then Some (''*.'', domain)
      else if has_prefix h ''*.'' then
        let rest = drop 2 h in if rest = [] \<or> rest = ''@'' then None else Some (''*.'', rest)
      else Some ([], h))"

definition resolve_name :: "string \<Rightarrow> string \<Rightarrow> string \<Rightarrow> host_error + string" where
  "resolve_name domain host h =
     (if h = ''@'' then Inr domain
      else if \<not> contains h ''.'' then Inr (h @ ''.'' @ domain)
      else if h \<noteq> domain \<and> \<not> has_suffix h (''.'' @ domain) then Inl (ForeignHost host domain)
      else Inr h)"

definition resolve_host :: "string \<Rightarrow> string \<Rightarrow> host_error + string" where
  "resolve_host domain host =
     (case resolve_star domain (to_lower (trim_suffix host ''.'')) of
        None \<Rightarrow> Inl (BadWildcard host)
      | Some (star, h) \<Rightarrow> (case resolve_name domain host h of Inl e \<Rightarrow> Inl e | Inr h' \<Rightarrow> Inr (star @ h')))"

fun resolve_loop :: "string \<Rightarrow> RouteSpec list \<Rightarrow> (string \<rightharpoonup> RouteSpec) \<Rightarrow> host_error + (string \<rightharpoonup> RouteSpec)" where
  "resolve_loop domain [] out = Inr out"
| "resolve_loop domain (r # rs) out =
     (case resolve_host domain (sp_host r) of
        Inl e \<Rightarrow> Inl e
      | Inr h \<Rightarrow> if out h \<noteq> None then Inl (DuplicateRoute h) else resolve_loop domain rs (out(h \<mapsto> r)))"

definition Resolve :: "RouteSpec list \<Rightarrow> string \<Rightarrow> host_error + (string \<rightharpoonup> RouteSpec)" where
  "Resolve specs domain = resolve_loop domain specs Map.empty"

section \<open>What a loaded route satisfies\<close>

text \<open>
  A route that was loaded: its mode is one of the two, a terminated route has a URL of a scheme
  the agent serves, a passed route a host and port, and only a passed route exports.
\<close>

definition route_ok :: "(string \<Rightarrow> url option) \<Rightarrow> RouteSpec \<Rightarrow> bool" where
  "route_ok urlParse r \<longleftrightarrow> sp_host r \<noteq> [] \<and>
     (if sp_mode r = ''terminate'' then
        sp_export_cert r = [] \<and>
        (case urlParse (sp_to r) of Some u \<Rightarrow> url_host u \<noteq> [] \<and> url_scheme u \<in> {''http'', ''https'', ''tcp''} | None \<Rightarrow> False)
      else sp_mode r = ''passthrough'' \<and> SplitHostPort (sp_to r) \<noteq> None)"

text \<open>A route of the file with what it left out: the mode, and the scheme of a terminated route's target.\<close>

definition with_defaults :: "RouteSpec \<Rightarrow> RouteSpec" where
  "with_defaults r =
     \<lparr>sp_host = sp_host r,
      sp_mode = (if sp_mode r = [] then ''terminate'' else sp_mode r),
      sp_to = (if sp_mode r \<in> {[], ''terminate''} \<and> \<not> contains (sp_to r) ''://'' then ''http://'' @ sp_to r else sp_to r),
      sp_proxy_protocol = sp_proxy_protocol r, sp_export_cert = sp_export_cert r\<rparr>"

lemma check_target_iff:
  "check_target urlParse n r = Inr r' \<longleftrightarrow>
     r' = (if sp_mode r = ModeTerminate \<and> \<not> contains (sp_to r) ''://'' then r\<lparr>sp_to := ''http://'' @ sp_to r\<rparr> else r) \<and>
     sp_host r \<noteq> [] \<and>
     (if sp_mode r = ModeTerminate then
        (case urlParse (sp_to r') of Some u \<Rightarrow> url_host u \<noteq> [] \<and> url_scheme u \<in> {''http'', ''https'', ''tcp''} | None \<Rightarrow> False)
      else sp_mode r = ModePassthrough \<and> SplitHostPort (sp_to r) \<noteq> None)"
proof (cases "sp_mode r = ModeTerminate")
  case True
  define q where "q = (if contains (sp_to r) ''://'' then r else r\<lparr>sp_to := ''http://'' @ sp_to r\<rparr>)"
  have "check_target urlParse n r = Inr r' \<longleftrightarrow> r' = q \<and> sp_host r \<noteq> [] \<and>
      (case urlParse (sp_to q) of Some u \<Rightarrow> url_host u \<noteq> [] \<and> url_scheme u \<in> {''http'', ''https'', ''tcp''} | None \<Rightarrow> False)"
    unfolding check_target_def Let_def q_def [symmetric] using True by (simp split: option.split) metis
  then show ?thesis using True by (auto simp: q_def simp del: contains.simps)
next
  case False
  then show ?thesis by (auto simp: check_target_def split: option.split)
qed

lemma check_route_iff:
  "check_route urlParse n r = Inr r' \<longleftrightarrow> route_ok urlParse (with_defaults r) \<and> r' = with_defaults r"
proof -
  define q where "q = (if sp_mode r = [] then r\<lparr>sp_mode := ModeTerminate\<rparr> else r)"
  have wd: "with_defaults r = (if sp_mode q = ModeTerminate \<and> \<not> contains (sp_to q) ''://'' then q\<lparr>sp_to := ''http://'' @ sp_to q\<rparr> else q)"
    by (cases r) (auto simp: with_defaults_def q_def ModeTerminate_def simp del: contains.simps)
  have "check_route urlParse n r = Inr r' \<longleftrightarrow> check_target urlParse n q = Inr r' \<and> (sp_export_cert r' = [] \<or> sp_mode r' = ModePassthrough)"
    by (auto simp: check_route_def q_def [symmetric] split: sum.splits)
  also have "\<dots> \<longleftrightarrow> route_ok urlParse (with_defaults r) \<and> r' = with_defaults r"
    unfolding check_target_iff wd [symmetric]
    by (auto simp: route_ok_def ModeTerminate_def ModePassthrough_def wd simp del: contains.simps split: option.splits if_splits)
  finally show ?thesis .
qed

lemma check_routes_iff:
  "check_routes urlParse n rs = Inr rs' \<longleftrightarrow> (\<forall>r\<in>set rs. route_ok urlParse (with_defaults r)) \<and> rs' = map with_defaults rs"
proof (induction rs arbitrary: n rs')
  case (Cons r rs)
  have "check_routes urlParse n (r # rs) = Inr rs' \<longleftrightarrow>
      (\<exists>r' qs. check_route urlParse (n + 1) r = Inr r' \<and> check_routes urlParse (n + 1) rs = Inr qs \<and> rs' = r' # qs)"
    by (auto split: sum.splits)
  then show ?case unfolding check_route_iff Cons.IH by auto
qed auto

text \<open>What a file already says is not changed.\<close>

lemma with_defaults_again: "with_defaults (with_defaults r) = with_defaults r"
proof -
  have "contains (''http://'' @ x) ''://''" for x by (simp add: has_prefix_def)
  then show ?thesis by (auto simp: with_defaults_def simp del: contains.simps)
qed

section \<open>The names of the routes\<close>

lemma resolve_name_in_domain:
  assumes "resolve_name domain host h = Inr k"
  shows "in_domain domain k"
proof -
  have base: "in_domain domain domain" by (simp add: in_domain_def)
  have below: "in_domain domain (h @ CHR ''.'' # domain)" for h using in_domain_below [OF base, of h] .
  consider "k = domain" | "k = h @ CHR ''.'' # domain" | "k = h" "has_suffix h (''.'' @ domain)"
    using assms by (auto simp: resolve_name_def split: if_splits)
  then show ?thesis
  proof cases
    case 3
    then obtain u where "k = u @ CHR ''.'' # domain" by (auto simp: has_suffix_iff)
    then show ?thesis using below by simp
  qed (simp_all add: base below)
qed

lemma resolve_host_in_domain:
  assumes "resolve_host domain host = Inr k"
  shows "in_domain domain k"
proof -
  obtain star h h' where h: "resolve_star domain (to_lower (trim_suffix host ''.'')) = Some (star, h)"
    "resolve_name domain host h = Inr h'" "k = star @ h'"
    using assms by (auto simp: resolve_host_def split: option.splits sum.splits)
  have "in_domain domain h'" by (rule resolve_name_in_domain [OF h(2)])
  moreover have "in_domain domain (''*'' @ CHR ''.'' # h')" using calculation by (rule in_domain_below)
  moreover have "star = [] \<or> star = ''*.''" using h(1) by (auto simp: resolve_star_def Let_def split: if_splits)
  ultimately show ?thesis using h(3) by auto
qed

text \<open>The loop gives each route its name, and stops at a bad or a repeated one.\<close>

lemma resolve_loop_iff:
  "resolve_loop domain specs out = Inr t \<longleftrightarrow>
    (\<exists>names. map (\<lambda>r. resolve_host domain (sp_host r)) specs = map Inr names \<and> distinct names \<and>
       set names \<inter> dom out = {} \<and> t = out ++ map_of (zip names specs))"
proof (induction specs arbitrary: out)
  case (Cons r specs)
  show ?case (is "?l \<longleftrightarrow> ?r")
  proof
    assume ?l
    then obtain h where h: "resolve_host domain (sp_host r) = Inr h" "out h = None"
      "resolve_loop domain specs (out(h \<mapsto> r)) = Inr t"
      by (auto split: sum.splits if_splits)
    then obtain names where n: "map (\<lambda>r. resolve_host domain (sp_host r)) specs = map Inr names" "distinct names"
      "set names \<inter> dom (out(h \<mapsto> r)) = {}" "t = out(h \<mapsto> r) ++ map_of (zip names specs)"
      unfolding Cons.IH by blast
    have len: "length names = length specs" using n(1) by (metis length_map)
    have "h \<notin> set names" using n(3) by auto
    then have "map_of (zip names specs) h = None" using len by (auto simp: map_of_eq_None_iff dest: set_zip_leftD)
    then have "t = out ++ map_of (zip (h # names) (r # specs))"
      by (simp add: n(4) domIff map_add_upd_left)
    moreover have "set (h # names) \<inter> dom out = {}" "distinct (h # names)"
      "map (\<lambda>r. resolve_host domain (sp_host r)) (r # specs) = map Inr (h # names)"
      using h n(1-3) by (auto simp: domIff)
    ultimately show ?r by blast
  next
    assume ?r
    then obtain names where n: "map (\<lambda>r. resolve_host domain (sp_host r)) (r # specs) = map Inr names" "distinct names"
      "set names \<inter> dom out = {}" "t = out ++ map_of (zip names (r # specs))"
      by blast
    then obtain h hs where c: "names = h # hs" by (cases names) auto
    with n have h: "resolve_host domain (sp_host r) = Inr h" "out h = None" by auto
    have len: "length hs = length specs" using n(1) c by (metis length_Cons length_map Suc_inject)
    have "map_of (zip hs specs) h = None" using n(2) c len by (auto simp: map_of_eq_None_iff dest: set_zip_leftD)
    then have "t = out(h \<mapsto> r) ++ map_of (zip hs specs)"
      using n(4) c by (simp add: domIff map_add_upd_left)
    moreover have "set hs \<inter> dom (out(h \<mapsto> r)) = {}" using n(2,3) c by auto
    ultimately have "resolve_loop domain specs (out(h \<mapsto> r)) = Inr t"
      unfolding Cons.IH using n(1,2) c by auto
    then show ?l using h by simp
  qed
qed auto

lemma Resolve_iff:
  "Resolve specs domain = Inr t \<longleftrightarrow>
    (\<exists>names. map (\<lambda>r. resolve_host domain (sp_host r)) specs = map Inr names \<and> distinct names \<and> t = map_of (zip names specs))"
  by (simp add: Resolve_def resolve_loop_iff)

lemma Resolve_routes:
  assumes "Resolve specs domain = Inr t"
  shows "t k = Some r \<longleftrightarrow> r \<in> set specs \<and> resolve_host domain (sp_host r) = Inr k"
proof -
  obtain names where n: "map (\<lambda>r. resolve_host domain (sp_host r)) specs = map Inr names" "distinct names"
    "t = map_of (zip names specs)"
    using assms unfolding Resolve_iff by blast
  have len: "length names = length specs" using n(1) by (metis length_map)
  have nth: "resolve_host domain (sp_host (specs ! i)) = Inr (names ! i)" if "i < length specs" for i
    using arg_cong [OF n(1), of "\<lambda>l. l ! i"] that len by simp
  have "t k = Some r \<longleftrightarrow> (\<exists>i < length specs. names ! i = k \<and> specs ! i = r)"
    using n(2,3) len by (simp add: map_of_eq_Some_iff in_set_zip) auto
  also have "\<dots> \<longleftrightarrow> r \<in> set specs \<and> resolve_host domain (sp_host r) = Inr k"
    using nth by (auto simp: in_set_conv_nth)
  finally show ?thesis .
qed

lemma in_domain_star:
  assumes "in_domain domain (''*.'' @ p)" and "\<not> has_prefix domain ''*.''"
  shows "in_domain domain p"
proof -
  have "''*.'' @ p \<noteq> domain" using assms(2) has_prefix_append by metis
  then obtain u where u: "''*.'' @ p = u @ CHR ''.'' # domain" using assms(1) unfolding in_domain_def by blast
  then obtain v where "u = CHR ''*'' # v" by (cases u) auto
  with u have "CHR ''.'' # p = v @ CHR ''.'' # domain" by simp
  then show ?thesis unfolding in_domain_def by (cases v) auto
qed

lemma Match_in_domain:
  assumes "\<And>k. k \<in> dom t \<Longrightarrow> in_domain domain k" and "\<not> has_prefix domain ''*.''" and "Match t h = Some r"
  shows "in_domain domain h"
  using assms(3)
proof (cases rule: sni.hit_cases)
  case 1
  then show ?thesis using assms(1) by blast
next
  case (2 u p)
  then have "in_domain domain p" using assms(1) in_domain_star [OF _ assms(2)] by blast
  then show ?thesis using 2(1) in_domain_below by blast
qed

lemma in_domain_lowercase: "in_domain domain h \<Longrightarrow> lowercase h \<Longrightarrow> lowercase domain"
  by (auto simp: in_domain_def lowercase_def)

section \<open>Properties\<close>

text \<open>
  C29: LoadFile accepts a file exactly when it can be read and decoded and every route, with what
  it left out filled in (with_defaults), has a host, one of the two modes and a target the agent
  can use.  What it then returns is the file with these routes: in the file's order, the mode set
  to terminate where there was none, http:// put before a terminated route's target that names no
  scheme, and everything else, of the routes and of the file, as it was written.
\<close>
theorem LoadFile_routes_ok:
  "LoadFile getenv decode urlParse content = Inr f \<longleftrightarrow>
     (\<exists>raw g. content = Some raw \<and> decode (Expand getenv raw) = Inr g \<and>
        (\<forall>r\<in>set (fl_routes g). route_ok urlParse (with_defaults r)) \<and>
        f = g\<lparr>fl_routes := map with_defaults (fl_routes g)\<rparr>)"
proof -
  have "LoadFile getenv decode urlParse content = Inr f \<longleftrightarrow>
      (\<exists>raw g rs. content = Some raw \<and> decode (Expand getenv raw) = Inr g \<and>
         check_routes urlParse 0 (fl_routes g) = Inr rs \<and> f = g\<lparr>fl_routes := rs\<rparr>)"
    unfolding LoadFile_def by (auto split: option.splits sum.splits)
  then show ?thesis unfolding check_routes_iff by blast
qed

theorem LoadFile_routes_ok_witness:
  "\<exists>f. LoadFile (\<lambda>v. ''emqx'')
       (\<lambda>s. Inr \<lparr>fl_relay = s, fl_acme = \<lparr>acme_email = [], acme_ca = [], acme_trusted_roots = [], acme_dns_resolvers = []\<rparr>,
          fl_routes = [\<lparr>sp_host = ''m'', sp_mode = [], sp_to = ''b:1'', sp_proxy_protocol = True, sp_export_cert = []\<rparr>]\<rparr>)
       (\<lambda>_. Some \<lparr>url_scheme = ''http'', url_host = ''b:1''\<rparr>) (Some ''a${B}.$'') = Inr f \<and> fl_relay f = ''aemqx.$'' \<and>
     fl_routes f = [\<lparr>sp_host = ''m'', sp_mode = ''terminate'', sp_to = ''http://b:1'', sp_proxy_protocol = True, sp_export_cert = []\<rparr>]"
proof -
  have "Expand (\<lambda>v. ''emqx'') ''a${B}.$'' = ''aemqx.$''"
    by (simp add: getShellName_def isShellSpecialVar_def)
  moreover have "\<not> contains ''b:1'' ''://''" by code_simp
  ultimately show ?thesis unfolding LoadFile_routes_ok
    by (simp add: route_ok_def with_defaults_def del: contains.simps Expand.simps)
qed

text \<open>
  C30: Resolve is exactly its specification, whatever the order of the routes: it succeeds if
  and only if every host is acceptable and no two resolve to the same name, and then each name
  is mapped to its route and no other name is.
\<close>
theorem Resolve_exact:
  "((\<exists>t. Resolve specs domain = Inr t) \<longleftrightarrow>
     (\<exists>names. map (\<lambda>r. resolve_host domain (sp_host r)) specs = map Inr names \<and> distinct names)) \<and>
   (\<forall>t. Resolve specs domain = Inr t \<longrightarrow>
     (\<forall>k r. t k = Some r \<longleftrightarrow> r \<in> set specs \<and> resolve_host domain (sp_host r) = Inr k) \<and>
     (\<forall>k. k \<in> dom t \<longrightarrow> in_domain domain k))"
proof (intro conjI allI impI)
  fix t k assume t: "Resolve specs domain = Inr t"
  show "t k = Some r \<longleftrightarrow> r \<in> set specs \<and> resolve_host domain (sp_host r) = Inr k" for r
    by (rule Resolve_routes [OF t])
  show "in_domain domain k" if "k \<in> dom t"
    using that resolve_host_in_domain Resolve_routes [OF t] by blast
qed (auto simp: Resolve_iff)

text \<open>The example of the tests: a relative host, the domain, a wildcard.\<close>

definition spec_of :: "string \<Rightarrow> RouteSpec" where
  "spec_of h = \<lparr>sp_host = h, sp_mode = ModePassthrough, sp_to = ''b:1'', sp_proxy_protocol = False, sp_export_cert = []\<rparr>"

theorem Resolve_exact_witness:
  "\<exists>t. Resolve [spec_of ''MQTT'', spec_of ''@'', spec_of ''*.dev''] ''a.b'' = Inr t \<and> t ''*.dev.a.b'' = Some (spec_of ''*.dev'')"
proof -
  have names: "map (\<lambda>r. resolve_host ''a.b'' (sp_host r)) [spec_of ''MQTT'', spec_of ''@'', spec_of ''*.dev''] =
      map Inr [''mqtt.a.b'', ''a.b'', ''*.dev.a.b'']"
    by code_simp
  note exact = Resolve_exact [of "[spec_of ''MQTT'', spec_of ''@'', spec_of ''*.dev'']" "''a.b''"]
  have "distinct [''mqtt.a.b'', ''a.b'', ''*.dev.a.b'']" by simp
  with exact names obtain t where t: "Resolve [spec_of ''MQTT'', spec_of ''@'', spec_of ''*.dev''] ''a.b'' = Inr t" by blast
  moreover have "resolve_host ''a.b'' (sp_host (spec_of ''*.dev'')) = Inr ''*.dev.a.b''" using names by simp
  ultimately show ?thesis using exact by auto
qed

text \<open>
  A domain with an upper-case letter: the relay lower-cases the names it routes, so no route of
  the agent is ever matched.
\<close>

lemma uppercase_domain_unserved:
  assumes "Resolve specs domain = Inr t" and "\<not> lowercase domain" and "\<not> has_prefix domain ''*.''"
  shows "Match t (to_lower host) = None"
proof (rule ccontr)
  assume "Match t (to_lower host) \<noteq> None"
  then obtain r where r: "Match t (to_lower host) = Some r" by blast
  have "in_domain domain k" if "k \<in> dom t" for k
    using that resolve_host_in_domain Resolve_routes [OF assms(1)] by blast
  from Match_in_domain [OF this assms(3) r] show False
    using in_domain_lowercase assms(2) lowercase_to_lower by blast
qed

text \<open>A host that is one dot passes LoadFile and resolves to a name that begins with a dot.\<close>

lemma resolve_dot: "resolve_host domain ''.'' = Inr (CHR ''.'' # domain)"
  by (simp add: resolve_host_def resolve_star_def resolve_name_def trim_suffix_def has_suffix_def has_prefix_def)

end
