(* ===== verification/Agent_Terminate.thy ===== *)
theory Agent_Terminate
  imports Agent_Config "HOL-Library.Multiset"
begin

text \<open>
  internal/agent/terminate.go and acme.go: the routes whose TLS the agent itself terminates.
  newTerminator sorts them into HTTP and TCP targets and into hosts whose certificate is got by
  TLS-ALPN-01 and wildcards, which need DNS-01; handle sends each connection to its backend.
  Obtaining certificates is certmagic's: the model keeps the configuration of its issuers and
  takes as arguments whether it accepts the hosts (manage) and what certificate it has.
\<close>

section \<open>Roots of trust and issuers\<close>

datatype roots_error = RootsUnreadable | RootsEmpty

text \<open>An empty path means the roots of the system; parsePEM is AppendCertsFromPEM.\<close>

definition loadTrustedRoots ::
  "(string \<Rightarrow> bytes option) \<Rightarrow> (bytes \<Rightarrow> 'roots option) \<Rightarrow> string \<Rightarrow> roots_error + 'roots option" where
  "loadTrustedRoots readFile parsePEM path =
     (if path = [] then Inr None
      else case readFile path of
             None \<Rightarrow> Inl RootsUnreadable
           | Some pem \<Rightarrow> (case parsePEM pem of None \<Rightarrow> Inl RootsEmpty | Some roots \<Rightarrow> Inr (Some roots)))"

text \<open>The resolvers are present when the issuer has a DNS-01 solver.\<close>

record 'roots acme_issuer =
  iss_ca :: string
  iss_email :: string
  iss_disable_http :: bool
  iss_disable_alpn :: bool
  iss_roots :: "'roots option"
  iss_dns01 :: "string list option"

definition alpn_issuer :: "ACME \<Rightarrow> 'roots option \<Rightarrow> 'roots acme_issuer" where
  "alpn_issuer acme roots =
     \<lparr>iss_ca = CAOrDefault acme, iss_email = acme_email acme, iss_disable_http = True, iss_disable_alpn = False,
      iss_roots = roots, iss_dns01 = None\<rparr>"

definition dns01_issuer :: "ACME \<Rightarrow> 'roots option \<Rightarrow> 'roots acme_issuer" where
  "dns01_issuer acme roots =
     \<lparr>iss_ca = CAOrDefault acme, iss_email = acme_email acme, iss_disable_http = True, iss_disable_alpn = True,
      iss_roots = roots, iss_dns01 = Some (acme_dns_resolvers acme)\<rparr>"

section \<open>newTerminator\<close>

record 'roots terminator =
  tm_proxies :: "string \<rightharpoonup> url"
  tm_tcp_targets :: "string \<rightharpoonup> string"
  tm_normal :: "string list \<times> 'roots acme_issuer"
  tm_wildcard :: "(string list \<times> 'roots acme_issuer) option"

datatype terminator_error = BadDestination string | TermRoots roots_error | ManageFailed

text \<open>The loop over the routes, which Go takes in any order: the hosts to terminate.\<close>

fun collect_routes ::
  "(string \<Rightarrow> url option) \<Rightarrow> (string \<rightharpoonup> RouteSpec) \<Rightarrow> string list \<Rightarrow>
   string list \<times> (string \<rightharpoonup> url) \<times> (string \<rightharpoonup> string) \<Rightarrow>
   terminator_error + string list \<times> (string \<rightharpoonup> url) \<times> (string \<rightharpoonup> string)" where
  "collect_routes urlParse routes [] acc = Inr acc"
| "collect_routes urlParse routes (host # order) (hosts, proxies, tcp) =
     (case routes host of
        None \<Rightarrow> collect_routes urlParse routes order (hosts, proxies, tcp)
      | Some r \<Rightarrow>
          if sp_mode r \<noteq> ModeTerminate then collect_routes urlParse routes order (hosts, proxies, tcp)
          else case urlParse (sp_to r) of
                 None \<Rightarrow> Inl (BadDestination host)
               | Some target \<Rightarrow>
                   if url_scheme target = ''tcp''
                   then collect_routes urlParse routes order (hosts @ [host], proxies, tcp(host \<mapsto> url_host target))
                   else collect_routes urlParse routes order (hosts @ [host], proxies(host \<mapsto> target), tcp))"

definition newTerminator ::
  "(string \<Rightarrow> url option) \<Rightarrow> (string \<Rightarrow> bytes option) \<Rightarrow> (bytes \<Rightarrow> 'roots option) \<Rightarrow> (string list \<Rightarrow> bool) \<Rightarrow>
   string list \<Rightarrow> (string \<rightharpoonup> RouteSpec) \<Rightarrow> ACME \<Rightarrow> terminator_error + 'roots terminator option" where
  "newTerminator urlParse readFile parsePEM manage order routes acme =
     (case collect_routes urlParse routes order ([], Map.empty, Map.empty) of
        Inl e \<Rightarrow> Inl e
      | Inr (hosts, proxies, tcp) \<Rightarrow>
          if hosts = [] then Inr None
          else
            let sorted_hosts = sort hosts;
                wildcards = filter (\<lambda>h. has_prefix h ''*.'') sorted_hosts;
                normals = filter (\<lambda>h. \<not> has_prefix h ''*.'') sorted_hosts
            in (case loadTrustedRoots readFile parsePEM (acme_trusted_roots acme) of
                  Inl e \<Rightarrow> Inl (TermRoots e)
                | Inr roots \<Rightarrow>
                    if \<not> manage normals then Inl ManageFailed
                    else if wildcards \<noteq> [] \<and> \<not> manage wildcards then Inl ManageFailed
                    else Inr (Some \<lparr>tm_proxies = proxies, tm_tcp_targets = tcp, tm_normal = (normals, alpn_issuer acme roots),
                           tm_wildcard = (if wildcards = [] then None else Some (wildcards, dns01_issuer acme roots))\<rparr>)))"

text \<open>The certificate for a ClientHello: the concrete hosts first, then the wildcards if any.\<close>

definition GetCertificate :: "('hello \<Rightarrow> 'cert option) \<Rightarrow> ('hello \<Rightarrow> 'cert option) \<Rightarrow> 'roots terminator \<Rightarrow> 'hello \<Rightarrow> 'cert option" where
  "GetCertificate getCert wildcardGetCert t hello =
     (case getCert hello of
        Some cert \<Rightarrow> Some cert
      | None \<Rightarrow> if tm_wildcard t = None then None else wildcardGetCert hello)"

definition sortedKeys :: "(string \<rightharpoonup> 'v) \<Rightarrow> string list" where
  "sortedKeys m = sorted_list_of_set (dom m)"

section \<open>HTTP\<close>

text \<open>
  What the reverse proxy sends: the target replaces scheme and host of the URL, the Host header
  stays the visitor's, and the X-Forwarded headers are set anew (the incoming ones were removed).
\<close>

record proxied =
  px_target :: url
  px_host :: string
  px_forwarded_for :: "string option"
  px_forwarded_host :: string
  px_forwarded_proto :: string

definition rewrite :: "url \<Rightarrow> string \<Rightarrow> string \<Rightarrow> proxied" where
  "rewrite target inHost remoteAddr =
     \<lparr>px_target = target, px_host = inHost, px_forwarded_for = map_option fst (SplitHostPort remoteAddr),
      px_forwarded_host = inHost, px_forwarded_proto = ''https''\<rparr>"

datatype http_outcome = Misdirected | Proxied proxied

definition term_serveHTTP :: "'roots terminator \<Rightarrow> string \<Rightarrow> string \<Rightarrow> http_outcome" where
  "term_serveHTTP t reqHost remoteAddr =
     (let host = to_lower reqHost;
          host' = (case SplitHostPort host of Some (h, port) \<Rightarrow> h | None \<Rightarrow> host)
      in case Match (tm_proxies t) host' of
           None \<Rightarrow> Misdirected
         | Some target \<Rightarrow> Proxied (rewrite target reqHost remoteAddr))"

section \<open>Connections\<close>

text \<open>
  handle: the connection goes to a TCP backend (after the handshake and the dial) or to the
  HTTP server, whose listener may already be closed.
\<close>

datatype term_outcome = TermClosed | TermTCP string | TermHTTP

definition handleTCP :: "bool \<Rightarrow> (string \<Rightarrow> bool) \<Rightarrow> string \<Rightarrow> term_outcome" where
  "handleTCP handshakeOk dialTCP target =
     (if \<not> handshakeOk then TermClosed else if \<not> dialTCP target then TermClosed else TermTCP target)"

definition term_handle :: "bool \<Rightarrow> (string \<Rightarrow> bool) \<Rightarrow> bool \<Rightarrow> string \<Rightarrow> 'roots terminator \<Rightarrow> term_outcome" where
  "term_handle handshakeOk dialTCP pushed host t =
     (case Match (tm_tcp_targets t) host of
        Some target \<Rightarrow> handleTCP handshakeOk dialTCP target
      | None \<Rightarrow> if \<not> pushed then TermClosed else TermHTTP)"

subsection \<open>The listener fed by hand\<close>

text \<open>
  A push waits until an Accept takes its connection or the listener is closed; the channel has
  no buffer.  Connections are numbered; a refused one is closed by handle.
\<close>

record chan_listener =
  cl_waiting :: "nat list"
  cl_accepted :: "nat list"
  cl_refused :: "nat list"
  cl_done :: bool

definition newChanListener :: chan_listener where
  "newChanListener = \<lparr>cl_waiting = [], cl_accepted = [], cl_refused = [], cl_done = False\<rparr>"

inductive chan_step :: "chan_listener \<Rightarrow> chan_listener \<Rightarrow> bool" where
  push: "chan_step l (l\<lparr>cl_waiting := c # cl_waiting l\<rparr>)"
| accept: "cl_waiting l = as @ c # bs \<Longrightarrow>
    chan_step l (l\<lparr>cl_waiting := as @ bs, cl_accepted := c # cl_accepted l\<rparr>)"
| refuse: "cl_done l \<Longrightarrow> cl_waiting l = as @ c # bs \<Longrightarrow>
    chan_step l (l\<lparr>cl_waiting := as @ bs, cl_refused := c # cl_refused l\<rparr>)"
| close: "chan_step l (l\<lparr>cl_done := True\<rparr>)"

inductive_cases chan_stepE: "chan_step l l'"

text \<open>No connection is lost or delivered twice, and none is refused while the listener is open.\<close>

definition chan_conns :: "chan_listener \<Rightarrow> nat multiset" where
  "chan_conns l = mset (cl_waiting l) + mset (cl_accepted l) + mset (cl_refused l)"

lemma chan_step_conserves:
  assumes "chan_step l l'"
  shows "(\<exists>c. chan_conns l' = add_mset c (chan_conns l)) \<or> chan_conns l' = chan_conns l"
  using assms
proof cases
  case (push c)
  then show ?thesis by (auto simp: chan_conns_def)
qed (simp_all add: chan_conns_def)

lemma chan_step_refused: "chan_step l l' \<Longrightarrow> (cl_refused l \<noteq> [] \<Longrightarrow> cl_done l) \<Longrightarrow> cl_refused l' \<noteq> [] \<Longrightarrow> cl_done l'"
  by (erule chan_stepE) simp_all

section \<open>Facts\<close>

text \<open>A table that keeps some entries of another and renames their values: the first entry that
  matches is the same when it is kept.\<close>

lemma Match_kept:
  assumes "\<And>k. t' k = Option.bind (t k) f" and "Match t h = Some r" and "f r = Some x"
  shows "Match t' h = Some x"
proof -
  obtain as k bs where c: "candidates h = as @ k # bs" "t k = Some r" "\<forall>a\<in>set as. t a = None"
    using assms(2) unfolding Match_first_hit first_hit_Some by blast
  then have "t' k = Some x" "\<forall>a\<in>set as. t' a = None" using assms(1,3) by simp_all
  then show ?thesis unfolding Match_first_hit first_hit_Some using c(1) by blast
qed

definition http_target :: "(string \<Rightarrow> url option) \<Rightarrow> RouteSpec \<Rightarrow> url option" where
  "http_target urlParse r =
     (if sp_mode r = ModeTerminate then
        (case urlParse (sp_to r) of Some u \<Rightarrow> if url_scheme u = ''tcp'' then None else Some u | None \<Rightarrow> None)
      else None)"

definition tcp_target :: "(string \<Rightarrow> url option) \<Rightarrow> RouteSpec \<Rightarrow> string option" where
  "tcp_target urlParse r =
     (if sp_mode r = ModeTerminate then
        (case urlParse (sp_to r) of Some u \<Rightarrow> if url_scheme u = ''tcp'' then Some (url_host u) else None | None \<Rightarrow> None)
      else None)"

definition terminated :: "(string \<rightharpoonup> RouteSpec) \<Rightarrow> string \<Rightarrow> bool" where
  "terminated routes h \<longleftrightarrow> (\<exists>r. routes h = Some r \<and> sp_mode r = ModeTerminate)"

lemma collect_routes_result:
  assumes "collect_routes urlParse routes order (hosts, proxies, tcp) = Inr (hosts', proxies', tcp')"
  shows "hosts' = hosts @ filter (terminated routes) order \<and>
    proxies' = (\<lambda>k. if k \<in> set order then (case Option.bind (routes k) (http_target urlParse) of Some u \<Rightarrow> Some u | None \<Rightarrow> proxies k) else proxies k) \<and>
    tcp' = (\<lambda>k. if k \<in> set order then (case Option.bind (routes k) (tcp_target urlParse) of Some u \<Rightarrow> Some u | None \<Rightarrow> tcp k) else tcp k)"
  using assms
proof (induction order arbitrary: hosts proxies tcp)
  case (Cons h order)
  show ?case
  proof (cases "terminated routes h")
    case False
    then have "collect_routes urlParse routes order (hosts, proxies, tcp) = Inr (hosts', proxies', tcp')"
      using Cons.prems by (auto simp: terminated_def split: option.splits if_splits)
    from Cons.IH [OF this] show ?thesis using False
      by (auto simp: terminated_def http_target_def tcp_target_def fun_eq_iff split: option.splits bind_splits)
  next
    case True
    then obtain r u where r: "routes h = Some r" "sp_mode r = ModeTerminate" "urlParse (sp_to r) = Some u"
      using Cons.prems by (auto simp: terminated_def split: option.splits if_splits)
    show ?thesis
    proof (cases "url_scheme u = ''tcp''")
      case tcp: True
      then have "collect_routes urlParse routes order (hosts @ [h], proxies, tcp(h \<mapsto> url_host u)) = Inr (hosts', proxies', tcp')"
        using Cons.prems r by simp
      from Cons.IH [OF this] show ?thesis using True r tcp
        by (auto simp: http_target_def tcp_target_def fun_eq_iff split: option.splits)
    next
      case http: False
      then have "collect_routes urlParse routes order (hosts @ [h], proxies(h \<mapsto> u), tcp) = Inr (hosts', proxies', tcp')"
        using Cons.prems r by simp
      from Cons.IH [OF this] show ?thesis using True r http
        by (auto simp: http_target_def tcp_target_def fun_eq_iff split: option.splits)
    qed
  qed
qed simp

lemma collect_routes_ok:
  "(\<exists>x. collect_routes urlParse routes order acc = Inr x) \<longleftrightarrow>
    (\<forall>h\<in>set order. \<forall>r. routes h = Some r \<longrightarrow> sp_mode r = ModeTerminate \<longrightarrow> urlParse (sp_to r) \<noteq> None)"
  by (induction urlParse routes order acc rule: collect_routes.induct) (auto split: option.splits)

lemma collect_routes_order:
  assumes "collect_routes urlParse routes order ([], Map.empty, Map.empty) = Inr (hosts, proxies, tcp)"
    and "mset order' = mset order"
  shows "\<exists>hosts'. collect_routes urlParse routes order' ([], Map.empty, Map.empty) = Inr (hosts', proxies, tcp) \<and> mset hosts' = mset hosts"
proof -
  have set: "set order' = set order" using assms(2) by (rule mset_eq_setD)
  then obtain hosts' proxies' tcp' where c: "collect_routes urlParse routes order' ([], Map.empty, Map.empty) = Inr (hosts', proxies', tcp')"
    using collect_routes_ok [of urlParse routes order] collect_routes_ok [of urlParse routes order'] assms(1) by (metis prod_cases3)
  note r = collect_routes_result [OF assms(1)] and r' = collect_routes_result [OF c]
  have "mset hosts' = mset hosts" using r r' assms(2) by simp
  moreover have "proxies' = proxies" "tcp' = tcp" using r r' unfolding set by simp_all
  ultimately show ?thesis using c by blast
qed

lemma sort_mset: "mset xs = mset ys \<Longrightarrow> sort xs = sort ys" for xs :: "string list"
  using properties_for_sort [of "sort xs" ys] by simp

lemma newTerminator_Some:
  assumes "newTerminator urlParse readFile parsePEM manage order routes acme = Inr (Some t)" and "set order = dom routes"
  shows "tm_proxies t = (\<lambda>k. Option.bind (routes k) (http_target urlParse))"
    "tm_tcp_targets t = (\<lambda>k. Option.bind (routes k) (tcp_target urlParse))"
    "\<exists>roots. tm_normal t = (filter (\<lambda>h. \<not> has_prefix h ''*.'') (sort (filter (terminated routes) order)), alpn_issuer acme roots) \<and>
      tm_wildcard t = (case filter (\<lambda>h. has_prefix h ''*.'') (sort (filter (terminated routes) order)) of
        [] \<Rightarrow> None | ws \<Rightarrow> Some (ws, dns01_issuer acme roots))"
proof -
  obtain hosts proxies tcp where c: "collect_routes urlParse routes order ([], Map.empty, Map.empty) = Inr (hosts, proxies, tcp)"
    using assms(1) by (auto simp: newTerminator_def split: sum.splits)
  note r = collect_routes_result [OF c]
  have out: "routes k = None" if "k \<notin> set order" for k
    using that assms(2) by (simp add: domIff)
  have t: "tm_proxies t = proxies" "tm_tcp_targets t = tcp"
    "\<exists>roots. tm_normal t = (filter (\<lambda>h. \<not> has_prefix h ''*.'') (sort hosts), alpn_issuer acme roots) \<and>
      tm_wildcard t = (case filter (\<lambda>h. has_prefix h ''*.'') (sort hosts) of
        [] \<Rightarrow> None | ws \<Rightarrow> Some (ws, dns01_issuer acme roots))"
    using assms(1) c by (auto simp: newTerminator_def Let_def split: sum.splits if_splits list.splits)
  have all: "(if k \<in> set order then (case Option.bind (routes k) (http_target urlParse) of Some u \<Rightarrow> Some u | None \<Rightarrow> Map.empty k) else Map.empty k) =
      Option.bind (routes k) (http_target urlParse)"
    "(if k \<in> set order then (case Option.bind (routes k) (tcp_target urlParse) of Some u \<Rightarrow> Some u | None \<Rightarrow> Map.empty k) else Map.empty k) =
      Option.bind (routes k) (tcp_target urlParse)" for k
    using out [of k] by (auto split: option.splits)
  show "tm_proxies t = (\<lambda>k. Option.bind (routes k) (http_target urlParse))"
    using r unfolding t(1) all by blast
  show "tm_tcp_targets t = (\<lambda>k. Option.bind (routes k) (tcp_target urlParse))"
    using r unfolding t(2) all by blast
  show "\<exists>roots. tm_normal t = (filter (\<lambda>h. \<not> has_prefix h ''*.'') (sort (filter (terminated routes) order)), alpn_issuer acme roots) \<and>
      tm_wildcard t = (case filter (\<lambda>h. has_prefix h ''*.'') (sort (filter (terminated routes) order)) of
        [] \<Rightarrow> None | ws \<Rightarrow> Some (ws, dns01_issuer acme roots))"
    using t(3) r by simp
qed

lemma newTerminator_None:
  assumes "newTerminator urlParse readFile parsePEM manage order routes acme = Inr None" and "set order = dom routes"
  shows "\<not> terminated routes h"
proof
  assume h: "terminated routes h"
  then have "h \<in> set order" using assms(2) by (auto simp: terminated_def)
  obtain proxies tcp where c: "collect_routes urlParse routes order ([], Map.empty, Map.empty) = Inr ([], proxies, tcp)"
    using assms(1) by (auto simp: newTerminator_def Let_def split: sum.splits if_splits)
  from collect_routes_result [OF c] have "filter (terminated routes) order = []" by simp
  with h \<open>h \<in> set order\<close> show False by (simp add: filter_empty_conv)
qed

lemma collect_routes_parse:
  assumes "newTerminator urlParse readFile parsePEM manage order routes acme = Inr t" and "set order = dom routes"
    and "routes h = Some r" and "sp_mode r = ModeTerminate"
  shows "urlParse (sp_to r) \<noteq> None"
proof -
  have "\<exists>x. collect_routes urlParse routes order ([], Map.empty, Map.empty) = Inr x"
    using assms(1) by (auto simp: newTerminator_def split: sum.splits)
  with assms(2-4) show ?thesis unfolding collect_routes_ok by blast
qed

section \<open>Properties\<close>

text \<open>
  Concrete hosts never depend on a DNS provider and wildcards always use one: the hosts
  whose certificates are managed are exactly the terminated routes, in order and without
  repetition, the concrete ones by an issuer limited to TLS-ALPN-01 and the wildcards by one
  limited to DNS-01; and none of it depends on the order in which Go visits the routes.
\<close>
theorem terminator_issuers:
  assumes "newTerminator urlParse readFile parsePEM manage order routes acme = Inr (Some t)"
    and "set order = dom routes" and "distinct order" and "mset order' = mset order"
  shows "newTerminator urlParse readFile parsePEM manage order' routes acme = Inr (Some t) \<and>
    (case tm_normal t of (hs, iss) \<Rightarrow> set hs = {h. terminated routes h \<and> \<not> has_prefix h ''*.''} \<and> sorted hs \<and> distinct hs \<and>
       iss_disable_http iss \<and> \<not> iss_disable_alpn iss \<and> iss_dns01 iss = None) \<and>
    (case tm_wildcard t of
       None \<Rightarrow> (\<forall>h. terminated routes h \<longrightarrow> \<not> has_prefix h ''*.'')
     | Some (hs, iss) \<Rightarrow> set hs = {h. terminated routes h \<and> has_prefix h ''*.''} \<and> sorted hs \<and> distinct hs \<and>
       iss_disable_http iss \<and> iss_disable_alpn iss \<and> iss_dns01 iss \<noteq> None)"
proof -
  let ?hs = "sort (filter (terminated routes) order)"
  have hs: "set ?hs = {h. terminated routes h}" "distinct ?hs" "sorted ?hs"
    using assms(2,3) by (auto simp: terminated_def)
  have parts: "set (filter P ?hs) = {h. terminated routes h \<and> P h}" "distinct (filter P ?hs)" "sorted (filter P ?hs)" for P
    using hs sorted_filter [of "\<lambda>x. x" ?hs P] by (auto simp del: set_sort)
  obtain roots where n: "tm_normal t = (filter (\<lambda>h. \<not> has_prefix h ''*.'') ?hs, alpn_issuer acme roots)"
    and w: "tm_wildcard t = (case filter (\<lambda>h. has_prefix h ''*.'') ?hs of [] \<Rightarrow> None | ws \<Rightarrow> Some (ws, dns01_issuer acme roots))"
    using newTerminator_Some(3) [OF assms(1,2)] by blast
  have order: "newTerminator urlParse readFile parsePEM manage order' routes acme = Inr (Some t)"
  proof -
    obtain hosts proxies tcp where c: "collect_routes urlParse routes order ([], Map.empty, Map.empty) = Inr (hosts, proxies, tcp)"
      using assms(1) by (auto simp: newTerminator_def split: sum.splits)
    from collect_routes_order [OF c assms(4)] obtain hosts'
      where c': "collect_routes urlParse routes order' ([], Map.empty, Map.empty) = Inr (hosts', proxies, tcp)" "mset hosts' = mset hosts"
      by blast
    from sort_mset [OF c'(2)] have "sort hosts' = sort hosts" .
    moreover have "hosts \<noteq> []" using assms(1) c by (auto simp: newTerminator_def)
    moreover have "hosts' \<noteq> []" using c'(2) \<open>hosts \<noteq> []\<close> by auto
    ultimately show ?thesis using assms(1) c c'(1) by (simp add: newTerminator_def)
  qed
  have normal: "case tm_normal t of (hs, iss) \<Rightarrow> set hs = {h. terminated routes h \<and> \<not> has_prefix h ''*.''} \<and> sorted hs \<and> distinct hs \<and>
      iss_disable_http iss \<and> \<not> iss_disable_alpn iss \<and> iss_dns01 iss = None"
    using parts [of "\<lambda>h. \<not> has_prefix h ''*.''"] by (simp add: n alpn_issuer_def)
  have "case tm_wildcard t of
       None \<Rightarrow> (\<forall>h. terminated routes h \<longrightarrow> \<not> has_prefix h ''*.'')
     | Some (hs, iss) \<Rightarrow> set hs = {h. terminated routes h \<and> has_prefix h ''*.''} \<and> sorted hs \<and> distinct hs \<and>
       iss_disable_http iss \<and> iss_disable_alpn iss \<and> iss_dns01 iss \<noteq> None"
  proof (cases "filter (\<lambda>h. has_prefix h ''*.'') ?hs")
    case Nil
    then show ?thesis using parts(1) [of "\<lambda>h. has_prefix h ''*.''"] by (auto simp: w)
  next
    case (Cons a as)
    then have "tm_wildcard t = Some (filter (\<lambda>h. has_prefix h ''*.'') ?hs, dns01_issuer acme roots)" by (simp add: w)
    then show ?thesis using parts [of "\<lambda>h. has_prefix h ''*.''"] by (simp add: dns01_issuer_def)
  qed
  with order normal show ?thesis by blast
qed

text \<open>
  C31: A connection whose route is terminated always finds the terminator, which was made, and
  ends at the target of that very route: always when the target is tcp, and when it is http
  provided no tcp wildcard covers the host too.
\<close>
theorem terminator_dispatch:
  assumes "newTerminator urlParse readFile parsePEM manage order routes acme = Inr term" and "set order = dom routes"
    and "Match routes host = Some r" and "sp_mode r = ModeTerminate"
    and "to_lower reqHost = host" and "CHR '':'' \<notin> set host"
  shows "\<exists>t u. term = Some t \<and> urlParse (sp_to r) = Some u \<and>
    (url_scheme u = ''tcp'' \<longrightarrow> term_handle hs dial pushed host t = handleTCP hs dial (url_host u)) \<and>
    (url_scheme u \<noteq> ''tcp'' \<and> Match (tm_tcp_targets t) host = None \<longrightarrow>
       term_handle hs dial pushed host t = (if pushed then TermHTTP else TermClosed) \<and>
       term_serveHTTP t reqHost remote = Proxied (rewrite u reqHost remote))"
proof -
  obtain k where k: "routes k = Some r"
    using assms(3) by (cases rule: sni.hit_cases) blast+
  have "\<not> (newTerminator urlParse readFile parsePEM manage order routes acme = Inr None)"
    using newTerminator_None [OF _ assms(2)] k assms(4) unfolding terminated_def by blast
  then obtain t where t: "term = Some t" using assms(1) by (cases "term") auto
  obtain u where u: "urlParse (sp_to r) = Some u"
    using collect_routes_parse [OF assms(1,2) k assms(4)] by blast
  note tables = newTerminator_Some(1,2) [OF assms(1) [unfolded t] assms(2)]
  have "Match (tm_tcp_targets t) host = Some (url_host u)" if "url_scheme u = ''tcp''"
    using that assms(4) u by (intro Match_kept [OF _ assms(3), where f = "tcp_target urlParse"]) (simp_all add: tables(2), simp add: tcp_target_def)
  moreover have "Match (tm_proxies t) host = Some u" if "url_scheme u \<noteq> ''tcp''"
    using that assms(4) u by (intro Match_kept [OF _ assms(3), where f = "http_target urlParse"]) (simp_all add: tables(1), simp add: http_target_def)
  ultimately show ?thesis
    using t u assms(5) SplitHostPort_no_colon [OF assms(6)] by (simp add: term_handle_def term_serveHTTP_def Let_def)
qed

text \<open>An example: an HTTP route below a tcp wildcard.\<close>

definition example_urls :: "string \<Rightarrow> url option" where
  "example_urls s = (if s = ''tcp://b:1'' then Some \<lparr>url_scheme = ''tcp'', url_host = ''b:1''\<rparr>
     else Some \<lparr>url_scheme = ''http'', url_host = s\<rparr>)"

definition term_spec :: "string \<Rightarrow> string \<Rightarrow> RouteSpec" where
  "term_spec h to = \<lparr>sp_host = h, sp_mode = ModeTerminate, sp_to = to, sp_proxy_protocol = False, sp_export_cert = []\<rparr>"

definition example_routes :: "string \<rightharpoonup> RouteSpec" where
  "example_routes = [''*.d'' \<mapsto> term_spec ''*'' ''tcp://b:1'', ''w.d'' \<mapsto> term_spec ''w'' ''http://w'']"

definition plain_acme :: ACME where
  "plain_acme = \<lparr>acme_email = [], acme_ca = [], acme_trusted_roots = [], acme_dns_resolvers = []\<rparr>"

definition example_terminator :: "unit terminator" where
  "example_terminator = \<lparr>tm_proxies = [''w.d'' \<mapsto> \<lparr>url_scheme = ''http'', url_host = ''http://w''\<rparr>], tm_tcp_targets = [''*.d'' \<mapsto> ''b:1''],
     tm_normal = ([''w.d''], alpn_issuer plain_acme None), tm_wildcard = Some ([''*.d''], dns01_issuer plain_acme None)\<rparr>"

lemma example_newTerminator:
  "newTerminator example_urls (\<lambda>_. None) (\<lambda>_. None) (\<lambda>_. True) [''w.d'', ''*.d''] example_routes plain_acme = Inr (Some example_terminator)"
proof -
  have c: "collect_routes example_urls example_routes [''w.d'', ''*.d''] ([], Map.empty, Map.empty) =
      Inr ([''w.d'', ''*.d''], tm_proxies example_terminator, tm_tcp_targets example_terminator)"
    by (simp add: example_routes_def example_urls_def term_spec_def example_terminator_def)
  moreover have "sort [''w.d'', ''*.d''] = [''*.d'', ''w.d'']" by code_simp
  ultimately show ?thesis
    by (simp add: newTerminator_def loadTrustedRoots_def plain_acme_def has_prefix_def Let_def example_terminator_def)
qed

lemma example_order: "set [''w.d'', ''*.d''] = dom example_routes"
  by (auto simp: example_routes_def)

theorem terminator_issuers_witness:
  "newTerminator example_urls (\<lambda>_. None) (\<lambda>_. None) (\<lambda>_. True) [''*.d'', ''w.d''] example_routes plain_acme = Inr (Some example_terminator)"
  using terminator_issuers [OF example_newTerminator example_order, of "[''*.d'', ''w.d'']"] by simp

lemma example_match: "Match example_routes ''x.d'' = Some (term_spec ''*'' ''tcp://b:1'')"
  "Match example_routes ''w.d'' = Some (term_spec ''w'' ''http://w'')"
  by (simp_all add: Match_first_hit candidates_def example_routes_def)

theorem terminator_dispatch_witness:
  "term_handle True (\<lambda>_. True) True ''x.d'' example_terminator = TermTCP ''b:1''"
proof -
  have "sp_mode (term_spec ''*'' ''tcp://b:1'') = ModeTerminate" by (simp add: term_spec_def)
  moreover have "to_lower ''x.d'' = ''x.d''" by code_simp
  ultimately show ?thesis
    using terminator_dispatch [OF example_newTerminator example_order example_match(1), of "''x.d''" True "\<lambda>_. True" True "[]"]
    by (simp add: handleTCP_def example_urls_def term_spec_def)
qed

text \<open>
  The exception is real: the exact route of w.d is http, yet its connections are handed raw to
  the tcp backend of the wildcard.
\<close>

lemma tcp_wildcard_captures_exact_route:
  "Match example_routes ''w.d'' = Some (term_spec ''w'' ''http://w'') \<and>
   term_handle True (\<lambda>_. True) True ''w.d'' example_terminator = TermTCP ''b:1''"
  using example_match by (simp add: term_handle_def handleTCP_def example_terminator_def Match_first_hit candidates_def)

end
