(* ===== verification/Agent_Storage.thy ===== *)
theory Agent_Storage
  imports Url Agent_Config Api_Props Api_Client
begin

text \<open>
  internal/agent/storage.go: the agent's store of certificates, kept by the control plane and
  encrypted by the agent.  The cipher is crypto/cipher's AES-GCM, an argument: its Seal and Open
  under the key derived from the token.  Each operation is the request it sends and what it
  makes of the reply.  The lock is a step relation on the goroutines that call it.
\<close>

section \<open>State\<close>

record aead =
  ae_nonce_size :: nat
  ae_seal :: "bytes \<Rightarrow> bytes \<Rightarrow> bytes \<Rightarrow> bytes"
  ae_open :: "bytes \<Rightarrow> bytes \<Rightarrow> bytes \<Rightarrow> bytes option"

text \<open>
  What GCM documents: Open accepts a ciphertext for a nonce and associated data exactly when
  it is what Seal makes of the plaintext it returns.
\<close>

definition aead_contract :: "aead \<Rightarrow> bool" where
  "aead_contract a \<longleftrightarrow> (\<forall>n c d p. ae_open a n c d = Some p \<longleftrightarrow> c = ae_seal a n p d)"

record agent_storage =
  as_api :: Client
  as_aead :: aead

definition newStorage :: "(bytes \<Rightarrow> aead) \<Rightarrow> Client \<Rightarrow> Token \<Rightarrow> agent_storage" where
  "newStorage gcm api tok = \<lparr>as_api = api, as_aead = gcm (DeriveKey tok ''cert storage'')\<rparr>"

section \<open>Paths\<close>

definition storage_path :: "string \<Rightarrow> string" where
  "storage_path key = ''/v1/agent/storage/'' @ join_with ''/'' (map PathEscape (split_on CHR ''/'' key))"

section \<open>Encryption\<close>

text \<open>The blob is the nonce (fresh random bytes, an argument) and the sealed value; the key's
  name is authenticated with it.\<close>

definition seal :: "agent_storage \<Rightarrow> bytes \<Rightarrow> string \<Rightarrow> bytes \<Rightarrow> bytes" where
  "seal st nonce key plain = nonce @ ae_seal (as_aead st) nonce plain (bytes_of key)"

datatype storage_error = BlobTooShort | CannotDecrypt | ErrNotExist | ApiFailure client_error

definition open_blob :: "agent_storage \<Rightarrow> string \<Rightarrow> bytes \<Rightarrow> storage_error + bytes" where
  "open_blob st key blob =
     (let n = ae_nonce_size (as_aead st)
      in if length blob < n then Inl BlobTooShort
         else case ae_open (as_aead st) (take n blob) (drop n blob) (bytes_of key) of
                None \<Rightarrow> Inl CannotDecrypt
              | Some plain \<Rightarrow> Inr plain)"

definition notExist :: "client_error \<Rightarrow> storage_error" where
  "notExist e = (if Code e = proto_ErrNotFound then ErrNotExist else ApiFailure e)"

section \<open>Operations\<close>

definition Store_request :: "agent_storage \<Rightarrow> bytes \<Rightarrow> string \<Rightarrow> bytes \<Rightarrow> bytes http_request" where
  "Store_request st nonce key val = raw_request (as_api st) ''PUT'' (storage_path key) (seal st nonce key val)"

definition Store_result :: "bytes http_reply option \<Rightarrow> storage_error + unit" where
  "Store_result reply = (case Raw reply of Inl e \<Rightarrow> Inl (ApiFailure e) | Inr _ \<Rightarrow> Inr ())"

definition Load_request :: "agent_storage \<Rightarrow> string \<Rightarrow> bytes http_request" where
  "Load_request st key = raw_request (as_api st) ''GET'' (storage_path key) []"

definition Load_result :: "agent_storage \<Rightarrow> string \<Rightarrow> bytes http_reply option \<Rightarrow> storage_error + bytes" where
  "Load_result st key reply =
     (case Raw reply of Inl e \<Rightarrow> Inl (notExist e) | Inr (blob, _, _) \<Rightarrow> open_blob st key blob)"

definition Delete_request :: "agent_storage \<Rightarrow> string \<Rightarrow> bytes http_request" where
  "Delete_request st key = raw_request (as_api st) ''DELETE'' (storage_path key) []"

definition Delete_result :: "bytes http_reply option \<Rightarrow> storage_error + unit" where
  "Delete_result reply = (case Raw reply of Inl e \<Rightarrow> Inl (notExist e) | Inr _ \<Rightarrow> Inr ())"

definition Stat_request :: "agent_storage \<Rightarrow> string \<Rightarrow> bytes http_request" where
  "Stat_request st key = raw_request (as_api st) ''HEAD'' (storage_path key) []"

definition Exists_result :: "bytes http_reply option \<Rightarrow> bool" where
  "Exists_result reply = (case Raw reply of Inl e \<Rightarrow> False | Inr _ \<Rightarrow> True)"

record key_info =
  ki_key :: string
  ki_modified :: "instant option"
  ki_size :: int
  ki_is_terminal :: bool

text \<open>Headers that are missing or do not parse leave the zero time and the size 0.\<close>

definition Stat_result :: "string \<Rightarrow> bytes http_reply option \<Rightarrow> storage_error + key_info" where
  "Stat_result key reply =
     (case Raw reply of
        Inl e \<Rightarrow> Inl (notExist e)
      | Inr (_, modified, len) \<Rightarrow>
          Inr \<lparr>ki_key = key, ki_modified = modified, ki_size = (case len of Some n \<Rightarrow> int n | None \<Rightarrow> 0), ki_is_terminal = True\<rparr>)"

section \<open>Listing\<close>

text \<open>One turn of the loop of childKeys: the key it adds, if any.\<close>

definition child_of :: "string \<Rightarrow> bool \<Rightarrow> string \<Rightarrow> string option" where
  "child_of base recursive k =
     (case (if base = [] then Some k else cut_prefix k (base @ ''/'')) of
        None \<Rightarrow> None
      | Some rest \<Rightarrow>
          if rest = [] then None
          else if recursive then Some k
          else
            let seg = (case index_byte rest CHR ''/'' of Some i \<Rightarrow> take i rest | None \<Rightarrow> rest)
            in Some (if base = [] then seg else base @ ''/'' @ seg))"

fun childKeys_loop :: "string \<Rightarrow> bool \<Rightarrow> string list \<Rightarrow> string list \<Rightarrow> string list" where
  "childKeys_loop base recursive [] out = out"
| "childKeys_loop base recursive (k # ks) out =
     (case child_of base recursive k of
        None \<Rightarrow> childKeys_loop base recursive ks out
      | Some key \<Rightarrow> childKeys_loop base recursive ks (if key \<in> set out then out else out @ [key]))"

definition childKeys :: "string list \<Rightarrow> string \<Rightarrow> bool \<Rightarrow> string list" where
  "childKeys keys prefix recursive = childKeys_loop (trim_suffix prefix ''/'') recursive keys []"

text \<open>List: the reply is the decoded list of items (an undecodable one is no value).\<close>

definition List_result :: "string \<Rightarrow> bool \<Rightarrow> proto_StorageItem list http_reply option \<Rightarrow> storage_error + string list" where
  "List_result prefix recursive reply =
     (case Raw reply of
        Inl e \<Rightarrow> Inl (notExist e)
      | Inr (items, _, _) \<Rightarrow>
          (case childKeys (map psi_key items) prefix recursive of [] \<Rightarrow> Inl ErrNotExist | out \<Rightarrow> Inr out))"

section \<open>The path arrives as it was\<close>

lemma storage_path_decodes: "PathUnescape (storage_path key) = Some (''/v1/agent/storage/'' @ key)"
proof -
  have "PathUnescape (''/v1/agent/storage/'' @ s) = map_option ((@) ''/v1/agent/storage/'') (PathUnescape s)" for s
    by (cases "PathUnescape s") simp_all
  then show ?thesis by (simp add: storage_path_def PathUnescape_join join_split)
qed

text \<open>
  The mux takes the path to the handler of that key, if the key has no empty segment, no "." and
  no ".."; a segment the mux would clean away is redirected.
\<close>

definition plain_key :: "string \<Rightarrow> bool" where
  "plain_key key \<longleftrightarrow> (\<forall>s\<in>set (split_on CHR ''/'' key). plain_segment s)"

lemma storage_path_segments:
  "storage_path key = CHR ''/'' # join_with ''/'' ([''v1'', ''agent'', ''storage''] @ map PathEscape (split_on CHR ''/'' key))"
  by (cases "split_on CHR ''/'' key") (simp_all add: storage_path_def)

lemma escaped_segment: "segment_of (PathEscape s) = s"
  by (simp add: segment_of_def)

lemma storage_path_route:
  assumes "plain_key key"
  shows "route_of (storage_path key) = Some (StorageKey key)"
proof -
  define ss where "ss = [''v1'', ''agent'', ''storage''] @ map PathEscape (split_on CHR ''/'' key)"
  have p: "storage_path key = CHR ''/'' # join_with ''/'' ss" unfolding ss_def by (rule storage_path_segments)
  have ne: "split_on CHR ''/'' key \<noteq> []" by simp
  have slash: "CHR ''/'' \<notin> set s" if "s \<in> set ss" for s using that PathEscape_no_slash by (auto simp: ss_def)
  have plain: "plain_segment s" if "s \<in> set ss" for s
    using that assms plain_PathEscape unfolding ss_def plain_key_def by (auto simp: plain_segment_def)
  have "ss \<noteq> []" by (simp add: ss_def)
  note clean = cleanPath_plain [OF this plain slash] and split = split_join [OF \<open>ss \<noteq> []\<close> slash]
  have "map segment_of ss = [''v1'', ''agent'', ''storage''] @ split_on CHR ''/'' key"
    by (simp add: ss_def comp_def escaped_segment) (simp add: segment_of_def)
  moreover have "segment_of (join_with ''/'' (drop 3 ss)) = key"
    by (simp add: ss_def segment_of_def PathUnescape_join join_split)
  ultimately show ?thesis
    using ne by (simp add: route_of_def p clean split Let_def)
qed

text \<open>
  storage.path does not guard the others: the PUT of such a key is only redirected (and a client
  of net/http follows a 301 with a GET), so nothing is stored.
\<close>

lemma unclean_key_redirected:
  assumes "rq_path r = storage_path ''a//b''"
  shows "Handler srv r sched s = (Some (respond 301 NoBody), s)"
proof -
  have "cleanPath (storage_path ''a//b'') \<noteq> storage_path ''a//b''" by code_simp
  then show ?thesis using assms by (simp add: Handler_def route_of_def)
qed

section \<open>From agent to database and back\<close>

text \<open>The request as the server receives it, its path still escaped.\<close>

definition arrives :: "Client \<Rightarrow> bytes http_request \<Rightarrow> request \<Rightarrow> bool" where
  "arrives c q r \<longleftrightarrow> ht_url q = cl_base_url c @ rq_path r \<and> rq_method r = ht_method q \<and> rq_authorization r = ht_authorization q \<and> rq_body r = ht_payload q"

definition raw_body :: "body \<Rightarrow> bytes option" where
  "raw_body b = (case b of BytesBody v \<Rightarrow> Some v | NoBody \<Rightarrow> Some [] | _ \<Rightarrow> None)"

lemma open_seal:
  assumes "aead_contract (as_aead st)" and "length nonce = ae_nonce_size (as_aead st)"
  shows "open_blob st key (seal st nonce key v) = Inr v"
proof -
  have "ae_open (as_aead st) nonce (ae_seal (as_aead st) nonce v (bytes_of key)) (bytes_of key) = Some v"
    using assms(1) unfolding aead_contract_def by blast
  then show ?thesis using assms(2) by (simp add: open_blob_def seal_def)
qed

text \<open>A blob moved to another key opens only if the cipher seals alike under both names.\<close>

lemma open_moved:
  assumes "aead_contract (as_aead st)" and "length nonce = ae_nonce_size (as_aead st)"
    and "open_blob st key' (seal st nonce key v) = Inr w"
  shows "ae_seal (as_aead st) nonce w (bytes_of key') = ae_seal (as_aead st) nonce v (bytes_of key)"
proof -
  have "ae_open (as_aead st) nonce (ae_seal (as_aead st) nonce v (bytes_of key)) (bytes_of key') = Some w"
    using assms(2,3) by (simp add: open_blob_def seal_def split: option.splits)
  then show ?thesis using assms(1) unfolding aead_contract_def by metis
qed

lemma storage_request_path:
  assumes "arrives c (raw_request c method (storage_path key) body) r"
  shows "rq_path r = storage_path key" "rq_method r = method" "rq_body r = body"
    "rq_authorization r = ''Bearer '' @ cl_token c"
  using assms by (auto simp: arrives_def raw_request_def)

text \<open>Of the answers to a PUT only 204 is not an error.\<close>

lemma storagePut_status:
  assumes "agent (storagePut r key) r s = (resp, s')"
  shows "rs_status resp = 204 \<or> 400 \<le> rs_status resp"
proof -
  have put: "rs_status (fst (storagePut r key T s1)) = 204 \<or> 400 \<le> rs_status (fst (storagePut r key T s1))" for T s1
    using fail_status by (auto simp: storagePut_def storageKey_def writeErr_def respond_def split: prod.splits sum.splits)
  show ?thesis
  proof (cases "Parse (bearer r) PrefixAgent")
    case (Inl e)
    then show ?thesis using assms by (auto simp: agent_def writeErr_def respond_def)
  next
    case (Inr tok)
    obtain q s1 where c: "call (AuthAgent tok) s = (q, s1)" by fastforce
    show ?thesis
    proof (cases q)
      case (Inl e)
      then show ?thesis using assms Inr c fail_status by (auto simp: agent_def)
    next
      case (Inr T)
      then have "resp = fst (storagePut r key T s1)" using assms \<open>Parse (bearer r) PrefixAgent = Inr tok\<close> c by (simp add: agent_def)
      then show ?thesis using put by simp
    qed
  qed
qed

section \<open>The children of a prefix\<close>

definition dir_of :: "string \<Rightarrow> string" where
  "dir_of prefix = (let base = trim_suffix prefix ''/'' in if base = [] then [] else base @ ''/'')"

lemma childKeys_loop_props:
  assumes "distinct out"
  shows "distinct (childKeys_loop base rec ks out) \<and>
    set (childKeys_loop base rec ks out) = set out \<union> {y. \<exists>x\<in>set ks. child_of base rec x = Some y}"
  using assms by (induction ks arbitrary: out) (auto split: option.splits)

lemma childKeys_loop_distinct:
  "distinct ks \<Longrightarrow> set ks \<inter> set out = {} \<Longrightarrow> (\<And>k key. child_of base rec k = Some key \<Longrightarrow> key = k) \<Longrightarrow>
    childKeys_loop base rec ks out = out @ filter (\<lambda>k. child_of base rec k \<noteq> None) ks"
proof (induction ks arbitrary: out)
  case (Cons k ks)
  show ?case
  proof (cases "child_of base rec k")
    case None
    then show ?thesis using Cons by simp
  next
    case (Some key)
    then have "key = k" using Cons.prems(3) by blast
    moreover have "childKeys_loop base rec ks (out @ [k]) = (out @ [k]) @ filter (\<lambda>k. child_of base rec k \<noteq> None) ks"
      using Cons.prems by (intro Cons.IH) auto
    ultimately show ?thesis using Some Cons.prems(2) by simp
  qed
qed simp

lemma child_of_Some:
  "child_of (trim_suffix prefix ''/'') rec k = Some key \<longleftrightarrow>
    (\<exists>rest. k = dir_of prefix @ rest \<and> rest \<noteq> [] \<and>
       key = (if rec then k else dir_of prefix @ takeWhile (\<lambda>c. c \<noteq> CHR ''/'') rest))"
proof -
  have seg: "(case index_byte rest CHR ''/'' of Some i \<Rightarrow> take i rest | None \<Rightarrow> rest) = takeWhile (\<lambda>c. c \<noteq> CHR ''/'') rest" for rest
    by (induction rest) (auto split: option.splits)
  define base where "base = trim_suffix prefix ''/''"
  have "child_of base rec k = Some key \<longleftrightarrow> (\<exists>rest. (if base = [] then Some k else cut_prefix k (base @ ''/'')) = Some rest \<and> rest \<noteq> [] \<and>
      key = (if rec then k else if base = [] then takeWhile (\<lambda>c. c \<noteq> CHR ''/'') rest else base @ ''/'' @ takeWhile (\<lambda>c. c \<noteq> CHR ''/'') rest))"
    unfolding child_of_def Let_def seg by (cases rec) (auto split: option.splits)
  also have "\<dots> \<longleftrightarrow> (\<exists>rest. k = dir_of prefix @ rest \<and> rest \<noteq> [] \<and>
       key = (if rec then k else dir_of prefix @ takeWhile (\<lambda>c. c \<noteq> CHR ''/'') rest))"
  proof (cases "base = []")
    case True
    then show ?thesis by (simp add: dir_of_def base_def [symmetric])
  next
    case False
    then show ?thesis by (simp add: dir_of_def base_def [symmetric] cut_prefix_Some)
  qed
  finally show ?thesis unfolding base_def .
qed

text \<open>The filter of the server leaves out no child.\<close>

lemma childKeys_loop_filter:
  "(\<And>k. k \<in> set ks \<Longrightarrow> child_of base rec k \<noteq> None \<Longrightarrow> P k) \<Longrightarrow>
    childKeys_loop base rec (filter P ks) out = childKeys_loop base rec ks out"
  by (induction ks arbitrary: out) (auto split: option.splits)

lemma dir_prefix: "prefix \<noteq> ''/'' \<Longrightarrow> has_prefix (dir_of prefix @ rest) prefix"
  by (auto simp: dir_of_def Let_def has_prefix_iff trim_suffix_def has_suffix_iff)

section \<open>Properties\<close>

text \<open>
  C32: What the agent stores it loads again: after a Store that returned no error, a Load of the
  same key, one with no empty and no dotted segment, returns the very value, through encryption,
  the escaping of the path, the API and its database; and the blob opens under another key's name
  only if the cipher seals it alike under both.
\<close>
theorem agent_store_load:
  assumes "aead_contract (as_aead st)" and "length nonce = ae_nonce_size (as_aead st)" and "db_faults (api_db s) = []"
    and "plain_key key"
    and "arrives (as_api st) (Store_request st nonce key v) r1" and "Handler srv r1 sched1 s = (Some resp1, s1)"
    and "Store_result (Some (over_http raw_body ''PUT'' resp1)) = Inr ()"
    and "arrives (as_api st) (Load_request st key) r2"
  shows "\<exists>resp2. Handler srv r2 sched2 s1 = (Some resp2, s1) \<and>
    Load_result st key (Some (over_http raw_body ''GET'' resp2)) = Inr v \<and>
    (\<forall>key' w. open_blob st key' (seal st nonce key v) = Inr w \<longrightarrow>
       ae_seal (as_aead st) nonce w (bytes_of key') = ae_seal (as_aead st) nonce v (bytes_of key))"
proof -
  note p1 = storage_request_path [OF assms(5) [unfolded Store_request_def]]
    and p2 = storage_request_path [OF assms(8) [unfolded Load_request_def]]
  note rt = storage_path_route [OF assms(4), folded p1(1)] storage_path_route [OF assms(4), folded p2(1)]
  have "agent (storagePut r1 key) r1 s = (resp1, s1)"
    using assms(6) p1(2) rt(1) by (auto simp: Handler_storage split: prod.splits)
  from storagePut_status [OF this] have st: "rs_status resp1 = 204"
    using assms(7) by (auto simp: Store_result_def Raw_def over_http_def Let_def split: if_splits)
  from storage_put_get [OF assms(3) rt(1) p1(2) rt(2) p2(2) _ assms(6) this, of sched2] p1(4) p2(4)
  obtain resp2 where r2: "Handler srv r2 sched2 s1 = (Some resp2, s1)" "rs_status resp2 = 200" "rs_body resp2 = BytesBody (rq_body r1)"
    by auto
  have "Load_result st key (Some (over_http raw_body ''GET'' resp2)) = Inr v"
    using r2 p1(3) open_seal [OF assms(1,2)]
    by (simp add: Load_result_def Raw_def over_http_def raw_body_def Let_def)
  then show ?thesis using r2(1) open_moved [OF assms(1,2)] by blast
qed

text \<open>A cipher that does what is documented, and the storage of the first tunnel's agent.\<close>

definition plain_aead :: aead where
  "plain_aead = \<lparr>ae_nonce_size = 1, ae_seal = \<lambda>n p d. p @ d,
     ae_open = \<lambda>n c d. if length d \<le> length c \<and> drop (length c - length d) c = d then Some (take (length c - length d) c) else None\<rparr>"

lemma plain_aead_contract: "aead_contract plain_aead"
proof -
  have "(if length d \<le> length c \<and> drop (length c - length d) c = d then Some (take (length c - length d) c) else None) = Some p \<longleftrightarrow> c = p @ d"
    for c d p :: bytes
    by (auto simp del: append_take_drop_id) (metis append_take_drop_id)
  then show ?thesis by (simp add: aead_contract_def plain_aead_def)
qed

definition first_storage :: agent_storage where
  "first_storage = newStorage (\<lambda>_. plain_aead) (New_Client ''http://r/'' (Token_String first_token)) first_token"

lemma storage_path_k: "storage_path ''k'' = ''/v1/agent/storage/k''" "plain_key ''k''"
  by code_simp+

theorem agent_store_load_witness:
  "\<exists>s1 resp2. Handler example_server (example_request ''GET'' (''/v1/agent/storage/'' @ ''k'') None []) [] s1 = (Some resp2, s1) \<and>
     Load_result first_storage ''k'' (Some (over_http raw_body ''GET'' resp2)) = Inr [1, 2]"
proof -
  let ?blob = "seal first_storage [9] ''k'' [1, 2]"
  obtain resp1 s1 where h: "Handler example_server (example_request ''PUT'' (''/v1/agent/storage/'' @ ''k'') None ?blob) [] first_state = (Some resp1, s1)"
    "rs_status resp1 = 204" "rs_body resp1 = NoBody"
    using storage_put_get_ready [of ?blob] by (auto simp: seal_def first_storage_def newStorage_def plain_aead_def)
  have aead: "as_aead first_storage = plain_aead" "ae_nonce_size plain_aead = 1" by (simp_all add: first_storage_def newStorage_def plain_aead_def)
  have a: "arrives (as_api first_storage) (Store_request first_storage [9] ''k'' [1, 2])
      (example_request ''PUT'' (''/v1/agent/storage/'' @ ''k'') None ?blob)"
    "arrives (as_api first_storage) (Load_request first_storage ''k'') (example_request ''GET'' (''/v1/agent/storage/'' @ ''k'') None [])"
    using storage_path_k
    by (simp_all add: arrives_def Store_request_def Load_request_def raw_request_def example_request_def first_storage_def newStorage_def
        New_Client_def)
  have "Store_result (Some (over_http raw_body ''PUT'' resp1)) = Inr ()"
    using h by (simp add: Store_result_def Raw_def over_http_def raw_body_def Let_def)
  from agent_store_load [OF _ _ _ storage_path_k(2) a(1) h(1) this a(2), of "[]"] show ?thesis
    using aead plain_aead_contract by (auto simp: first_state_def first_db_faults)
qed

text \<open>
  childKeys lists exactly what hangs from the prefix, once each: every key strictly below
  the directory when recursive, the first component of each below it otherwise; in the order
  of the server when recursive; and what the server filters out by text alone loses no child.
\<close>
theorem childKeys_exact:
  "distinct (childKeys keys prefix rec) \<and>
   set (childKeys keys prefix True) = {k \<in> set keys. \<exists>rest. rest \<noteq> [] \<and> k = dir_of prefix @ rest} \<and>
   (distinct keys \<longrightarrow> childKeys keys prefix True = filter (\<lambda>k. \<exists>rest. rest \<noteq> [] \<and> k = dir_of prefix @ rest) keys) \<and>
   set (childKeys keys prefix False) =
     {dir_of prefix @ takeWhile (\<lambda>c. c \<noteq> CHR ''/'') rest | rest. rest \<noteq> [] \<and> dir_of prefix @ rest \<in> set keys} \<and>
   (prefix = ''/'' \<or> childKeys (filter (\<lambda>k. has_prefix k prefix) keys) prefix rec = childKeys keys prefix rec)"
proof (intro conjI)
  let ?base = "trim_suffix prefix ''/''"
  note props = childKeys_loop_props [of "[]", simplified]
  show "distinct (childKeys keys prefix rec)" using props by (simp add: childKeys_def)
  show "set (childKeys keys prefix True) = {k \<in> set keys. \<exists>rest. rest \<noteq> [] \<and> k = dir_of prefix @ rest}"
    using props [of ?base True keys] by (auto simp: childKeys_def child_of_Some)
  show "set (childKeys keys prefix False) =
     {dir_of prefix @ takeWhile (\<lambda>c. c \<noteq> CHR ''/'') rest | rest. rest \<noteq> [] \<and> dir_of prefix @ rest \<in> set keys}"
    using props [of ?base False keys] by (auto simp: childKeys_def child_of_Some)
  have kept: "child_of ?base True k \<noteq> None \<longleftrightarrow> (\<exists>rest. rest \<noteq> [] \<and> k = dir_of prefix @ rest)" for k
    by (auto simp: child_of_Some)
  have id: "key = k" if "child_of ?base True k = Some key" for k key using that unfolding child_of_Some by auto
  show "distinct keys \<longrightarrow> childKeys keys prefix True = filter (\<lambda>k. \<exists>rest. rest \<noteq> [] \<and> k = dir_of prefix @ rest) keys"
  proof
    assume "distinct keys"
    from childKeys_loop_distinct [OF this _ id, of "[]"]
    have "childKeys keys prefix True = filter (\<lambda>k. child_of ?base True k \<noteq> None) keys" by (simp add: childKeys_def)
    then show "childKeys keys prefix True = filter (\<lambda>k. \<exists>rest. rest \<noteq> [] \<and> k = dir_of prefix @ rest) keys"
      unfolding kept .
  qed
  show "prefix = ''/'' \<or> childKeys (filter (\<lambda>k. has_prefix k prefix) keys) prefix rec = childKeys keys prefix rec"
  proof (cases "prefix = ''/''")
    case False
    have "has_prefix k prefix" if "child_of ?base rec k \<noteq> None" for k
      using that dir_prefix [OF False] by (auto simp: child_of_Some)
    then have "childKeys_loop ?base rec (filter (\<lambda>k. has_prefix k prefix) keys) [] = childKeys_loop ?base rec keys []"
      by (intro childKeys_loop_filter) blast
    then show ?thesis by (simp add: childKeys_def)
  qed simp
qed

theorem childKeys_exact_witness:
  "childKeys [''c'', ''cX/o'', ''c/le/a'', ''c/le/b''] ''c'' True = [''c/le/a'', ''c/le/b'']"
proof -
  have d: "dir_of ''c'' = ''c/''" by (simp add: dir_of_def trim_suffix_def has_suffix_def)
  have "filter (\<lambda>k. \<exists>rest. rest \<noteq> [] \<and> k = dir_of ''c'' @ rest) [''c'', ''cX/o'', ''c/le/a'', ''c/le/b''] = [''c/le/a'', ''c/le/b'']"
    by (simp add: d)
  then show ?thesis using childKeys_exact [of "[''c'', ''cX/o'', ''c/le/a'', ''c/le/b'']" "''c''" True] by simp
qed

text \<open>
  Stat asks with HEAD, whose error replies have no body: for a key that does not exist it
  never returns ErrNotExist, although Load and Delete do.
\<close>

lemma Stat_never_ErrNotExist:
  assumes "400 \<le> rs_status resp"
  shows "\<exists>e. Stat_result key (Some (over_http raw_body ''HEAD'' resp)) = Inl (ApiFailure e)"
    and "\<not> Exists_result (Some (over_http raw_body ''HEAD'' resp))"
  using Code_HEAD [OF assms, of raw_body]
  by (auto simp: Stat_result_def Exists_result_def notExist_def error_codes)

lemma Load_missing:
  "Load_result st key (Some (over_http raw_body ''GET'' (writeErr 404 proto_ErrNotFound msg))) = Inl ErrNotExist"
  by (simp add: Load_result_def Code_writeErr notExist_def Code_def)

end
