(* ===== verification/Agent_Lock.thy ===== *)
theory Agent_Lock
  imports Prelude
begin

text \<open>
  The lock of internal/agent/storage.go (Lock and Unlock), local to the process: a table from
  names to channels under a mutex.  A goroutine that finds the name taken waits for its channel
  to be closed, for 30 seconds or for its context, and then tries again or gives up.  The steps
  are the critical sections and the wake-ups, interleaved in any order; a goroutine unlocks what
  it holds.
\<close>

section \<open>Model\<close>

datatype lock_pc = Idle | Trying string | Waiting string nat | Holding string | GaveUp string

text \<open>Channels are numbered in the order they are made; lk_closed are those already closed.\<close>

record lock_state =
  lk_locks :: "string \<rightharpoonup> nat"
  lk_closed :: "nat set"
  lk_next :: nat
  lk_pc :: "nat \<Rightarrow> lock_pc"

definition lock_init :: lock_state where
  "lock_init = \<lparr>lk_locks = Map.empty, lk_closed = {}, lk_next = 0, lk_pc = (\<lambda>_. Idle)\<rparr>"

definition set_pc :: "nat \<Rightarrow> lock_pc \<Rightarrow> lock_state \<Rightarrow> lock_state" where
  "set_pc p pc s = s\<lparr>lk_pc := (lk_pc s)(p := pc)\<rparr>"

text \<open>The critical section of Lock: the lock, or the channel to wait for.\<close>

definition lock_try :: "nat \<Rightarrow> string \<Rightarrow> lock_state \<Rightarrow> lock_state" where
  "lock_try p name s =
     (case lk_locks s name of
        None \<Rightarrow> set_pc p (Holding name) (s\<lparr>lk_locks := (lk_locks s)(name \<mapsto> lk_next s), lk_next := lk_next s + 1\<rparr>)
      | Some ch \<Rightarrow> set_pc p (Waiting name ch) s)"

definition Unlock :: "string \<Rightarrow> lock_state \<Rightarrow> lock_state" where
  "Unlock name s =
     (case lk_locks s name of
        Some ch \<Rightarrow> s\<lparr>lk_closed := insert ch (lk_closed s), lk_locks := (lk_locks s)(name := None)\<rparr>
      | None \<Rightarrow> s)"

inductive lock_step :: "lock_state \<Rightarrow> lock_state \<Rightarrow> bool" where
  start: "lk_pc s p \<in> {Idle, GaveUp n} \<Longrightarrow> lock_step s (set_pc p (Trying name) s)"
| attempt: "lk_pc s p = Trying name \<Longrightarrow> lock_step s (lock_try p name s)"
| wake: "lk_pc s p = Waiting name ch \<Longrightarrow> ch \<in> lk_closed s \<Longrightarrow> lock_step s (set_pc p (Trying name) s)"
| give_up: "lk_pc s p = Waiting name ch \<Longrightarrow> lock_step s (set_pc p (GaveUp name) s)"
| unlock: "lk_pc s p = Holding name \<Longrightarrow> lock_step s (set_pc p Idle (Unlock name s))"

inductive_cases lock_stepE: "lock_step s s'"

section \<open>The invariant\<close>

text \<open>
  A name in the table has a holder and an open channel of its own; a holder's name is in the
  table and nobody else holds it; who waits, waits for a closed channel or for the current one.
\<close>

definition lock_inv :: "lock_state \<Rightarrow> bool" where
  "lock_inv s \<longleftrightarrow>
     (\<forall>p q n. lk_pc s p = Holding n \<and> lk_pc s q = Holding n \<longrightarrow> p = q) \<and>
     (\<forall>n. lk_locks s n \<noteq> None \<longleftrightarrow> (\<exists>p. lk_pc s p = Holding n)) \<and>
     (\<forall>n ch. lk_locks s n = Some ch \<longrightarrow> ch \<notin> lk_closed s \<and> ch < lk_next s) \<and>
     (\<forall>n m ch. lk_locks s n = Some ch \<and> lk_locks s m = Some ch \<longrightarrow> n = m) \<and>
     (\<forall>p n ch. lk_pc s p = Waiting n ch \<longrightarrow> ch \<in> lk_closed s \<or> lk_locks s n = Some ch) \<and>
     (\<forall>ch\<in>lk_closed s. ch < lk_next s)"

lemma lock_invI:
  assumes "\<And>p q n. lk_pc s p = Holding n \<Longrightarrow> lk_pc s q = Holding n \<Longrightarrow> p = q"
    and "\<And>n p. lk_pc s p = Holding n \<Longrightarrow> lk_locks s n \<noteq> None"
    and "\<And>n ch. lk_locks s n = Some ch \<Longrightarrow> \<exists>p. lk_pc s p = Holding n"
    and "\<And>n ch. lk_locks s n = Some ch \<Longrightarrow> ch \<notin> lk_closed s \<and> ch < lk_next s"
    and "\<And>n m ch. lk_locks s n = Some ch \<Longrightarrow> lk_locks s m = Some ch \<Longrightarrow> n = m"
    and "\<And>p n ch. lk_pc s p = Waiting n ch \<Longrightarrow> ch \<in> lk_closed s \<or> lk_locks s n = Some ch"
    and "\<And>ch. ch \<in> lk_closed s \<Longrightarrow> ch < lk_next s"
  shows "lock_inv s"
  using assms unfolding lock_inv_def by blast

lemma lock_invD:
  assumes "lock_inv s"
  shows "lk_pc s p = Holding n \<Longrightarrow> lk_pc s q = Holding n \<Longrightarrow> p = q"
    "lk_pc s p = Holding n \<Longrightarrow> \<exists>ch. lk_locks s n = Some ch"
    "lk_locks s n = Some ch \<Longrightarrow> \<exists>p. lk_pc s p = Holding n"
    "lk_locks s n = Some ch \<Longrightarrow> ch \<notin> lk_closed s \<and> ch < lk_next s"
    "lk_locks s n = Some ch \<Longrightarrow> lk_locks s m = Some ch \<Longrightarrow> n = m"
    "lk_pc s p = Waiting n ch \<Longrightarrow> ch \<in> lk_closed s \<or> lk_locks s n = Some ch"
    "ch \<in> lk_closed s \<Longrightarrow> ch < lk_next s"
  using assms unfolding lock_inv_def by blast+

lemma set_pc_simps [simp]:
  "lk_locks (set_pc p pc s) = lk_locks s" "lk_closed (set_pc p pc s) = lk_closed s" "lk_next (set_pc p pc s) = lk_next s"
  "lk_pc (set_pc p pc s) = (lk_pc s)(p := pc)"
  by (simp_all add: set_pc_def)

text \<open>Moving between states that neither hold nor wait touches nothing.\<close>

lemma lock_inv_move:
  assumes "lock_inv s" and "\<And>n. lk_pc s p \<noteq> Holding n" and "\<And>n. pc \<noteq> Holding n"
    and "\<And>n ch. pc = Waiting n ch \<Longrightarrow> ch \<in> lk_closed s \<or> lk_locks s n = Some ch"
  shows "lock_inv (set_pc p pc s)"
proof (rule lock_invI)
  have hold: "lk_pc (set_pc p pc s) q = Holding n \<longleftrightarrow> lk_pc s q = Holding n" for q n
    using assms(2,3) by (cases "q = p") auto
  show "lk_pc (set_pc p pc s) x = Holding n \<Longrightarrow> lk_pc (set_pc p pc s) y = Holding n \<Longrightarrow> x = y" for x y n
    unfolding hold by (rule lock_invD(1) [OF assms(1)])
  show "lk_pc (set_pc p pc s) x = Holding n \<Longrightarrow> lk_locks (set_pc p pc s) n \<noteq> None" for x n
    unfolding hold using lock_invD(2) [OF assms(1)] by auto
  show "lk_locks (set_pc p pc s) n = Some ch \<Longrightarrow> \<exists>x. lk_pc (set_pc p pc s) x = Holding n" for n ch
    unfolding hold using lock_invD(3) [OF assms(1)] by auto
  show "lk_pc (set_pc p pc s) x = Waiting n ch \<Longrightarrow> ch \<in> lk_closed (set_pc p pc s) \<or> lk_locks (set_pc p pc s) n = Some ch" for x n ch
    using assms(4) lock_invD(6) [OF assms(1)] by (auto split: if_splits)
qed (use lock_invD(4,5,7) [OF assms(1)] in auto)

lemma lock_inv_take:
  assumes "lock_inv s" and "lk_pc s p = Trying name" and "lk_locks s name = None"
  shows "lock_inv (lock_try p name s)"
proof (rule lock_invI)
  have free: "lk_pc s q \<noteq> Holding name" for q using lock_invD(2) [OF assms(1)] assms(3) by fastforce
  have fresh: "lk_locks s n \<noteq> Some (lk_next s)" "lk_next s \<notin> lk_closed s" for n
    using lock_invD(4,7) [OF assms(1)] by blast+
  note s' = lock_try_def assms(3)
  show "x = y" if "lk_pc (lock_try p name s) x = Holding n" "lk_pc (lock_try p name s) y = Holding n" for x y n
    using that lock_invD(1) [OF assms(1)] free by (auto simp: s' split: if_splits)
  show "lk_locks (lock_try p name s) n \<noteq> None" if "lk_pc (lock_try p name s) x = Holding n" for x n
    using that lock_invD(2) [OF assms(1)] by (auto simp: s' split: if_splits)
  show "\<exists>x. lk_pc (lock_try p name s) x = Holding n" if "lk_locks (lock_try p name s) n = Some ch" for n ch
  proof (cases "n = name")
    case False
    then have "lk_locks s n = Some ch" using that by (simp add: s')
    from lock_invD(3) [OF assms(1) this] obtain x where "lk_pc s x = Holding n" by blast
    then show ?thesis using assms(2) by (intro exI [of _ x]) (auto simp: s')
  qed (auto simp: s')
  show "ch \<notin> lk_closed (lock_try p name s) \<and> ch < lk_next (lock_try p name s)" if "lk_locks (lock_try p name s) n = Some ch" for n ch
    using that lock_invD(4) [OF assms(1), of n ch] fresh by (auto simp: s' split: if_splits)
  show "n = m" if "lk_locks (lock_try p name s) n = Some ch" "lk_locks (lock_try p name s) m = Some ch" for n m ch
    using that lock_invD(5) [OF assms(1)] fresh by (auto simp: s' split: if_splits)
  show "ch \<in> lk_closed (lock_try p name s) \<or> lk_locks (lock_try p name s) n = Some ch"
    if "lk_pc (lock_try p name s) x = Waiting n ch" for x n ch
    using that lock_invD(6) [OF assms(1), of x n ch] assms(3) by (auto simp: s' split: if_splits)
  show "ch < lk_next (lock_try p name s)" if "ch \<in> lk_closed (lock_try p name s)" for ch
    using that lock_invD(7) [OF assms(1), of ch] by (simp add: s')
qed

lemma lock_inv_unlock:
  assumes "lock_inv s" and "lk_pc s p = Holding name"
  shows "lock_inv (set_pc p Idle (Unlock name s))"
proof -
  obtain c where c: "lk_locks s name = Some c" using lock_invD(2) [OF assms] by blast
  note s' = Unlock_def c
  show ?thesis
  proof (rule lock_invI)
    show "x = y" if "lk_pc (set_pc p Idle (Unlock name s)) x = Holding n" "lk_pc (set_pc p Idle (Unlock name s)) y = Holding n" for x y n
      using that lock_invD(1) [OF assms(1)] by (auto simp: s' split: if_splits)
    show "lk_locks (set_pc p Idle (Unlock name s)) n \<noteq> None" if "lk_pc (set_pc p Idle (Unlock name s)) x = Holding n" for x n
      using that lock_invD(2) [OF assms(1), of x n] lock_invD(1) [OF assms(1), of x n p] assms(2) by (auto simp: s' split: if_splits)
    show "\<exists>x. lk_pc (set_pc p Idle (Unlock name s)) x = Holding n" if l: "lk_locks (set_pc p Idle (Unlock name s)) n = Some ch" for n ch
    proof -
      have "n \<noteq> name" "lk_locks s n = Some ch" using l by (auto simp: s' split: if_splits)
      then obtain x where "lk_pc s x = Holding n" "x \<noteq> p" using lock_invD(3) [OF assms(1)] assms(2) by fastforce
      then show ?thesis by (intro exI [of _ x]) (simp add: s')
    qed
    show "ch \<notin> lk_closed (set_pc p Idle (Unlock name s)) \<and> ch < lk_next (set_pc p Idle (Unlock name s))"
      if l: "lk_locks (set_pc p Idle (Unlock name s)) n = Some ch" for n ch
    proof -
      have n: "n \<noteq> name" "lk_locks s n = Some ch" using l by (auto simp: s' split: if_splits)
      then have "ch \<noteq> c" using lock_invD(5) [OF assms(1)] c by blast
      then show ?thesis using lock_invD(4) [OF assms(1) n(2)] by (simp add: s')
    qed
    show "n = m" if "lk_locks (set_pc p Idle (Unlock name s)) n = Some ch" "lk_locks (set_pc p Idle (Unlock name s)) m = Some ch" for n m ch
      using that lock_invD(5) [OF assms(1)] by (auto simp: s' split: if_splits)
    show "ch \<in> lk_closed (set_pc p Idle (Unlock name s)) \<or> lk_locks (set_pc p Idle (Unlock name s)) n = Some ch"
      if "lk_pc (set_pc p Idle (Unlock name s)) x = Waiting n ch" for x n ch
      using that lock_invD(6) [OF assms(1), of x n ch] c by (auto simp: s' split: if_splits)
    show "ch < lk_next (set_pc p Idle (Unlock name s))" if "ch \<in> lk_closed (set_pc p Idle (Unlock name s))" for ch
      using that lock_invD(7) [OF assms(1), of ch] lock_invD(4) [OF assms(1) c] by (auto simp: s')
  qed
qed

lemma lock_inv_step:
  assumes "lock_step s s'" and inv: "lock_inv s"
  shows "lock_inv s'"
  using assms(1)
proof cases
  case (attempt p name)
  show ?thesis
  proof (cases "lk_locks s name")
    case None
    then show ?thesis using lock_inv_take [OF inv attempt(2)] attempt(1) by simp
  next
    case (Some ch)
    then have "lock_try p name s = set_pc p (Waiting name ch) s" by (simp add: lock_try_def)
    then show ?thesis using lock_inv_move [OF inv, of p "Waiting name ch"] attempt Some by simp
  qed
next
  case (unlock p name)
  then show ?thesis using lock_inv_unlock [OF inv] by simp
qed (auto intro!: lock_inv_move [OF inv])

lemma lock_inv_reachable:
  assumes "lock_step\<^sup>*\<^sup>* lock_init s"
  shows "lock_inv s"
  using assms
proof induction
  case base
  show ?case by (simp add: lock_inv_def lock_init_def)
next
  case (step s s')
  then show ?case by (blast intro: lock_inv_step)
qed

text \<open>
  C33: The lock excludes and wakes: in every interleaving, no two goroutines hold a name at
  once, and a goroutine that waits either can go on at once, because its channel is closed, or
  waits for a lock somebody holds now (no wake-up is lost).
\<close>
theorem lock_excludes:
  assumes "lock_step\<^sup>*\<^sup>* lock_init s"
  shows "(\<forall>p q n. lk_pc s p = Holding n \<and> lk_pc s q = Holding n \<longrightarrow> p = q) \<and>
    (\<forall>p n ch. lk_pc s p = Waiting n ch \<longrightarrow> lock_step s (set_pc p (Trying n) s) \<or> (\<exists>q. q \<noteq> p \<and> lk_pc s q = Holding n))"
proof (intro conjI allI impI)
  note inv = lock_inv_reachable [OF assms]
  show "p = q" if "lk_pc s p = Holding n \<and> lk_pc s q = Holding n" for p q n
    using that lock_invD(1) [OF inv] by blast
  show "lock_step s (set_pc p (Trying n) s) \<or> (\<exists>q. q \<noteq> p \<and> lk_pc s q = Holding n)" if w: "lk_pc s p = Waiting n ch" for p n ch
  proof (cases "ch \<in> lk_closed s")
    case True
    then show ?thesis using w by (blast intro: lock_step.wake)
  next
    case False
    then have "lk_locks s n = Some ch" using lock_invD(6) [OF inv w] by blast
    then obtain q where "lk_pc s q = Holding n" using lock_invD(3) [OF inv] by blast
    then show ?thesis using w by (intro disjI2 exI [of _ q]) auto
  qed
qed

theorem lock_excludes_witness:
  "\<exists>s. lock_step\<^sup>*\<^sup>* lock_init s \<and> lk_pc s 1 = Holding ''a'' \<and> lk_pc s 2 \<noteq> Holding ''a''"
proof -
  let ?s1 = "set_pc 1 (Trying ''a'') lock_init"
  have "lock_step lock_init ?s1" by (rule lock_step.start [of _ _ "[]"]) (simp add: lock_init_def)
  moreover have "lock_step ?s1 (lock_try 1 ''a'' ?s1)" by (rule lock_step.attempt) simp
  ultimately have r: "lock_step\<^sup>*\<^sup>* lock_init (lock_try 1 ''a'' ?s1)" by simp
  have h: "lk_pc (lock_try 1 ''a'' ?s1) 1 = Holding ''a''" by (simp add: lock_try_def lock_init_def)
  from lock_excludes [OF r] h have "lk_pc (lock_try 1 ''a'' ?s1) 2 \<noteq> Holding ''a''" by (metis one_eq_numeral_iff semiring_norm(85))
  with r h show ?thesis by blast
qed

end
