(* ===== verification/Agent_Dns01.thy ===== *)
theory Agent_Dns01
  imports Api_Client Api_Props
begin

text \<open>
  internal/agent/dns01.go: the libdns provider with which the agent answers DNS-01 challenges
  through the control plane.  It remembers the id of each TXT record it created by name and
  value.  libdns's AbsoluteName is an argument; what the provider relies on of the control plane
  is the locale challenge_api, which the requests of the client and the API's handlers interpret.
\<close>

section \<open>Model\<close>

record libdns_rr =
  lr_name :: string
  lr_data :: string

definition challengeKey :: "string \<Rightarrow> string \<Rightarrow> string" where
  "challengeKey fqdn val = fqdn @ CHR 0x00 # val"

text \<open>The provider is its table of ids; newDNS01Provider starts it empty.\<close>

type_synonym challenge_ids = "string \<rightharpoonup> string"

definition newDNS01Provider :: challenge_ids where
  "newDNS01Provider = Map.empty"

definition absolute_fqdn :: "(string \<Rightarrow> string \<Rightarrow> string) \<Rightarrow> string \<Rightarrow> libdns_rr \<Rightarrow> string" where
  "absolute_fqdn absName zone rec = trim_suffix (absName (lr_name rec) zone) ''.''"

text \<open>The results: the error that ended the loop, if any, and the records done.\<close>

fun AppendRecords ::
  "(string \<Rightarrow> string \<Rightarrow> string) \<Rightarrow> (string \<Rightarrow> string \<Rightarrow> 's \<Rightarrow> (client_error + string) \<times> 's) \<Rightarrow> string \<Rightarrow> libdns_rr list \<Rightarrow>
   challenge_ids \<Rightarrow> 's \<Rightarrow> (client_error option \<times> libdns_rr list) \<times> challenge_ids \<times> 's" where
  "AppendRecords absName create zone [] ids s = ((None, []), ids, s)"
| "AppendRecords absName create zone (rec # recs) ids s =
     (let fqdn = absolute_fqdn absName zone rec
      in case create fqdn (lr_data rec) s of
           (Inl e, s1) \<Rightarrow> ((Some e, []), ids, s1)
         | (Inr i, s1) \<Rightarrow>
             (case AppendRecords absName create zone recs (ids(challengeKey fqdn (lr_data rec) \<mapsto> i)) s1 of
                ((e, out), ids2, s2) \<Rightarrow> ((e, rec # out), ids2, s2)))"

fun DeleteRecords ::
  "(string \<Rightarrow> string \<Rightarrow> string) \<Rightarrow> (string \<Rightarrow> 's \<Rightarrow> client_error option \<times> 's) \<Rightarrow> string \<Rightarrow> libdns_rr list \<Rightarrow>
   challenge_ids \<Rightarrow> 's \<Rightarrow> (client_error option \<times> libdns_rr list) \<times> challenge_ids \<times> 's" where
  "DeleteRecords absName delete zone [] ids s = ((None, []), ids, s)"
| "DeleteRecords absName delete zone (rec # recs) ids s =
     (let key = challengeKey (absolute_fqdn absName zone rec) (lr_data rec); ids1 = ids(key := None)
      in case ids key of
           None \<Rightarrow> DeleteRecords absName delete zone recs ids1 s
         | Some i \<Rightarrow>
             (case delete i s of
                (Some e, s1) \<Rightarrow> ((Some e, []), ids1, s1)
              | (None, s1) \<Rightarrow>
                  (case DeleteRecords absName delete zone recs ids1 s1 of
                     ((e, out), ids2, s2) \<Rightarrow> ((e, rec # out), ids2, s2))))"

section \<open>What the provider relies on\<close>

text \<open>
  The challenges alive in the control plane, in its sane states: creating one adds a new id that
  can be named in a path, deleting one removes that id.  Nothing is assumed of calls that fail.
\<close>

locale challenge_api =
  fixes create :: "string \<Rightarrow> string \<Rightarrow> 's \<Rightarrow> (client_error + string) \<times> 's"
    and delete :: "string \<Rightarrow> 's \<Rightarrow> client_error option \<times> 's"
    and live :: "'s \<Rightarrow> string set" and sane :: "'s \<Rightarrow> bool" and names :: "string \<Rightarrow> bool"
  assumes create_ok: "sane s \<Longrightarrow> create f v s = (Inr i, s') \<Longrightarrow>
      sane s' \<and> names i \<and> i \<notin> live s \<and> live s' = insert i (live s)"
    and delete_ok: "sane s \<Longrightarrow> names i \<Longrightarrow> delete i s = (None, s') \<Longrightarrow> sane s' \<and> live s' = live s - {i}"
begin

text \<open>The ids an append adds to the table are those of the new challenges.\<close>

lemma append_ids:
  assumes "AppendRecords absName create zone recs ids s = ((None, out), ids', s')" and "sane s"
    and "distinct (map (\<lambda>r. challengeKey (absolute_fqdn absName zone r) (lr_data r)) recs)"
  shows "\<exists>new. length new = length recs \<and> distinct new \<and> set new \<inter> live s = {} \<and> live s' = live s \<union> set new \<and>
    ids' = ids ++ map_of (zip (map (\<lambda>r. challengeKey (absolute_fqdn absName zone r) (lr_data r)) recs) new) \<and>
    sane s' \<and> Ball (set new) names \<and> out = recs"
  using assms
proof (induction recs arbitrary: ids s out)
  case (Cons r recs)
  let ?k = "\<lambda>r. challengeKey (absolute_fqdn absName zone r) (lr_data r)"
  obtain i s1 where c: "create (absolute_fqdn absName zone r) (lr_data r) s = (Inr i, s1)"
    using Cons.prems(1) by (auto simp: Let_def split: prod.splits sum.splits)
  then obtain out1 where a: "AppendRecords absName create zone recs (ids(?k r \<mapsto> i)) s1 = ((None, out1), ids', s')" and o1: "out = r # out1"
    using Cons.prems(1) by (auto simp: Let_def split: prod.splits)
  note ok = create_ok [OF Cons.prems(2) c]
  have dist: "distinct (map ?k recs)" using Cons.prems(3) by simp
  from Cons.IH [OF a _ this] ok obtain new where n: "length new = length recs" "distinct new" "set new \<inter> live s1 = {}"
    "live s' = live s1 \<union> set new" "ids' = ids(?k r \<mapsto> i) ++ map_of (zip (map ?k recs) new)" "sane s'" "Ball (set new) names" "out1 = recs"
    by blast
  have "map_of (zip (map ?k recs) new) (?k r) = None"
    using Cons.prems(3) n(1) by (auto simp: map_of_eq_None_iff dest: set_zip_leftD)
  then have "ids' = ids ++ map_of (zip (map ?k (r # recs)) (i # new))"
    by (simp add: n(5) domIff map_add_upd_left)
  moreover have "length (i # new) = length (r # recs) \<and> distinct (i # new) \<and> set (i # new) \<inter> live s = {} \<and>
      live s' = live s \<union> set (i # new) \<and> Ball (set (i # new)) names"
    using ok n(1-4,7) by auto
  ultimately show ?case using n(6,8) o1 by blast
qed (auto intro: exI [of _ "[]"])

text \<open>A delete of records that are in the table removes their challenges and forgets them.\<close>

lemma delete_ids:
  assumes "DeleteRecords absName delete zone recs ids s = ((None, out), ids', s')" and "sane s"
    and "distinct (map (\<lambda>r. challengeKey (absolute_fqdn absName zone r) (lr_data r)) recs)"
    and "length new = length recs" and "Ball (set new) names"
    and "\<And>j. j < length recs \<Longrightarrow>
      ids (challengeKey (absolute_fqdn absName zone (recs ! j)) (lr_data (recs ! j))) = Some (new ! j)"
  shows "live s' = live s - set new \<and> out = recs"
  using assms
proof (induction recs arbitrary: ids s out new)
  case (Cons r recs)
  let ?k = "\<lambda>r. challengeKey (absolute_fqdn absName zone r) (lr_data r)"
  obtain i new1 where new: "new = i # new1" "length new1 = length recs" using Cons.prems(4) by (cases new) auto
  have i: "ids (?k r) = Some i" using Cons.prems(6) [of 0] new by simp
  obtain s1 out1 where d: "delete i s = (None, s1)"
    and a: "DeleteRecords absName delete zone recs (ids(?k r := None)) s1 = ((None, out1), ids', s')" and out: "out = r # out1"
    using Cons.prems(1) i by (auto simp: Let_def split: prod.splits option.splits)
  have ok: "sane s1 \<and> live s1 = live s - {i}" using delete_ok [OF Cons.prems(2) _ d] Cons.prems(5) new by simp
  have rest: "(ids(?k r := None)) (?k (recs ! j)) = Some (new1 ! j)" if "j < length recs" for j
  proof -
    have "?k (recs ! j) \<in> ?k ` set recs" using that by simp
    then have "?k (recs ! j) \<noteq> ?k r" using Cons.prems(3) by auto
    then show ?thesis using Cons.prems(6) [of "Suc j"] new that by simp
  qed
  have dist: "distinct (map ?k recs)" using Cons.prems(3) by simp
  have "live s' = live s1 - set new1 \<and> out1 = recs"
    using Cons.IH [OF a _ dist new(2) _ rest] ok Cons.prems(5) new(1) by simp
  then show ?case using ok out new(1) by auto
qed auto

text \<open>Clean-up: what an append created the delete of the same records removes.\<close>

lemma append_delete:
  assumes "AppendRecords absName create zone recs ids s = ((None, out), ids1, s1)"
    and "DeleteRecords absName delete zone recs ids1 s1 = ((None, out2), ids2, s2)" and "sane s"
    and dist: "distinct (map (\<lambda>r. challengeKey (absolute_fqdn absName zone r) (lr_data r)) recs)"
  shows "out = recs \<and> live s \<subseteq> live s1 \<and> card (live s1 - live s) = length recs \<and> out2 = recs \<and> live s2 = live s"
proof -
  let ?k = "\<lambda>r. challengeKey (absolute_fqdn absName zone r) (lr_data r)"
  obtain new where n: "length new = length recs" "distinct new" "set new \<inter> live s = {}" "live s1 = live s \<union> set new"
    "ids1 = ids ++ map_of (zip (map ?k recs) new)" "sane s1" "Ball (set new) names" "out = recs"
    using append_ids [OF assms(1,3) dist] by blast
  have "ids1 (?k (recs ! j)) = Some (new ! j)" if "j < length recs" for j
  proof -
    have "map_of (zip (map ?k recs) new) (map ?k recs ! j) = Some (new ! j)"
      using that n(1) dist by (intro map_of_zip_nth) simp_all
    then show ?thesis using that by (simp add: n(5))
  qed
  from delete_ids [OF assms(2) n(6) dist n(1,7) this] have d: "live s2 = live s1 - set new \<and> out2 = recs" .
  have "live s1 - live s = set new" using n(3,4) by auto
  then have "card (live s1 - live s) = length recs" using distinct_card [OF n(2)] n(1) by simp
  then show ?thesis using n(3,4,8) d by auto
qed

end

section \<open>The control plane provides it\<close>

text \<open>
  The two requests of the provider, through client, HTTP and handler; the second component of the
  state is the supply of random bytes for the ids.
\<close>

definition acme_call ::
  "('p, 'l) Server \<Rightarrow> Client \<Rightarrow> string \<Rightarrow> string \<Rightarrow> (string \<rightharpoonup> string) option \<Rightarrow> bytes \<Rightarrow> ('p, 'l) api_state \<Rightarrow>
   response option \<times> ('p, 'l) api_state" where
  "acme_call srv c method p json rnd s =
     (let q = do_request c method p json
      in Handler srv \<lparr>rq_method = ht_method q, rq_path = drop (length (cl_base_url c)) (ht_url q),
           rq_authorization = ht_authorization q, rq_query = \<lambda>_. [], rq_json = ht_payload q, rq_body = [], rq_random = rnd\<rparr> [] s)"

definition acme_id :: "body \<Rightarrow> string option" where
  "acme_id b = (case b of ACMEBody i \<Rightarrow> Some i | _ \<Rightarrow> None)"

definition api_create ::
  "('p, 'l) Server \<Rightarrow> Client \<Rightarrow> string \<Rightarrow> string \<Rightarrow> ('p, 'l) api_state \<times> bytes list \<Rightarrow>
   (client_error + string) \<times> ('p, 'l) api_state \<times> bytes list" where
  "api_create srv c fqdn val s =
     (case snd s of
        [] \<Rightarrow> (Inl OtherError, s)
      | rnd # rnds \<Rightarrow>
          (case acme_call srv c ''POST'' ''/v1/agent/acme-dns'' (Some [''fqdn'' \<mapsto> fqdn, ''value'' \<mapsto> val]) rnd (fst s) of
             (resp, s1) \<Rightarrow> (Do (map_option (over_http acme_id ''POST'') resp), s1, rnds)))"

definition api_delete ::
  "('p, 'l) Server \<Rightarrow> Client \<Rightarrow> string \<Rightarrow> ('p, 'l) api_state \<times> bytes list \<Rightarrow> client_error option \<times> ('p, 'l) api_state \<times> bytes list" where
  "api_delete srv c i s =
     (case acme_call srv c ''DELETE'' (''/v1/agent/acme-dns/'' @ i) None [] (fst s) of
        (resp, s1) \<Rightarrow>
          ((case Do_none (map_option (over_http acme_id ''DELETE'') resp) of Inl e \<Rightarrow> Some e | Inr _ \<Rightarrow> None), s1, snd s))"

text \<open>The challenges of the tunnels a token is stored for.\<close>

definition token_tunnels :: "string \<Rightarrow> tables \<Rightarrow> int set" where
  "token_tunnels ts t =
     {i. \<exists>tok. Parse ts PrefixAgent = Inr tok \<and> (tok_id tok, i, Hash tok) \<in> set (map token_view (tokens t))}"

definition live_challenges :: "Client \<Rightarrow> ('p, 'l) api_state \<times> bytes list \<Rightarrow> string set" where
  "live_challenges c s =
     (let t = db_tables (api_db (fst s))
      in ch_id ` {r \<in> set (challenges t). ch_tunnel r \<in> token_tunnels (cl_token c) t})"

definition sane_api :: "('p, 'l) api_state \<times> bytes list \<Rightarrow> bool" where
  "sane_api s \<longleftrightarrow> reachable (api_db (fst s)) \<and> [] \<notin> set (snd s)"

text \<open>An id of a challenge is random text, which a path carries as it is.\<close>

definition challenge_id :: "string \<Rightarrow> bool" where
  "challenge_id i \<longleftrightarrow> i \<noteq> [] \<and> set i \<subseteq> set base32_alphabet"

section \<open>What the two requests do\<close>

lemma base32_path: "c \<in> set base32_alphabet \<Longrightarrow> c \<noteq> CHR ''/'' \<and> c \<noteq> CHR ''%'' \<and> c \<noteq> CHR ''.''"
proof -
  have "\<forall>c\<in>set base32_alphabet. c \<noteq> CHR ''/'' \<and> c \<noteq> CHR ''%'' \<and> c \<noteq> CHR ''.''" by code_simp
  then show "c \<in> set base32_alphabet \<Longrightarrow> c \<noteq> CHR ''/'' \<and> c \<noteq> CHR ''%'' \<and> c \<noteq> CHR ''.''" by blast
qed

lemma unescape_no_percent: "CHR ''%'' \<notin> set s \<Longrightarrow> PathUnescape s = Some s"
  by (induction s) auto

lemma challenge_route:
  assumes "challenge_id i"
  shows "route_of (''/v1/agent/acme-dns/'' @ i) = Some (AcmeDNSId i)"
proof -
  define ss where "ss = [''v1'', ''agent'', ''acme-dns'', i]"
  have p: "''/v1/agent/acme-dns/'' @ i = CHR ''/'' # join_with ''/'' ss" by (simp add: ss_def)
  have c: "i \<noteq> []" "CHR ''/'' \<notin> set i" "CHR ''%'' \<notin> set i" "CHR ''.'' \<notin> set i"
    using assms base32_path unfolding challenge_id_def by blast+
  have slash: "CHR ''/'' \<notin> set x" if "x \<in> set ss" for x using that c(2) by (auto simp: ss_def)
  have plain: "plain_segment x" if "x \<in> set ss" for x using that c(1,4) by (auto simp: ss_def plain_segment_def)
  have "ss \<noteq> []" by (simp add: ss_def)
  note clean = cleanPath_plain [OF this plain slash] and split = split_join [OF \<open>ss \<noteq> []\<close> slash]
  have m: "map segment_of ss = ss" using unescape_no_percent [OF c(3)] by (simp add: ss_def segment_of_def)
  have "i \<noteq> ''/''" using c(2) by auto
  moreover have "segment_of ''v1'' = ''v1''" "segment_of ''agent'' = ''agent''" "segment_of ''acme-dns'' = ''acme-dns''" "segment_of i = i"
    using m by (simp_all add: ss_def)
  moreover have "cleanPath (''/v1/agent/acme-dns/'' @ i) = ''/v1/agent/acme-dns/'' @ i"
    "split_on CHR ''/'' (tl (''/v1/agent/acme-dns/'' @ i)) = ss"
    unfolding p using clean split by simp_all
  ultimately show ?thesis using c(1) unfolding route_of_def by (simp add: Let_def ss_def del: append.simps split_on.simps list.sel)
qed

lemma agent_succeeds:
  assumes "agent h r s = (x, s')" and "rs_status x < 400"
  shows "\<exists>tok T s1. Parse (bearer r) PrefixAgent = Inr tok \<and> AuthAgent tok (api_db s) = (Inr T, api_db s1) \<and>
    only_faults (api_db s) (api_db s1) \<and> h T s1 = (x, s')"
proof (cases "Parse (bearer r) PrefixAgent")
  case (Inl e)
  then show ?thesis using assms by (auto simp: agent_def writeErr_def respond_def)
next
  case (Inr tok)
  obtain q s1 where c: "call (AuthAgent tok) s = (q, s1)" by fastforce
  obtain T where q: "q = Inr T" using assms Inr c fail_status by (cases q) (auto simp: agent_def not_le [symmetric])
  then have "AuthAgent tok (api_db s) = (Inr T, api_db s1)" using c by (auto simp: call_def split: prod.splits)
  then show ?thesis using assms(1) Inr c q AuthAgent_accepts(1) by (auto simp: agent_def)
qed

lemma token_tunnel_of:
  assumes "reachable d" and "Parse ts PrefixAgent = Inr tok" and "AuthAgent tok d = (Inr T, d')"
  shows "token_tunnels ts (db_tables d) = {t_id T}"
proof -
  obtain k where k: "k \<in> set (tokens (db_tables d))" "tok_row_id k = tok_id tok" "tok_hash k = Hash tok" "tok_tunnel k = t_id T"
    using AuthAgent_accepts(2) [OF assms(3)] by blast
  have "distinct (map tok_row_id (tokens (db_tables d)))"
    using schema_okD(4) [OF reachable_schema [OF assms(1)]] by (simp add: tokens_ok_def)
  then have "x = k" if "x \<in> set (tokens (db_tables d))" "tok_row_id x = tok_id tok" for x
    using that k(1,2) by (metis distinct_map inj_onD)
  note one = this
  have "i \<in> token_tunnels ts (db_tables d) \<longleftrightarrow> (\<exists>x\<in>set (tokens (db_tables d)). tok_row_id x = tok_id tok \<and> tok_tunnel x = i \<and> tok_hash x = Hash tok)" for i
    unfolding token_tunnels_def assms(2) by (auto simp: token_view_def image_iff) metis
  also have "\<dots> i \<longleftrightarrow> i = t_id T" for i using one k by blast
  finally show ?thesis by blast
qed

lemma acme_call_path:
  "acme_call srv c method p json rnd s = Handler srv \<lparr>rq_method = method, rq_path = p, rq_authorization = ''Bearer '' @ cl_token c,
     rq_query = \<lambda>_. [], rq_json = json, rq_body = [], rq_random = rnd\<rparr> [] s"
  by (simp add: acme_call_def do_request_def Let_def)

lemma acme_call_cases:
  fixes srv :: "('p, 'l) Server"
  assumes "acme_call srv c method p json rnd s = (resp, s')" and "route_of p = Some rt" and "method \<in> set (methods rt)"
    and h: "\<And>r. rq_json r = json \<Longrightarrow> rq_random r = rnd \<Longrightarrow> agent_handler srv r rt = Some (h r)"
    and ok: "resp \<noteq> None \<Longrightarrow> rs_status (the resp) < 400" and "reachable (api_db s)"
  shows "\<exists>r x T s1. rq_json r = json \<and> rq_random r = rnd \<and> resp = Some x \<and> h r T s1 = (x, s') \<and>
    only_faults (api_db s) (api_db s1) \<and> reachable (api_db s') \<and>
    token_tunnels (cl_token c) (db_tables (api_db s)) = {t_id T} \<and> token_tunnels (cl_token c) (db_tables (api_db s')) = {t_id T}"
proof -
  let ?r = "\<lparr>rq_method = method, rq_path = p, rq_authorization = ''Bearer '' @ cl_token c, rq_query = \<lambda>_. [],
    rq_json = json, rq_body = [], rq_random = rnd\<rparr>"
  have hd: "Handler srv ?r [] s = (resp, s')"
    using assms(1) unfolding acme_call_path .
  have ah: "agent_handler srv ?r rt = Some (h ?r)" by (rule h) simp_all
  obtain x where x: "resp = Some x" "agent (h ?r) ?r s = (x, s')"
    using hd assms(2,3) ah by (auto simp: Handler_def split: prod.splits)
  have b: "bearer ?r = cl_token c" by (simp add: bearer_def del: append.simps)
  obtain tok T s1 where t: "Parse (cl_token c) PrefixAgent = Inr tok" "AuthAgent tok (api_db s) = (Inr T, api_db s1)"
    "only_faults (api_db s) (api_db s1)" "h ?r T s1 = (x, s')"
    using agent_succeeds [OF x(2)] ok x(1) unfolding b by auto
  have tt: "token_tunnels (cl_token c) (db_tables (api_db s)) = {t_id T}" by (rule token_tunnel_of [OF assms(6) t(1,2)])
  have "map token_view (tokens (db_tables (api_db s'))) = map token_view (tokens (db_tables (api_db s)))"
    using agent_handler_stays [OF ah t(4)] only_faults_frame [OF t(3)] by (simp add: stays_in_def confined_def)
  then have "token_tunnels (cl_token c) (db_tables (api_db s')) = {t_id T}" using tt by (simp add: token_tunnels_def)
  moreover have "reachable (api_db s')"
    using Handler_moves [OF hd reachable_schema [OF assms(6)]] moves_reachable assms(6) by blast
  ultimately show ?thesis using x(1) t(3,4) tt by (intro exI [of _ ?r]) auto
qed

lemma CreateDNSChallenge_row:
  assumes "CreateDNSChallenge tid f v recid rnd d = (Inr i, d')"
  shows "i = Random rnd \<and> i \<notin> ch_id ` set (challenges (db_tables d)) \<and>
    (\<exists>row. ch_id row = i \<and> ch_tunnel row = tid \<and> challenges (db_tables d') = challenges (db_tables d) @ [row])"
proof -
  let ?c = "\<lparr>ch_id = Random rnd, ch_tunnel = tid, ch_fqdn = f, ch_value = v, ch_record = null_if_empty recid\<rparr>"
  from assms have i: "i = Random rnd" and st: "stmt (sql_insert_challenge ?c) d = (Inr (), d')"
    by (auto simp: CreateDNSChallenge_def Let_def bindr_Inr retr_def)
  from stmt_Inr [OF st] obtain d1 where d1: "db_tables d1 = db_tables d" "sql_insert_challenge ?c d1 = (Inr (), d')" by blast
  then have "\<not> list_ex (\<lambda>x. ch_id x = i) (challenges (db_tables d))" "challenges (db_tables d') = challenges (db_tables d) @ [?c]"
    using i by (auto simp: sql_insert_challenge_def Let_def split: if_splits)
  then show ?thesis using i by (auto simp: list_ex_iff intro: exI [of _ ?c])
qed

lemma DeleteDNSChallenge_rows:
  assumes "DeleteDNSChallenge tid i d = (q, d')" and "q = Inr () \<or> q = Inl ErrNotFound"
  shows "challenges (db_tables d') = filter (\<lambda>c. \<not> (ch_id c = i \<and> ch_tunnel c = tid)) (challenges (db_tables d))"
proof -
  let ?hit = "\<lambda>c. ch_id c = i \<and> ch_tunnel c = tid"
  let ?f = "\<lambda>t. (length (filter ?hit (challenges t)), t\<lparr>challenges := filter (\<lambda>c. \<not> ?hit c) (challenges t)\<rparr>)"
  obtain r d0 where a: "affect ?f d = (r, d0)" by fastforce
  have "r \<noteq> Inl ErrNotFound"
    using a by (auto simp: affect_def stmt_def Let_def split: prod.splits fault.splits)
  then obtain n where "affect ?f d = (Inr n, d')"
    using assms a by (cases r) (auto simp: DeleteDNSChallenge_def require_rows_def bindr_def throw_def retr_def split: if_splits)
  then have "stmt (\<lambda>d. let (n, t) = ?f (db_tables d) in (Inr n, put_tables (\<lambda>_. t) d)) d = (Inr n, d')"
    by (simp add: affect_def)
  from stmt_Inr [OF this] show ?thesis by auto
qed

lemma Do_success:
  "Do (map_option (over_http dec m) resp) = Inr v \<Longrightarrow> \<exists>x. resp = Some x \<and> rs_status x < 400 \<and> dec (if m = ''HEAD'' then NoBody else rs_body x) = Some v"
  "Do_none (map_option (over_http dec m) resp) = Inr () \<Longrightarrow> \<exists>x. resp = Some x \<and> rs_status x < 400"
  by (auto simp: Do_def Do_none_def over_http_def Let_def split: option.splits if_splits)

lemma api_create_live:
  assumes "sane_api s" and "api_create srv c f v s = (Inr i, s')"
  shows "sane_api s' \<and> challenge_id i \<and> i \<notin> live_challenges c s \<and> live_challenges c s' = insert i (live_challenges c s)"
proof -
  let ?json = "Some [''fqdn'' \<mapsto> f, ''value'' \<mapsto> v]"
  obtain rnd rnds resp s1' where s: "snd s = rnd # rnds" "s' = (s1', rnds)"
    and call: "acme_call srv c ''POST'' ''/v1/agent/acme-dns'' ?json rnd (fst s) = (resp, s1')"
    and d: "Do (map_option (over_http acme_id ''POST'') resp) = Inr i"
    using assms(2) by (auto simp: api_create_def split: list.splits prod.splits)
  have re: "reachable (api_db (fst s))" and rnd: "rnd \<noteq> []" "[] \<notin> set rnds" using assms(1) s(1) by (auto simp: sane_api_def)
  note ok = Do_success(1) [OF d]
  obtain r x T s1 where r: "rq_json r = ?json" "rq_random r = rnd" "resp = Some x" "acmeDNSCreate srv r T s1 = (x, s1')"
    "only_faults (api_db (fst s)) (api_db s1)" "reachable (api_db s1')"
    "token_tunnels (cl_token c) (db_tables (api_db (fst s))) = {t_id T}" "token_tunnels (cl_token c) (db_tables (api_db s1')) = {t_id T}"
    using acme_call_cases [OF call, of AcmeDNS "acmeDNSCreate srv"] ok re by (auto simp: route_examples)
  have id: "acme_id (rs_body x) = Some i" "rs_status x < 400" using ok r(3) by auto
  from r(4) obtain fqdn val recid s3 q where st: "only_faults (api_db s1) (api_db s3)"
    "call (CreateDNSChallenge (t_id T) fqdn val recid rnd) s3 = (q, s1')" "x = (case q of Inl e \<Rightarrow> fail e | Inr i \<Rightarrow> writeJSON (ACMEBody i))"
    using id(2) r(2) by (cases rule: acmeDNSCreate_cases) auto
  then have "q = Inr i" using id fail_status by (auto simp: acme_id_def writeJSON_def respond_def not_le [symmetric] split: sum.splits)
  then have "CreateDNSChallenge (t_id T) fqdn val recid rnd (api_db s3) = (Inr i, api_db s1')"
    using st(2) by (auto simp: call_def split: prod.splits)
  note row = CreateDNSChallenge_row [OF this]
  have t3: "db_tables (api_db s3) = db_tables (api_db (fst s))"
    using only_faults_frame [OF st(1)] only_faults_frame [OF r(5)] by simp
  have "challenge_id i" using row rnd(1) Random_plain Random_Nil_iff [of rnd] by (auto simp: challenge_id_def)
  moreover have "sane_api s'" using s(2) r(6) rnd(2) by (simp add: sane_api_def)
  moreover have "i \<notin> live_challenges c s" using row t3 by (auto simp: live_challenges_def Let_def)
  moreover obtain w where "ch_id w = i" "ch_tunnel w = t_id T" "challenges (db_tables (api_db s1')) = challenges (db_tables (api_db (fst s))) @ [w]"
    using row t3 by auto
  then have "live_challenges c s' = insert i (live_challenges c s)" using s(2) by (auto simp: live_challenges_def Let_def r(7,8))
  ultimately show ?thesis by blast
qed

lemma acmeDNSDelete_rows:
  assumes "acmeDNSDelete srv i T s = (x, s')" and "rs_status x < 400"
  shows "set (challenges (db_tables (api_db s'))) = {c \<in> set (challenges (db_tables (api_db s))). \<not> (ch_id c = i \<and> ch_tunnel c = t_id T)}"
proof -
  obtain q s1 where c: "call (DNSChallenge (t_id T) i) s = (q, s1)" by fastforce
  have f: "db_tables (api_db s1) = db_tables (api_db s)" using call_only_faults [OF c reads_only_faults(5)] only_faults_frame by blast
  have dc: "DNSChallenge (t_id T) i (api_db s) = (q, api_db s1)" using c by (auto simp: call_def split: prod.splits)
  show ?thesis
  proof (cases q)
    case (Inl e)
    then have e: "e = ErrNotFound" and s': "s' = s1"
      using assms c fail_status [of e] by (auto simp: acmeDNSDelete_def split: if_splits)
    have "find (\<lambda>c. ch_id c = i \<and> ch_tunnel c = t_id T) (challenges (db_tables (api_db s))) = None"
      using dc unfolding Inl e DNSChallenge_def
      by (auto simp: bindr_def query_def stmt_def throw_def retr_def split: prod.splits fault.splits sum.splits option.splits dest!: next_fault_frame)
    then show ?thesis unfolding s' f find_None_iff by blast
  next
    case (Inr y)
    obtain val recid where y: "y = (val, recid)" by (cases y)
    define s2 where "s2 = (case srv_provider srv of
        Some p \<Rightarrow> if recid \<noteq> [] then s1\<lparr>api_prov := snd (prov_delete p recid (api_prov s1))\<rparr> else s1 | None \<Rightarrow> s1)"
    have s2: "api_db s2 = api_db s1" by (simp add: s2_def split: option.splits)
    obtain q2 s3 where d: "call (DeleteDNSChallenge (t_id T) i) s2 = (q2, s3)" by fastforce
    have "s' = s3" and q2: "q2 = Inr () \<or> q2 = Inl ErrNotFound"
      using assms fail_status unfolding acmeDNSDelete_def c Inr y Let_def
      by (auto simp: s2_def [symmetric] d not_le [symmetric] split: sum.splits if_splits)
    moreover have "DeleteDNSChallenge (t_id T) i (api_db s2) = (q2, api_db s3)" using d by (auto simp: call_def split: prod.splits)
    ultimately show ?thesis using DeleteDNSChallenge_rows [OF _ q2] s2 f by auto
  qed
qed

lemma api_delete_live:
  assumes "sane_api s" and "challenge_id i" and "api_delete srv c i s = (None, s')"
  shows "sane_api s' \<and> live_challenges c s' = live_challenges c s - {i}"
proof -
  obtain resp s1' where call: "acme_call srv c ''DELETE'' (''/v1/agent/acme-dns/'' @ i) None [] (fst s) = (resp, s1')"
    and s': "s' = (s1', snd s)" and d: "Do_none (map_option (over_http acme_id ''DELETE'') resp) = Inr ()"
    using assms(3) by (auto simp: api_delete_def split: prod.splits sum.splits)
  have re: "reachable (api_db (fst s))" and sup: "[] \<notin> set (snd s)" using assms(1) by (auto simp: sane_api_def)
  note ok = Do_success(2) [OF d]
  obtain r x T s1 where r: "resp = Some x" "acmeDNSDelete srv i T s1 = (x, s1')" "only_faults (api_db (fst s)) (api_db s1)" "reachable (api_db s1')"
    "token_tunnels (cl_token c) (db_tables (api_db (fst s))) = {t_id T}" "token_tunnels (cl_token c) (db_tables (api_db s1')) = {t_id T}"
    using acme_call_cases [OF call challenge_route [OF assms(2)], of "\<lambda>_. acmeDNSDelete srv i"] ok re by auto
  have "rs_status x < 400" using ok r(1) by auto
  note rows = acmeDNSDelete_rows [OF r(2) this]
  have "db_tables (api_db s1) = db_tables (api_db (fst s))" using only_faults_frame [OF r(3)] by simp
  then have "live_challenges c s' = live_challenges c s - {i}"
    unfolding live_challenges_def Let_def s' using rows by (auto simp: r(5,6))
  then show ?thesis using s' r(4) sup by (simp add: sane_api_def)
qed

interpretation acme_api: challenge_api "api_create srv c" "api_delete srv c" "live_challenges c" sane_api challenge_id for srv c
  by unfold_locales (use api_create_live api_delete_live in blast)+

section \<open>Limits of the bookkeeping\<close>

text \<open>A delete that fails forgets the id: trying again does nothing, and the record stays.\<close>

lemma failed_delete_forgets:
  assumes "ids (challengeKey (absolute_fqdn absName zone r) (lr_data r)) = Some i" and "delete i s = (Some e, s1)"
  shows "\<exists>ids1. DeleteRecords absName delete zone [r] ids s = ((Some e, []), ids1, s1) \<and>
    DeleteRecords absName delete zone [r] ids1 s1 = ((None, []), ids1, s1)"
  using assms by (simp add: Let_def fun_upd_idem)

text \<open>Appending the same record twice leaves one challenge that no delete removes.\<close>

lemma repeated_append_leaks:
  assumes "create (absolute_fqdn absName zone r) (lr_data r) s = (Inr i, s1)"
    and "create (absolute_fqdn absName zone r) (lr_data r) s1 = (Inr j, s2)"
  shows "fst (snd (AppendRecords absName create zone [r, r] ids s)) = ids(challengeKey (absolute_fqdn absName zone r) (lr_data r) \<mapsto> j)"
  using assms by (simp add: Let_def)

text \<open>Names without a NUL and their values are told apart by their key.\<close>

lemma challengeKey_inj:
  assumes "challengeKey f v = challengeKey g w" and "CHR 0x00 \<notin> set f" and "CHR 0x00 \<notin> set g"
  shows "f = g \<and> v = w"
proof -
  have tw: "takeWhile (\<lambda>c. c \<noteq> CHR 0x00) (challengeKey f v) = f" if "CHR 0x00 \<notin> set f" for f v
    using that by (induction f) (auto simp: challengeKey_def)
  have "f = g" using tw [OF assms(2), of v] tw [OF assms(3), of w] assms(1) by simp
  then show ?thesis using assms(1) by (simp add: challengeKey_def)
qed

lemma distinct_keys:
  assumes "distinct (map (\<lambda>r. (absolute_fqdn absName zone r, lr_data r)) recs)"
    and "\<forall>r\<in>set recs. CHR 0x00 \<notin> set (absolute_fqdn absName zone r)"
  shows "distinct (map (\<lambda>r. challengeKey (absolute_fqdn absName zone r) (lr_data r)) recs)"
  using assms by (induction recs) (auto dest!: challengeKey_inj)

section \<open>An example\<close>

definition first_client :: Client where
  "first_client = New_Client ''http://r'' (Token_String first_token)"

lemma first_client_simps: "cl_base_url first_client = ''http://r''" "cl_token first_client = Token_String first_token"
  by (simp_all add: first_client_def New_Client_def trim_suffix_def has_suffix_def)

definition acme_state :: "(unit, unit) api_state" where
  "acme_state = snd (Handler example_server example_acme [] first_state)"

lemma acme_state_db: "api_db acme_state = put_tables (\<lambda>t. t\<lparr>challenges := [example_row]\<rparr>) first_db"
  "Handler example_server example_acme [] first_state = (Some (writeJSON (ACMEBody (Random [7]))), acme_state)"
proof -
  have "db_faults first_db = []" "challenges (db_tables first_db) = []" "list_ex (\<lambda>r. tun_id r = 1) (tunnels (db_tables first_db))"
    by (simp_all add: first_db_def first_tunnel_def run_defs)
  moreover have "first_state\<lparr>api_db := first_db\<rparr> = first_state" by (simp add: first_state_def)
  ultimately obtain s where "Handler example_server example_acme [] first_state = (Some (writeJSON (ACMEBody (Random [7]))), s)"
      "api_db s = put_tables (\<lambda>t. t\<lparr>challenges := [example_row]\<rparr>) first_db"
    using example_granted [of example_server first_db] first_token_auth by auto
  then show "api_db acme_state = put_tables (\<lambda>t. t\<lparr>challenges := [example_row]\<rparr>) first_db"
    "Handler example_server example_acme [] first_state = (Some (writeJSON (ACMEBody (Random [7]))), acme_state)"
    by (simp_all add: acme_state_def)
qed

lemma example_create:
  "api_create example_server first_client ''_acme-challenge.aaaaaaa.ex.org.'' ''v'' (first_state, [[7]]) =
     (Inr (Random [7]), acme_state, [])"
proof -
  have "acme_call example_server first_client ''POST'' ''/v1/agent/acme-dns''
      (Some [''fqdn'' \<mapsto> ''_acme-challenge.aaaaaaa.ex.org.'', ''value'' \<mapsto> ''v'']) [7] first_state =
      (Some (writeJSON (ACMEBody (Random [7]))), acme_state)"
    using acme_state_db(2) by (simp add: acme_call_def do_request_def first_client_simps example_acme_def example_request_def)
  then show ?thesis
    by (simp add: api_create_def Do_def over_http_def acme_id_def writeJSON_def respond_def Let_def)
qed

lemma example_delete:
  "\<exists>s. api_delete example_server first_client (Random [7]) (acme_state, []) = (None, s, [])"
proof -
  let ?d = "api_db acme_state"
  have d0: "db_faults ?d = []" "challenges (db_tables ?d) = [example_row]"
    by (simp_all add: acme_state_db(1) put_tables_def first_db_faults)
  have auth: "AuthAgent first_token ?d = (Inr first_T, ?d)"
    by (rule AuthAgent_cong [OF first_db_faults d0(1) _ _ _ first_token_auth]) (simp_all add: acme_state_db(1) put_tables_def)
  have c: "call (DNSChallenge 1 (Random [7])) acme_state = (Inr (''v'', ''1''), acme_state)"
    by (simp add: call_def DNSChallenge_def bindr_def query_run d0 example_row_def retr_def str_or_empty_def)
  have "\<exists>s. acmeDNSDelete example_server (Random [7]) first_T acme_state = (respond 204 NoBody, s)"
  proof -
    have "\<exists>d. DeleteDNSChallenge 1 (Random [7]) ?d = (Inr (), d)"
      by (simp add: DeleteDNSChallenge_def require_rows_def affect_def bindr_def stmt_run d0 example_row_def retr_def Let_def)
    then obtain d where "DeleteDNSChallenge 1 (Random [7]) ?d = (Inr (), d)" ..
    then have "\<exists>s. call (DeleteDNSChallenge 1 (Random [7])) (acme_state\<lparr>api_prov := q\<rparr>) = (Inr (), s)" for q
      by (simp add: call_def)
    moreover have "t_id first_T = 1" by (simp add: first_T_def)
    moreover obtain p where "srv_provider example_server = Some p" by (simp add: example_server_def)
    ultimately show ?thesis using c by (fastforce simp: acmeDNSDelete_def Let_def)
  qed
  moreover have "challenge_id (Random [7])"
    using Random_plain Random_Nil_iff [of "[7]"] by (auto simp: challenge_id_def)
  moreover have "agent h r acme_state = h first_T acme_state" if "rq_authorization r = ''Bearer '' @ Token_String first_token" for h r
    using auth that by (simp add: agent_def bearer_def call_def first_token_parse del: append.simps)
  ultimately obtain s where "acme_call example_server first_client ''DELETE'' (''/v1/agent/acme-dns/'' @ Random [7]) None [] acme_state =
      (Some (respond 204 NoBody), s)"
    unfolding acme_call_path first_client_simps by (auto simp: Handler_def challenge_route simp del: append.simps)
  then show ?thesis by (simp add: api_delete_def Do_none_def over_http_def respond_def Let_def)
qed

section \<open>Properties\<close>

text \<open>
  C34: The agent cleans up after its challenges.  When it appends records to a zone, no two of
  them with the same name and value, and later deletes the same ones, and no call fails: the
  append left in the control plane one new challenge of its tunnel for each record, the delete
  takes exactly these away again, and both report all the records.  The calls go through the
  client, HTTP and the handlers of the API.  The records may share a name, as those of
  concurrent challenges do; names hold no NUL.
\<close>
theorem challenges_cleaned_up:
  assumes "AppendRecords absName (api_create srv c) zone recs ids s = ((None, out), ids1, s1)"
    and "DeleteRecords absName (api_delete srv c) zone recs ids1 s1 = ((None, out2), ids2, s2)"
    and "sane_api s"
    and "distinct (map (\<lambda>r. (absolute_fqdn absName zone r, lr_data r)) recs)"
    and "\<forall>r\<in>set recs. CHR 0x00 \<notin> set (absolute_fqdn absName zone r)"
  shows "out = recs \<and> live_challenges c s \<subseteq> live_challenges c s1 \<and>
    card (live_challenges c s1 - live_challenges c s) = length recs \<and> out2 = recs \<and> live_challenges c s2 = live_challenges c s"
  by (rule acme_api.append_delete [OF assms(1-3) distinct_keys [OF assms(4,5)]])

theorem challenges_cleaned_up_witness:
  "\<exists>ids2 s2. DeleteRecords (\<lambda>n z. n @ CHR ''.'' # z) (api_delete example_server first_client) ''aaaaaaa.ex.org..''
       [\<lparr>lr_name = ''_acme-challenge'', lr_data = ''v''\<rparr>] [challengeKey ''_acme-challenge.aaaaaaa.ex.org.'' ''v'' \<mapsto> Random [7]] (acme_state, []) =
     ((None, [\<lparr>lr_name = ''_acme-challenge'', lr_data = ''v''\<rparr>]), ids2, s2) \<and>
   live_challenges first_client s2 = live_challenges first_client (first_state, [[7]])"
proof -
  let ?r = "\<lparr>lr_name = ''_acme-challenge'', lr_data = ''v''\<rparr>" and ?abs = "\<lambda>n z. n @ CHR ''.'' # z" and ?z = "''aaaaaaa.ex.org..''"
  let ?f = "''_acme-challenge.aaaaaaa.ex.org.''" and ?s = "(first_state, [[7]])"
  have fqdn: "absolute_fqdn ?abs ?z ?r = ?f"
    by (simp add: absolute_fqdn_def trim_suffix_def has_suffix_def)
  have a: "AppendRecords ?abs (api_create example_server first_client) ?z [?r] Map.empty ?s =
      ((None, [?r]), [challengeKey ?f ''v'' \<mapsto> Random [7]], (acme_state, []))"
    using example_create by (simp add: Let_def fqdn del: fun_upd_apply)
  obtain s2 where "api_delete example_server first_client (Random [7]) (acme_state, []) = (None, s2, [])"
    using example_delete by blast
  then have d: "DeleteRecords ?abs (api_delete example_server first_client) ?z [?r] [challengeKey ?f ''v'' \<mapsto> Random [7]] (acme_state, []) =
      ((None, [?r]), Map.empty, (s2, []))"
    by (simp add: fqdn Let_def)
  have "reachable (api_db first_state)" using served_moves [OF first_state_served] moves_reachable reachable.start by blast
  then have sane: "sane_api ?s" by (simp add: sane_api_def)
  have nul: "\<forall>r\<in>set [?r]. CHR 0x00 \<notin> set (absolute_fqdn ?abs ?z r)" using fqdn by simp
  from challenges_cleaned_up [OF a d sane _ nul] d show ?thesis by auto
qed

end
