(* ===== verification/Agent_Export.thy ===== *)
theory Agent_Export
  imports Agent_Terminate Agent_Storage
begin

text \<open>
  internal/agent/exportcert.go: the certificates of passthrough routes with export_cert, got by
  DNS-01 alone and written to the directory of the route whenever one is obtained.  The file
  system is a map from directory and file name to contents; whether a call of the system
  succeeds is an argument.
\<close>

section \<open>newExporter\<close>

definition exported :: "(string \<rightharpoonup> RouteSpec) \<Rightarrow> string \<Rightarrow> string option" where
  "exported routes host =
     (case routes host of
        Some r \<Rightarrow> if sp_mode r = ModePassthrough \<and> sp_export_cert r \<noteq> [] then Some (sp_export_cert r) else None
      | None \<Rightarrow> None)"

text \<open>The loop over the routes: a host appears once, and so has one directory.\<close>

fun dirs_by_host :: "(string \<rightharpoonup> RouteSpec) \<Rightarrow> string list \<Rightarrow> (string \<rightharpoonup> string list) \<Rightarrow> string \<rightharpoonup> string list" where
  "dirs_by_host routes [] m = m"
| "dirs_by_host routes (host # order) m =
     dirs_by_host routes order
       (case exported routes host of
          Some dir \<Rightarrow> m(host \<mapsto> (case m host of Some ds \<Rightarrow> ds | None \<Rightarrow> []) @ [dir])
        | None \<Rightarrow> m)"

record 'roots exporter =
  ex_dirs :: "string \<rightharpoonup> string list"
  ex_hosts :: "string list"
  ex_issuer :: "'roots acme_issuer"

definition newExporter ::
  "(string \<Rightarrow> bytes option) \<Rightarrow> (bytes \<Rightarrow> 'roots option) \<Rightarrow> (string list \<Rightarrow> bool) \<Rightarrow> string list \<Rightarrow> (string \<rightharpoonup> RouteSpec) \<Rightarrow> ACME \<Rightarrow>
   terminator_error + 'roots exporter option" where
  "newExporter readFile parsePEM manage order routes acme =
     (let dirs = dirs_by_host routes order Map.empty
      in if dirs = Map.empty then Inr None
         else
           let hosts = sortedKeys dirs
           in (case loadTrustedRoots readFile parsePEM (acme_trusted_roots acme) of
                 Inl e \<Rightarrow> Inl (TermRoots e)
               | Inr roots \<Rightarrow>
                   if \<not> manage hosts then Inl ManageFailed
                   else Inr (Some \<lparr>ex_dirs = dirs, ex_hosts = hosts, ex_issuer = dns01_issuer acme roots\<rparr>)))"

section \<open>Writing the files\<close>

type_synonym files = "string \<times> string \<rightharpoonup> bytes"

datatype export_error = ExportLoad storage_error | ExportWrite string

text \<open>A failed write may leave anything in the file it was to write.\<close>

record fs_calls =
  fc_mkdir :: "string \<Rightarrow> bool"
  fc_write :: "string \<times> string \<Rightarrow> bytes \<Rightarrow> bool \<times> bytes option"

definition write_file :: "fs_calls \<Rightarrow> string \<times> string \<Rightarrow> bytes \<Rightarrow> files \<Rightarrow> bool \<times> files" where
  "write_file fc path data fs =
     (case fc_write fc path data of
        (True, _) \<Rightarrow> (True, fs(path \<mapsto> data))
      | (False, left) \<Rightarrow> (False, fs(path := left)))"

definition writeCertFiles :: "fs_calls \<Rightarrow> string \<Rightarrow> bytes \<Rightarrow> bytes \<Rightarrow> files \<Rightarrow> bool \<times> files" where
  "writeCertFiles fc dir cert key fs =
     (if \<not> fc_mkdir fc dir then (False, fs)
      else case write_file fc (dir, ''fullchain.pem'') cert fs of
             (False, fs1) \<Rightarrow> (False, fs1)
           | (True, fs1) \<Rightarrow> write_file fc (dir, ''privkey.pem'') key fs1)"

fun write_dirs :: "fs_calls \<Rightarrow> string list \<Rightarrow> bytes \<Rightarrow> bytes \<Rightarrow> files \<Rightarrow> (export_error + unit) \<times> files" where
  "write_dirs fc [] cert key fs = (Inr (), fs)"
| "write_dirs fc (dir # dirs) cert key fs =
     (case writeCertFiles fc dir cert key fs of
        (False, fs1) \<Rightarrow> (Inl (ExportWrite dir), fs1)
      | (True, fs1) \<Rightarrow> write_dirs fc dirs cert key fs1)"

text \<open>The data of the event, with absent fields empty; load is the agent's store.\<close>

definition exportOnEvent ::
  "(string \<Rightarrow> storage_error + bytes) \<Rightarrow> fs_calls \<Rightarrow> (string \<rightharpoonup> string list) \<Rightarrow> string \<Rightarrow> string \<Rightarrow> string \<Rightarrow> files \<Rightarrow>
   (export_error + unit) \<times> files" where
  "exportOnEvent load fc dirs host certPath keyPath fs =
     (case (case dirs host of Some ds \<Rightarrow> ds | None \<Rightarrow> []) of
        [] \<Rightarrow> (Inr (), fs)
      | ds \<Rightarrow>
          (case load certPath of
             Inl e \<Rightarrow> (Inl (ExportLoad e), fs)
           | Inr cert \<Rightarrow>
               (case load keyPath of
                  Inl e \<Rightarrow> (Inl (ExportLoad e), fs)
                | Inr key \<Rightarrow> write_dirs fc ds cert key fs)))"

definition on_event ::
  "(string \<Rightarrow> storage_error + bytes) \<Rightarrow> fs_calls \<Rightarrow> 'roots exporter \<Rightarrow> string \<Rightarrow> string \<Rightarrow> string \<Rightarrow> string \<Rightarrow> files \<Rightarrow>
   (export_error + unit) \<times> files" where
  "on_event load fc ex event host certPath keyPath fs =
     (if event \<noteq> ''cert_obtained'' then (Inr (), fs) else exportOnEvent load fc (ex_dirs ex) host certPath keyPath fs)"

section \<open>Facts\<close>

lemma dirs_by_host_result:
  "distinct order \<Longrightarrow> (\<And>h. h \<in> set order \<Longrightarrow> m h = None) \<Longrightarrow>
    dirs_by_host routes order m h = (if h \<in> set order then map_option (\<lambda>d. [d]) (exported routes h) else m h)"
proof (induction order arbitrary: m)
  case (Cons k order)
  let ?m = "case exported routes k of Some dir \<Rightarrow> m(k \<mapsto> (case m k of Some ds \<Rightarrow> ds | None \<Rightarrow> []) @ [dir]) | None \<Rightarrow> m"
  have "dirs_by_host routes order ?m h = (if h \<in> set order then map_option (\<lambda>d. [d]) (exported routes h) else ?m h)"
    using Cons.prems by (intro Cons.IH) (auto split: option.splits)
  then show ?case using Cons.prems by (auto split: option.splits)
qed simp

lemma write_dirs_done:
  assumes "write_dirs fc ds cert key fs = (Inr (), fs')"
  shows "fs' (dir, name) = (if dir \<in> set ds \<and> name = ''fullchain.pem'' then Some cert
     else if dir \<in> set ds \<and> name = ''privkey.pem'' then Some key else fs (dir, name))"
  using assms
proof (induction ds arbitrary: fs)
  case (Cons d ds)
  then obtain fs1 where w: "writeCertFiles fc d cert key fs = (True, fs1)" "write_dirs fc ds cert key fs1 = (Inr (), fs')"
    by (auto split: prod.splits bool.splits)
  have "fs1 = fs((d, ''fullchain.pem'') \<mapsto> cert, (d, ''privkey.pem'') \<mapsto> key)"
    using w(1) by (auto simp: writeCertFiles_def write_file_def split: prod.splits bool.splits if_splits)
  with Cons.IH [OF w(2)] show ?case by auto
qed simp

text \<open>
  An export that returns no error leaves in the route's directory the certificate and the key
  that the store holds, and no other file changed; other hosts' events write nothing.
\<close>

lemma export_written:
  assumes "newExporter readFile parsePEM manage order routes acme = Inr (Some ex)" and "set order = dom routes" and "distinct order"
    and "on_event load fc ex ''cert_obtained'' host certPath keyPath fs = (Inr (), fs')"
  shows "case exported routes host of
      None \<Rightarrow> fs' = fs
    | Some dir \<Rightarrow> \<exists>cert key. load certPath = Inr cert \<and> load keyPath = Inr key \<and>
        fs' = fs((dir, ''fullchain.pem'') \<mapsto> cert, (dir, ''privkey.pem'') \<mapsto> key)"
proof -
  have dirs: "ex_dirs ex h = map_option (\<lambda>d. [d]) (exported routes h)" for h
  proof -
    have "ex_dirs ex = dirs_by_host routes order Map.empty"
      using assms(1) by (auto simp: newExporter_def Let_def split: sum.splits if_splits)
    then show ?thesis using dirs_by_host_result [OF assms(3), of Map.empty routes h] assms(2)
      by (auto simp: exported_def domIff split: option.splits)
  qed
  show ?thesis
  proof (cases "exported routes host")
    case None
    then show ?thesis using assms(4) dirs [of host] by (simp add: on_event_def exportOnEvent_def)
  next
    case (Some dir)
    then obtain cert key where l: "load certPath = Inr cert" "load keyPath = Inr key" "write_dirs fc [dir] cert key fs = (Inr (), fs')"
      using assms(4) dirs [of host] by (auto simp: on_event_def exportOnEvent_def split: sum.splits)
    have "fs' = fs((dir, ''fullchain.pem'') \<mapsto> cert, (dir, ''privkey.pem'') \<mapsto> key)"
    proof (rule ext)
      show "fs' p = (fs((dir, ''fullchain.pem'') \<mapsto> cert, (dir, ''privkey.pem'') \<mapsto> key)) p" for p
        by (cases p) (simp add: write_dirs_done [OF l(3)])
    qed
    then show ?thesis using Some l by simp
  qed
qed

end
