(* ===== verification/Agent_Core.thy ===== *)
theory Agent_Core
  imports Agent_Export Proxy_Proto Wg_Net
begin

text \<open>
  internal/agent/agent.go: a session of the agent (register, build the tunnel, keep the lease
  with heartbeats, release it) and the tunnel it maintains (setNodes, reportHandshakes,
  handle).  The replies of the API, the device, the resolver and the outcome of dials are
  arguments; the events of the heartbeat loop come as a sequence.
\<close>

section \<open>Registering\<close>

text \<open>
  The replies to the attempts in turn, and the pause before each new attempt.  The agent stops
  at a reply that accepts it, rejects its token, or is an error of the API other than
  lease_held; while the replies last it keeps trying.
\<close>

datatype register_result =
    Registered RegisterResponse
  | RegisterFatal
  | RegisterFailed client_error
  | Registering duration

fun agent_register :: "duration \<Rightarrow> RegisterResponse http_reply option list \<Rightarrow> register_result \<times> duration list" where
  "agent_register backoff [] = (Registering backoff, [])"
| "agent_register backoff (reply # replies) =
     (case Do reply of
        Inr resp \<Rightarrow> (Registered resp, [])
      | Inl e \<Rightarrow>
          if Code e = [] then
            (let b = min (backoff * 2) (30 * second)
             in case agent_register b replies of (r, ws) \<Rightarrow> (r, b # ws))
          else if Code e = proto_ErrUnauthorized then (RegisterFatal, [])
          else if Code e = proto_ErrLeaseHeld then
            (case agent_register (15 * second) replies of (r, ws) \<Rightarrow> (r, 15 * second # ws))
          else (RegisterFailed e, []))"

section \<open>The tunnel\<close>

text \<open>tn_connected is None while the map was not made yet: a write to it would panic.\<close>

record ('dev, 'roots) tunnel =
  tn_net :: "'dev Net"
  tn_routes :: "string \<rightharpoonup> RouteSpec"
  tn_term :: "'roots terminator option"
  tn_nodes :: "Key \<rightharpoonup> proto_Node"
  tn_gateways :: "addr set"
  tn_connected :: "(Key \<rightharpoonup> bool) option"

definition new_tunnel :: "'dev Net \<Rightarrow> (string \<rightharpoonup> RouteSpec) \<Rightarrow> 'roots terminator option \<Rightarrow> ('dev, 'roots) tunnel" where
  "new_tunnel n routes term =
     \<lparr>tn_net = n, tn_routes = routes, tn_term = term, tn_nodes = Map.empty, tn_gateways = {}, tn_connected = None\<rparr>"

definition interval :: "duration \<Rightarrow> ('dev, 'roots) tunnel \<Rightarrow> duration" where
  "interval every t = (if tn_nodes t = Map.empty then min every (3 * second) else every)"

text \<open>What the agent calls outside: the device, the order of its maps, the resolver.\<close>

record 'dev agent_env =
  ag_ipc :: "ipc_line list \<Rightarrow> 'dev \<Rightarrow> 'dev option"
  ag_order :: "(Key \<rightharpoonup> Peer) \<Rightarrow> Key list"
  ag_lookup :: "string \<Rightarrow> addr list option"

text \<open>A node as a peer, when its key, its gateway and its endpoint can be read.\<close>

definition node_peer :: "'dev agent_env \<Rightarrow> proto_Node \<Rightarrow> (Key \<times> addr \<times> Peer) option" where
  "node_peer env n =
     (case (ParseKey (pn_public_key n), ParseAddr (pn_gateway_ip n), ResolveEndpoint (ag_lookup env) (pn_endpoint n)) of
        (Some key, Some gw, Inr ep) \<Rightarrow>
          Some (key, gw, \<lparr>peer_key = key, peer_allowed = PrefixFrom gw 32, peer_endpoint = ep, peer_keepalive = 25\<rparr>)
      | _ \<Rightarrow> None)"

text \<open>The loop of setNodes; the error kept is that of the last node that had one.\<close>

fun collect_nodes ::
  "'dev agent_env \<Rightarrow> proto_Node list \<Rightarrow> Peer list \<times> (Key \<rightharpoonup> proto_Node) \<times> addr set \<times> string option \<Rightarrow>
   Peer list \<times> (Key \<rightharpoonup> proto_Node) \<times> addr set \<times> string option" where
  "collect_nodes env [] acc = acc"
| "collect_nodes env (n # ns) (peers, byKey, gws, err) =
     (case node_peer env n of
        None \<Rightarrow> collect_nodes env ns (peers, byKey, gws, Some (pn_name n))
      | Some (key, gw, p) \<Rightarrow> collect_nodes env ns (peers @ [p], byKey(key \<mapsto> n), insert gw gws, err))"

datatype nodes_error = BadNode string | PeersFailed

definition setNodes :: "'dev agent_env \<Rightarrow> proto_Node list \<Rightarrow> ('dev, 'roots) tunnel \<Rightarrow> nodes_error option \<times> ('dev, 'roots) tunnel" where
  "setNodes env nodes t =
     (case collect_nodes env nodes ([], Map.empty, {}, None) of
        (peers, byKey, gws, err) \<Rightarrow>
          (case SetPeers (ag_ipc env) (ag_order env (net_peers (tn_net t))) (ag_order env (want_of peers)) peers (tn_net t) of
             (False, n) \<Rightarrow> (Some PeersFailed, t\<lparr>tn_net := n\<rparr>)
           | (True, n) \<Rightarrow>
               (map_option BadNode err,
                t\<lparr>tn_net := n, tn_nodes := byKey, tn_gateways := gws,
                  tn_connected := Some (case tn_connected t of None \<Rightarrow> Map.empty | Some c \<Rightarrow> c)\<rparr>)))"

text \<open>
  reportHandshakes: a node is up when its last handshake is less than three minutes old (a node
  without one is not), and each change is reported once.  None is the panic of writing to a map
  that was never made.
\<close>

datatype tunnel_log = TunnelUp string string | TunnelDown string

definition handshake_fresh :: "instant \<Rightarrow> (Key \<rightharpoonup> int) \<Rightarrow> Key \<Rightarrow> bool" where
  "handshake_fresh now hs key = (case hs key of None \<Rightarrow> False | Some sec \<Rightarrow> now - sec * second < 180 * second)"

fun report_nodes ::
  "instant \<Rightarrow> (Key \<rightharpoonup> int) \<Rightarrow> (Key \<rightharpoonup> proto_Node) \<Rightarrow> Key list \<Rightarrow> (Key \<rightharpoonup> bool) option \<Rightarrow>
   ((Key \<rightharpoonup> bool) option \<times> tunnel_log list) option" where
  "report_nodes now hs nodes [] connected = Some (connected, [])"
| "report_nodes now hs nodes (key # keys) connected =
     (case nodes key of
        None \<Rightarrow> report_nodes now hs nodes keys connected
      | Some n \<Rightarrow>
          (let ok = handshake_fresh now hs key;
               known = (case connected of Some c \<Rightarrow> (c key = Some True) | None \<Rightarrow> False)
           in if ok = known then report_nodes now hs nodes keys connected
              else case connected of
                     None \<Rightarrow> None
                   | Some c \<Rightarrow>
                       map_option (\<lambda>(c', logs). (c', (if ok then TunnelUp (pn_name n) (pn_endpoint n) else TunnelDown (pn_name n)) # logs))
                         (report_nodes now hs nodes keys (Some (c(key \<mapsto> ok))))))"

definition reportHandshakes ::
  "instant \<Rightarrow> string list option \<Rightarrow> Key list \<Rightarrow> ('dev, 'roots) tunnel \<Rightarrow> (('dev, 'roots) tunnel \<times> tunnel_log list) option" where
  "reportHandshakes now ipcGet order t =
     map_option (\<lambda>(c, logs). (t\<lparr>tn_connected := c\<rparr>, logs))
       (report_nodes now (LastHandshakes ipcGet) (tn_nodes t) order (tn_connected t))"

section \<open>The heartbeat loop\<close>

text \<open>
  The loop waits for its context, its ticker (every 2 seconds) or its timer, which it sets
  before it asks the API.  An event carries what the world answers.
\<close>

datatype hb_event = HbCheck instant "string list option" "Key list" | HbTimer "HeartbeatResponse http_reply option" | HbDone

datatype ('dev, 'roots) hb_result =
    HbRunning "('dev, 'roots) tunnel"
  | HbStopped
  | HbSuperseded
  | HbFatal
  | HbPanic

definition heartbeat_reply :: "'dev agent_env \<Rightarrow> HeartbeatResponse http_reply option \<Rightarrow> ('dev, 'roots) tunnel \<Rightarrow> ('dev, 'roots) hb_result" where
  "heartbeat_reply env reply t =
     (case Do reply of
        Inr resp \<Rightarrow> HbRunning (snd (setNodes env (hr_nodes resp) t))
      | Inl e \<Rightarrow>
          if Code e = proto_ErrSuperseded then HbSuperseded
          else if Code e = proto_ErrUnauthorized then HbFatal
          else HbRunning t)"

fun agent_heartbeat ::
  "'dev agent_env \<Rightarrow> duration \<Rightarrow> hb_event list \<Rightarrow> ('dev, 'roots) tunnel \<Rightarrow> ('dev, 'roots) hb_result \<times> duration list" where
  "agent_heartbeat env every [] t = (HbRunning t, [])"
| "agent_heartbeat env every (HbDone # es) t = (HbStopped, [])"
| "agent_heartbeat env every (HbCheck now ipcGet order # es) t =
     (case reportHandshakes now ipcGet order t of
        None \<Rightarrow> (HbPanic, [])
      | Some (t', logs) \<Rightarrow> agent_heartbeat env every es t')"
| "agent_heartbeat env every (HbTimer reply # es) t =
     (let next = interval every t
      in case heartbeat_reply env reply t of
           HbRunning t' \<Rightarrow> (case agent_heartbeat env every es t' of (r, ts) \<Rightarrow> (r, next # ts))
         | r \<Rightarrow> (r, [next]))"

section \<open>Connections\<close>

definition isGateway :: "addr_port option \<Rightarrow> ('dev, 'roots) tunnel \<Rightarrow> bool" where
  "isGateway remote t = (case remote of None \<Rightarrow> False | Some ap \<Rightarrow> ap_addr ap \<in> tn_gateways t)"

text \<open>
  What becomes of a connection: cut, handed to the terminator with the visitor's address, or
  joined to the target of its route, after the raw PROXY header when the route asks for it.
  AgentPanic is the use of a terminator that was never made.
\<close>

datatype agent_outcome =
    AgentClosed
  | AgentTerminate addr_port prefix_conn string term_outcome
  | AgentPass string bytes prefix_conn
  | AgentPanic

definition agent_handle ::
  "(bytes \<Rightarrow> nat \<times> string option) \<Rightarrow> bool \<Rightarrow> (string \<Rightarrow> bool) \<Rightarrow> bool \<Rightarrow> bool \<Rightarrow> addr_port option \<Rightarrow> bytes \<Rightarrow>
   ('dev, 'roots) tunnel \<Rightarrow> agent_outcome" where
  "agent_handle hel handshakeOk dialTCP pushed writeOk remote conn t =
     (if \<not> isGateway remote t then AgentClosed
      else
        let r = Read conn
        in if rr_err r \<noteq> None then AgentClosed
           else case Peek hel (rr_rest r) of
                  Inl e \<Rightarrow> AgentClosed
                | Inr (host, c) \<Rightarrow>
                    (case Match (tn_routes t) host of
                       None \<Rightarrow> AgentClosed
                     | Some route \<Rightarrow>
                         if sp_mode route = ModeTerminate then
                           (case tn_term t of
                              None \<Rightarrow> AgentPanic
                            | Some term \<Rightarrow> AgentTerminate (rr_src r) c host (term_handle handshakeOk dialTCP pushed host term))
                         else if \<not> dialTCP (sp_to route) then AgentClosed
                         else if sp_proxy_protocol route then
                           (if \<not> writeOk then AgentClosed else AgentPass (sp_to route) (rr_raw r) c)
                         else AgentPass (sp_to route) [] c))"

section \<open>A session\<close>

text \<open>
  What a session meets: the replies to its registration, whether the device and the listener
  start, and the events of the heartbeat loop.  The result says whether the error is fatal and
  whether the lease was released on the way out.
\<close>

record ('dev, 'roots) session_world =
  sw_replies :: "RegisterResponse http_reply option list"
  sw_device :: "'dev option"
  sw_listen :: bool
  sw_order :: "(string \<rightharpoonup> RouteSpec) \<Rightarrow> string list"
  sw_read_file :: "string \<Rightarrow> bytes option"
  sw_parse_pem :: "bytes \<Rightarrow> 'roots option"
  sw_manage :: "string list \<Rightarrow> bool"
  sw_events :: "hb_event list"

datatype session_end = SessionStopped | SessionError | SessionFatal | SessionRunning

definition session_loop :: "'dev agent_env \<Rightarrow> duration \<Rightarrow> hb_event list \<Rightarrow> ('dev, 'roots) tunnel \<Rightarrow> session_end \<times> bool" where
  "session_loop env every events t =
     (case fst (agent_heartbeat env every events t) of
        HbRunning t' \<Rightarrow> (SessionRunning, False)
      | HbStopped \<Rightarrow> (SessionStopped, True)
      | HbSuperseded \<Rightarrow> (SessionError, True)
      | HbFatal \<Rightarrow> (SessionFatal, True)
      | HbPanic \<Rightarrow> (SessionFatal, True))"

definition session_tunnel ::
  "'dev agent_env \<Rightarrow> (string \<Rightarrow> url option) \<Rightarrow> File \<Rightarrow> ('dev, 'roots) session_world \<Rightarrow> RegisterResponse \<Rightarrow>
   session_end + ('dev, 'roots) tunnel" where
  "session_tunnel env urlParse f w reg =
     (case Resolve (fl_routes f) (rr_domain reg) of
        Inl e \<Rightarrow> Inl SessionFatal
      | Inr routes \<Rightarrow>
          (case ParseAddr (rr_vpn_ip reg) of
             None \<Rightarrow> Inl SessionError
           | Some ip \<Rightarrow>
               (case sw_device w of
                  None \<Rightarrow> Inl SessionError
                | Some dev \<Rightarrow>
                    (case newTerminator urlParse (sw_read_file w) (sw_parse_pem w) (sw_manage w) (sw_order w routes) routes (fl_acme f) of
                       Inl e \<Rightarrow> Inl SessionFatal
                     | Inr term \<Rightarrow>
                         (case newExporter (sw_read_file w) (sw_parse_pem w) (sw_manage w) (sw_order w routes) routes (fl_acme f) of
                            Inl e \<Rightarrow> Inl SessionFatal
                          | Inr exp \<Rightarrow>
                              let t = snd (setNodes env (rr_nodes reg) (new_tunnel \<lparr>net_dev = dev, net_peers = Map.empty\<rparr> routes term))
                              in if \<not> sw_listen w then Inl SessionError else Inr t)))))"

definition session :: "'dev agent_env \<Rightarrow> (string \<Rightarrow> url option) \<Rightarrow> File \<Rightarrow> ('dev, 'roots) session_world \<Rightarrow> session_end \<times> bool" where
  "session env urlParse f w =
     (case fst (agent_register second (sw_replies w)) of
        Registering b \<Rightarrow> (SessionRunning, False)
      | RegisterFatal \<Rightarrow> (SessionFatal, False)
      | RegisterFailed e \<Rightarrow> (SessionError, False)
      | Registered reg \<Rightarrow>
          (case session_tunnel env urlParse f w reg of
             Inl e \<Rightarrow> (e, False)
           | Inr t \<Rightarrow> session_loop env (rr_heartbeat_seconds reg * second) (sw_events w) t))"

text \<open>Run: sessions one after another until one ends fatally or the context is done.\<close>

datatype run_end = RunFatal | RunStopped | RunGoesOn

fun run_sessions :: "'dev agent_env \<Rightarrow> (string \<Rightarrow> url option) \<Rightarrow> File \<Rightarrow> ('dev, 'roots) session_world list \<Rightarrow> run_end" where
  "run_sessions env urlParse f [] = RunGoesOn"
| "run_sessions env urlParse f (w # ws) =
     (case fst (session env urlParse f w) of
        SessionFatal \<Rightarrow> RunFatal
      | SessionStopped \<Rightarrow> RunStopped
      | SessionRunning \<Rightarrow> RunGoesOn
      | SessionError \<Rightarrow> run_sessions env urlParse f ws)"

definition agent_Run :: "string \<Rightarrow> 'dev agent_env \<Rightarrow> (string \<Rightarrow> url option) \<Rightarrow> File \<Rightarrow> ('dev, 'roots) session_world list \<Rightarrow> run_end" where
  "agent_Run token env urlParse f ws =
     (case Parse token PrefixAgent of Inl e \<Rightarrow> RunFatal | Inr tok \<Rightarrow> run_sessions env urlParse f ws)"

end
