(* ===== verification/Agent_Props.thy ===== *)
theory Agent_Props
  imports Agent_Core Relay_Props
begin

text \<open>
  What an agent does with its connections: it only serves the nodes it was told of, only names
  of its own domain, it never uses what it did not make, and what reaches its backend is what
  the visitor sent to the relay.
\<close>

section \<open>The tunnels of a session\<close>

text \<open>The tunnel a session builds and what its heartbeat loop makes of it.\<close>

inductive session_reaches :: "'dev agent_env \<Rightarrow> (string \<Rightarrow> url option) \<Rightarrow> File \<Rightarrow> ('dev, 'roots) session_world \<Rightarrow> RegisterResponse \<Rightarrow>
    ('dev, 'roots) tunnel \<Rightarrow> bool" for env urlParse f w reg where
  start: "session_tunnel env urlParse f w reg = Inr t \<Longrightarrow> session_reaches env urlParse f w reg t"
| nodes: "session_reaches env urlParse f w reg t \<Longrightarrow> session_reaches env urlParse f w reg (snd (setNodes env ns t))"
| report: "session_reaches env urlParse f w reg t \<Longrightarrow> reportHandshakes now ipcGet order t = Some (t', logs) \<Longrightarrow>
    session_reaches env urlParse f w reg t'"

lemma setNodes_frame:
  "tn_routes (snd (setNodes env ns t)) = tn_routes t" "tn_term (snd (setNodes env ns t)) = tn_term t"
  "tn_connected t \<noteq> None \<Longrightarrow> tn_connected (snd (setNodes env ns t)) \<noteq> None"
  by (auto simp: setNodes_def split: prod.splits bool.splits)

lemma setNodes_connected:
  "tn_nodes (snd (setNodes env ns t)) = tn_nodes t \<and> tn_connected (snd (setNodes env ns t)) = tn_connected t \<or>
   tn_connected (snd (setNodes env ns t)) \<noteq> None"
  by (auto simp: setNodes_def split: prod.splits bool.splits)

lemma reportHandshakes_frame:
  assumes "reportHandshakes now ipcGet order t = Some (t', logs)"
  shows "tn_routes t' = tn_routes t" "tn_term t' = tn_term t" "tn_nodes t' = tn_nodes t" "tn_net t' = tn_net t"
    "tn_gateways t' = tn_gateways t"
  using assms by (auto simp: reportHandshakes_def)

lemma report_nodes_total:
  "connected \<noteq> None \<Longrightarrow> \<exists>c logs. report_nodes now hs nodes order connected = Some (Some c, logs)"
proof (induction order arbitrary: connected)
  case (Cons k order)
  obtain c where c: "connected = Some c" using Cons.prems by blast
  show ?case
  proof (cases "nodes k")
    case None
    then show ?thesis using Cons by simp
  next
    case (Some n)
    obtain c' logs where "report_nodes now hs nodes order (Some (c(k \<mapsto> handshake_fresh now hs k))) = Some (Some c', logs)"
      using Cons.IH [of "Some (c(k \<mapsto> handshake_fresh now hs k))"] by blast
    then show ?thesis using Some c Cons.IH [OF Cons.prems] by (auto simp: Let_def)
  qed
qed auto

lemma report_nodes_none: "nodes = Map.empty \<Longrightarrow> report_nodes now hs nodes order connected = Some (connected, [])"
  by (induction order) simp_all

text \<open>The map of known nodes is made before there is a node to report.\<close>

definition connected_ok :: "('dev, 'roots) tunnel \<Rightarrow> bool" where
  "connected_ok t \<longleftrightarrow> tn_nodes t = Map.empty \<or> tn_connected t \<noteq> None"

lemma setNodes_connected_ok: "connected_ok t \<Longrightarrow> connected_ok (snd (setNodes env ns t))"
  using setNodes_connected [of env ns t] by (auto simp: connected_ok_def)

lemma reportHandshakes_total:
  assumes "connected_ok t"
  shows "\<exists>t' logs. reportHandshakes now ipcGet order t = Some (t', logs) \<and> connected_ok t'"
proof (cases "tn_nodes t = Map.empty")
  case True
  then show ?thesis using report_nodes_none [OF True] by (auto simp: reportHandshakes_def connected_ok_def)
next
  case False
  then have "tn_connected t \<noteq> None" using assms by (simp add: connected_ok_def)
  from report_nodes_total [OF this, of now "LastHandshakes ipcGet" "tn_nodes t" order]
  show ?thesis by (auto simp: reportHandshakes_def connected_ok_def)
qed

lemma session_tunnel_made:
  assumes "session_tunnel env urlParse f w reg = Inr t"
  shows "Resolve (fl_routes f) (rr_domain reg) = Inr (tn_routes t) \<and>
    newTerminator urlParse (sw_read_file w) (sw_parse_pem w) (sw_manage w) (sw_order w (tn_routes t)) (tn_routes t) (fl_acme f) =
      Inr (tn_term t) \<and> connected_ok t"
proof -
  obtain routes dev tm0 where r: "Resolve (fl_routes f) (rr_domain reg) = Inr routes" "sw_device w = Some dev"
    "newTerminator urlParse (sw_read_file w) (sw_parse_pem w) (sw_manage w) (sw_order w routes) routes (fl_acme f) = Inr tm0"
    "t = snd (setNodes env (rr_nodes reg) (new_tunnel \<lparr>net_dev = dev, net_peers = Map.empty\<rparr> routes tm0))"
    using assms by (auto simp: session_tunnel_def Let_def split: sum.splits option.splits if_splits)
  have "connected_ok (new_tunnel \<lparr>net_dev = dev, net_peers = Map.empty\<rparr> routes tm0)"
    by (simp add: connected_ok_def new_tunnel_def)
  then show ?thesis using r setNodes_connected_ok setNodes_frame(1,2) by (metis new_tunnel_def tunnel.select_convs(2,3))
qed

lemma session_reaches_ok:
  assumes "session_reaches env urlParse f w reg t"
  shows "Resolve (fl_routes f) (rr_domain reg) = Inr (tn_routes t) \<and>
    newTerminator urlParse (sw_read_file w) (sw_parse_pem w) (sw_manage w) (sw_order w (tn_routes t)) (tn_routes t) (fl_acme f) =
      Inr (tn_term t) \<and> connected_ok t"
  using assms
proof induction
  case (start t)
  then show ?case by (rule session_tunnel_made)
next
  case (nodes t ns)
  then show ?case by (simp add: setNodes_frame(1,2) setNodes_connected_ok)
next
  case (report t now ipcGet order t' logs)
  obtain t2 logs2 where "reportHandshakes now ipcGet order t = Some (t2, logs2)" "connected_ok t2"
    using reportHandshakes_total report.IH by blast
  then show ?case using report reportHandshakes_frame [OF report.hyps(2)] by simp
qed

lemma heartbeat_no_panic:
  "connected_ok t \<Longrightarrow> fst (agent_heartbeat env every es t) \<noteq> HbPanic"
proof (induction env every es t rule: agent_heartbeat.induct)
  case (3 env every now ipcGet order es t)
  obtain t' logs where r: "reportHandshakes now ipcGet order t = Some (t', logs)" "connected_ok t'"
    using reportHandshakes_total [OF 3(2)] by blast
  from 3(1) [OF r(1) HOL.refl r(2)] show ?case using r(1) by simp
next
  case (4 env every reply es t)
  have "heartbeat_reply env reply t \<noteq> HbPanic" by (auto simp: heartbeat_reply_def split: sum.splits)
  moreover have "connected_ok t'" if "heartbeat_reply env reply t = HbRunning t'" for t'
    using that 4(2) setNodes_connected_ok by (auto simp: heartbeat_reply_def split: sum.splits if_splits)
  ultimately show ?case
  proof (cases "heartbeat_reply env reply t")
    case (HbRunning t')
    have "fst (agent_heartbeat env every es t') \<noteq> HbPanic"
      using 4(1) [OF HOL.refl HbRunning] \<open>\<And>t'. heartbeat_reply env reply t = HbRunning t' \<Longrightarrow> connected_ok t'\<close> [OF HbRunning] by blast
    then show ?thesis using HbRunning by (cases "agent_heartbeat env every es t'") (simp add: Let_def)
  qed simp_all
qed simp_all

section \<open>Nodes\<close>

lemma collect_nodes_result:
  "collect_nodes env ns (peers, byKey, gws, err) =
    (peers @ map (\<lambda>(k, g, p). p) (List.map_filter (node_peer env) ns),
     fold (\<lambda>n m. case node_peer env n of Some (k, g, p) \<Rightarrow> m(k \<mapsto> n) | None \<Rightarrow> m) ns byKey,
     gws \<union> {g. \<exists>n\<in>set ns. \<exists>k p. node_peer env n = Some (k, g, p)},
     fold (\<lambda>n e. if node_peer env n = None then Some (pn_name n) else e) ns err)"
proof (induction ns arbitrary: peers byKey gws err)
  case (Cons n ns)
  show ?case
  proof (cases "node_peer env n")
    case None
    then show ?thesis by (simp add: Cons.IH List.map_filter_simps)
  next
    case (Some x)
    obtain k g p where "x = (k, g, p)" by (cases x)
    then show ?thesis using Some by (auto simp: Cons.IH List.map_filter_simps simp del: fun_upd_apply)
  qed
qed (simp add: List.map_filter_simps)

text \<open>What a connection must be for the handler not to cut it.\<close>

lemma agent_handle_served:
  assumes "agent_handle hel handshakeOk dialTCP pushed writeOk remote conn t \<noteq> AgentClosed"
  shows "\<exists>ap host c route. remote = Some ap \<and> ap_addr ap \<in> tn_gateways t \<and> rr_err (Read conn) = None \<and>
    Peek hel (rr_rest (Read conn)) = Inr (host, c) \<and> Match (tn_routes t) host = Some route \<and>
    (agent_handle hel handshakeOk dialTCP pushed writeOk remote conn t = AgentPanic \<longrightarrow>
       sp_mode route = ModeTerminate \<and> tn_term t = None)"
  using assms
  by (auto simp: agent_handle_def isGateway_def Let_def split: option.splits sum.splits prod.splits if_splits)

text \<open>The routes of a session: they are the file's, below its domain, and a terminator was made
  for those that need one.\<close>

lemma session_routes:
  assumes "session_reaches env urlParse f w reg t" and "set (sw_order w (tn_routes t)) = dom (tn_routes t)"
    and "\<not> has_prefix (rr_domain reg) ''*.''" and "Match (tn_routes t) host = Some route"
  shows "in_domain (rr_domain reg) host" "route \<in> set (fl_routes f)" "sp_mode route = ModeTerminate \<Longrightarrow> tn_term t \<noteq> None"
proof -
  note ok = session_reaches_ok [OF assms(1)]
  then have resolve: "Resolve (fl_routes f) (rr_domain reg) = Inr (tn_routes t)" by blast
  have own: "in_domain (rr_domain reg) k" if "k \<in> dom (tn_routes t)" for k
    using that resolve_host_in_domain Resolve_routes [OF resolve] by blast
  show "in_domain (rr_domain reg) host" by (rule Match_in_domain [OF own assms(3,4)])
  from assms(4) show "route \<in> set (fl_routes f)" using Resolve_routes [OF resolve] by (cases rule: sni.hit_cases) auto
  have none: "\<not> terminated (tn_routes t) k" if "tn_term t = None" for k
    using ok that by (intro newTerminator_None [OF _ assms(2)]) auto
  from assms(4) show "sp_mode route = ModeTerminate \<Longrightarrow> tn_term t \<noteq> None"
    using none by (cases rule: sni.hit_cases) (auto simp: terminated_def)
qed

section \<open>An example session\<close>

definition plain_agent :: "unit agent_env" where
  "plain_agent = \<lparr>ag_ipc = \<lambda>ls d. Some d, ag_order = \<lambda>m. sorted_list_of_set (dom m), ag_lookup = \<lambda>h. Some [Addr4 1]\<rparr>"

definition example_node :: proto_Node where
  "example_node = \<lparr>pn_name = ''n'', pn_endpoint = ''n:5'', pn_public_key = Key_String (replicate 32 0), pn_gateway_ip = ip4_string 7\<rparr>"

definition example_reg :: RegisterResponse where
  "example_reg = \<lparr>rr_tunnel_id = 1, rr_vpn_ip = ip4_string 9, rr_domain = ''a.b'', rr_nodes = [example_node],
     rr_lease_ttl_seconds = 45, rr_heartbeat_seconds = 15\<rparr>"

definition example_file :: File where
  "example_file = \<lparr>fl_relay = [], fl_acme = plain_acme, fl_routes = [spec_of ''@'']\<rparr>"

definition example_world :: "(unit, unit) session_world" where
  "example_world = \<lparr>sw_replies = [], sw_device = Some (), sw_listen = True, sw_order = \<lambda>m. sorted_list_of_set (dom m),
     sw_read_file = \<lambda>_. None, sw_parse_pem = \<lambda>_. None, sw_manage = \<lambda>_. True, sw_events = []\<rparr>"

lemma example_node_peer: "\<exists>p. node_peer plain_agent example_node = Some (replicate 32 0, Addr4 7, p)"
proof -
  have "SplitHostPort (''n'' @ CHR '':'' # ''5'') = Some (''n'', ''5'')" by (rule SplitHostPort_plain) simp_all
  moreover have "ParseUint 16 ''5'' = Some 5" by (simp add: ParseUint_def is_digit_def digit_val_def)
  ultimately have "ResolveEndpoint (\<lambda>h. Some [Addr4 1]) ''n:5'' = Inr \<lparr>ap_addr = Addr4 1, ap_port = 5\<rparr>"
    by (simp add: ResolveEndpoint_def)
  moreover have "ParseKey (Key_String (replicate 32 0)) = Some (replicate 32 0)"
    by (rule ParseKey_String) (rule length_replicate)
  moreover have "ParseAddr (ip4_string 7) = Some (Addr4 7)" by (rule ParseAddr_ip4_string)
  ultimately show ?thesis
    unfolding node_peer_def example_node_def plain_agent_def proto_Node.simps agent_env.simps
    by (simp only: prod.case option.case sum.case option.inject prod.inject) blast
qed

lemma example_session:
  "\<exists>t. session_tunnel plain_agent (\<lambda>_. None) example_file example_world example_reg = Inr t \<and> tn_gateways t = {Addr4 7} \<and>
     tn_routes t = [''a.b'' \<mapsto> spec_of ''@''] \<and> tn_term t = None"
proof -
  have r: "Resolve [spec_of ''@''] ''a.b'' = Inr [''a.b'' \<mapsto> spec_of ''@'']"
    by (simp add: Resolve_def spec_of_def resolve_host_def resolve_star_def resolve_name_def trim_suffix_def has_suffix_def has_prefix_def
        to_lower_def lower_char_def less_eq_char_def)
  have t: "newTerminator (\<lambda>_. None) (\<lambda>_. None) (\<lambda>_. None :: unit option) (\<lambda>_. True) [''a.b''] [''a.b'' \<mapsto> spec_of ''@''] plain_acme = Inr None"
    by (simp add: newTerminator_def spec_of_def)
  have e: "newExporter (\<lambda>_. None) (\<lambda>_. None :: unit option) (\<lambda>_. True) [''a.b''] [''a.b'' \<mapsto> spec_of ''@''] plain_acme = Inr None"
    by (simp add: newExporter_def exported_def spec_of_def)
  obtain p where p: "node_peer plain_agent example_node = Some (replicate 32 0, Addr4 7, p)" using example_node_peer by blast
  have d: "dom [''a.b'' \<mapsto> spec_of ''@''] = {''a.b''}" by simp
  show ?thesis
    unfolding session_tunnel_def example_file_def example_world_def example_reg_def
    by (simp add: r t e p d ParseAddr_ip4_string Let_def setNodes_def new_tunnel_def SetPeers_def plain_agent_def [symmetric]
        del: fun_upd_apply dom_fun_upd)
      (simp add: plain_agent_def)
qed

section \<open>Properties\<close>

text \<open>
  C35: An agent serves nobody but its nodes and nothing but its domain: in every state of a
  session a connection that is not cut came from the gateway of a node, carried a PROXY header,
  and asked for a name that lies in the assigned domain and matches a route; and neither the
  handler nor the heartbeat loop ever uses a terminator or a map that was not made.
\<close>
theorem agent_confined:
  assumes "session_reaches env urlParse f w reg t"
    and "set (sw_order w (tn_routes t)) = dom (tn_routes t)" and "\<not> has_prefix (rr_domain reg) ''*.''"
  shows "agent_handle hel handshakeOk dialTCP pushed writeOk remote conn t \<noteq> AgentPanic \<and>
    fst (agent_heartbeat env every es t) \<noteq> HbPanic \<and>
    (agent_handle hel handshakeOk dialTCP pushed writeOk remote conn t \<noteq> AgentClosed \<longrightarrow>
       (\<exists>ap host c route. remote = Some ap \<and> ap_addr ap \<in> tn_gateways t \<and> rr_err (Read conn) = None \<and>
          Peek hel (rr_rest (Read conn)) = Inr (host, c) \<and> in_domain (rr_domain reg) host \<and>
          Match (tn_routes t) host = Some route \<and> route \<in> set (fl_routes f)))"
proof (intro conjI impI)
  let ?out = "agent_handle hel handshakeOk dialTCP pushed writeOk remote conn t"
  note routes = session_routes [OF assms]
  show "?out \<noteq> AgentPanic"
    using agent_handle_served [of hel handshakeOk dialTCP pushed writeOk remote conn t] routes(3) by fastforce
  show "fst (agent_heartbeat env every es t) \<noteq> HbPanic"
    using session_reaches_ok [OF assms(1)] by (intro heartbeat_no_panic) blast
  assume "?out \<noteq> AgentClosed"
  from agent_handle_served [OF this] routes(1,2)
  show "\<exists>ap host c route. remote = Some ap \<and> ap_addr ap \<in> tn_gateways t \<and> rr_err (Read conn) = None \<and>
      Peek hel (rr_rest (Read conn)) = Inr (host, c) \<and> in_domain (rr_domain reg) host \<and>
      Match (tn_routes t) host = Some route \<and> route \<in> set (fl_routes f)"
    by blast
qed

theorem agent_confined_witness:
  "\<exists>t. session_reaches plain_agent (\<lambda>_. None) example_file example_world example_reg t \<and>
     agent_handle (\<lambda>_. (0, Some ''a.b'')) True (\<lambda>_. True) True True (Some \<lparr>ap_addr = Addr4 7, ap_port = 1\<rparr>)
       (Header addr_port_zero addr_port_zero @ []) t = AgentPass ''b:1'' [] (NewPrefixConn [] []) \<and> in_domain ''a.b'' ''a.b''"
proof -
  obtain t where t: "session_tunnel plain_agent (\<lambda>_. None) example_file example_world example_reg = Inr t" "tn_gateways t = {Addr4 7}"
    "tn_routes t = [''a.b'' \<mapsto> spec_of ''@'']"
    using example_session by blast
  have r: "session_reaches plain_agent (\<lambda>_. None) example_file example_world example_reg t" by (rule session_reaches.start [OF t(1)])
  have low: "to_lower ''a.b'' = ''a.b''" by (simp add: to_lower_def lower_char_def less_eq_char_def)
  then have p: "Peek (\<lambda>_. (0, Some ''a.b'')) [] = Inr (''a.b'', NewPrefixConn [] [])" by (simp add: Peek_def del: to_lower_Cons)
  have m: "Match (tn_routes t) ''a.b'' = Some (spec_of ''@'')" by (rule sni.exact) (simp add: t(3))
  have h: "agent_handle (\<lambda>_. (0, Some ''a.b'')) True (\<lambda>_. True) True True (Some \<lparr>ap_addr = Addr4 7, ap_port = 1\<rparr>)
       (Header addr_port_zero addr_port_zero @ []) t = AgentPass ''b:1'' [] (NewPrefixConn [] [])"
    using p m by (simp add: agent_handle_def isGateway_def t(2) Read_Header [where payload = "[]", simplified] spec_of_def)
  have "set (sw_order example_world (tn_routes t)) = dom (tn_routes t)" by (simp add: example_world_def t(3))
  moreover have "\<not> has_prefix (rr_domain example_reg) ''*.''" by (simp add: example_reg_def has_prefix_def)
  ultimately have "in_domain ''a.b'' ''a.b''"
    using agent_confined [OF r, of "\<lambda>_. (0, Some ''a.b'')" True "\<lambda>_. True" True True "Some \<lparr>ap_addr = Addr4 7, ap_port = 1\<rparr>"
        "Header addr_port_zero addr_port_zero @ []"] h p
    by (auto simp: example_reg_def Read_Header [where payload = "[]", simplified])
  with r h show ?thesis by blast
qed

text \<open>
  What the control plane says about the nodes is what the agent does: a setNodes whose
  device call succeeds leaves as gateways exactly the addresses of the nodes that can be read,
  as peers those nodes, each allowed its gateway only and kept alive, and reports a node that
  cannot be read without giving up the others; one whose device call fails changes no gateway.
\<close>
theorem setNodes_installs:
  assumes "setNodes env ns t = (err, t')"
  shows "if err = Some PeersFailed then tn_gateways t' = tn_gateways t \<and> tn_nodes t' = tn_nodes t \<and> net_peers (tn_net t') = net_peers (tn_net t)
    else tn_gateways t' = {g. \<exists>n\<in>set ns. \<exists>k p. node_peer env n = Some (k, g, p)} \<and>
      (err = None \<longleftrightarrow> (\<forall>n\<in>set ns. node_peer env n \<noteq> None)) \<and>
      (\<forall>n. n \<in> ran (tn_nodes t') \<longrightarrow> n \<in> set ns \<and> node_peer env n \<noteq> None)"
proof -
  let ?peers = "map (\<lambda>(k, g, p). p) (List.map_filter (node_peer env) ns)"
  let ?byKey = "fold (\<lambda>n m. case node_peer env n of Some (k, g, p) \<Rightarrow> m(k \<mapsto> n) | None \<Rightarrow> m) ns Map.empty"
  let ?err = "fold (\<lambda>n e. if node_peer env n = None then Some (pn_name n) else e) ns None"
  obtain okp n where sp: "SetPeers (ag_ipc env) (ag_order env (net_peers (tn_net t))) (ag_order env (want_of ?peers)) ?peers (tn_net t) = (okp, n)"
    by fastforce
  have err_iff: "fold (\<lambda>n e. if node_peer env n = None then Some (pn_name n) else e) ms e0 = None \<longleftrightarrow>
      e0 = None \<and> (\<forall>n\<in>set ms. node_peer env n \<noteq> None)" for ms e0
    by (induction ms arbitrary: e0) auto
  have ran: "ran (fold (\<lambda>n m. case node_peer env n of Some (k, g, p) \<Rightarrow> m(k \<mapsto> n) | None \<Rightarrow> m) ms m0) \<subseteq>
      ran m0 \<union> {n \<in> set ms. node_peer env n \<noteq> None}" for ms m0
  proof (induction ms arbitrary: m0)
    case (Cons x ms)
    show ?case
    proof (cases "node_peer env x")
      case None
      then show ?thesis using Cons.IH [of m0] by auto
    next
      case (Some y)
      obtain k g p where y: "y = (k, g, p)" by (cases y)
      have "ran (m0(k \<mapsto> x)) \<subseteq> insert x (ran m0)" by (auto simp: ran_def split: if_splits)
      then show ?thesis using Cons.IH [of "m0(k \<mapsto> x)"] Some y by (auto simp del: fun_upd_apply)
    qed
  qed simp
  show ?thesis
  proof (cases okp)
    case False
    then have "err = Some PeersFailed" "t' = t\<lparr>tn_net := n\<rparr>" using assms sp by (auto simp: setNodes_def collect_nodes_result)
    moreover have "net_peers n = net_peers (tn_net t)" using sp False by (auto simp: SetPeers_def Let_def split: option.splits if_splits)
    ultimately show ?thesis by simp
  next
    case True
    then have e: "err = map_option BadNode ?err" "tn_gateways t' = {g. \<exists>n\<in>set ns. \<exists>k p. node_peer env n = Some (k, g, p)}" "tn_nodes t' = ?byKey"
      using assms sp by (clarsimp simp: setNodes_def collect_nodes_result)+
    have "err \<noteq> Some PeersFailed" using e(1) by auto
    then show ?thesis using e err_iff [of ns None] ran [of ns Map.empty] by auto
  qed
qed

theorem setNodes_installs_witness:
  "\<exists>t'. setNodes plain_agent [example_node] (new_tunnel \<lparr>net_dev = (), net_peers = Map.empty\<rparr> Map.empty (None :: unit terminator option)) =
     (None, t') \<and> tn_gateways t' = {Addr4 7}"
proof -
  obtain p where p: "node_peer plain_agent example_node = Some (replicate 32 0, Addr4 7, p)" using example_node_peer by blast
  obtain t' where s: "setNodes plain_agent [example_node] (new_tunnel \<lparr>net_dev = (), net_peers = Map.empty\<rparr> Map.empty (None :: unit terminator option)) =
      (None, t')"
  proof -
    have "\<exists>n. SetPeers (ag_ipc plain_agent) a b ps n0 = (True, n)" for a b ps n0
      by (simp add: SetPeers_def Let_def plain_agent_def)
    then obtain n where "SetPeers (ag_ipc plain_agent) (ag_order plain_agent Map.empty) (ag_order plain_agent (want_of [p])) [p]
        \<lparr>net_dev = (), net_peers = Map.empty\<rparr> = (True, n)" by blast
    then show ?thesis using that by (simp add: setNodes_def p new_tunnel_def)
  qed
  from setNodes_installs [OF s] s p show ?thesis by auto
qed

text \<open>
  C37: From the visitor to the backend: when the relay joins a connection to an agent and the
  agent takes it from its gateway, the agent reads the same name, and for a passthrough route
  its backend receives the visitor's bytes unchanged from the first one, after the header with
  the visitor's address if the route asks for it and after nothing otherwise; for a terminated
  route the terminator gets them with the visitor's address.
\<close>
theorem visitor_reaches_backend:
  assumes "handleTLS ncf hel dialLocal dialWG wok remote local conn s = JoinedAgent dst hdr c"
    and "Peek hel conn = Inr (host, c0)" and "isGateway gw t" and "Match (tn_routes t) host = Some route"
    and "ap_addr remote \<noteq> AddrZero"
  shows "stream_of c0 = conn \<and> hdr = Header remote local \<and>
    (sp_mode route \<noteq> ModeTerminate \<and> dialTCP (sp_to route) \<and> writeOk \<longrightarrow>
       agent_handle hel handshakeOk dialTCP pushed writeOk gw (hdr @ stream_of c) t =
         AgentPass (sp_to route) (if sp_proxy_protocol route then hdr else []) c0) \<and>
    (sp_mode route = ModeTerminate \<longrightarrow> (\<forall>term. tn_term t = Some term \<longrightarrow>
       (\<exists>src. agent_handle hel handshakeOk dialTCP pushed writeOk gw (hdr @ stream_of c) t =
          AgentTerminate src c0 host (term_handle handshakeOk dialTCP pushed host term) \<and>
          ap_port src = ap_port remote \<and> Unmap (ap_addr src) = strip_zone (Unmap (ap_addr remote)))))"
proof -
  have h: "hdr = Header remote local" and c: "c = c0"
    using assms(1,2) by (auto simp: handleTLS_def Let_def split: prod.splits option.splits if_splits)
  have s: "stream_of c0 = conn" by (rule Peek_stream [OF assms(2)])
  show ?thesis
    using assms(2-5) by (auto simp: h c s Read_Header agent_handle_def Let_def Unmap_carried)
qed

theorem visitor_reaches_backend_witness:
  "\<exists>t hdr c. tn_gateways t = {Addr4 7} \<and>
     handleTLS plain_ncf (\<lambda>_. (1, Some ''a.b'')) (\<lambda>_. True) (\<lambda>_. True) True \<lparr>ap_addr = Addr4 9, ap_port = 7\<rparr> addr_port_zero
       [1, 2] (idle_node\<lparr>ns_routes := [''a.b'' \<mapsto> Addr4 5]\<rparr>) = JoinedAgent \<lparr>ap_addr = Addr4 5, ap_port = AgentPort\<rparr> hdr c \<and>
     agent_handle (\<lambda>_. (1, Some ''a.b'')) True (\<lambda>_. True) True True (Some \<lparr>ap_addr = Addr4 7, ap_port = 1\<rparr>) (hdr @ stream_of c)
       (t :: (unit, unit) tunnel) = AgentPass ''b:1'' [] (NewPrefixConn [2] [1])"
proof -
  obtain t :: "(unit, unit) tunnel" where t: "tn_gateways t = {Addr4 7}" "tn_routes t = [''a.b'' \<mapsto> spec_of ''@'']"
    using example_session by blast
  have "to_lower ''a.b'' = ''a.b''" by (simp add: to_lower_def lower_char_def less_eq_char_def)
  then have p: "Peek (\<lambda>_. (1, Some ''a.b'')) [1, 2] = Inr (''a.b'', NewPrefixConn [2] [1])" by (simp add: Peek_def del: to_lower_Cons)
  have m: "Match (ncf_local_routes plain_ncf) ''a.b'' = None" "Match [''a.b'' \<mapsto> Addr4 5] ''a.b'' = Some (Addr4 5)"
    by (rule sni.miss, simp_all add: plain_ncf_def sni.exact)
  let ?remote = "\<lparr>ap_addr = Addr4 9, ap_port = 7\<rparr>"
  have h: "handleTLS plain_ncf (\<lambda>_. (1, Some ''a.b'')) (\<lambda>_. True) (\<lambda>_. True) True ?remote addr_port_zero
      [1, 2] (idle_node\<lparr>ns_routes := [''a.b'' \<mapsto> Addr4 5]\<rparr>) =
    JoinedAgent \<lparr>ap_addr = Addr4 5, ap_port = AgentPort\<rparr> (Header ?remote addr_port_zero) (NewPrefixConn [2] [1])"
    using p m by (simp add: handleTLS_def)
  have gw: "isGateway (Some \<lparr>ap_addr = Addr4 7, ap_port = 1\<rparr>) t" by (simp add: isGateway_def t(1))
  have r: "Match (tn_routes t) ''a.b'' = Some (spec_of ''@'')" by (rule sni.exact) (simp add: t(2))
  from visitor_reaches_backend [OF h p gw r, of "\<lambda>_. True" True True True]
  have "agent_handle (\<lambda>_. (1, Some ''a.b'')) True (\<lambda>_. True) True True (Some \<lparr>ap_addr = Addr4 7, ap_port = 1\<rparr>)
      (Header ?remote addr_port_zero @ stream_of (NewPrefixConn [2] [1])) t = AgentPass ''b:1'' [] (NewPrefixConn [2] [1])"
    by (simp add: spec_of_def stream_of_def NewPrefixConn_def)
  with t(1) h show ?thesis by blast
qed

section \<open>Registration and release\<close>

text \<open>
  The pauses of the first contact: the attempt that fails below the API doubles the pause
  before it is made, so the first is of two seconds (the log announces one); a held lease waits
  fifteen; no pause is longer than thirty seconds.
\<close>

lemma agent_register_waits:
  assumes "agent_register b replies = (r, ws)" and "0 < b" and "b \<le> 30 * second"
  shows "(\<forall>w\<in>set ws. w \<le> 30 * second \<and> 0 < w) \<and> length ws \<le> length replies \<and>
    (ws \<noteq> [] \<longrightarrow> hd ws = min (2 * b) (30 * second) \<or> hd ws = 15 * second)"
  using assms
proof (induction replies arbitrary: b ws)
  case (Cons reply replies)
  let ?b = "min (b * 2) (30 * second)"
  consider (stop) "ws = []"
    | (net) ws' where "agent_register ?b replies = (r, ws')" "ws = ?b # ws'"
    | (held) ws' where "agent_register (15 * second) replies = (r, ws')" "ws = 15 * second # ws'"
    using Cons.prems(1) by (auto simp: Let_def split: sum.splits if_splits prod.splits)
  then show ?case
  proof cases
    case net
    have "0 < ?b" "?b \<le> 30 * second" using Cons.prems(2) by (simp_all add: second_def)
    from Cons.IH [OF net(1) this] net(2) this show ?thesis by (simp add: mult.commute)
  next
    case held
    have "0 < 15 * second" "15 * second \<le> 30 * second" by (simp_all add: second_def)
    from Cons.IH [OF held(1) this] held(2) this show ?thesis by simp
  qed simp
qed auto

text \<open>
  The lease is released exactly when the heartbeat loop was left; a session that fails between
  its registration and that loop (a bad route, ACME, the listener) keeps it until it expires.
\<close>

lemma session_releases:
  "snd (session env urlParse f w) \<longleftrightarrow>
     (\<exists>reg t. fst (agent_register second (sw_replies w)) = Registered reg \<and> session_tunnel env urlParse f w reg = Inr t \<and>
        (\<forall>t'. fst (agent_heartbeat env (rr_heartbeat_seconds reg * second) (sw_events w) t) \<noteq> HbRunning t'))"
  by (auto simp: session_def session_loop_def split: register_result.splits sum.splits hb_result.splits)

text \<open>An error of the API other than those three ends the session at once, and the next one begins
  without any pause.\<close>

lemma api_error_no_pause:
  assumes "Do reply = Inl e" and "Code e \<notin> {[], proto_ErrUnauthorized, proto_ErrLeaseHeld}" and "sw_replies w = [reply]"
  shows "agent_register second (sw_replies w) = (RegisterFailed e, []) \<and>
    run_sessions env urlParse f (w # ws) = run_sessions env urlParse f ws"
  using assms by (simp add: session_def)

end
