(* ===== verification/Dns_Providers.thy ===== *)
theory Dns_Providers
  imports Url Api_Client
begin

text \<open>
  internal/dnsprovider and internal/cloudflare: the three operations the control plane needs of
  a DNS, over the API of Cloudflare and over an operator's own webhook.  What is at the other
  end of HTTP is an argument, a function from requests to replies over its own state; Inl is a
  request that got no reply, with the text of its error.
\<close>

section \<open>What travels\<close>

record cf_record =
  cf_ID :: string
  cf_Type :: string
  cf_Name :: string
  cf_Content :: string
  cf_TTL :: int
  cf_Proxied :: bool

text \<open>The bodies of the requests: none, a Go map of strings, a record, a record without proxied.\<close>

datatype dns_payload = EmptyPayload | StringMap "(string \<times> string) list" | RecordPayload cf_record | TxtPayload cf_record

text \<open>The result field of Cloudflare's envelope, as far as its clients decode it.\<close>

datatype cf_result = ResNull | ResRecord cf_record | ResRecords "cf_record list" | ResOther

record cf_env =
  ce_success :: bool
  ce_errors :: "string list"
  ce_result :: cf_result

text \<open>A reply: dy_env is its body as an envelope of Cloudflare, dy_id as the webhook's answer.\<close>

record dns_reply =
  dy_status :: nat
  dy_status_line :: string
  dy_text :: string
  dy_env :: "cf_env option"
  dy_id :: "string option"

type_synonym 's transport = "dns_payload http_request \<Rightarrow> 's \<Rightarrow> (string + dns_reply) \<times> 's"

section \<open>Cloudflare\<close>

record cf_client =
  cf_token :: string
  cf_zoneID :: string
  cf_apiBase :: string

definition defaultAPIBase :: string where
  "defaultAPIBase = ''https://api.cloudflare.com/client/v4''"

definition NewWithBaseURL :: "string \<Rightarrow> string \<Rightarrow> string \<Rightarrow> cf_client" where
  "NewWithBaseURL token zoneID baseURL =
     (let baseURL = (if baseURL = [] then defaultAPIBase else baseURL)
      in \<lparr>cf_token = token, cf_zoneID = zoneID, cf_apiBase = trim_suffix baseURL ''/''\<rparr>)"

definition New_cf :: "string \<Rightarrow> string \<Rightarrow> cf_client" where
  "New_cf token zoneID = NewWithBaseURL token zoneID defaultAPIBase"

definition cf_request :: "cf_client \<Rightarrow> string \<Rightarrow> string \<Rightarrow> dns_payload \<Rightarrow> dns_payload http_request" where
  "cf_request c method path body =
     \<lparr>ht_method = method, ht_url = cf_apiBase c @ ''/zones/'' @ cf_zoneID c @ path,
      ht_authorization = ''Bearer '' @ cf_token c, ht_content_type = ''application/json'', ht_payload = body\<rparr>"

text \<open>The decoders of the callers: nil, a slice of records, one record.\<close>

definition res_none :: "cf_result \<Rightarrow> (string + unit)" where
  "res_none r = Inr ()"

definition res_records :: "cf_result \<Rightarrow> (string + cf_record list)" where
  "res_records r = (case r of ResRecords rs \<Rightarrow> Inr rs | ResNull \<Rightarrow> Inr [] | _ \<Rightarrow> Inl ''json'')"

definition res_id :: "cf_result \<Rightarrow> (string + string)" where
  "res_id r = (case r of ResRecord x \<Rightarrow> Inr (cf_ID x) | ResNull \<Rightarrow> Inr [] | _ \<Rightarrow> Inl ''json'')"

definition cf_do ::
  "'s transport \<Rightarrow> cf_client \<Rightarrow> string \<Rightarrow> string \<Rightarrow> dns_payload \<Rightarrow> (cf_result \<Rightarrow> string + 'a) \<Rightarrow> 's \<Rightarrow> (string + 'a) \<times> 's" where
  "cf_do net c method path body dec s =
     (case net (cf_request c method path body) s of
        (Inl e, s1) \<Rightarrow> (Inl e, s1)
      | (Inr r, s1) \<Rightarrow>
          (case dy_env r of
             None \<Rightarrow> (Inl (''cloudflare '' @ method @ '' '' @ path @ '': HTTP '' @ nat_string (dy_status r)), s1)
           | Some env \<Rightarrow>
               if \<not> ce_success env then
                 (Inl (''cloudflare '' @ method @ '': '' @
                    (case ce_errors env of [] \<Rightarrow> dy_status_line r | m # _ \<Rightarrow> m)), s1)
               else (dec (ce_result env), s1)))"

text \<open>url.Values.Encode of the type and the name: keys in order.\<close>

definition cname_query :: "string \<Rightarrow> string" where
  "cname_query name = ''name='' @ QueryEscape name @ ''&type='' @ QueryEscape ''CNAME''"

definition cf_EnsureCNAME :: "'s transport \<Rightarrow> cf_client \<Rightarrow> string \<Rightarrow> string \<Rightarrow> 's \<Rightarrow> string option \<times> 's" where
  "cf_EnsureCNAME net c name target s =
     (case cf_do net c ''GET'' (''/dns_records?'' @ cname_query name) EmptyPayload res_records s of
        (Inl e, s1) \<Rightarrow> (Some e, s1)
      | (Inr existing, s1) \<Rightarrow>
          let want = \<lparr>cf_ID = [], cf_Type = ''CNAME'', cf_Name = name, cf_Content = target, cf_TTL = 1, cf_Proxied = False\<rparr>;
              sent = (\<lambda>method path. case cf_do net c method path (RecordPayload want) res_none s1 of
                        (Inl e, s2) \<Rightarrow> (Some e, s2) | (Inr _, s2) \<Rightarrow> (None, s2))
          in case existing of
               [] \<Rightarrow> sent ''POST'' ''/dns_records''
             | x # _ \<Rightarrow>
                 if cf_Content x = target \<and> \<not> cf_Proxied x then (None, s1)
                 else sent ''PATCH'' (''/dns_records/'' @ cf_ID x))"

definition cf_CreateTXT :: "'s transport \<Rightarrow> cf_client \<Rightarrow> string \<Rightarrow> string \<Rightarrow> 's \<Rightarrow> (string + string) \<times> 's" where
  "cf_CreateTXT net c name val s =
     cf_do net c ''POST'' ''/dns_records''
       (TxtPayload \<lparr>cf_ID = [], cf_Type = ''TXT'', cf_Name = name, cf_Content = val, cf_TTL = 60, cf_Proxied = False\<rparr>) res_id s"

definition cf_DeleteRecord :: "'s transport \<Rightarrow> cf_client \<Rightarrow> string \<Rightarrow> 's \<Rightarrow> string option \<times> 's" where
  "cf_DeleteRecord net c i s =
     (case cf_do net c ''DELETE'' (''/dns_records/'' @ i) EmptyPayload res_none s of
        (Inl e, s1) \<Rightarrow> (if contains e ''81044'' then None else Some e, s1)
      | (Inr _, s1) \<Rightarrow> (None, s1))"

section \<open>The webhook\<close>

record webhook =
  wh_baseURL :: string
  wh_token :: string

definition NewWebhook :: "string \<Rightarrow> string \<Rightarrow> webhook" where
  "NewWebhook baseURL token = \<lparr>wh_baseURL = trim_suffix baseURL ''/'', wh_token = token\<rparr>"

datatype wh_error = HttpStatusError nat string | WhOther string

definition wh_error_text :: "wh_error \<Rightarrow> string" where
  "wh_error_text e = (case e of
     HttpStatusError st body \<Rightarrow> ''dns webhook: HTTP '' @ nat_string st @ '': '' @ body | WhOther m \<Rightarrow> m)"

text \<open>Without a token there is no Authorization header (an empty one here).\<close>

definition wh_request :: "webhook \<Rightarrow> string \<Rightarrow> string \<Rightarrow> dns_payload \<Rightarrow> dns_payload http_request" where
  "wh_request w method path body =
     \<lparr>ht_method = method, ht_url = wh_baseURL w @ path,
      ht_authorization = (if wh_token w = [] then [] else ''Bearer '' @ wh_token w),
      ht_content_type = ''application/json'', ht_payload = body\<rparr>"

definition wh_do ::
  "'s transport \<Rightarrow> webhook \<Rightarrow> string \<Rightarrow> string \<Rightarrow> dns_payload \<Rightarrow> 's \<Rightarrow> (wh_error + dns_reply) \<times> 's" where
  "wh_do net w method path body s =
     (case net (wh_request w method path body) s of
        (Inl e, s1) \<Rightarrow> (Inl (WhOther e), s1)
      | (Inr r, s1) \<Rightarrow>
          if dy_status r < 200 \<or> 300 \<le> dy_status r then (Inl (HttpStatusError (dy_status r) (trim_space (dy_text r))), s1)
          else (Inr r, s1))"

definition wh_EnsureCNAME :: "'s transport \<Rightarrow> webhook \<Rightarrow> string \<Rightarrow> string \<Rightarrow> 's \<Rightarrow> wh_error option \<times> 's" where
  "wh_EnsureCNAME net w name target s =
     (case wh_do net w ''POST'' ''/cname'' (StringMap [(''name'', name), (''target'', target)]) s of
        (Inl e, s1) \<Rightarrow> (Some e, s1) | (Inr _, s1) \<Rightarrow> (None, s1))"

definition wh_CreateTXT :: "'s transport \<Rightarrow> webhook \<Rightarrow> string \<Rightarrow> string \<Rightarrow> 's \<Rightarrow> (wh_error + string) \<times> 's" where
  "wh_CreateTXT net w name val s =
     (case wh_do net w ''POST'' ''/txt'' (StringMap [(''name'', name), (''value'', val)]) s of
        (Inl e, s1) \<Rightarrow> (Inl e, s1)
      | (Inr r, s1) \<Rightarrow> (case dy_id r of None \<Rightarrow> Inl (WhOther ''json'') | Some i \<Rightarrow> Inr i, s1))"

definition wh_DeleteRecord :: "'s transport \<Rightarrow> webhook \<Rightarrow> string \<Rightarrow> 's \<Rightarrow> wh_error option \<times> 's" where
  "wh_DeleteRecord net w i s =
     (case wh_do net w ''DELETE'' (''/txt/'' @ i) EmptyPayload s of
        (Inl (HttpStatusError st body), s1) \<Rightarrow> (if st = 404 then None else Some (HttpStatusError st body), s1)
      | (Inl e, s1) \<Rightarrow> (Some e, s1)
      | (Inr _, s1) \<Rightarrow> (None, s1))"

section \<open>The interface\<close>

text \<open>
  EnsureCNAME for a list of names, as ensureDNS of the control plane runs it: it stops at the
  first error; the names done are reported.
\<close>

fun ensure_all ::
  "(string \<Rightarrow> string \<Rightarrow> 's \<Rightarrow> 'e option \<times> 's) \<Rightarrow> string \<Rightarrow> string list \<Rightarrow> 's \<Rightarrow> (string list \<times> (string \<times> 'e) option) \<times> 's" where
  "ensure_all ens t [] s = (([], None), s)"
| "ensure_all ens t (n # ns) s =
     (case ens n t s of
        (Some e, s1) \<Rightarrow> (([], Some (n, e)), s1)
      | (None, s1) \<Rightarrow> (case ensure_all ens t ns s1 of ((made, e), s2) \<Rightarrow> ((n # made, e), s2)))"

text \<open>
  dnsprovider.Provider.  What the control plane relies on, of calls that succeed: EnsureCNAME
  leaves the name an alias of the target and nothing else changed, CreateTXT adds one record
  under a new id, beside those of the same name, and DeleteRecord removes that one, when its
  id is plain: not one that the client takes for a code of error.
\<close>

locale dns_provider =
  fixes ensure :: "string \<Rightarrow> string \<Rightarrow> 's \<Rightarrow> string option \<times> 's"
    and create :: "string \<Rightarrow> string \<Rightarrow> 's \<Rightarrow> (string + string) \<times> 's"
    and delete :: "string \<Rightarrow> 's \<Rightarrow> string option \<times> 's"
    and aliases :: "'s \<Rightarrow> (string \<times> string) set"
    and texts :: "'s \<Rightarrow> string \<rightharpoonup> string \<times> string"
    and ok :: "'s \<Rightarrow> bool"
    and plain :: "string \<Rightarrow> bool"
  assumes ensure_ok: "ok s \<Longrightarrow> ensure n t s = (r, s') \<Longrightarrow> ok s'"
    and create_ok: "ok s \<Longrightarrow> create n v s = (r', s') \<Longrightarrow> ok s'"
    and delete_ok: "ok s \<Longrightarrow> i \<in> dom (texts s) \<Longrightarrow> delete i s = (r, s') \<Longrightarrow> ok s'"
    and ensure_done: "ok s \<Longrightarrow> ensure n t s = (None, s') \<Longrightarrow> aliases s' = insert (n, t) {a \<in> aliases s. fst a \<noteq> n} \<and> texts s' = texts s"
    and create_done: "ok s \<Longrightarrow> create n v s = (Inr i, s') \<Longrightarrow>
      texts s i = None \<and> texts s' = (texts s)(i \<mapsto> (n, v)) \<and> aliases s' = aliases s"
    and delete_done: "ok s \<Longrightarrow> i \<in> dom (texts s) \<Longrightarrow> plain i \<Longrightarrow> delete i s = (None, s') \<Longrightarrow>
      texts s' = (texts s)(i := None) \<and> aliases s' = aliases s"
begin

text \<open>A record created and deleted leaves the texts as they were, whatever is done in between to others.\<close>

lemma create_delete:
  assumes "ok s" and c: "create n v s = (Inr i, s1)" and "plain i" and d: "delete i s1 = (None, s2)"
  shows "texts s2 = texts s \<and> aliases s2 = aliases s \<and> ok s2"
proof -
  have ok1: "ok s1" by (rule create_ok [OF assms(1) c])
  note cd = create_done [OF assms(1) c]
  then have "i \<in> dom (texts s1)" by simp
  with delete_done [OF ok1 this assms(3) d] delete_ok [OF ok1 this d] cd show ?thesis
    by (auto simp: fun_eq_iff)
qed

text \<open>All the names become aliases of the target and no other name changes.\<close>

lemma ensure_all_done:
  assumes "ok s" and "ensure_all ensure t ns s = ((made, e), s')"
  shows "ok s' \<and> (e = None \<longrightarrow> made = ns \<and> texts s' = texts s \<and>
    aliases s' = (\<lambda>n. (n, t)) ` set ns \<union> {a \<in> aliases s. fst a \<notin> set ns})"
  using assms
proof (induction ns arbitrary: s made)
  case (Cons n ns)
  obtain r s1 where r: "ensure n t s = (r, s1)" by fastforce
  have ok1: "ok s1" by (rule ensure_ok [OF Cons.prems(1) r])
  show ?case
  proof (cases r)
    case None
    note done1 = ensure_done [OF Cons.prems(1) r [unfolded None]]
    obtain made1 where rest: "ensure_all ensure t ns s1 = ((made1, e), s')" and made: "made = n # made1"
      using Cons.prems(2) r None by (auto split: prod.splits)
    show ?thesis using Cons.IH [OF ok1 rest] done1 made by auto
  next
    case (Some err)
    then show ?thesis using Cons.prems(2) r ok1 by auto
  qed
qed auto

end

end
