(* ===== verification/Mock_Zone.thy ===== *)
theory Mock_Zone
  imports Dns_Providers Dns_Server
begin

text \<open>
  test/e2e/mockcf: the part of Cloudflare's API the client uses, with the DNS of its records,
  and a network between the two that may lose a request or its reply.
\<close>

section \<open>The values behind the DNS\<close>

type_synonym txtStore = "string \<Rightarrow> string list"

definition txt_add :: "string \<Rightarrow> string \<Rightarrow> txtStore \<Rightarrow> txtStore" where
  "txt_add name val st = (let name = to_lower name in st(name := st name @ [val]))"

definition removeValue :: "string \<Rightarrow> string \<Rightarrow> txtStore \<Rightarrow> txtStore" where
  "removeValue name val st = (let name = to_lower name in st(name := remove1 val (st name)))"

definition txt_get :: "string \<Rightarrow> txtStore \<Rightarrow> string list" where
  "txt_get name st = st (to_lower name)"

definition local_answer :: "txtStore \<Rightarrow> question \<Rightarrow> RR list" where
  "local_answer st q =
     (if q_type q = TypeSOA then
        [\<lparr>rr_name = q_name q, rr_type = TypeSOA, rr_ttl = 60,
          rr_data = RD_SOA (''ns.'' @ q_name q) (''hostmaster.'' @ q_name q) 1 60 60 60 60\<rparr>]
      else if q_type q = TypeTXT then
        map (\<lambda>v. \<lparr>rr_name = q_name q, rr_type = TypeTXT, rr_ttl = 60, rr_data = RD_TXT [v]\<rparr>) (txt_get (q_name q) st)
      else [])"

definition answerLocally :: "txtStore \<Rightarrow> question list \<Rightarrow> msg" where
  "answerLocally st qs = (SetReply qs)\<lparr>m_authoritative := True, m_answer := concat (map (local_answer st) qs)\<rparr>"

text \<open>Queries for anything else go to the resolver of the network, an argument; None is its failure.\<close>

definition mock_dns :: "(question list \<Rightarrow> msg option) \<Rightarrow> txtStore \<Rightarrow> question list \<Rightarrow> msg" where
  "mock_dns upstream st qs =
     (case qs of
        [q] \<Rightarrow> if q_type q = TypeSOA \<or> q_type q = TypeTXT then answerLocally st qs
               else (case upstream qs of Some m \<Rightarrow> m | None \<Rightarrow> SetRcode 2 qs)
      | _ \<Rightarrow> (case upstream qs of Some m \<Rightarrow> m | None \<Rightarrow> SetRcode 2 qs))"

section \<open>The records\<close>

record mock_record =
  mr_ID :: string
  mr_Type :: string
  mr_Name :: string
  mr_Content :: string

record mock =
  mk_records :: "string \<rightharpoonup> mock_record"
  mk_seq :: nat
  mk_txt :: txtStore

definition mock_start :: mock where
  "mock_start = \<lparr>mk_records = Map.empty, mk_seq = 0, mk_txt = (\<lambda>_. [])\<rparr>"

text \<open>The JSON of the bodies: the fields the mock does not know are dropped, absent ones are empty.\<close>

definition decode_record :: "dns_payload \<Rightarrow> mock_record option" where
  "decode_record p =
     (case p of
        EmptyPayload \<Rightarrow> None
      | StringMap kv \<Rightarrow>
          let f = (\<lambda>k. case map_of kv k of Some v \<Rightarrow> v | None \<Rightarrow> [])
          in Some \<lparr>mr_ID = f ''id'', mr_Type = f ''type'', mr_Name = f ''name'', mr_Content = f ''content''\<rparr>
      | RecordPayload r \<Rightarrow> Some \<lparr>mr_ID = cf_ID r, mr_Type = cf_Type r, mr_Name = cf_Name r, mr_Content = cf_Content r\<rparr>
      | TxtPayload r \<Rightarrow> Some \<lparr>mr_ID = cf_ID r, mr_Type = cf_Type r, mr_Name = cf_Name r, mr_Content = cf_Content r\<rparr>)"

definition cf_view :: "mock_record \<Rightarrow> cf_record" where
  "cf_view r = \<lparr>cf_ID = mr_ID r, cf_Type = mr_Type r, cf_Name = mr_Name r, cf_Content = mr_Content r, cf_TTL = 0, cf_Proxied = False\<rparr>"

definition writeEnvelope :: "cf_result \<Rightarrow> dns_reply" where
  "writeEnvelope res = \<lparr>dy_status = 200, dy_status_line = status_line 200, dy_text = [],
     dy_env = Some \<lparr>ce_success = True, ce_errors = [], ce_result = res\<rparr>, dy_id = None\<rparr>"

definition plain_reply :: "nat \<Rightarrow> dns_reply" where
  "plain_reply st = \<lparr>dy_status = st, dy_status_line = status_line st, dy_text = [], dy_env = None, dy_id = None\<rparr>"

text \<open>The order in which Go ranges over the map is an argument; no match is a nil slice, null in JSON.\<close>

definition mock_list :: "((string \<rightharpoonup> mock_record) \<Rightarrow> string list) \<Rightarrow> string \<Rightarrow> string \<Rightarrow> mock \<Rightarrow> dns_reply" where
  "mock_list order typ name m =
     (case filter (\<lambda>r. mr_Type r = typ \<and> mr_Name r = name) (List.map_filter (mk_records m) (order (mk_records m))) of
        [] \<Rightarrow> writeEnvelope ResNull
      | out \<Rightarrow> writeEnvelope (ResRecords (map cf_view out)))"

definition mock_patch :: "string \<Rightarrow> dns_payload \<Rightarrow> mock \<Rightarrow> dns_reply \<times> mock" where
  "mock_patch i body m =
     (case decode_record body of
        None \<Rightarrow> (plain_reply 400, m)
      | Some r \<Rightarrow>
          let r = r\<lparr>mr_ID := i\<rparr>
          in (writeEnvelope (ResRecord (cf_view r)), m\<lparr>mk_records := (mk_records m)(i \<mapsto> r)\<rparr>))"

definition rec_id :: "nat \<Rightarrow> string" where
  "rec_id n = ''rec'' @ nat_string n"

definition mock_create :: "dns_payload \<Rightarrow> mock \<Rightarrow> dns_reply \<times> mock" where
  "mock_create body m =
     (case decode_record body of
        None \<Rightarrow> (plain_reply 400, m)
      | Some r \<Rightarrow>
          let n = mk_seq m + 1; r = r\<lparr>mr_ID := rec_id n\<rparr>;
              m1 = m\<lparr>mk_seq := n, mk_records := (mk_records m)(rec_id n \<mapsto> r)\<rparr>;
              m2 = (if mr_Type r = ''TXT'' then m1\<lparr>mk_txt := txt_add (mr_Name r @ ''.'') (mr_Content r) (mk_txt m1)\<rparr> else m1)
          in (writeEnvelope (ResRecord (cf_view r)), m2))"

definition mock_del :: "string \<Rightarrow> mock \<Rightarrow> dns_reply \<times> mock" where
  "mock_del i m =
     (let m1 = m\<lparr>mk_records := (mk_records m)(i := None)\<rparr>
      in (writeEnvelope ResNull,
          case mk_records m i of
            None \<Rightarrow> m1
          | Some r \<Rightarrow>
              if mr_Type r = ''TXT'' then m1\<lparr>mk_txt := removeValue (mr_Name r @ ''.'') (mr_Content r) (mk_txt m1)\<rparr> else m1))"

section \<open>The server\<close>

text \<open>url.ParseQuery and Get: malformed pairs are skipped, the first value of a key counts.\<close>

definition query_pairs :: "string \<Rightarrow> (string \<times> string) list" where
  "query_pairs q =
     List.map_filter
       (\<lambda>p. if p = [] \<or> CHR '';'' \<in> set p then None
            else let kv = (case cut p CHR ''='' of Some kv \<Rightarrow> kv | None \<Rightarrow> (p, []))
                 in (case (QueryUnescape (fst kv), QueryUnescape (snd kv)) of
                       (Some k, Some v) \<Rightarrow> Some (k, v) | _ \<Rightarrow> None))
       (split_on CHR ''&'' q)"

definition query_get :: "string \<Rightarrow> string \<Rightarrow> string" where
  "query_get q k = (case map_of (query_pairs q) k of Some v \<Rightarrow> v | None \<Rightarrow> [])"

text \<open>
  The patterns of the mux, on the segments of the path, and the methods each takes (HEAD, which
  no client here sends, is not among them).
\<close>

datatype mock_path = Healthz | Records | RecordAt string | NoPath

definition mock_path :: "string \<Rightarrow> mock_path" where
  "mock_path path =
     (case map PathUnescape (split_on CHR ''/'' path) of
        [Some e, Some h] \<Rightarrow> if e = [] \<and> h = ''healthz'' then Healthz else NoPath
      | [Some e, Some a, Some b, Some c, Some zone, Some d] \<Rightarrow>
          if e = [] \<and> a = ''client'' \<and> b = ''v4'' \<and> c = ''zones'' \<and> zone \<noteq> [] \<and> d = ''dns_records'' then Records else NoPath
      | [Some e, Some a, Some b, Some c, Some zone, Some d, Some i] \<Rightarrow>
          if e = [] \<and> a = ''client'' \<and> b = ''v4'' \<and> c = ''zones'' \<and> zone \<noteq> [] \<and> d = ''dns_records'' \<and> i \<noteq> [] then RecordAt i else NoPath
      | _ \<Rightarrow> NoPath)"

definition mock_serve :: "((string \<rightharpoonup> mock_record) \<Rightarrow> string list) \<Rightarrow> string \<Rightarrow> dns_payload http_request \<Rightarrow> mock \<Rightarrow> dns_reply \<times> mock" where
  "mock_serve order host rq m =
     (case cut_prefix (ht_url rq) host of
        None \<Rightarrow> (plain_reply 404, m)
      | Some u \<Rightarrow>
          let pq = (case cut u CHR ''?'' of Some pq \<Rightarrow> pq | None \<Rightarrow> (u, [])); get = (ht_method rq = ''GET'')
          in case mock_path (fst pq) of
               Healthz \<Rightarrow> (plain_reply (if get then 200 else 405), m)
             | Records \<Rightarrow>
                 if get then (mock_list order (query_get (snd pq) ''type'') (query_get (snd pq) ''name'') m, m)
                 else if ht_method rq = ''POST'' then mock_create (ht_payload rq) m
                 else (plain_reply 405, m)
             | RecordAt i \<Rightarrow>
                 if ht_method rq = ''PATCH'' then mock_patch i (ht_payload rq) m
                 else if ht_method rq = ''DELETE'' then mock_del i m
                 else (plain_reply 405, m)
             | NoPath \<Rightarrow> (plain_reply 404, m))"

text \<open>
  The network: each exchange is delivered, or its request or its reply is lost.  The text of the
  error is that of net/http's url.Error: the method in its capitals, the URL, the reason.
\<close>

definition url_error :: "dns_payload http_request \<Rightarrow> string \<Rightarrow> string" where
  "url_error rq reason =
     take 1 (ht_method rq) @ to_lower (drop 1 (ht_method rq)) @ '' '' @ [CHR 0x22] @ ht_url rq @ [CHR 0x22] @ '': '' @ reason"

datatype net_fault = Deliver | LoseRequest | LoseReply

definition over_net :: "(dns_payload http_request \<Rightarrow> 's \<Rightarrow> dns_reply \<times> 's) \<Rightarrow> (net_fault list \<times> 's) transport" where
  "over_net serve rq s =
     (let f = (case fst s of [] \<Rightarrow> Deliver | f # _ \<Rightarrow> f); (r, t) = serve rq (snd s)
      in case f of
           Deliver \<Rightarrow> (Inr r, tl (fst s), t)
         | LoseRequest \<Rightarrow> (Inl (url_error rq ''connection refused''), tl (fst s), snd s)
         | LoseReply \<Rightarrow> (Inl (url_error rq ''EOF''), tl (fst s), t))"

end
