(* ===== verification/Mock_Props.thy ===== *)
theory Mock_Props
  imports Mock_Zone "HOL-Library.Multiset"
begin

text \<open>
  The client of Cloudflare against the mock is a DNS provider: the requests it builds reach the
  handlers they are meant for, and what the handlers do is what the interface promises, also
  when requests and replies are lost on the way.
\<close>

section \<open>What the zone holds\<close>

definition zone_aliases :: "mock \<Rightarrow> (string \<times> string) set" where
  "zone_aliases m = {(mr_Name r, mr_Content r) | r. r \<in> ran (mk_records m) \<and> mr_Type r = ''CNAME''}"

definition zone_texts :: "mock \<Rightarrow> string \<rightharpoonup> string \<times> string" where
  "zone_texts m i = (case mk_records m i of
     Some r \<Rightarrow> if mr_Type r = ''TXT'' then Some (mr_Name r, mr_Content r) else None | None \<Rightarrow> None)"

text \<open>The ids of the texts of a DNS name (lower case, with its dot) and a value.\<close>

definition text_ids :: "mock \<Rightarrow> string \<Rightarrow> string \<Rightarrow> string set" where
  "text_ids m x v = {i. \<exists>n. zone_texts m i = Some (n, v) \<and> to_lower (n @ ''.'') = x}"

definition mock_ok :: "mock \<Rightarrow> bool" where
  "mock_ok m \<longleftrightarrow> finite (dom (mk_records m)) \<and>
     (\<forall>i r. mk_records m i = Some r \<longrightarrow> mr_ID r = i \<and> (\<exists>k. k \<le> mk_seq m \<and> i = rec_id k)) \<and>
     (\<forall>i j r r'. mk_records m i = Some r \<and> mk_records m j = Some r' \<and> mr_Type r = ''CNAME'' \<and> mr_Type r' = ''CNAME'' \<and>
        mr_Name r = mr_Name r' \<longrightarrow> i = j) \<and>
     (\<forall>x v. count_list (mk_txt m x) v = card (text_ids m x v))"

definition mock_client :: "((string \<rightharpoonup> mock_record) \<Rightarrow> string list) \<Rightarrow> string \<Rightarrow> cf_client \<Rightarrow> bool" where
  "mock_client order host c \<longleftrightarrow>
     (\<forall>m. finite (dom m) \<longrightarrow> set (order m) = dom m \<and> distinct (order m)) \<and>
     cf_apiBase c = host @ ''/client/v4'' \<and> cf_zoneID c \<noteq> [] \<and> (\<forall>x\<in>set (cf_zoneID c). url_unreserved x)"

section \<open>Requests reach their handlers\<close>

lemma nat_string_inj: "nat_string m = nat_string n \<Longrightarrow> m = n"
proof (induction m arbitrary: n rule: nat_string.induct)
  case (1 m)
  have c: "char_of (48 + a) = (char_of (48 + b) :: char) \<longleftrightarrow> a = b" if "a < 10" "b < 10" for a b :: nat
  proof
    assume "char_of (48 + a) = (char_of (48 + b) :: char)"
    then have "(of_char (char_of (48 + a) :: char) :: nat) = of_char (char_of (48 + b) :: char)" by simp
    with that show "a = b" by simp
  qed simp
  show ?case
  proof (cases "m < 10")
    case True
    then have "n < 10" using 1(2) nat_string_nonempty [of "n div 10"]
      by (cases "n < 10") (simp_all add: nat_string.simps [of m] nat_string.simps [of n] del: nat_string_nonempty)
    with True show ?thesis using 1(2) c [of m n] by (simp add: nat_string.simps [of m] nat_string.simps [of n])
  next
    case False
    then have "\<not> n < 10" using 1(2) nat_string_nonempty [of "m div 10"]
      by (auto simp: nat_string.simps [of m] nat_string.simps [of n])
    with False 1(2) have "nat_string (m div 10) = nat_string (n div 10)" "m mod 10 = n mod 10"
      using c [of "m mod 10" "n mod 10"] by (simp_all add: nat_string.simps [of m] nat_string.simps [of n])
    with 1(1) [OF False] have "m div 10 = n div 10" "m mod 10 = n mod 10" by blast+
    then show ?thesis by (metis div_mult_mod_eq)
  qed
qed

lemma rec_id_inj [simp]: "rec_id m = rec_id n \<longleftrightarrow> m = n"
  by (auto simp: rec_id_def dest: nat_string_inj)

lemma unescape_unreserved:
  assumes "\<forall>x\<in>set s. url_unreserved x"
  shows "unescape q s = Some s" "CHR ''/'' \<notin> set s" "CHR ''?'' \<notin> set s" "CHR ''&'' \<notin> set s"
proof -
  show "unescape q s = Some s"
    using assms by (induction s) (simp_all add: unescape_plain url_unreserved_neq del: unescape.simps(2))
  show "CHR ''/'' \<notin> set s" "CHR ''?'' \<notin> set s" "CHR ''&'' \<notin> set s"
    using assms url_unreserved_not by blast+
qed

lemma rec_id_unreserved: "\<forall>x\<in>set (rec_id n). url_unreserved x"
  using nat_string_digits [of _ n] by (auto simp: rec_id_def url_unreserved_def less_eq_char_def)

lemma query_get_cname [simp]:
  "query_get (cname_query n) ''name'' = n" "query_get (cname_query n) ''type'' = ''CNAME''"
proof -
  have sp: "split_on CHR ''&'' (cname_query n) = [''name='' @ QueryEscape n, ''type='' @ QueryEscape ''CNAME'']"
    using split_append_sep [of "CHR ''&''" "''name='' @ QueryEscape n" "''type='' @ QueryEscape ''CNAME''"]
      split_clean [of "CHR ''&''" "''type='' @ QueryEscape ''CNAME''"] QueryEscape_no_delimiter [of n]
      QueryEscape_no_delimiter [of "''CNAME''"]
    by (simp add: cname_query_def del: QueryEscape_simps)
  have semi: "CHR '';'' \<notin> set (QueryEscape s)" for s using QueryEscape_no_delimiter [of s] by auto
  have c: "cut (''name='' @ QueryEscape s) CHR ''='' = Some (''name'', QueryEscape s)"
    "cut (''type='' @ QueryEscape s) CHR ''='' = Some (''type'', QueryEscape s)" for s
    by (simp_all add: cut_Some)
  have "query_pairs (cname_query n) = [(''name'', n), (''type'', ''CNAME'')]"
    using semi by (simp add: query_pairs_def sp c List.map_filter_simps del: QueryEscape_simps append.simps)
  then show "query_get (cname_query n) ''name'' = n" "query_get (cname_query n) ''type'' = ''CNAME''"
    by (simp_all add: query_get_def)
qed

definition zone_path :: "cf_client \<Rightarrow> string" where
  "zone_path c = ''/client/v4/zones/'' @ cf_zoneID c @ ''/dns_records''"

lemma zone_path_split:
  assumes "\<forall>x\<in>set (cf_zoneID c). url_unreserved x"
  shows "split_on CHR ''/'' (zone_path c) = [[], ''client'', ''v4'', ''zones'', cf_zoneID c, ''dns_records'']"
    "CHR ''/'' \<notin> set i \<Longrightarrow> split_on CHR ''/'' (zone_path c @ ''/'' @ i) = [[], ''client'', ''v4'', ''zones'', cf_zoneID c, ''dns_records'', i]"
proof -
  have "CHR ''/'' \<notin> set (cf_zoneID c)" using unescape_unreserved(2) [OF assms] .
  then have z: "split_on CHR ''/'' (cf_zoneID c @ CHR ''/'' # t) = cf_zoneID c # split_on CHR ''/'' t" for t
    by (rule split_append_sep)
  show "split_on CHR ''/'' (zone_path c) = [[], ''client'', ''v4'', ''zones'', cf_zoneID c, ''dns_records'']"
    by (simp add: zone_path_def z)
  show "split_on CHR ''/'' (zone_path c @ ''/'' @ i) = [[], ''client'', ''v4'', ''zones'', cf_zoneID c, ''dns_records'', i]"
    if "CHR ''/'' \<notin> set i"
    using that by (simp add: zone_path_def z split_clean)
qed

lemma mock_path_zone:
  assumes "cf_zoneID c \<noteq> []" and zone: "\<forall>x\<in>set (cf_zoneID c). url_unreserved x"
  shows "mock_path (zone_path c) = Records"
    "i \<noteq> [] \<Longrightarrow> \<forall>x\<in>set i. url_unreserved x \<Longrightarrow> mock_path (zone_path c @ ''/'' @ i) = RecordAt i"
  using assms(1) unescape_unreserved(1) [OF zone, of False] unescape_unreserved(1) [of i False] unescape_unreserved(2) [of i]
  by (simp_all add: mock_path_def zone_path_split [OF zone] del: append_Cons)

lemma zone_path_plain: "\<forall>x\<in>set (cf_zoneID c). url_unreserved x \<Longrightarrow> CHR ''?'' \<notin> set (zone_path c)"
  using unescape_unreserved(3) by (simp add: zone_path_def)

lemma cf_request_fields [simp]:
  "ht_method (cf_request c meth pth body) = meth" "ht_payload (cf_request c meth pth body) = body"
  by (simp_all add: cf_request_def)

lemma client_zone:
  assumes "mock_client order host c"
  shows "cf_zoneID c \<noteq> []" "\<forall>x\<in>set (cf_zoneID c). url_unreserved x"
  using assms by (simp_all add: mock_client_def)

lemma client_url:
  "mock_client order host c \<Longrightarrow> ht_url (cf_request c meth pth body) = host @ ''/client/v4/zones/'' @ cf_zoneID c @ pth"
  by (simp add: mock_client_def cf_request_def)

lemma serve_list:
  assumes "mock_client order host c"
  shows "mock_serve order host (cf_request c ''GET'' (''/dns_records?'' @ cname_query n) body) m =
    (mock_list order ''CNAME'' n m, m)"
proof -
  note z = client_zone [OF assms(1)]
  have u: "ht_url (cf_request c ''GET'' (''/dns_records?'' @ cname_query n) body) = host @ (zone_path c @ CHR ''?'' # cname_query n)"
    by (simp add: client_url [OF assms(1)] zone_path_def)
  have "cut (zone_path c @ CHR ''?'' # cname_query n) CHR ''?'' = Some (zone_path c, cname_query n)"
    using zone_path_plain [OF z(2)] by (simp add: cut_Some)
  then show ?thesis
    by (simp add: mock_serve_def u mock_path_zone(1) [OF z] Let_def del: append_Cons)
qed

lemma serve_create:
  assumes "mock_client order host c"
  shows "mock_serve order host (cf_request c ''POST'' ''/dns_records'' body) m = mock_create body m"
proof -
  note z = client_zone [OF assms(1)]
  have u: "ht_url (cf_request c ''POST'' ''/dns_records'' body) = host @ zone_path c"
    by (simp add: client_url [OF assms(1)] zone_path_def)
  have "cut (zone_path c) CHR ''?'' = None"
    using zone_path_plain [OF z(2)] by (simp add: cut_None)
  then show ?thesis
    by (simp add: mock_serve_def u mock_path_zone(1) [OF z] Let_def)
qed

lemma serve_record:
  assumes "mock_client order host c" and "i \<noteq> []" and "\<forall>x\<in>set i. url_unreserved x"
  shows "mock_serve order host (cf_request c ''PATCH'' (''/dns_records/'' @ i) body) m = mock_patch i body m"
    "mock_serve order host (cf_request c ''DELETE'' (''/dns_records/'' @ i) body) m = mock_del i m"
proof -
  note z = client_zone [OF assms(1)]
  have u: "ht_url (cf_request c meth (''/dns_records/'' @ i) body) = host @ (zone_path c @ ''/'' @ i)" for meth
    by (simp add: client_url [OF assms(1)] zone_path_def)
  have "cut (zone_path c @ ''/'' @ i) CHR ''?'' = None"
    using zone_path_plain [OF z(2)] unescape_unreserved(3) [OF assms(3)] by (simp add: cut_None)
  then show "mock_serve order host (cf_request c ''PATCH'' (''/dns_records/'' @ i) body) m = mock_patch i body m"
    "mock_serve order host (cf_request c ''DELETE'' (''/dns_records/'' @ i) body) m = mock_del i m"
    using mock_path_zone(2) [OF z assms(2,3)]
    by (simp_all add: mock_serve_def u Let_def del: append_Cons)
qed

section \<open>What the handlers do\<close>

lemma count_list_remove1: "count_list (remove1 v xs) w = (if w = v then count_list xs w - 1 else count_list xs w)"
  by (induction xs) auto

lemma mock_okD:
  assumes "mock_ok m"
  shows "finite (dom (mk_records m))" "mk_records m i = Some r \<Longrightarrow> mr_ID r = i \<and> (\<exists>k. k \<le> mk_seq m \<and> i = rec_id k)"
    "mk_records m i = Some r \<Longrightarrow> mk_records m j = Some r' \<Longrightarrow> mr_Type r = ''CNAME'' \<Longrightarrow> mr_Type r' = ''CNAME'' \<Longrightarrow>
       mr_Name r = mr_Name r' \<Longrightarrow> i = j"
    "count_list (mk_txt m x) v = card (text_ids m x v)"
  using assms unfolding mock_ok_def by blast+

lemma new_id_free: "mock_ok m \<Longrightarrow> mk_records m (rec_id (Suc (mk_seq m))) = None"
  using mock_okD(2) [of m "rec_id (Suc (mk_seq m))"] by (cases "mk_records m (rec_id (Suc (mk_seq m)))") fastforce+

lemma finite_text_ids: "mock_ok m \<Longrightarrow> finite (text_ids m x v)"
proof (rule finite_subset)
  show "text_ids m x v \<subseteq> dom (mk_records m)" by (auto simp: text_ids_def zone_texts_def split: option.splits)
qed (rule mock_okD(1))

lemma in_text_ids: "i \<in> text_ids m x v \<longleftrightarrow> (\<exists>n. zone_texts m i = Some (n, v) \<and> to_lower (n @ ''.'') = x)"
  by (simp add: text_ids_def)

text \<open>A record that is no text comes or changes: the texts and the DNS stay.\<close>

lemma put_alias:
  assumes ok: "mock_ok m" and t: "mr_Type r = ''CNAME''" "mr_ID r = i"
    and free: "zone_texts m i = None" and i: "\<exists>k. k \<le> mk_seq m' \<and> i = rec_id k" "mk_seq m \<le> mk_seq m'"
    and alone: "\<And>j r'. mk_records m j = Some r' \<Longrightarrow> mr_Type r' = ''CNAME'' \<Longrightarrow> mr_Name r' = mr_Name r \<Longrightarrow> j = i"
    and m': "mk_records m' = (mk_records m)(i \<mapsto> r)" "mk_txt m' = mk_txt m"
  shows "mock_ok m'" and "zone_texts m' = zone_texts m"
proof -
  show texts: "zone_texts m' = zone_texts m"
    using free t by (auto simp: zone_texts_def m' fun_eq_iff)
  then have ids: "text_ids m' x v = text_ids m x v" for x v by (simp add: text_ids_def)
  show "mock_ok m'"
    unfolding mock_ok_def m' ids
  proof (intro conjI allI impI)
    show "finite (dom ((mk_records m)(i \<mapsto> r)))" using mock_okD(1) [OF ok] by simp
    show "count_list (mk_txt m x) v = card (text_ids m x v)" for x v by (rule mock_okD(4) [OF ok])
    show "mr_ID q = j" "\<exists>k\<le>mk_seq m'. j = rec_id k" if "((mk_records m)(i \<mapsto> r)) j = Some q" for j q
      using that mock_okD(2) [OF ok, of j q] t(2) i by (auto split: if_splits intro: order_trans)
    show "j = l" if "((mk_records m)(i \<mapsto> r)) j = Some q \<and> ((mk_records m)(i \<mapsto> r)) l = Some q' \<and>
        mr_Type q = ''CNAME'' \<and> mr_Type q' = ''CNAME'' \<and> mr_Name q = mr_Name q'" for j l q q'
      using that alone mock_okD(3) [OF ok, of j q l q'] by (metis (no_types, lifting) fun_upd_apply option.inject)
  qed
qed

lemma zone_aliases_put:
  assumes "mr_Type r = ''CNAME''" and "\<And>q. mk_records m i = Some q \<Longrightarrow> mr_Type q = ''CNAME'' \<and> mr_Name q = mr_Name r"
    and "\<And>j r'. mk_records m j = Some r' \<Longrightarrow> mr_Type r' = ''CNAME'' \<Longrightarrow> mr_Name r' = mr_Name r \<Longrightarrow> j = i"
    and "mk_records m' = (mk_records m)(i \<mapsto> r)"
  shows "zone_aliases m' = insert (mr_Name r, mr_Content r) {a \<in> zone_aliases m. fst a \<noteq> mr_Name r}"
proof (intro subset_antisym subsetI)
  fix a assume "a \<in> zone_aliases m'"
  then obtain j q where q: "((mk_records m)(i \<mapsto> r)) j = Some q" "mr_Type q = ''CNAME''" "a = (mr_Name q, mr_Content q)"
    by (auto simp: zone_aliases_def ran_def assms(4) simp del: fun_upd_apply)
  show "a \<in> insert (mr_Name r, mr_Content r) {a \<in> zone_aliases m. fst a \<noteq> mr_Name r}"
  proof (cases "j = i")
    case False
    with q assms(3) [of j q] show ?thesis by (auto simp: zone_aliases_def ran_def)
  qed (use q in auto)
next
  fix a assume "a \<in> insert (mr_Name r, mr_Content r) {a \<in> zone_aliases m. fst a \<noteq> mr_Name r}"
  then consider "a = (mr_Name r, mr_Content r)" |
    j q where "mk_records m j = Some q" "mr_Type q = ''CNAME''" "a = (mr_Name q, mr_Content q)" "mr_Name q \<noteq> mr_Name r"
    by (auto simp: zone_aliases_def ran_def)
  then show "a \<in> zone_aliases m'"
  proof cases
    case 1
    then show ?thesis using assms(1) by (auto simp: zone_aliases_def ran_def assms(4))
  next
    case 2
    then have "((mk_records m)(i \<mapsto> r)) j = Some q" using assms(2) by auto
    with 2 show ?thesis unfolding zone_aliases_def ran_def assms(4) by blast
  qed
qed

text \<open>A text comes under a new id, or goes: the DNS follows.\<close>

lemma put_text:
  assumes ok: "mock_ok m" and t: "mr_Type r = ''TXT''" "mr_ID r = i" and free: "mk_records m i = None"
    and i: "\<exists>k. k \<le> mk_seq m' \<and> i = rec_id k" "mk_seq m \<le> mk_seq m'"
    and m': "mk_records m' = (mk_records m)(i \<mapsto> r)" "mk_txt m' = txt_add (mr_Name r @ ''.'') (mr_Content r) (mk_txt m)"
  shows "mock_ok m'" and "zone_texts m' = (zone_texts m)(i \<mapsto> (mr_Name r, mr_Content r))" and "zone_aliases m' = zone_aliases m"
proof -
  let ?x = "to_lower (mr_Name r @ ''.'')"
  show texts: "zone_texts m' = (zone_texts m)(i \<mapsto> (mr_Name r, mr_Content r))"
    using t by (auto simp: zone_texts_def m' fun_eq_iff)
  have none: "zone_texts m i = None" by (simp add: zone_texts_def free)
  have ids: "text_ids m' x v = (if x = ?x \<and> v = mr_Content r then insert i (text_ids m x v) else text_ids m x v)" for x v
    using none by (auto simp: set_eq_iff in_text_ids texts)
  have new: "i \<notin> text_ids m x v" for x v using none by (simp add: in_text_ids)
  show "mock_ok m'"
    unfolding mock_ok_def m'(1)
  proof (intro conjI allI impI)
    show "finite (dom ((mk_records m)(i \<mapsto> r)))" using mock_okD(1) [OF ok] by simp
    show "count_list (mk_txt m' x) v = card (text_ids m' x v)" for x v
      using mock_okD(4) [OF ok, of x v] new [of x v] finite_text_ids [OF ok, of x v]
      by (auto simp: m'(2) txt_add_def Let_def ids)
    show "mr_ID q = j" "\<exists>k\<le>mk_seq m'. j = rec_id k" if "((mk_records m)(i \<mapsto> r)) j = Some q" for j q
      using that mock_okD(2) [OF ok, of j q] t(2) i by (auto split: if_splits intro: order_trans)
    show "j = l" if "((mk_records m)(i \<mapsto> r)) j = Some q \<and> ((mk_records m)(i \<mapsto> r)) l = Some q' \<and>
        mr_Type q = ''CNAME'' \<and> mr_Type q' = ''CNAME'' \<and> mr_Name q = mr_Name q'" for j l q q'
      using that mock_okD(3) [OF ok, of j q l q'] t(1) by (auto split: if_splits)
  qed
  have "q \<in> ran ((mk_records m)(i \<mapsto> r)) \<longleftrightarrow> q = r \<or> q \<in> ran (mk_records m)" for q
    using free by (simp add: ran_map_upd)
  then show "zone_aliases m' = zone_aliases m"
    using t by (auto simp: zone_aliases_def m')
qed

lemma drop_text:
  assumes ok: "mock_ok m" and r: "mk_records m i = Some r" "mr_Type r = ''TXT''"
    and m': "mk_records m' = (mk_records m)(i := None)" "mk_seq m' = mk_seq m"
      "mk_txt m' = removeValue (mr_Name r @ ''.'') (mr_Content r) (mk_txt m)"
  shows "mock_ok m'" and "zone_texts m' = (zone_texts m)(i := None)" and "zone_aliases m' = zone_aliases m"
proof -
  let ?x = "to_lower (mr_Name r @ ''.'')"
  show texts: "zone_texts m' = (zone_texts m)(i := None)"
    by (auto simp: zone_texts_def m' fun_eq_iff)
  have at: "zone_texts m i = Some (mr_Name r, mr_Content r)" by (simp add: zone_texts_def r)
  then have ids: "text_ids m' x v = text_ids m x v - {i}" for x v
    by (auto simp: set_eq_iff in_text_ids texts)
  have mem: "i \<in> text_ids m x v \<longleftrightarrow> x = ?x \<and> v = mr_Content r" for x v using at by (auto simp: in_text_ids)
  show "mock_ok m'"
    unfolding mock_ok_def m'(1,2)
  proof (intro conjI allI impI)
    show "finite (dom ((mk_records m)(i := None)))" using mock_okD(1) [OF ok] by simp
    show "count_list (mk_txt m' x) v = card (text_ids m' x v)" for x v
      using mock_okD(4) [OF ok, of x v] mem [of x v] finite_text_ids [OF ok, of x v]
      by (auto simp: m'(3) removeValue_def Let_def ids count_list_remove1)
    show "mr_ID q = j" "\<exists>k\<le>mk_seq m. j = rec_id k" if "((mk_records m)(i := None)) j = Some q" for j q
      using that mock_okD(2) [OF ok, of j q] by (auto split: if_splits)
    show "j = l" if "((mk_records m)(i := None)) j = Some q \<and> ((mk_records m)(i := None)) l = Some q' \<and>
        mr_Type q = ''CNAME'' \<and> mr_Type q' = ''CNAME'' \<and> mr_Name q = mr_Name q'" for j l q q'
      using that mock_okD(3) [OF ok, of j q l q'] by (auto split: if_splits)
  qed
  have "q \<in> ran ((mk_records m)(i := None)) \<Longrightarrow> q \<in> ran (mk_records m)" for q by (auto simp: ran_def split: if_splits)
  moreover have "q \<in> ran (mk_records m) \<Longrightarrow> mr_Type q = ''CNAME'' \<Longrightarrow> q \<in> ran ((mk_records m)(i := None))" for q
  proof -
    assume "q \<in> ran (mk_records m)" and cn: "mr_Type q = ''CNAME''"
    then obtain j where j: "mk_records m j = Some q" by (auto simp: ran_def)
    with r cn have "j \<noteq> i" by auto
    with j show ?thesis by (auto simp: ran_def)
  qed
  ultimately show "zone_aliases m' = zone_aliases m" unfolding zone_aliases_def m'(1) by blast
qed

lemma at_most_one: "\<forall>r\<in>set xs. \<forall>q\<in>set xs. r = q \<Longrightarrow> distinct xs \<Longrightarrow> xs = [] \<or> (\<exists>r. xs = [r])"
  by (metis distinct_length_2_or_more list.exhaust list.set_intros)

lemma writeEnvelope_inj [simp]: "writeEnvelope x = writeEnvelope y \<longleftrightarrow> x = y"
  by (simp add: writeEnvelope_def)

text \<open>The answer of list: the one alias of the name, if there is one.\<close>

lemma mock_list_cname:
  assumes ok: "mock_ok m" and order: "\<forall>m. finite (dom m) \<longrightarrow> set (order m) = dom m \<and> distinct (order m)"
  shows "(\<exists>r. mk_records m (mr_ID r) = Some r \<and> mr_Type r = ''CNAME'' \<and> mr_Name r = n \<and>
      mock_list order ''CNAME'' n m = writeEnvelope (ResRecords [cf_view r])) \<or>
    (\<nexists>i r. mk_records m i = Some r \<and> mr_Type r = ''CNAME'' \<and> mr_Name r = n) \<and>
      mock_list order ''CNAME'' n m = writeEnvelope ResNull"
proof -
  let ?P = "\<lambda>r. mr_Type r = ''CNAME'' \<and> mr_Name r = n"
  let ?keys = "order (mk_records m)"
  let ?out = "filter ?P (List.map_filter (mk_records m) ?keys)"
  have keys: "set ?keys = dom (mk_records m)" "distinct ?keys" using order mock_okD(1) [OF ok] by blast+
  have "r \<in> set ?out \<longleftrightarrow> (\<exists>i. mk_records m i = Some r) \<and> ?P r" for r
    by (auto simp: List.map_filter_def keys(1) image_iff)
  moreover have "mk_records m i = Some r \<Longrightarrow> mr_ID r = i" for i r using mock_okD(2) [OF ok] by blast
  ultimately have mem: "r \<in> set ?out \<longleftrightarrow> mk_records m (mr_ID r) = Some r \<and> ?P r" for r by blast
  have "\<forall>r\<in>set ?out. \<forall>q\<in>set ?out. r = q"
    using mem mock_okD(3) [OF ok] by (metis (no_types, lifting) option.inject)
  moreover have "map mr_ID (List.map_filter (mk_records m) ks) = filter (\<lambda>k. mk_records m k \<noteq> None) ks" for ks
    using mock_okD(2) [OF ok] by (induction ks) (auto simp: List.map_filter_simps split: option.splits)
  then have "distinct (map mr_ID (List.map_filter (mk_records m) ?keys))" using keys(2) by simp
  then have "distinct ?out" by (simp add: distinct_map)
  ultimately consider "?out = []" | r where "?out = [r]" using at_most_one by blast
  then show ?thesis
  proof cases
    case 1
    then have "\<nexists>i r. mk_records m i = Some r \<and> ?P r"
      using mem mock_okD(2) [OF ok] by (metis (no_types, lifting) empty_iff empty_set)
    with 1 show ?thesis by (simp add: mock_list_def)
  next
    case 2
    then have "mk_records m (mr_ID r) = Some r \<and> ?P r" using mem [of r] by simp
    with 2 show ?thesis by (auto simp: mock_list_def)
  qed
qed

section \<open>The client over the network\<close>

lemma cf_do_over_net:
  assumes "cf_do (over_net serve) c meth pth body dec s = (res, s')"
    and "serve (cf_request c meth pth body) (snd s) = (writeEnvelope x, t)"
  shows "snd s' = snd s \<or> snd s' = t" and "res = Inr v \<Longrightarrow> snd s' = t \<and> dec x = Inr v"
  using assms
  by (auto simp: cf_do_def over_net_def writeEnvelope_def Let_def split: net_fault.splits list.splits)

definition alias_record :: "string \<Rightarrow> string \<Rightarrow> cf_record" where
  "alias_record n t = \<lparr>cf_ID = [], cf_Type = ''CNAME'', cf_Name = n, cf_Content = t, cf_TTL = 1, cf_Proxied = False\<rparr>"

definition aliased :: "string \<Rightarrow> string \<Rightarrow> mock \<Rightarrow> mock \<Rightarrow> bool" where
  "aliased n t m m' \<longleftrightarrow> mock_ok m' \<and> zone_aliases m' = insert (n, t) {a \<in> zone_aliases m. fst a \<noteq> n} \<and> zone_texts m' = zone_texts m"

lemma patch_alias:
  assumes ok: "mock_ok m" and q: "mk_records m i = Some q" "mr_Type q = ''CNAME''" "mr_Name q = n"
  shows "\<exists>x m'. mock_patch i (RecordPayload (alias_record n t)) m = (writeEnvelope x, m') \<and> aliased n t m m'"
proof -
  let ?r = "\<lparr>mr_ID = i, mr_Type = ''CNAME'', mr_Name = n, mr_Content = t\<rparr>"
  let ?m = "m\<lparr>mk_records := (mk_records m)(i \<mapsto> ?r)\<rparr>"
  have alone: "\<And>j r'. mk_records m j = Some r' \<Longrightarrow> mr_Type r' = ''CNAME'' \<Longrightarrow> mr_Name r' = mr_Name ?r \<Longrightarrow> j = i"
    using mock_okD(3) [OF ok _ q(1)] q(2,3) by fastforce
  have "zone_texts m i = None" by (simp add: zone_texts_def q)
  moreover have "\<exists>k\<le>mk_seq ?m. i = rec_id k" using mock_okD(2) [OF ok q(1)] by simp
  ultimately have "mock_ok ?m" "zone_texts ?m = zone_texts m"
    using put_alias [OF ok, of ?r i ?m] alone by simp_all
  moreover have "zone_aliases ?m = insert (n, t) {a \<in> zone_aliases m. fst a \<noteq> n}"
    using zone_aliases_put [of ?r m i ?m, OF _ _ alone] q(1,2,3) by simp
  ultimately have "aliased n t m ?m" by (simp add: aliased_def)
  moreover have "mock_patch i (RecordPayload (alias_record n t)) m = (writeEnvelope (ResRecord (cf_view ?r)), ?m)"
    by (simp add: mock_patch_def decode_record_def alias_record_def Let_def)
  ultimately show ?thesis by blast
qed

lemma create_alias:
  assumes ok: "mock_ok m" and none: "\<nexists>i r. mk_records m i = Some r \<and> mr_Type r = ''CNAME'' \<and> mr_Name r = n"
  shows "\<exists>x m'. mock_create (RecordPayload (alias_record n t)) m = (writeEnvelope x, m') \<and> aliased n t m m'"
proof -
  let ?i = "rec_id (Suc (mk_seq m))"
  let ?r = "\<lparr>mr_ID = ?i, mr_Type = ''CNAME'', mr_Name = n, mr_Content = t\<rparr>"
  let ?m = "m\<lparr>mk_seq := Suc (mk_seq m), mk_records := (mk_records m)(?i \<mapsto> ?r)\<rparr>"
  note new = new_id_free [OF ok]
  have alone: "\<And>j r'. mk_records m j = Some r' \<Longrightarrow> mr_Type r' = ''CNAME'' \<Longrightarrow> mr_Name r' = mr_Name ?r \<Longrightarrow> j = ?i"
    using none by auto
  have "mock_ok ?m" "zone_texts ?m = zone_texts m"
    using put_alias [OF ok, of ?r ?i ?m] alone new by (simp_all add: zone_texts_def)
  moreover have "zone_aliases ?m = insert (n, t) {a \<in> zone_aliases m. fst a \<noteq> n}"
    using zone_aliases_put [of ?r m ?i ?m, OF _ _ alone] new by simp
  ultimately have "aliased n t m ?m" by (simp add: aliased_def)
  moreover have "mock_create (RecordPayload (alias_record n t)) m = (writeEnvelope (ResRecord (cf_view ?r)), ?m)"
    by (simp add: mock_create_def decode_record_def alias_record_def Let_def)
  ultimately show ?thesis by blast
qed

text \<open>The alias the client finds right is left alone.\<close>

lemma aliased_same:
  assumes ok: "mock_ok m" and q: "mk_records m i = Some q" "mr_Type q = ''CNAME''" "mr_Name q = n" "mr_Content q = t"
  shows "aliased n t m m"
proof -
  have "(n, t) \<in> zone_aliases m" using q by (auto simp: zone_aliases_def ran_def)
  moreover have "a = (n, t)" if a: "a \<in> zone_aliases m" "fst a = n" for a
  proof -
    obtain j r where r: "mk_records m j = Some r" "mr_Type r = ''CNAME''" "a = (mr_Name r, mr_Content r)"
      using a(1) by (auto simp: zone_aliases_def ran_def)
    with a(2) q have "j = i" using mock_okD(3) [OF ok r(1) q(1)] by simp
    with r q a(2) show ?thesis by simp
  qed
  ultimately show ?thesis unfolding aliased_def using ok by blast
qed

lemma cf_do_delivered:
  assumes "fst s = []" and "serve (cf_request c meth pth body) (snd s) = (writeEnvelope x, t)"
  shows "cf_do (over_net serve) c meth pth body dec s = (dec x, [], t)"
  using assms by (simp add: cf_do_def over_net_def writeEnvelope_def)

text \<open>Sending an alias over the network: lost, or done at the server whether or not the reply arrives.\<close>

lemma send_over_net:
  assumes ok: "mock_ok (snd s)"
    and sent: "(case cf_do (over_net (mock_serve order host)) c meth pth (RecordPayload (alias_record n t)) res_none s of
        (Inl e, s2) \<Rightarrow> (Some e, s2) | (Inr _, s2) \<Rightarrow> (None, s2)) = (r, s')"
    and serve: "mock_serve order host (cf_request c meth pth (RecordPayload (alias_record n t))) (snd s) = (writeEnvelope y, m')"
    and al: "aliased n t (snd s) m'"
  shows "mock_ok (snd s') \<and> (r = None \<longrightarrow> aliased n t (snd s) (snd s'))"
proof -
  obtain res s2 where d: "cf_do (over_net (mock_serve order host)) c meth pth (RecordPayload (alias_record n t)) res_none s = (res, s2)"
    by (rule prod.exhaust)
  have "s' = s2" "r = None \<Longrightarrow> \<exists>v. res = Inr v" using sent d by (auto split: sum.splits)
  moreover have "snd s2 = snd s \<or> snd s2 = m'" "res = Inr v \<Longrightarrow> snd s2 = m'" for v
    using cf_do_over_net [OF d, of y m'] serve by auto
  ultimately show ?thesis using ok al by (auto simp: aliased_def)
qed

lemma ensure_over_net:
  assumes client: "mock_client order host c" and ok: "mock_ok (snd s)"
    and e: "cf_EnsureCNAME (over_net (mock_serve order host)) c n t s = (r, s')"
  shows "mock_ok (snd s') \<and> (r = None \<longrightarrow> aliased n t (snd s) (snd s'))"
proof -
  let ?m = "snd s" and ?net = "over_net (mock_serve order host)"
  have order: "\<forall>m. finite (dom m) \<longrightarrow> set (order m) = dom m \<and> distinct (order m)" using client by (simp add: mock_client_def)
  obtain g s1 where g: "cf_do ?net c ''GET'' (''/dns_records?'' @ cname_query n) EmptyPayload res_records s = (g, s1)"
    by (rule prod.exhaust)
  note found = mock_list_cname [OF ok order, of n]
  then obtain x where x: "mock_list order ''CNAME'' n ?m = writeEnvelope x" by blast
  have get: "snd s1 = ?m" "g = Inr rs \<Longrightarrow> res_records x = Inr rs" for rs
    using cf_do_over_net [OF g serve_list [OF client, of n EmptyPayload ?m, unfolded x]] by blast+
  have ok1: "mock_ok (snd s1)" using ok get(1) by simp
  note sent = send_over_net [OF ok1, unfolded get(1)]
  show ?thesis
  proof (cases g)
    case (Inl err)
    then show ?thesis using e g get(1) ok by (auto simp: cf_EnsureCNAME_def)
  next
    case (Inr rs)
    note rs = get(2) [OF Inr]
    from found show ?thesis
    proof
      assume "\<exists>q. mk_records ?m (mr_ID q) = Some q \<and> mr_Type q = ''CNAME'' \<and> mr_Name q = n \<and>
        mock_list order ''CNAME'' n ?m = writeEnvelope (ResRecords [cf_view q])"
      then obtain q where q: "mk_records ?m (mr_ID q) = Some q" "mr_Type q = ''CNAME''" "mr_Name q = n"
        and l: "mock_list order ''CNAME'' n ?m = writeEnvelope (ResRecords [cf_view q])" by blast
      then have "x = ResRecords [cf_view q]" using x by simp
      then have rs: "rs = [cf_view q]" using rs by (simp add: res_records_def)
      obtain k where k: "mr_ID q = rec_id k" using mock_okD(2) [OF ok q(1)] by blast
      then have i: "mr_ID q \<noteq> []" "\<forall>x\<in>set (mr_ID q). url_unreserved x" using rec_id_unreserved by (simp_all add: rec_id_def)
      show ?thesis
      proof (cases "mr_Content q = t")
        case True
        then show ?thesis using e g Inr rs aliased_same [OF ok q] ok get(1)
          by (simp add: cf_EnsureCNAME_def cf_view_def)
      next
        case False
        obtain y m' where y: "mock_patch (mr_ID q) (RecordPayload (alias_record n t)) ?m = (writeEnvelope y, m')" "aliased n t ?m m'"
          using patch_alias [OF ok q] by blast
        show ?thesis
          using e g Inr rs False
          by (intro sent [OF _ trans [OF serve_record(1) [OF client i] y(1)] y(2)])
            (simp add: cf_EnsureCNAME_def cf_view_def alias_record_def)
      qed
    next
      assume n: "(\<nexists>i r. mk_records ?m i = Some r \<and> mr_Type r = ''CNAME'' \<and> mr_Name r = n) \<and>
        mock_list order ''CNAME'' n ?m = writeEnvelope ResNull"
      then have "x = ResNull" using x by simp
      then have rs: "rs = []" using rs by (simp add: res_records_def)
      obtain y m' where y: "mock_create (RecordPayload (alias_record n t)) ?m = (writeEnvelope y, m')" "aliased n t ?m m'"
        using create_alias [OF ok conjunct1 [OF n]] by blast
      show ?thesis
        using e g Inr rs
        by (intro sent [OF _ trans [OF serve_create [OF client] y(1)] y(2)]) (simp add: cf_EnsureCNAME_def alias_record_def)
    qed
  qed
qed

text \<open>On a network that loses nothing EnsureCNAME succeeds.\<close>

lemma ensure_delivered:
  assumes client: "mock_client order host c" and ok: "mock_ok (snd s)" and net: "fst s = []"
  shows "\<exists>m. cf_EnsureCNAME (over_net (mock_serve order host)) c n t s = (None, [], m)"
proof -
  let ?m = "snd s"
  have order: "\<forall>m. finite (dom m) \<longrightarrow> set (order m) = dom m \<and> distinct (order m)" using client by (simp add: mock_client_def)
  have sent: "\<exists>m. cf_do (over_net (mock_serve order host)) c meth pth (RecordPayload (alias_record n t)) res_none ([], ?m) = (Inr (), [], m)"
    if "mock_serve order host (cf_request c meth pth (RecordPayload (alias_record n t))) ?m = (writeEnvelope y, m')" for meth pth y m'
  proof -
    have "cf_do (over_net (mock_serve order host)) c meth pth (RecordPayload (alias_record n t)) res_none ([], ?m) = (res_none y, [], m')"
      by (rule cf_do_delivered) (simp_all add: that)
    then show ?thesis by (simp add: res_none_def)
  qed
  have got: "cf_do (over_net (mock_serve order host)) c ''GET'' (''/dns_records?'' @ cname_query n) EmptyPayload res_records s =
      (res_records x, [], ?m)" if "mock_list order ''CNAME'' n ?m = writeEnvelope x" for x
    by (rule cf_do_delivered [OF net]) (simp only: serve_list [OF client] that)
  from mock_list_cname [OF ok order, of n] show ?thesis
  proof
    assume "\<exists>q. mk_records ?m (mr_ID q) = Some q \<and> mr_Type q = ''CNAME'' \<and> mr_Name q = n \<and>
      mock_list order ''CNAME'' n ?m = writeEnvelope (ResRecords [cf_view q])"
    then obtain q where q: "mk_records ?m (mr_ID q) = Some q" "mr_Type q = ''CNAME''" "mr_Name q = n"
      and l: "mock_list order ''CNAME'' n ?m = writeEnvelope (ResRecords [cf_view q])" by blast
    note get = got [OF l]
    obtain k where k: "mr_ID q = rec_id k" using mock_okD(2) [OF ok q(1)] by blast
    then have i: "mr_ID q \<noteq> []" "\<forall>x\<in>set (mr_ID q). url_unreserved x" using rec_id_unreserved by (simp_all add: rec_id_def)
    obtain y m' where y: "mock_patch (mr_ID q) (RecordPayload (alias_record n t)) ?m = (writeEnvelope y, m')"
      using patch_alias [OF ok q] by blast
    obtain m where "cf_do (over_net (mock_serve order host)) c ''PATCH'' (''/dns_records/'' @ mr_ID q)
        (RecordPayload (alias_record n t)) res_none ([], ?m) = (Inr (), [], m)"
      using sent [OF trans [OF serve_record(1) [OF client i] y]] by blast
    with get show ?thesis by (simp add: cf_EnsureCNAME_def res_records_def cf_view_def alias_record_def)
  next
    assume n: "(\<nexists>i r. mk_records ?m i = Some r \<and> mr_Type r = ''CNAME'' \<and> mr_Name r = n) \<and>
      mock_list order ''CNAME'' n ?m = writeEnvelope ResNull"
    note get = got [OF conjunct2 [OF n]]
    obtain y m' where y: "mock_create (RecordPayload (alias_record n t)) ?m = (writeEnvelope y, m')"
      using create_alias [OF ok conjunct1 [OF n]] by blast
    obtain m where "cf_do (over_net (mock_serve order host)) c ''POST'' ''/dns_records''
        (RecordPayload (alias_record n t)) res_none ([], ?m) = (Inr (), [], m)"
      using sent [OF trans [OF serve_create [OF client] y]] by blast
    with get show ?thesis by (simp add: cf_EnsureCNAME_def res_records_def alias_record_def)
  qed
qed

lemma create_over_net:
  assumes client: "mock_client order host c" and ok: "mock_ok (snd s)"
    and e: "cf_CreateTXT (over_net (mock_serve order host)) c n v s = (r, s')"
  shows "mock_ok (snd s') \<and> (\<forall>i. r = Inr i \<longrightarrow> zone_texts (snd s) i = None \<and>
    zone_texts (snd s') = (zone_texts (snd s))(i \<mapsto> (n, v)) \<and> zone_aliases (snd s') = zone_aliases (snd s))"
proof -
  let ?m = "snd s" and ?i = "rec_id (Suc (mk_seq (snd s)))"
  let ?p = "TxtPayload \<lparr>cf_ID = [], cf_Type = ''TXT'', cf_Name = n, cf_Content = v, cf_TTL = 60, cf_Proxied = False\<rparr>"
  let ?r = "\<lparr>mr_ID = ?i, mr_Type = ''TXT'', mr_Name = n, mr_Content = v\<rparr>"
  let ?m' = "?m\<lparr>mk_seq := Suc (mk_seq ?m), mk_records := (mk_records ?m)(?i \<mapsto> ?r), mk_txt := txt_add (n @ ''.'') v (mk_txt ?m)\<rparr>"
  note free = new_id_free [OF ok]
  have c: "mock_create ?p ?m = (writeEnvelope (ResRecord (cf_view ?r)), ?m')"
    by (simp add: mock_create_def decode_record_def Let_def)
  have put: "mock_ok ?m'" "zone_texts ?m' = (zone_texts ?m)(?i \<mapsto> (n, v))" "zone_aliases ?m' = zone_aliases ?m"
    using put_text [OF ok, of ?r ?i ?m'] free by simp_all
  have "zone_texts ?m ?i = None" by (simp add: zone_texts_def free)
  moreover have "snd s' = ?m \<or> snd s' = ?m'" "r = Inr i \<Longrightarrow> snd s' = ?m' \<and> i = ?i" for i
    using cf_do_over_net [OF e [unfolded cf_CreateTXT_def] trans [OF serve_create [OF client] c]]
    by (auto simp: res_id_def cf_view_def)
  ultimately show ?thesis using put ok by auto
qed

text \<open>An id that the client cannot mistake for the code of a missing record when an exchange fails.\<close>

definition plain_id :: "cf_client \<Rightarrow> string \<Rightarrow> bool" where
  "plain_id c i \<longleftrightarrow>
     \<not> contains (url_error (cf_request c ''DELETE'' (''/dns_records/'' @ i) EmptyPayload) ''connection refused'') ''81044'' \<and>
     \<not> contains (url_error (cf_request c ''DELETE'' (''/dns_records/'' @ i) EmptyPayload) ''EOF'') ''81044''"

lemma delete_over_net:
  assumes client: "mock_client order host c" and ok: "mock_ok (snd s)" and i: "i \<in> dom (zone_texts (snd s))"
    and e: "cf_DeleteRecord (over_net (mock_serve order host)) c i s = (r, s')"
  shows "mock_ok (snd s') \<and> (plain_id c i \<longrightarrow> r = None \<longrightarrow>
    zone_texts (snd s') = (zone_texts (snd s))(i := None) \<and> zone_aliases (snd s') = zone_aliases (snd s))"
proof -
  let ?m = "snd s" and ?net = "over_net (mock_serve order host)"
  let ?rq = "cf_request c ''DELETE'' (''/dns_records/'' @ i) EmptyPayload"
  obtain q where q: "mk_records ?m i = Some q" "mr_Type q = ''TXT''"
    using i by (auto simp: zone_texts_def split: option.splits if_splits)
  obtain k where "i = rec_id k" using mock_okD(2) [OF ok q(1)] by blast
  then have plain: "i \<noteq> []" "\<forall>x\<in>set i. url_unreserved x" using rec_id_unreserved by (simp_all add: rec_id_def)
  let ?m' = "?m\<lparr>mk_records := (mk_records ?m)(i := None), mk_txt := removeValue (mr_Name q @ ''.'') (mr_Content q) (mk_txt ?m)\<rparr>"
  have d: "mock_serve order host ?rq ?m = (writeEnvelope ResNull, ?m')"
    using serve_record(2) [OF client plain] q by (simp add: mock_del_def Let_def)
  have gone: "mock_ok ?m'" "zone_texts ?m' = (zone_texts ?m)(i := None)" "zone_aliases ?m' = zone_aliases ?m"
    using drop_text [OF ok q, of ?m'] by simp_all
  obtain res s1 where c: "cf_do ?net c ''DELETE'' (''/dns_records/'' @ i) EmptyPayload res_none s = (res, s1)"
    by (rule prod.exhaust)
  have s': "s' = s1" using e c by (auto simp: cf_DeleteRecord_def split: sum.splits)
  have to: "snd s1 = ?m \<or> snd s1 = ?m'" "res = Inr v \<Longrightarrow> snd s1 = ?m'" for v
    using cf_do_over_net [OF c d] by blast+
  have "res = Inl err \<Longrightarrow> err \<in> {url_error ?rq ''connection refused'', url_error ?rq ''EOF''}" for err
    using c d by (auto simp: cf_do_def over_net_def writeEnvelope_def res_none_def Let_def split: net_fault.splits list.splits)
  then have "plain_id c i \<Longrightarrow> r = None \<Longrightarrow> \<exists>v. res = Inr v"
    using e c by (cases res) (auto simp: cf_DeleteRecord_def plain_id_def split: if_splits)
  then show ?thesis using to gone ok s' by metis
qed

section \<open>The interface is met\<close>

locale mock_zone =
  fixes order :: "(string \<rightharpoonup> mock_record) \<Rightarrow> string list" and host :: string and c :: cf_client
  assumes client: "mock_client order host c"

sublocale mock_zone \<subseteq> dns_provider
  "cf_EnsureCNAME (over_net (mock_serve order host)) c" "cf_CreateTXT (over_net (mock_serve order host)) c"
  "cf_DeleteRecord (over_net (mock_serve order host)) c"
  "\<lambda>s. zone_aliases (snd s)" "\<lambda>s. zone_texts (snd s)" "\<lambda>s. mock_ok (snd s)" "plain_id c"
proof unfold_locales
  show "mock_ok (snd s')" if "mock_ok (snd s)" "cf_EnsureCNAME (over_net (mock_serve order host)) c n t s = (r, s')" for s n t r s'
    using ensure_over_net [OF client that] by blast
  show "mock_ok (snd s')" if "mock_ok (snd s)" "cf_CreateTXT (over_net (mock_serve order host)) c n v s = (r, s')" for s n v r s'
    using create_over_net [OF client that] by blast
  show "mock_ok (snd s')" if "mock_ok (snd s)" "i \<in> dom (zone_texts (snd s))"
    "cf_DeleteRecord (over_net (mock_serve order host)) c i s = (r, s')" for s i r s'
    using delete_over_net [OF client that] by blast
  show "zone_aliases (snd s') = insert (n, t) {a \<in> zone_aliases (snd s). fst a \<noteq> n} \<and> zone_texts (snd s') = zone_texts (snd s)"
    if "mock_ok (snd s)" "cf_EnsureCNAME (over_net (mock_serve order host)) c n t s = (None, s')" for s n t s'
    using ensure_over_net [OF client that] by (simp add: aliased_def)
  show "zone_texts (snd s) i = None \<and> zone_texts (snd s') = (zone_texts (snd s))(i \<mapsto> (n, v)) \<and>
      zone_aliases (snd s') = zone_aliases (snd s)"
    if "mock_ok (snd s)" "cf_CreateTXT (over_net (mock_serve order host)) c n v s = (Inr i, s')" for s n v i s'
    using create_over_net [OF client that] by blast
  show "zone_texts (snd s') = (zone_texts (snd s))(i := None) \<and> zone_aliases (snd s') = zone_aliases (snd s)"
    if "mock_ok (snd s)" "i \<in> dom (zone_texts (snd s))" "plain_id c i"
      "cf_DeleteRecord (over_net (mock_serve order host)) c i s = (None, s')" for s i s'
    using delete_over_net [OF client that(1,2,4)] that(3) by blast
qed

text \<open>The client and the mock of the end-to-end tests, ranging over the map in the order of the keys.\<close>

definition sorted_keys :: "(string \<rightharpoonup> 'a) \<Rightarrow> string list" where
  "sorted_keys m = sorted_list_of_set (dom m)"

definition e2e_client :: cf_client where
  "e2e_client = NewWithBaseURL ''dummy'' ''e2e'' ''http://mockcf:8080/client/v4''"

lemma e2e_mock_client: "mock_client sorted_keys ''http://mockcf:8080'' e2e_client"
  by (simp add: mock_client_def e2e_client_def NewWithBaseURL_def sorted_keys_def trim_suffix_def has_suffix_def
      url_unreserved_def is_digit_def less_eq_char_def Let_def)

interpretation e2e: mock_zone sorted_keys "''http://mockcf:8080''" e2e_client
  by unfold_locales (rule e2e_mock_client)

context mock_zone
begin

lemmas zone_create_delete = create_delete
lemmas zone_ensure_all = ensure_all_done

end

section \<open>What the client does of the DNS\<close>

lemma mock_start_ok: "mock_ok mock_start"
  by (simp add: mock_ok_def mock_start_def text_ids_def zone_texts_def)

text \<open>The values a query for a name is answered with, without regard to case.\<close>

definition answered :: "mock \<Rightarrow> string \<Rightarrow> string list" where
  "answered m name =
     concat (map (\<lambda>r. case rr_data r of RD_TXT vs \<Rightarrow> vs | _ \<Rightarrow> [])
       (m_answer (mock_dns (\<lambda>_. None) (mk_txt m) [\<lparr>q_name = name, q_type = TypeTXT\<rparr>])))"

lemma answered_txt: "answered m name = mk_txt m (to_lower name)"
  by (simp add: answered_def mock_dns_def answerLocally_def local_answer_def txt_get_def comp_def dns_numbers)

lemma answered_count: "mock_ok m \<Longrightarrow> count_list (answered m name) v = card (text_ids m (to_lower name) v)"
  by (simp add: answered_txt mock_okD(4))

text \<open>
  C38: A DNS-01 challenge through the external provider: once CreateTXT succeeded the DNS answers
  the name with the value, beside the values it had, in whatever capitals it is asked; once
  DeleteRecord of that id succeeded the name is answered with the same values as before, each as
  often, and no alias was touched.  Requests and replies may be lost in between; only the calls
  that return success count.
\<close>
theorem provider_challenge_lifecycle:
  assumes "mock_client order host c" and "mock_ok (snd s)"
    and "cf_CreateTXT (over_net (mock_serve order host)) c n v s = (Inr i, s1)"
    and "cf_DeleteRecord (over_net (mock_serve order host)) c i s1 = (None, s2)" and "plain_id c i"
    and "to_lower name = to_lower (n @ ''.'')"
  shows "v \<in> set (answered (snd s1) name) \<and> set (answered (snd s) name) \<subseteq> set (answered (snd s1) name) \<and>
    mset (answered (snd s2) name) = mset (answered (snd s) name) \<and>
    zone_aliases (snd s2) = zone_aliases (snd s) \<and> zone_texts (snd s2) = zone_texts (snd s)"
proof -
  note zone = mock_zone.intro [OF assms(1)]
  have ok1: "mock_ok (snd s1)" and c: "zone_texts (snd s) i = None" "zone_texts (snd s1) = (zone_texts (snd s))(i \<mapsto> (n, v))"
    using create_over_net [OF assms(1-3)] by blast+
  have end2: "zone_texts (snd s2) = zone_texts (snd s)" "zone_aliases (snd s2) = zone_aliases (snd s)" "mock_ok (snd s2)"
    using mock_zone.zone_create_delete [OF zone assms(2,3,5,4)] by blast+
  have mem: "w \<in> set (answered m name) \<longleftrightarrow> text_ids m (to_lower name) w \<noteq> {}" if "mock_ok m" for m w
    using answered_count [OF that, of name w] finite_text_ids [OF that] by (metis card_eq_0_iff count_list_0_iff)
  have "i \<in> text_ids (snd s1) (to_lower name) v" using assms(6) by (simp add: in_text_ids c(2))
  moreover have "text_ids (snd s) x w \<subseteq> text_ids (snd s1) x w" for x w using c by (auto simp: in_text_ids)
  moreover have "mset (answered (snd s2) name) = mset (answered (snd s) name)"
    using answered_count [OF assms(2)] answered_count [OF end2(3)] end2(1)
    by (intro multiset_eqI) (simp add: count_mset text_ids_def)
  ultimately show ?thesis using mem [OF assms(2)] mem [OF ok1] end2 by blast
qed

theorem provider_challenge_lifecycle_witness:
  "\<exists>s1 s2. cf_CreateTXT (over_net (mock_serve sorted_keys ''http://mockcf:8080'')) e2e_client ''_acme.a'' ''v'' ([], mock_start) =
       (Inr ''rec1'', s1) \<and>
     cf_DeleteRecord (over_net (mock_serve sorted_keys ''http://mockcf:8080'')) e2e_client ''rec1'' s1 = (None, s2) \<and>
     ''v'' \<in> set (answered (snd s1) ''_Acme.a.'') \<and> mset (answered (snd s2) ''_Acme.a.'') = {#}"
proof -
  let ?net = "over_net (mock_serve sorted_keys ''http://mockcf:8080'')"
  let ?s = "([] :: net_fault list, mock_start)"
  let ?r = "\<lparr>mr_ID = ''rec1'', mr_Type = ''TXT'', mr_Name = ''_acme.a'', mr_Content = ''v''\<rparr>"
  let ?s1 = "([] :: net_fault list, \<lparr>mk_records = [''rec1'' \<mapsto> ?r], mk_seq = 1, mk_txt = (\<lambda>_. [])(''_acme.a.'' := [''v''])\<rparr>)"
  let ?s2 = "([] :: net_fault list, \<lparr>mk_records = Map.empty, mk_seq = 1, mk_txt = (\<lambda>_. [])(''_acme.a.'' := [])\<rparr>)"
  have id: "rec_id 1 = ''rec1''" by code_simp
  have low: "to_lower ''_acme.a.'' = ''_acme.a.''"
    by (simp add: to_lower_def lower_char_def less_eq_char_def)
  have c: "cf_CreateTXT ?net e2e_client ''_acme.a'' ''v'' ?s = (Inr ''rec1'', ?s1)"
    using serve_create [OF e2e_mock_client] id low
    by (simp add: cf_CreateTXT_def cf_do_def over_net_def mock_create_def decode_record_def writeEnvelope_def
        res_id_def cf_view_def txt_add_def mock_start_def del: to_lower_Cons)
  have "\<forall>x\<in>set ''rec1''. url_unreserved x" using rec_id_unreserved [of 1] by (simp only: id)
  then have d: "cf_DeleteRecord ?net e2e_client ''rec1'' ?s1 = (None, ?s2)"
    using serve_record(2) [OF e2e_mock_client, of "''rec1''"] low
    by (simp add: cf_DeleteRecord_def cf_do_def over_net_def mock_del_def writeEnvelope_def
        res_none_def removeValue_def del: to_lower_Cons)
  have "plain_id e2e_client ''rec1''" by code_simp
  moreover have "to_lower ''_Acme.a.'' = to_lower (''_acme.a'' @ ''.'')" by code_simp
  ultimately have "''v'' \<in> set (answered (snd ?s1) ''_Acme.a.'') \<and>
      mset (answered (snd ?s2) ''_Acme.a.'') = mset (answered (snd ?s) ''_Acme.a.'')"
    using provider_challenge_lifecycle [OF e2e_mock_client _ c d] mock_start_ok by simp
  then show ?thesis using c d by (auto simp: answered_txt mock_start_def)
qed

text \<open>
  A deletion whose request was lost counts as done when its URL holds the digits of Cloudflare's
  code for a missing record, and the message of that error, which carries no code, does not count.
\<close>

lemma lost_delete_believed:
  assumes "contains i ''81044''"
  shows "cf_DeleteRecord (over_net serve) c i (LoseRequest # fs, m) = (None, fs, m)"
proof -
  let ?rq = "cf_request c ''DELETE'' (''/dns_records/'' @ i) EmptyPayload"
  obtain a b where "i = a @ ''81044'' @ b" using assms by (auto simp: contains_iff)
  then have "\<exists>a b. url_error ?rq ''connection refused'' = a @ ''81044'' @ b"
    by (intro exI [of _ "take 1 (ht_method ?rq) @ to_lower (drop 1 (ht_method ?rq)) @ '' '' @ [CHR 0x22] @
        cf_apiBase c @ ''/zones/'' @ cf_zoneID c @ ''/dns_records/'' @ a"] exI [of _ "b @ [CHR 0x22] @ '': '' @ ''connection refused''"])
      (simp add: url_error_def cf_request_def)
  then have "contains (url_error ?rq ''connection refused'') ''81044''" by (simp only: contains_iff)
  then show ?thesis by (simp add: cf_DeleteRecord_def cf_do_def over_net_def Let_def case_prod_unfold)
qed

lemma missing_record_is_an_error:
  assumes "net (cf_request c ''DELETE'' (''/dns_records/'' @ i) EmptyPayload) s =
      (Inr \<lparr>dy_status = 404, dy_status_line = line, dy_text = body,
        dy_env = Some \<lparr>ce_success = False, ce_errors = [''Record does not exist.''], ce_result = ResNull\<rparr>, dy_id = None\<rparr>, s')"
  shows "cf_DeleteRecord net c i s = (Some ''cloudflare DELETE: Record does not exist.'', s')"
  using assms by (simp add: cf_DeleteRecord_def cf_do_def has_prefix_def)

end
