(* ===== verification/Go_Flags.thy ===== *)
theory Go_Flags
  imports Go_Strings
begin

text \<open>
  The standard library behind the command line: package flag on sets of string, int64 and bool flags,
  and strconv.ParseInt with base 0.
\<close>

section \<open>Integers with a base prefix\<close>

text \<open>c | 0x20 on letters.\<close>

definition digit_of :: "char \<Rightarrow> nat option" where
  "digit_of c =
     (let l = lower_char c
      in if is_digit c then Some (digit_val c)
         else if CHR ''a'' \<le> l \<and> l \<le> CHR ''z'' then Some (of_char l - 87) else None)"

fun parse_digits :: "nat \<Rightarrow> nat \<Rightarrow> string \<Rightarrow> nat option" where
  "parse_digits base n [] = Some n"
| "parse_digits base n (c # s) =
     (if c = CHR ''_'' then parse_digits base n s
      else case digit_of c of
             None \<Rightarrow> None
           | Some d \<Rightarrow>
               if base \<le> d then None
               else if 2 ^ 64 \<le> base * n + d then None
               else parse_digits base (base * n + d) s)"

text \<open>strconv.underscoreOK: the state is the last kind of character seen.\<close>

datatype underscore_state = AtStart | AtDigit | AtUnderscore | AtOther

fun underscores_ok :: "bool \<Rightarrow> underscore_state \<Rightarrow> string \<Rightarrow> bool" where
  "underscores_ok hex st [] = (st \<noteq> AtUnderscore)"
| "underscores_ok hex st (c # s) =
     (if is_digit c \<or> hex \<and> digit_of c \<noteq> None \<and> the (digit_of c) < 16 then underscores_ok hex AtDigit s
      else if c = CHR ''_'' then st = AtDigit \<and> underscores_ok hex AtUnderscore s
      else st \<noteq> AtUnderscore \<and> underscores_ok hex AtOther s)"

text \<open>The base and the digits after the prefix; True when the prefix counts as a digit.\<close>

definition base_prefix :: "string \<Rightarrow> nat \<times> string" where
  "base_prefix s =
     (case s of
        CHR ''0'' # rest \<Rightarrow>
          (case rest of
             p # q # ds \<Rightarrow>
               if lower_char p = CHR ''b'' then (2, q # ds)
               else if lower_char p = CHR ''o'' then (8, q # ds)
               else if lower_char p = CHR ''x'' then (16, q # ds)
               else (8, rest)
           | _ \<Rightarrow> (8, rest))
      | _ \<Rightarrow> (10, s))"

definition underscoreOK :: "string \<Rightarrow> bool" where
  "underscoreOK s =
     (let t = (case s of c # s' \<Rightarrow> if c = CHR ''+'' \<or> c = CHR ''-'' then s' else s | [] \<Rightarrow> s)
      in case t of
           z # p # ds \<Rightarrow>
             if z = CHR ''0'' \<and> lower_char p \<in> {CHR ''b'', CHR ''o'', CHR ''x''}
             then underscores_ok (lower_char p = CHR ''x'') AtDigit ds else underscores_ok False AtStart t
         | _ \<Rightarrow> underscores_ok False AtStart t)"

definition ParseUint0 :: "string \<Rightarrow> nat option" where
  "ParseUint0 s =
     (if s = [] then None
      else case base_prefix s of
             (base, ds) \<Rightarrow>
               (case parse_digits base 0 ds of
                  None \<Rightarrow> None
                | Some n \<Rightarrow> if CHR ''_'' \<in> set ds \<and> \<not> underscoreOK s then None else Some n))"

definition ParseInt0 :: "string \<Rightarrow> int option" where
  "ParseInt0 s =
     (case s of
        [] \<Rightarrow> None
      | c # s' \<Rightarrow>
          let neg = (c = CHR ''-''); ds = (if c = CHR ''+'' \<or> c = CHR ''-'' then s' else s)
          in case ParseUint0 ds of
               None \<Rightarrow> None
             | Some n \<Rightarrow>
                 if \<not> neg \<and> 2 ^ 63 \<le> n then None
                 else if neg \<and> 2 ^ 63 < n then None
                 else Some (if neg then - int n else int n))"

lemma ParseInt0_bounds: "ParseInt0 s = Some k \<Longrightarrow> - (2 ^ 63) \<le> k \<and> k < 2 ^ 63"
  by (auto simp: ParseInt0_def Let_def split: list.splits option.splits if_splits)

section \<open>Flags\<close>

datatype flag_val = FString string | FInt int | FBool bool

type_synonym flags = "string \<rightharpoonup> flag_val"

text \<open>FlagHelp exits 0, FlagBad exits 2 (flag.ExitOnError).\<close>

datatype flag_error = FlagHelp | FlagBad

text \<open>strconv.ParseBool.\<close>

definition ParseBool :: "string \<Rightarrow> bool option" where
  "ParseBool s =
     (if s \<in> {''1'', ''t'', ''T'', ''TRUE'', ''true'', ''True''} then Some True
      else if s \<in> {''0'', ''f'', ''F'', ''FALSE'', ''false'', ''False''} then Some False
      else None)"

definition flag_set :: "flag_val \<Rightarrow> string \<Rightarrow> flag_val option" where
  "flag_set old s =
     (case old of
        FString _ \<Rightarrow> Some (FString s)
      | FInt _ \<Rightarrow> map_option FInt (ParseInt0 s)
      | FBool _ \<Rightarrow> map_option FBool (ParseBool s))"

text \<open>A boolean flag without a value is set, and takes none from the next argument.\<close>

definition is_bool_flag :: "flag_val \<Rightarrow> bool" where
  "is_bool_flag v \<longleftrightarrow> (case v of FBool _ \<Rightarrow> True | _ \<Rightarrow> False)"

lemma is_bool_flag_simps [simp]: "\<not> is_bool_flag (FString s)" "\<not> is_bool_flag (FInt k)" "is_bool_flag (FBool b)"
  by (simp_all add: is_bool_flag_def)

text \<open>The name and the value of -name or -name=value; the first equals sign past the first byte counts.\<close>

definition split_flag :: "string \<Rightarrow> string \<times> string option" where
  "split_flag body =
     (case body of
        [] \<Rightarrow> ([], None)
      | c # rest \<Rightarrow> (case cut rest CHR ''='' of Some (a, b) \<Rightarrow> (c # a, Some b) | None \<Rightarrow> (body, None)))"

definition flag_body :: "string \<Rightarrow> string" where
  "flag_body s = (if take 2 s = ''--'' then drop 2 s else drop 1 s)"

text \<open>FlagSet.Parse: stops at the first argument that is no flag and after --.\<close>

fun parse_flags :: "flags \<Rightarrow> string list \<Rightarrow> flag_error + flags" where
  "parse_flags fl [] = Inr fl"
| "parse_flags fl (s # args) =
     (if length s < 2 \<or> hd s \<noteq> CHR ''-'' \<or> s = ''--'' then Inr fl
      else
        let body = flag_body s
        in if body = [] \<or> hd body = CHR ''-'' \<or> hd body = CHR ''='' then Inl FlagBad
           else case split_flag body of
                  (name, val) \<Rightarrow>
                    (case fl name of
                       None \<Rightarrow> Inl (if name = ''help'' \<or> name = ''h'' then FlagHelp else FlagBad)
                     | Some old \<Rightarrow>
                         (case val of
                            Some v \<Rightarrow>
                              (case flag_set old v of None \<Rightarrow> Inl FlagBad | Some x \<Rightarrow> parse_flags (fl(name \<mapsto> x)) args)
                          | None \<Rightarrow>
                              if is_bool_flag old then parse_flags (fl(name \<mapsto> FBool True)) args
                              else
                                (case args of
                                   [] \<Rightarrow> Inl FlagBad
                                 | v # args' \<Rightarrow>
                                     (case flag_set old v of None \<Rightarrow> Inl FlagBad | Some x \<Rightarrow> parse_flags (fl(name \<mapsto> x)) args')))))"

definition string_flag :: "flags \<Rightarrow> string \<Rightarrow> string" where
  "string_flag fl n = (case fl n of Some (FString s) \<Rightarrow> s | _ \<Rightarrow> [])"

definition int_flag :: "flags \<Rightarrow> string \<Rightarrow> int" where
  "int_flag fl n = (case fl n of Some (FInt k) \<Rightarrow> k | _ \<Rightarrow> 0)"

definition bool_flag :: "flags \<Rightarrow> string \<Rightarrow> bool" where
  "bool_flag fl n = (case fl n of Some (FBool b) \<Rightarrow> b | _ \<Rightarrow> False)"

text \<open>The two ways of giving a flag its value mean the same, for flags that are not boolean.\<close>

lemma parse_flags_forms:
  assumes "n \<noteq> []" and "CHR ''='' \<notin> set n" and "hd n \<noteq> CHR ''-''" and "\<And>b. fl n \<noteq> Some (FBool b)"
  shows "parse_flags fl ((''--'' @ n @ ''='' @ v) # args) = parse_flags fl ((''--'' @ n) # v # args)"
proof -
  obtain c m where n: "n = c # m" "c \<noteq> CHR ''-''" "c \<noteq> CHR ''=''" "CHR ''='' \<notin> set m" using assms by (cases n) auto
  have "cut (m @ CHR ''='' # v) CHR ''='' = Some (m, v)" "cut m CHR ''='' = None"
    using n(4) by (simp_all add: cut_Some cut_None)
  moreover have "\<not> is_bool_flag x" if "fl n = Some x" for x using assms(4) that by (cases x) auto
  ultimately show ?thesis using n by (simp add: flag_body_def split_flag_def Let_def split: option.split)
qed

end
