(* ===== verification/Admin_Cli.thy ===== *)
theory Admin_Cli
  imports Go_Flags Dns_Providers Api
begin

text \<open>
  cmd/wgrelay-api: the configuration read from the environment, the choice of the DNS provider
  and the administration commands, on the database and on what is behind the provider.  What
  the commands print is kept as values, in order.  serve is the server it builds; its listeners
  and the certificate of the API are sockets and acme/autocert.
\<close>

section \<open>Configuration\<close>

record cli_config =
  cfg_DatabaseURL :: string
  cfg_BaseDomain :: string
  cfg_EdgeHost :: string
  cfg_Listen :: string
  cfg_APIDomain :: string
  cfg_TLSListen :: string
  cfg_ACMEEmail :: string
  cfg_ACMECA :: string
  cfg_DataDir :: string
  cfg_DNSProviderName :: string
  cfg_CFToken :: string
  cfg_CFZoneID :: string
  cfg_CFBaseURL :: string
  cfg_DNSWebhookURL :: string
  cfg_DNSWebhookToken :: string
  cfg_DNSNSNames :: string
  cfg_DNSSOAEmail :: string

text \<open>os.Getenv is an argument; an unset variable is the empty string.\<close>

definition env :: "(string \<Rightarrow> string) \<Rightarrow> string \<Rightarrow> string \<Rightarrow> string" where
  "env getenv k def = (let v = getenv k in if v \<noteq> [] then v else def)"

definition loadConfig :: "(string \<Rightarrow> string) \<Rightarrow> cli_config" where
  "loadConfig g =
     \<lparr>cfg_DatabaseURL = env g ''WGRELAY_DATABASE_URL'' [],
      cfg_BaseDomain = trim_suffix (env g ''WGRELAY_BASE_DOMAIN'' []) ''.'',
      cfg_EdgeHost = trim_suffix (env g ''WGRELAY_EDGE_HOST'' []) ''.'',
      cfg_Listen = env g ''WGRELAY_API_LISTEN'' '':8080'',
      cfg_APIDomain = env g ''WGRELAY_API_DOMAIN'' [],
      cfg_TLSListen = env g ''WGRELAY_API_TLS_LISTEN'' '':8443'',
      cfg_ACMEEmail = env g ''WGRELAY_ACME_EMAIL'' [],
      cfg_ACMECA = env g ''WGRELAY_ACME_CA'' [],
      cfg_DataDir = env g ''WGRELAY_DATA_DIR'' ''/data'',
      cfg_DNSProviderName = env g ''WGRELAY_DNS_PROVIDER'' [],
      cfg_CFToken = env g ''CLOUDFLARE_API_TOKEN'' [],
      cfg_CFZoneID = env g ''CLOUDFLARE_ZONE_ID'' [],
      cfg_CFBaseURL = env g ''CLOUDFLARE_API_BASE_URL'' [],
      cfg_DNSWebhookURL = env g ''WGRELAY_DNS_WEBHOOK_URL'' [],
      cfg_DNSWebhookToken = env g ''WGRELAY_DNS_WEBHOOK_TOKEN'' [],
      cfg_DNSNSNames = env g ''WGRELAY_DNS_NS_NAMES'' [],
      cfg_DNSSOAEmail = env g ''WGRELAY_DNS_SOA_EMAIL'' []\<rparr>"

section \<open>The DNS provider\<close>

datatype dns_client = Cloudflare cf_client | Webhook webhook

definition newDNSProvider :: "cli_config \<Rightarrow> dns_client option" where
  "newDNSProvider cfg =
     (let name = (if cfg_DNSProviderName cfg = [] \<and> cfg_CFToken cfg \<noteq> [] \<and> cfg_CFZoneID cfg \<noteq> []
                  then ''cloudflare'' else cfg_DNSProviderName cfg)
      in if name = ''cloudflare'' then
           (if cfg_CFToken cfg = [] \<or> cfg_CFZoneID cfg = [] then None
            else Some (Cloudflare (NewWithBaseURL (cfg_CFToken cfg) (cfg_CFZoneID cfg) (cfg_CFBaseURL cfg))))
         else if name = ''webhook'' then
           (if cfg_DNSWebhookURL cfg = [] then None
            else Some (Webhook (NewWebhook (cfg_DNSWebhookURL cfg) (cfg_DNSWebhookToken cfg))))
         else None)"

text \<open>The calls through the interface Provider; the webhook's errors by their text.\<close>

definition dns_EnsureCNAME :: "'z transport \<Rightarrow> dns_client \<Rightarrow> string \<Rightarrow> string \<Rightarrow> 'z \<Rightarrow> string option \<times> 'z" where
  "dns_EnsureCNAME net p name target z =
     (case p of
        Cloudflare c \<Rightarrow> cf_EnsureCNAME net c name target z
      | Webhook w \<Rightarrow> (case wh_EnsureCNAME net w name target z of (e, z1) \<Rightarrow> (map_option wh_error_text e, z1)))"

definition dns_CreateTXT :: "'z transport \<Rightarrow> dns_client \<Rightarrow> string \<Rightarrow> string \<Rightarrow> 'z \<Rightarrow> string option \<times> 'z" where
  "dns_CreateTXT net p name val z =
     (case p of
        Cloudflare c \<Rightarrow> (case cf_CreateTXT net c name val z of (Inl e, z1) \<Rightarrow> (None, z1) | (Inr i, z1) \<Rightarrow> (Some i, z1))
      | Webhook w \<Rightarrow> (case wh_CreateTXT net w name val z of (Inl e, z1) \<Rightarrow> (None, z1) | (Inr i, z1) \<Rightarrow> (Some i, z1)))"

definition dns_DeleteRecord :: "'z transport \<Rightarrow> dns_client \<Rightarrow> string \<Rightarrow> 'z \<Rightarrow> bool \<times> 'z" where
  "dns_DeleteRecord net p i z =
     (case p of
        Cloudflare c \<Rightarrow> (case cf_DeleteRecord net c i z of (e, z1) \<Rightarrow> (e = None, z1))
      | Webhook w \<Rightarrow> (case wh_DeleteRecord net w i z of (e, z1) \<Rightarrow> (e = None, z1)))"

definition provider_of :: "'z transport \<Rightarrow> dns_client \<Rightarrow> 'z provider" where
  "provider_of net p = \<lparr>prov_create = dns_CreateTXT net p, prov_delete = dns_DeleteRecord net p\<rparr>"

definition splitCSV :: "string \<Rightarrow> string list" where
  "splitCSV s = filter (\<lambda>p. p \<noteq> []) (map trim_space (split_on CHR '','' s))"

text \<open>The server that serve builds; the limiter and the collation are those of its libraries.\<close>

definition serve_server :: "cli_config \<Rightarrow> 'z transport \<Rightarrow> 'l limiter \<Rightarrow> (string \<Rightarrow> string) \<Rightarrow> ('z, 'l) Server" where
  "serve_server cfg net lim coll =
     \<lparr>srv_base_domain = cfg_BaseDomain cfg, srv_provider = map_option (provider_of net) (newDNSProvider cfg),
      srv_zone = \<lparr>zc_ns_names = splitCSV (cfg_DNSNSNames cfg),
        zc_soa_email = (if cfg_DNSSOAEmail cfg = [] then ''hostmaster.'' @ cfg_BaseDomain cfg else cfg_DNSSOAEmail cfg)\<rparr>,
      srv_limiter = lim, srv_collation = coll\<rparr>"

section \<open>The commands\<close>

datatype cli_error = EmailRequired | NameEndpointRequired | IdPublicIPRequired | IdEndpointRequired
  | BadPublicIP string | StoreFailed store_err | DnsFailed string string

text \<open>How a command ends: an error it returns, or an exit of package flag.\<close>

datatype cli_end = CmdOk | CmdError cli_error | FlagExit nat

datatype cli_out =
    TunnelCreated Tunnel string | TunnelToken Token | TokenRotated Token
  | NodeCreated Node | NodeToken Token | NodeIPSet int string | NodeEndpointSet int string
  | DnsOk string string | DnsOwn | DnsManual "string list" string
  | TunnelTable "Tunnel list" string | NodeTable "Node list"

type_synonym 'z cli_state = "db \<times> 'z"
type_synonym 'z command = "'z cli_state \<Rightarrow> (cli_end \<times> cli_out list) \<times> 'z cli_state"

text \<open>Random bytes for an id, a secret and the subdomains tried.\<close>

record cli_random =
  rnd_id :: bytes
  rnd_secret :: bytes
  rnd_subs :: "bytes list"

definition with_flags :: "flags \<Rightarrow> string list \<Rightarrow> (flags \<Rightarrow> 'z command) \<Rightarrow> 'z command" where
  "with_flags fl args k s =
     (case parse_flags fl args of
        Inl FlagHelp \<Rightarrow> ((FlagExit 0, []), s)
      | Inl FlagBad \<Rightarrow> ((FlagExit 2, []), s)
      | Inr fl' \<Rightarrow> k fl' s)"

text \<open>Calling the store from a command: an error ends it.\<close>

definition on_store :: "'a dbm \<Rightarrow> ('a \<Rightarrow> 'z command) \<Rightarrow> 'z command" where
  "on_store m k s =
     (case m (fst s) of
        (Inl e, d) \<Rightarrow> ((CmdError (StoreFailed e), []), (d, snd s))
      | (Inr x, d) \<Rightarrow> k x (d, snd s))"

definition domain_names :: "string list \<Rightarrow> string list" where
  "domain_names domains = concat (map (\<lambda>d. [d, ''*.'' @ d]) domains)"

definition ensureDNS :: "'z transport \<Rightarrow> cli_config \<Rightarrow> string list \<Rightarrow> 'z command" where
  "ensureDNS net cfg domains s =
     (case newDNSProvider cfg of
        Some p \<Rightarrow>
          (case ensure_all (dns_EnsureCNAME net p) (cfg_EdgeHost cfg) (domain_names domains) (snd s) of
             ((made, None), z) \<Rightarrow> ((CmdOk, map (\<lambda>n. DnsOk n (cfg_EdgeHost cfg)) made), (fst s, z))
           | ((made, Some (n, e)), z) \<Rightarrow>
               ((CmdError (DnsFailed n e), map (\<lambda>n. DnsOk n (cfg_EdgeHost cfg)) made), (fst s, z)))
      | None \<Rightarrow>
          if cfg_DNSNSNames cfg \<noteq> [] then ((CmdOk, [DnsOwn]), s)
          else ((CmdOk, [DnsManual domains (cfg_EdgeHost cfg)]), s))"

definition says :: "cli_out list \<Rightarrow> 'z command \<Rightarrow> 'z command" where
  "says out k s = (case k s of ((r, out'), s') \<Rightarrow> ((r, out @ out'), s'))"

definition ends :: "cli_end \<Rightarrow> 'z command" where
  "ends r s = ((r, []), s)"

definition tunnelCreate :: "'z transport \<Rightarrow> cli_random \<Rightarrow> cli_config \<Rightarrow> string list \<Rightarrow> 'z command" where
  "tunnelCreate net rnd cfg args =
     with_flags [''email'' \<mapsto> FString [], ''plan'' \<mapsto> FString ''persistent''] args (\<lambda>fl.
       if string_flag fl ''email'' = [] then ends (CmdError EmailRequired)
       else on_store (CreateTunnel (string_flag fl ''email'') (string_flag fl ''plan'') (rnd_id rnd) (rnd_secret rnd) (rnd_subs rnd))
         (\<lambda>(t, tok).
            let domain = t_subdomain t @ ''.'' @ cfg_BaseDomain cfg
            in says [TunnelCreated t domain, TunnelToken tok] (ensureDNS net cfg [domain])))"

definition tunnelList :: "cli_config \<Rightarrow> 'z command" where
  "tunnelList cfg = on_store ListTunnels (\<lambda>ts. says [TunnelTable ts (cfg_BaseDomain cfg)] (ends CmdOk))"

definition tunnelRotate :: "cli_random \<Rightarrow> string list \<Rightarrow> 'z command" where
  "tunnelRotate rnd args =
     with_flags [''id'' \<mapsto> FInt 0] args (\<lambda>fl.
       on_store (RotateToken (int_flag fl ''id'') (rnd_id rnd) (rnd_secret rnd)) (\<lambda>tok.
         says [TokenRotated tok] (ends CmdOk)))"

definition validPublicIP :: "string \<Rightarrow> bool" where
  "validPublicIP s \<longleftrightarrow> s = [] \<or> (case ParseAddr s of None \<Rightarrow> False | Some a \<Rightarrow> Is4 a)"

definition nodeCreate :: "cli_random \<Rightarrow> string list \<Rightarrow> 'z command" where
  "nodeCreate rnd args =
     with_flags [''name'' \<mapsto> FString [], ''endpoint'' \<mapsto> FString [], ''public-ip'' \<mapsto> FString []] args (\<lambda>fl.
       let name = string_flag fl ''name''; endpoint = string_flag fl ''endpoint''; public = string_flag fl ''public-ip''
       in if name = [] \<or> endpoint = [] then ends (CmdError NameEndpointRequired)
          else if \<not> validPublicIP public then ends (CmdError (BadPublicIP public))
          else on_store (CreateNode name endpoint public (rnd_id rnd) (rnd_secret rnd)) (\<lambda>(n, tok).
            says [NodeCreated n, NodeToken tok] (ends CmdOk)))"

definition nodeSetPublicIP :: "string list \<Rightarrow> 'z command" where
  "nodeSetPublicIP args =
     with_flags [''id'' \<mapsto> FInt 0, ''public-ip'' \<mapsto> FString []] args (\<lambda>fl.
       let i = int_flag fl ''id''; public = string_flag fl ''public-ip''
       in if i = 0 \<or> public = [] then ends (CmdError IdPublicIPRequired)
          else if \<not> validPublicIP public then ends (CmdError (BadPublicIP public))
          else on_store (SetNodePublicIP i public) (\<lambda>_. says [NodeIPSet i public] (ends CmdOk)))"

definition nodeSetEndpoint :: "string list \<Rightarrow> 'z command" where
  "nodeSetEndpoint args =
     with_flags [''id'' \<mapsto> FInt 0, ''endpoint'' \<mapsto> FString []] args (\<lambda>fl.
       let i = int_flag fl ''id''; endpoint = string_flag fl ''endpoint''
       in if i = 0 \<or> endpoint = [] then ends (CmdError IdEndpointRequired)
          else on_store (SetNodeEndpoint i endpoint) (\<lambda>_. says [NodeEndpointSet i endpoint] (ends CmdOk)))"

definition nodeList :: "'z command" where
  "nodeList = on_store ListNodes (\<lambda>ns. says [NodeTable ns] (ends CmdOk))"

definition dnsSync :: "'z transport \<Rightarrow> cli_config \<Rightarrow> 'z command" where
  "dnsSync net cfg = on_store ListTunnels (\<lambda>ts.
     ensureDNS net cfg (map (\<lambda>t. t_subdomain t @ ''.'' @ cfg_BaseDomain cfg) ts))"

section \<open>Dispatch\<close>

text \<open>
  How the process ends: what serve builds instead of an end, exit code 1 with a message, the
  exits of package flag, or the panic of a slice out of range.
\<close>

datatype 's cli_exit = Serving 's | Exit nat "cli_error option" | CliPanic

definition exit_of :: "cli_end \<Rightarrow> 's cli_exit" where
  "exit_of r = (case r of CmdOk \<Rightarrow> Exit 0 None | CmdError e \<Rightarrow> Exit 1 (Some e) | FlagExit n \<Rightarrow> Exit n None)"

definition runs :: "'z command \<Rightarrow> 'z cli_state \<Rightarrow> ('s cli_exit \<times> cli_out list) \<times> 'z cli_state" where
  "runs c s = (case c s of ((r, out), s') \<Rightarrow> ((exit_of r, out), s'))"

text \<open>args[2:] panics when there are fewer than two arguments.\<close>

definition rest_args :: "string list \<Rightarrow> (string list \<Rightarrow> 'z command) \<Rightarrow> 'z cli_state \<Rightarrow> ('s cli_exit \<times> cli_out list) \<times> 'z cli_state" where
  "rest_args args c s = (if length args < 2 then ((CliPanic, []), s) else runs (c (drop 2 args)) s)"

text \<open>opened is whether the database could be opened and migrated.\<close>

definition cli_main ::
  "(string \<Rightarrow> string) \<Rightarrow> bool \<Rightarrow> 'z transport \<Rightarrow> 'l limiter \<Rightarrow> (string \<Rightarrow> string) \<Rightarrow> cli_random \<Rightarrow> string list \<Rightarrow>
   'z cli_state \<Rightarrow> (('z, 'l) Server cli_exit \<times> cli_out list) \<times> 'z cli_state" where
  "cli_main getenv opened net lim coll rnd argv s =
     (let cfg = loadConfig getenv
      in if cfg_DatabaseURL cfg = [] \<or> cfg_BaseDomain cfg = [] \<or> \<not> opened then ((Exit 1 None, []), s)
         else
           let args = (if argv = [] then [''serve''] else argv); cmd = join_with '' '' (take (min 2 (length args)) args)
           in if cmd = ''serve'' then ((Serving (serve_server cfg net lim coll), []), s)
              else if cmd = ''tunnel create'' then rest_args args (tunnelCreate net rnd cfg) s
              else if cmd = ''tunnel list'' then runs (tunnelList cfg) s
              else if cmd = ''tunnel rotate-token'' then rest_args args (tunnelRotate rnd) s
              else if cmd = ''node create'' then rest_args args (nodeCreate rnd) s
              else if cmd = ''node list'' then runs nodeList s
              else if cmd = ''node set-public-ip'' then rest_args args nodeSetPublicIP s
              else if cmd = ''node set-endpoint'' then rest_args args nodeSetEndpoint s
              else if cmd = ''dns sync'' then runs (dnsSync net cfg) s
              else ((Exit 1 None, []), s))"

end
