(* ===== verification/Store_Migrate.thy ===== *)
theory Store_Migrate
  imports Store_Db
begin

text \<open>
  The start of internal/store/store.go: Open, which waits for the server, and Migrate, which
  several replicas of the control plane may run at once.  A replica sends one statement per
  step; the steps of the replicas interleave in any order and any statement may be lost or lose
  its reply.  What a migration does to the schema is an argument (ddl), None an error of its SQL.
\<close>

section \<open>Open\<close>

text \<open>
  The pings with their answers, and whether the context ended in the pause after it; None when
  the pings given do not decide.
\<close>

datatype open_result = Opened | OpenFailed | OpenCancelled

fun open_loop :: "nat \<Rightarrow> (bool \<times> bool) list \<Rightarrow> open_result option" where
  "open_loop i [] = None"
| "open_loop i ((ping, cancelled) # ps) =
     (if ping then Some Opened
      else if i = 30 then Some OpenFailed
      else if cancelled then Some OpenCancelled
      else open_loop (i + 1) ps)"

definition store_Open :: "bool \<Rightarrow> (bool \<times> bool) list \<Rightarrow> open_result option" where
  "store_Open dsnOk pings = (if dsnOk then open_loop 0 pings else Some OpenFailed)"

text \<open>Thirty-one pings decide, half a minute at one a second.\<close>

lemma open_loop_decides: "i \<le> 30 \<Longrightarrow> 31 - i \<le> length ps \<Longrightarrow> open_loop i ps \<noteq> None"
proof (induction i ps rule: open_loop.induct)
  case (2 i ping cancelled ps)
  then show ?case by (cases "i = 30") auto
qed simp

section \<open>Migrate, statement by statement\<close>

record 's mig_db =
  md_table :: bool
  md_applied :: "string list"
  md_schema :: 's
  md_lock :: "nat option"

datatype mig_error = MigConn | MigFailed string

datatype mig_pc =
    MBegin | MLock | MTable | MCheck "string list" | MApply string "string list" | MRecord string "string list"
  | MCommit | MReturned "mig_error option"

text \<open>A replica: where it is and what its transaction has written (the names, the schema).\<close>

record 's replica =
  rp_pc :: mig_pc
  rp_own :: "string list"
  rp_schema :: 's

definition goes :: "mig_pc \<Rightarrow> 's replica \<Rightarrow> 's mig_db \<Rightarrow> 's replica \<times> 's mig_db" where
  "goes pc r d = (r\<lparr>rp_pc := pc\<rparr>, d)"

text \<open>Every error return rolls the transaction back, which gives up its lock.\<close>

definition gives_up :: "mig_error \<Rightarrow> nat \<Rightarrow> 's replica \<Rightarrow> 's mig_db \<Rightarrow> 's replica \<times> 's mig_db" where
  "gives_up e p r d = (r\<lparr>rp_pc := MReturned (Some e)\<rparr>, if md_lock d = Some p then d\<lparr>md_lock := None\<rparr> else d)"

definition commits :: "'s replica \<Rightarrow> 's mig_db \<Rightarrow> 's mig_db" where
  "commits r d = d\<lparr>md_table := True, md_applied := md_applied d @ rp_own r, md_schema := rp_schema r, md_lock := None\<rparr>"

text \<open>
  The next statement of replica p.  Statements read what is committed when they are sent
  (READ COMMITTED) and what their own transaction wrote.  pg_advisory_xact_lock waits while
  another transaction holds the lock, which the relation below respects.
\<close>

definition mig_stmt ::
  "(string \<Rightarrow> 's \<Rightarrow> 's option) \<Rightarrow> string list \<Rightarrow> nat \<Rightarrow> fault \<Rightarrow> 's replica \<Rightarrow> 's mig_db \<Rightarrow> 's replica \<times> 's mig_db" where
  "mig_stmt ddl files p f r d =
     (if f \<noteq> Answered \<and> rp_pc r \<noteq> MCommit then gives_up MigConn p r d
      else
        case rp_pc r of
          MBegin \<Rightarrow> goes MLock (r\<lparr>rp_own := []\<rparr>) d
        | MLock \<Rightarrow> goes MTable (r\<lparr>rp_schema := md_schema d\<rparr>) (d\<lparr>md_lock := Some p\<rparr>)
        | MTable \<Rightarrow> goes (MCheck (sort files)) r d
        | MCheck [] \<Rightarrow> goes MCommit r d
        | MCheck (name # names) \<Rightarrow>
            if name \<in> set (md_applied d @ rp_own r) then goes (MCheck names) r d else goes (MApply name names) r d
        | MApply name names \<Rightarrow>
            (case ddl name (rp_schema r) of
               None \<Rightarrow> gives_up (MigFailed name) p r d
             | Some s \<Rightarrow> goes (MRecord name names) (r\<lparr>rp_schema := s\<rparr>) d)
        | MRecord name names \<Rightarrow> goes (MCheck names) (r\<lparr>rp_own := rp_own r @ [name]\<rparr>) d
        | MCommit \<Rightarrow>
            (case f of
               Answered \<Rightarrow> goes (MReturned None) r (commits r d)
             | Lost \<Rightarrow> gives_up MigConn p r d
             | ReplyLost \<Rightarrow> goes (MReturned (Some MigConn)) r (commits r d))
        | MReturned e \<Rightarrow> (r, d))"

text \<open>A start: the replica begins again, as a new process does.\<close>

inductive mig_reach :: "(string \<Rightarrow> 's \<Rightarrow> 's option) \<Rightarrow> string list \<Rightarrow> 's mig_db \<Rightarrow> (nat \<Rightarrow> 's replica) \<Rightarrow> 's mig_db \<Rightarrow> bool"
  for ddl files d0 where
  start: "(\<And>p. rp_pc (rs p) = MBegin) \<Longrightarrow> mig_reach ddl files d0 rs d0"
| stmt: "mig_reach ddl files d0 rs d \<Longrightarrow> (rp_pc (rs p) = MLock \<longrightarrow> md_lock d = None) \<Longrightarrow>
    mig_stmt ddl files p f (rs p) d = (r', d') \<Longrightarrow> mig_reach ddl files d0 (rs(p := r')) d'"
| restart: "mig_reach ddl files d0 rs d \<Longrightarrow> rp_pc (rs p) = MReturned e \<Longrightarrow>
    mig_reach ddl files d0 (rs(p := (rs p)\<lparr>rp_pc := MBegin\<rparr>)) d"

section \<open>What the replicas have done\<close>

text \<open>The migrations run one after another on a schema.\<close>

fun run_ddl :: "(string \<Rightarrow> 's \<Rightarrow> 's option) \<Rightarrow> string list \<Rightarrow> 's \<Rightarrow> 's option" where
  "run_ddl ddl [] s = Some s"
| "run_ddl ddl (n # ns) s = (case ddl n s of None \<Rightarrow> None | Some s' \<Rightarrow> run_ddl ddl ns s')"

lemma run_ddl_append: "run_ddl ddl (ns @ ms) s = (case run_ddl ddl ns s of None \<Rightarrow> None | Some s' \<Rightarrow> run_ddl ddl ms s')"
  by (induction ns arbitrary: s) (auto split: option.splits)

text \<open>
  The transaction of a replica, after it has passed the names pre of the list: it has written
  what was missing of pre, and its schema is that of the committed names and its own.
\<close>

definition own_ok :: "(string \<Rightarrow> 's \<Rightarrow> 's option) \<Rightarrow> 's \<Rightarrow> 's mig_db \<Rightarrow> 's replica \<Rightarrow> string list \<Rightarrow> bool" where
  "own_ok ddl s0 d r pre \<longleftrightarrow> (length pre \<le> length (md_applied d) \<and> rp_own r = [] \<or> md_applied d @ rp_own r = pre) \<and>
     run_ddl ddl (md_applied d @ rp_own r) s0 = Some (rp_schema r)"

definition holder_ok :: "(string \<Rightarrow> 's \<Rightarrow> 's option) \<Rightarrow> string list \<Rightarrow> 's \<Rightarrow> 's mig_db \<Rightarrow> 's replica \<Rightarrow> bool" where
  "holder_ok ddl all s0 d r \<longleftrightarrow>
     (case rp_pc r of
        MTable \<Rightarrow> own_ok ddl s0 d r []
      | MCheck todo \<Rightarrow> \<exists>pre. all = pre @ todo \<and> own_ok ddl s0 d r pre
      | MApply n todo \<Rightarrow> \<exists>pre. all = pre @ n # todo \<and> own_ok ddl s0 d r pre \<and> md_applied d @ rp_own r = pre
      | MRecord n todo \<Rightarrow> \<exists>pre. all = pre @ n # todo \<and> md_applied d @ rp_own r = pre \<and>
          run_ddl ddl (pre @ [n]) s0 = Some (rp_schema r)
      | MCommit \<Rightarrow> own_ok ddl s0 d r all
      | _ \<Rightarrow> True)"

definition in_tx :: "mig_pc \<Rightarrow> bool" where
  "in_tx pc \<longleftrightarrow> (case pc of MBegin \<Rightarrow> False | MLock \<Rightarrow> False | MReturned _ \<Rightarrow> False | _ \<Rightarrow> True)"

definition db_ok :: "(string \<Rightarrow> 's \<Rightarrow> 's option) \<Rightarrow> string list \<Rightarrow> 's \<Rightarrow> 's mig_db \<Rightarrow> bool" where
  "db_ok ddl all s0 d \<longleftrightarrow> (\<exists>rest. all = md_applied d @ rest) \<and> run_ddl ddl (md_applied d) s0 = Some (md_schema d)"

definition mig_inv :: "(string \<Rightarrow> 's \<Rightarrow> 's option) \<Rightarrow> string list \<Rightarrow> 's \<Rightarrow> (nat \<Rightarrow> 's replica) \<Rightarrow> 's mig_db \<Rightarrow> bool" where
  "mig_inv ddl all s0 rs d \<longleftrightarrow> db_ok ddl all s0 d \<and>
     (\<forall>p. in_tx (rp_pc (rs p)) \<longleftrightarrow> md_lock d = Some p) \<and>
     (\<forall>p. in_tx (rp_pc (rs p)) \<longrightarrow> holder_ok ddl all s0 d (rs p)) \<and>
     (\<forall>p. rp_pc (rs p) = MLock \<longrightarrow> rp_own (rs p) = []) \<and>
     (\<forall>p. rp_pc (rs p) = MReturned None \<longrightarrow> md_applied d = all)"

text \<open>One statement inside the transaction, the commit apart, keeps what holds of the holder.\<close>

lemma in_tx_simps [simp]:
  "\<not> in_tx MBegin" "\<not> in_tx MLock" "in_tx MTable" "in_tx (MCheck ns)" "in_tx (MApply n ns)" "in_tx (MRecord n ns)"
  "in_tx MCommit" "\<not> in_tx (MReturned e)"
  by (simp_all add: in_tx_def)

lemma own_ok_pc [simp]: "own_ok ddl s0 d (r\<lparr>rp_pc := pc\<rparr>) pre = own_ok ddl s0 d r pre"
  by (simp add: own_ok_def)

lemma own_ok_lock [simp]: "own_ok ddl s0 (d\<lparr>md_lock := l\<rparr>) = own_ok ddl s0 d"
  by (simp add: own_ok_def fun_eq_iff)

lemma own_ok_next:
  assumes "distinct all" and "all = md_applied d @ rest" and "all = pre @ n # todo" and "own_ok ddl s0 d r pre"
  shows "if n \<in> set (md_applied d @ rp_own r) then own_ok ddl s0 d r (pre @ [n]) else md_applied d @ rp_own r = pre"
proof -
  have n: "n \<notin> set pre" using assms(1,3) by auto
  consider "length pre < length (md_applied d)" "rp_own r = []" | "md_applied d @ rp_own r = pre"
    using assms(2-4) unfolding own_ok_def by (metis append_Nil2 append_eq_append_conv le_neq_implies_less)
  then show ?thesis
  proof cases
    case 1
    then have "md_applied d ! length pre = n" using assms(2,3) by (metis nth_append nth_append_length)
    then have "n \<in> set (md_applied d)" using 1(1) by (metis nth_mem)
    with 1 assms(4) show ?thesis by (simp add: own_ok_def)
  next
    case 2
    with n show ?thesis by simp
  qed
qed

text \<open>What a statement of the holder of the lock does, the commit apart: it gives up or goes on.\<close>

definition goes_on :: "(string \<Rightarrow> 's \<Rightarrow> 's option) \<Rightarrow> string list \<Rightarrow> 's \<Rightarrow> 's mig_db \<Rightarrow> 's replica \<Rightarrow> 's replica \<times> 's mig_db \<Rightarrow> bool" where
  "goes_on ddl all s0 d r out \<longleftrightarrow> (\<exists>e. out = (r\<lparr>rp_pc := MReturned (Some e)\<rparr>, d\<lparr>md_lock := None\<rparr>)) \<or>
     (\<exists>r'. out = (r', d) \<and> in_tx (rp_pc r') \<and> holder_ok ddl all s0 d r')"

lemma goes_on_up: "md_lock d = Some p \<Longrightarrow> goes_on ddl all s0 d r (gives_up e p r d)"
  by (auto simp: goes_on_def gives_up_def)

lemma goes_on_to:
  "in_tx pc \<Longrightarrow> holder_ok ddl all s0 d (r'\<lparr>rp_pc := pc\<rparr>) \<Longrightarrow> goes_on ddl all s0 d r (goes pc r' d)"
  by (simp add: goes_on_def goes_def)

lemma holder_check:
  assumes "distinct all" and "db_ok ddl all s0 d" and "holder_ok ddl all s0 d r" and pc: "rp_pc r = MCheck todo"
  shows "goes_on ddl all s0 d r (mig_stmt ddl files p Answered r d)"
proof -
  obtain rest where rest: "all = md_applied d @ rest" using assms(2) by (auto simp: db_ok_def)
  obtain pre where pre: "all = pre @ todo" "own_ok ddl s0 d r pre" using assms(3) pc by (auto simp: holder_ok_def)
  show ?thesis
  proof (cases todo)
    case Nil
    then show ?thesis using pc pre by (simp add: mig_stmt_def goes_on_to holder_ok_def)
  next
    case (Cons n ns)
    note nx = own_ok_next [OF assms(1) rest pre(1) [unfolded Cons] pre(2)]
    show ?thesis
    proof (cases "n \<in> set (md_applied d @ rp_own r)")
      case True
      then have "all = (pre @ [n]) @ ns" "own_ok ddl s0 d r (pre @ [n])" using pre Cons nx by simp_all
      then have "holder_ok ddl all s0 d (r\<lparr>rp_pc := MCheck ns\<rparr>)" unfolding holder_ok_def by auto
      then show ?thesis using True pc Cons by (simp add: mig_stmt_def goes_on_to)
    next
      case False
      then have "holder_ok ddl all s0 d (r\<lparr>rp_pc := MApply n ns\<rparr>)" using pre Cons nx by (auto simp: holder_ok_def)
      then show ?thesis using False pc Cons by (simp add: mig_stmt_def goes_on_to)
    qed
  qed
qed

lemma holder_apply:
  assumes "holder_ok ddl all s0 d r" and pc: "rp_pc r = MApply n ns" and lock: "md_lock d = Some p"
  shows "goes_on ddl all s0 d r (mig_stmt ddl files p Answered r d)"
proof -
  obtain pre where pre: "all = pre @ n # ns" "own_ok ddl s0 d r pre" "md_applied d @ rp_own r = pre"
    using assms(1) pc by (auto simp: holder_ok_def)
  show ?thesis
  proof (cases "ddl n (rp_schema r)")
    case None
    then show ?thesis using pc by (simp add: mig_stmt_def goes_on_up [OF lock])
  next
    case (Some s)
    then have "run_ddl ddl (pre @ [n]) s0 = Some s" using pre by (simp add: run_ddl_append own_ok_def)
    then show ?thesis using pc Some pre by (simp add: mig_stmt_def goes_on_to holder_ok_def)
  qed
qed

lemma holder_record:
  assumes "holder_ok ddl all s0 d r" and pc: "rp_pc r = MRecord n ns"
  shows "goes_on ddl all s0 d r (mig_stmt ddl files p Answered r d)"
proof -
  obtain pre where pre: "all = pre @ n # ns" "md_applied d @ rp_own r = pre" "run_ddl ddl (pre @ [n]) s0 = Some (rp_schema r)"
    using assms by (auto simp: holder_ok_def)
  then have "all = (pre @ [n]) @ ns" "own_ok ddl s0 d (r\<lparr>rp_own := rp_own r @ [n]\<rparr>) (pre @ [n])"
    by (simp_all add: own_ok_def append_assoc [symmetric] del: append_assoc)
  then have "holder_ok ddl all s0 d (r\<lparr>rp_own := rp_own r @ [n], rp_pc := MCheck ns\<rparr>)" unfolding holder_ok_def by auto
  then show ?thesis using pc by (simp add: mig_stmt_def goes_on_to)
qed

lemma mig_stmt_holder:
  assumes "distinct all" and "all = sort files" and "db_ok ddl all s0 d" and "holder_ok ddl all s0 d r"
    and "in_tx (rp_pc r)" and "rp_pc r \<noteq> MCommit" and "md_lock d = Some p"
  shows "goes_on ddl all s0 d r (mig_stmt ddl files p f r d)"
proof (cases "f = Answered")
  case False
  then show ?thesis using assms(6) by (simp add: mig_stmt_def goes_on_up [OF assms(7)])
next
  case True
  show ?thesis
  proof (cases "rp_pc r")
    case MTable
    then show ?thesis using True assms(2,4) by (simp add: mig_stmt_def goes_on_to holder_ok_def)
  next
    case (MCheck todo)
    then show ?thesis using holder_check assms(1,3,4) True by metis
  next
    case (MApply n ns)
    then show ?thesis using holder_apply assms(4,7) True by metis
  next
    case (MRecord n ns)
    then show ?thesis using holder_record assms(4) True by metis
  qed (use assms(5,6) in auto)
qed

text \<open>The invariant is kept by every statement of every replica.\<close>

lemma mig_inv_start:
  assumes "db_ok ddl all s0 d" and "md_lock d = None" and "\<And>p. rp_pc (rs p) = MBegin"
  shows "mig_inv ddl all s0 rs d"
  using assms by (simp add: mig_inv_def)

lemma mig_inv_move:
  assumes inv: "mig_inv ddl all s0 rs d" and db: "db_ok ddl all s0 d'" and applied: "md_applied d' = md_applied d \<or> md_applied d' = all"
    and lock: "md_lock d' = (if in_tx (rp_pc r') then Some p else if md_lock d = Some p then None else md_lock d)"
    and alone: "in_tx (rp_pc r') \<Longrightarrow> md_lock d = None \<or> md_lock d = Some p"
    and same: "\<And>q. q \<noteq> p \<Longrightarrow> md_lock d = Some q \<Longrightarrow> holder_ok ddl all s0 d (rs q) \<Longrightarrow> holder_ok ddl all s0 d' (rs q)"
    and r': "in_tx (rp_pc r') \<Longrightarrow> holder_ok ddl all s0 d' r'" "rp_pc r' = MLock \<Longrightarrow> rp_own r' = []"
      "rp_pc r' = MReturned None \<Longrightarrow> md_applied d' = all"
  shows "mig_inv ddl all s0 (rs(p := r')) d'"
proof -
  have i: "in_tx (rp_pc (rs q)) \<longleftrightarrow> md_lock d = Some q" "in_tx (rp_pc (rs q)) \<Longrightarrow> holder_ok ddl all s0 d (rs q)"
    "rp_pc (rs q) = MLock \<Longrightarrow> rp_own (rs q) = []" "rp_pc (rs q) = MReturned None \<Longrightarrow> md_applied d = all" for q
    using inv by (auto simp: mig_inv_def)
  have "in_tx (rp_pc ((rs(p := r')) q)) \<longleftrightarrow> md_lock d' = Some q" for q
    using lock alone i(1) [of q] by (auto split: if_splits)
  moreover have "holder_ok ddl all s0 d' ((rs(p := r')) q)" if "in_tx (rp_pc ((rs(p := r')) q))" for q
    using that same [of q] i(1,2) [of q] r'(1) by (auto split: if_splits)
  moreover have "rp_pc ((rs(p := r')) q) = MReturned None \<longrightarrow> md_applied d' = all" for q
    using i(4) [of q] r'(3) applied by auto
  ultimately show ?thesis using db i(3) r'(2) by (auto simp: mig_inv_def)
qed

lemma db_ok_lock [simp]: "db_ok ddl all s0 (d\<lparr>md_lock := l\<rparr>) = db_ok ddl all s0 d"
  by (simp add: db_ok_def)

lemma holder_ok_lock [simp]: "holder_ok ddl all s0 (d\<lparr>md_lock := l\<rparr>) r = holder_ok ddl all s0 d r"
  by (simp add: holder_ok_def split: mig_pc.split)

lemma mig_invD:
  assumes "mig_inv ddl all s0 rs d"
  shows "db_ok ddl all s0 d" and "in_tx (rp_pc (rs p)) \<longleftrightarrow> md_lock d = Some p"
    and "in_tx (rp_pc (rs p)) \<Longrightarrow> holder_ok ddl all s0 d (rs p)" and "rp_pc (rs p) = MLock \<Longrightarrow> rp_own (rs p) = []"
    and "rp_pc (rs p) = MReturned None \<Longrightarrow> md_applied d = all"
  using assms by (auto simp: mig_inv_def)

text \<open>Outside the transaction only taking the lock changes the database.\<close>

lemma mig_inv_outside:
  assumes inv: "mig_inv ddl all s0 rs d" and out: "\<not> in_tx (rp_pc (rs p))" and free: "rp_pc (rs p) = MLock \<longrightarrow> md_lock d = None"
    and step: "mig_stmt ddl files p f (rs p) d = (r', d')"
  shows "mig_inv ddl all s0 (rs(p := r')) d'"
proof -
  note I = mig_invD [OF inv]
  have no: "md_lock d \<noteq> Some p" using I(2) out by blast
  show ?thesis
  proof (cases "rp_pc (rs p) = MLock \<and> f = Answered")
    case True
    then have r': "r' = (rs p)\<lparr>rp_schema := md_schema d, rp_pc := MTable\<rparr>" "d' = d\<lparr>md_lock := Some p\<rparr>"
      using step by (simp_all add: mig_stmt_def goes_def)
    have "holder_ok ddl all s0 d r'" using I(4) [of p] True I(1) by (simp add: r' holder_ok_def own_ok_def db_ok_def)
    then show ?thesis using True free r' no I(1) by (intro mig_inv_move [OF inv]) simp_all
  next
    case False
    then have "d' = d" "\<not> in_tx (rp_pc r')" "rp_pc r' = MLock \<longrightarrow> rp_own r' = []" "rp_pc r' = MReturned None \<longrightarrow> rp_pc (rs p) = MReturned None"
      using out step no by (cases "rp_pc (rs p)"; auto simp: mig_stmt_def goes_def gives_up_def split: if_splits)+
    then show ?thesis using no I(1,5) by (intro mig_inv_move [OF inv]) auto
  qed
qed

lemma mig_inv_commit:
  assumes inv: "mig_inv ddl all s0 rs d" and pc: "rp_pc (rs p) = MCommit" and step: "mig_stmt ddl files p f (rs p) d = (r', d')"
  shows "mig_inv ddl all s0 (rs(p := r')) d'"
proof -
  note I = mig_invD [OF inv]
  have lock: "md_lock d = Some p" and own_all: "own_ok ddl s0 d (rs p) all"
    using I(2,3) [of p] pc by (auto simp: holder_ok_def)
  then have "md_applied d @ rp_own (rs p) = all" using I(1) by (auto simp: own_ok_def db_ok_def)
  then have committed: "db_ok ddl all s0 (commits (rs p) d)" "md_applied (commits (rs p) d) = all" "md_lock (commits (rs p) d) = None"
    using own_all by (auto simp: db_ok_def commits_def own_ok_def)
  have "r' = (rs p)\<lparr>rp_pc := MReturned (Some MigConn)\<rparr> \<and> d' = d\<lparr>md_lock := None\<rparr> \<or> (\<exists>e. r' = (rs p)\<lparr>rp_pc := MReturned e\<rparr> \<and> d' = commits (rs p) d)"
    using step pc lock by (cases f) (auto simp: mig_stmt_def gives_up_def goes_def)
  then show ?thesis using lock committed I(1) by (elim disjE exE; intro mig_inv_move [OF inv]) auto
qed

lemma mig_inv_step:
  assumes dist: "distinct all" and all: "all = sort files" and inv: "mig_inv ddl all s0 rs d"
    and free: "rp_pc (rs p) = MLock \<longrightarrow> md_lock d = None" and step: "mig_stmt ddl files p f (rs p) d = (r', d')"
  shows "mig_inv ddl all s0 (rs(p := r')) d'"
proof -
  consider "\<not> in_tx (rp_pc (rs p))" | "in_tx (rp_pc (rs p))" "rp_pc (rs p) \<noteq> MCommit" | "rp_pc (rs p) = MCommit" by blast
  then show ?thesis
  proof cases
    case 1
    then show ?thesis by (rule mig_inv_outside [OF inv _ free step])
  next
    case 2
    note I = mig_invD [OF inv]
    have lock: "md_lock d = Some p" using I(2) 2(1) by blast
    from mig_stmt_holder [OF dist all I(1) I(3) [OF 2(1)] 2 lock, of f] have "goes_on ddl all s0 d (rs p) (r', d')" unfolding step .
    then show ?thesis unfolding goes_on_def
    proof
      assume "\<exists>e. (r', d') = ((rs p)\<lparr>rp_pc := MReturned (Some e)\<rparr>, d\<lparr>md_lock := None\<rparr>)"
      then show ?thesis using lock I(1) by (elim exE, intro mig_inv_move [OF inv]) auto
    next
      assume "\<exists>r''. (r', d') = (r'', d) \<and> in_tx (rp_pc r'') \<and> holder_ok ddl all s0 d r''"
      then show ?thesis using lock I(1) by (elim exE, intro mig_inv_move [OF inv]) auto
    qed
  next
    case 3
    then show ?thesis by (rule mig_inv_commit [OF inv _ step])
  qed
qed

lemma mig_reach_inv:
  assumes "mig_reach ddl files d0 rs d" and "distinct files" and "db_ok ddl (sort files) s0 d0" and "md_lock d0 = None"
  shows "mig_inv ddl (sort files) s0 rs d"
  using assms(1)
proof induction
  case (start rs)
  then show ?case using assms(3,4) by (intro mig_inv_start) auto
next
  case (stmt rs d p f r' d')
  then show ?case using assms(2) by (intro mig_inv_step [OF _ refl]) auto
next
  case (restart rs d p e)
  then have inv: "mig_inv ddl (sort files) s0 rs d" by blast
  then have "in_tx (rp_pc (rs p)) \<longleftrightarrow> md_lock d = Some p" by (simp add: mig_inv_def)
  then have no: "md_lock d \<noteq> Some p" using restart.hyps by simp
  moreover have "db_ok ddl (sort files) s0 d" using inv by (simp add: mig_inv_def)
  ultimately show ?case by (intro mig_inv_move [OF inv]) auto
qed

text \<open>
  C12: Several replicas may run Migrate at once, at any time and with statements lost anywhere:
  what is recorded as applied is always the first migrations in the order of their names, each
  once, the schema is the result of exactly those in that order, and a replica whose Migrate
  returned without error finds all of them applied.
\<close>
theorem migrations_once:
  assumes "mig_reach ddl files d0 rs d" and "distinct files" and "md_lock d0 = None"
    and "md_applied d0 = take k (sort files)" and "run_ddl ddl (take k (sort files)) s0 = Some (md_schema d0)"
  shows "\<exists>j. md_applied d = take j (sort files) \<and> distinct (md_applied d) \<and> run_ddl ddl (md_applied d) s0 = Some (md_schema d) \<and>
    (\<forall>p. rp_pc (rs p) = MReturned None \<longrightarrow> md_applied d = sort files)"
proof -
  have "db_ok ddl (sort files) s0 d0"
    unfolding db_ok_def using assms(4,5) by (metis append_take_drop_id)
  note inv = mig_reach_inv [OF assms(1,2) this assms(3)]
  then obtain rest where rest: "sort files = md_applied d @ rest" by (auto simp: mig_inv_def db_ok_def)
  then have "md_applied d = take (length (md_applied d)) (sort files)" by simp
  moreover have "distinct (md_applied d)" using assms(2) rest by (metis distinct_append distinct_sort)
  ultimately show ?thesis using inv by (auto simp: mig_inv_def db_ok_def)
qed

text \<open>Two replicas and two migrations: the second replica waits for the lock and then finds all done.\<close>

definition example_ddl :: "string \<Rightarrow> string list \<Rightarrow> string list option" where
  "example_ddl n s = Some (s @ [n])"

definition mig_zero :: "string list mig_db" where
  "mig_zero = \<lparr>md_table = False, md_applied = [], md_schema = [], md_lock = None\<rparr>"

text \<open>A replica running alone for some statements, unless it has to wait.\<close>

fun mig_solo :: "nat \<Rightarrow> nat \<Rightarrow> (nat \<Rightarrow> string list replica) \<times> string list mig_db \<Rightarrow> (nat \<Rightarrow> string list replica) \<times> string list mig_db" where
  "mig_solo 0 p s = s"
| "mig_solo (Suc n) p s =
     (if rp_pc (fst s p) = MLock \<and> md_lock (snd s) \<noteq> None then s
      else case mig_stmt example_ddl [''002'', ''001''] p Answered (fst s p) (snd s) of
             (r', d') \<Rightarrow> mig_solo n p ((fst s)(p := r'), d'))"

lemma mig_solo_reach:
  "mig_reach example_ddl [''002'', ''001''] d0 (fst s) (snd s) \<Longrightarrow>
   mig_reach example_ddl [''002'', ''001''] d0 (fst (mig_solo n p s)) (snd (mig_solo n p s))"
proof (induction n p s rule: mig_solo.induct)
  case (2 n p s)
  obtain r' d' where step: "mig_stmt example_ddl [''002'', ''001''] p Answered (fst s p) (snd s) = (r', d')" by fastforce
  show ?case
  proof (cases "rp_pc (fst s p) = MLock \<and> md_lock (snd s) \<noteq> None")
    case False
    then have "rp_pc (fst s p) = MLock \<longrightarrow> md_lock (snd s) = None" by auto
    from mig_reach.stmt [OF "2.prems" this step]
    have "mig_reach example_ddl [''002'', ''001''] d0 ((fst s)(p := r')) d'" .
    with 2(1) [OF False step [symmetric]] show ?thesis using False step by (auto simp del: fun_upd_apply)
  qed (use "2.prems" in simp)
qed simp

definition mig_two :: "(nat \<Rightarrow> string list replica) \<times> string list mig_db" where
  "mig_two = mig_solo 7 1 (mig_solo 11 0 (\<lambda>_. \<lparr>rp_pc = MBegin, rp_own = [], rp_schema = []\<rparr>, mig_zero))"

lemma mig_two_end:
  "rp_pc (fst mig_two 0) = MReturned None" "rp_pc (fst mig_two 1) = MReturned None" "md_schema (snd mig_two) = [''001'', ''002'']"
proof -
  have "sort [''002'', ''001''] = [''001'', ''002'']" by (simp add: less_eq_char_def less_char_def)
  then show "rp_pc (fst mig_two 0) = MReturned None" "rp_pc (fst mig_two 1) = MReturned None" "md_schema (snd mig_two) = [''001'', ''002'']"
    by (simp_all add: mig_two_def eval_nat_numeral mig_stmt_def goes_def commits_def example_ddl_def mig_zero_def del: sort_key_simps)
qed

theorem migrations_once_witness:
  "mig_reach example_ddl [''002'', ''001''] mig_zero (fst mig_two) (snd mig_two) \<and> md_applied (snd mig_two) = sort [''002'', ''001''] \<and>
   md_schema (snd mig_two) = [''001'', ''002'']"
proof -
  have r: "mig_reach example_ddl [''002'', ''001''] mig_zero (fst mig_two) (snd mig_two)"
    unfolding mig_two_def by (intro mig_solo_reach) (simp add: mig_reach.start)
  have "md_applied mig_zero = take 0 (sort [''002'', ''001''])" "run_ddl example_ddl (take 0 (sort [''002'', ''001''])) [] = Some (md_schema mig_zero)"
    "md_lock mig_zero = None" by (simp_all add: mig_zero_def)
  from migrations_once [OF r _ this(3,1,2)] r mig_two_end show ?thesis by auto
qed

end
