(* ===== verification/Node_Start.thy ===== *)
theory Node_Start
  imports Relay_Props Auth
begin

text \<open>
  The start and the life of a node: cmd/wgrelay-node reads the environment, Run of
  internal/node/node.go derives the key of the node, contacts the control plane, brings the
  WireGuard interface up (New of internal/wgnet) and then waits for the first of its four
  goroutines to return, or for its context.  The goroutines interleave: a run is a sequence of
  events, each a step of one goroutine with what the world answered to it.
\<close>

section \<open>The environment\<close>

text \<open>os.Getenv is an argument; an unset variable is the empty string.\<close>

definition node_getenv :: "(string \<Rightarrow> string) \<Rightarrow> string \<Rightarrow> string \<Rightarrow> string" where
  "node_getenv getenv k def = (let v = getenv k in if v \<noteq> [] then v else def)"

text \<open>strconv.Atoi: a sign, decimal digits, and the range of a 64-bit int.\<close>

definition Atoi :: "string \<Rightarrow> int option" where
  "Atoi s =
     (let neg = (s \<noteq> [] \<and> hd s = CHR ''-'');
          ds = (if s \<noteq> [] \<and> (hd s = CHR ''-'' \<or> hd s = CHR ''+'') then tl s else s)
      in case ParseUint 64 ds of
           None \<Rightarrow> None
         | Some n \<Rightarrow>
             if neg then (if n \<le> 2 ^ 63 then Some (- int n) else None)
             else (if n < 2 ^ 63 then Some (int n) else None))"

definition int_string :: "int \<Rightarrow> string" where
  "int_string i = (if i < 0 then CHR ''-'' # nat_string (nat (- i)) else nat_string (nat i))"

text \<open>What is printed for a number reads back as that number.\<close>

lemma foldl_nat_string: "foldl (\<lambda>n c. 10 * n + digit_val c) 0 (nat_string n) = n"
proof (induction n rule: nat_string.induct)
  case (1 n)
  then show ?case by (cases "n < 10") (simp_all add: nat_string.simps [of n])
qed

lemma ParseUint_nat_string: "n < 2 ^ bits \<Longrightarrow> ParseUint bits (nat_string n) = Some n"
  using nat_string_digits by (auto simp: ParseUint_def foldl_nat_string list_all_iff)

lemma Atoi_int_string:
  assumes "- (2 ^ 63) \<le> i" and "i < 2 ^ 63"
  shows "Atoi (int_string i) = Some i"
proof (cases "i < 0")
  case True
  then have "nat (- i) < 2 ^ 64" "nat (- i) \<le> 2 ^ 63" using assms(1) by auto
  then show ?thesis using True by (simp add: Atoi_def int_string_def ParseUint_nat_string)
next
  case False
  have "hd (nat_string n) \<noteq> CHR ''-'' \<and> hd (nat_string n) \<noteq> CHR ''+''" for n
    using nat_string_digits [of "hd (nat_string n)" n] by (auto simp: is_digit_def less_eq_char_def)
  moreover have "nat i < 2 ^ 64" "nat i < 2 ^ 63" using False assms(2) by auto
  ultimately show ?thesis using False by (simp add: Atoi_def int_string_def ParseUint_nat_string)
qed

lemma Atoi_range: "Atoi s = Some i \<Longrightarrow> - (2 ^ 63) \<le> i \<and> i < 2 ^ 63"
  by (auto simp: Atoi_def Let_def split: option.splits if_splits)

datatype main_error = BadLocalRoutes | BadWGPort | APIAndTokenRequired

definition node_main_config :: "(string \<Rightarrow> string) \<Rightarrow> main_error + node_config" where
  "node_main_config getenv =
     (case ParseLocalRoutes (getenv ''WGRELAY_LOCAL_ROUTES'') of
        None \<Rightarrow> Inl BadLocalRoutes
      | Some routes \<Rightarrow>
          (case Atoi (node_getenv getenv ''WGRELAY_WG_PORT'' ''51820'') of
             None \<Rightarrow> Inl BadWGPort
           | Some port \<Rightarrow>
               let cfg = \<lparr>ncf_api_url = getenv ''WGRELAY_API_URL'', ncf_token = getenv ''WGRELAY_NODE_TOKEN'', ncf_wg_port = port,
                     ncf_https_listen = node_getenv getenv ''WGRELAY_HTTPS_LISTEN'' '':443'',
                     ncf_http_listen = node_getenv getenv ''WGRELAY_HTTP_LISTEN'' '':80'',
                     ncf_dns_listen = node_getenv getenv ''WGRELAY_DNS_LISTEN'' [], ncf_local_routes = routes\<rparr>
               in if ncf_api_url cfg = [] \<or> ncf_token cfg = [] then Inl APIAndTokenRequired else Inr cfg))"

text \<open>The port the device is told is the one the environment gave.\<close>

lemma wg_port_text:
  assumes "node_main_config getenv = Inr cfg"
  shows "Atoi (int_string (ncf_wg_port cfg)) = Atoi (node_getenv getenv ''WGRELAY_WG_PORT'' ''51820'')"
proof -
  have port: "Atoi (node_getenv getenv ''WGRELAY_WG_PORT'' ''51820'') = Some (ncf_wg_port cfg)"
    using assms by (auto simp: node_main_config_def Let_def split: option.splits if_splits)
  show ?thesis using Atoi_int_string Atoi_range [OF port] unfolding port by blast
qed

section \<open>The interface\<close>

text \<open>
  New of wgnet.  The virtual device (netstack and wireguard-go) is an argument: its creation
  for an address and an MTU, its IpcSet on text, and its Up.
\<close>

record wg_config =
  wc_private_key :: Key
  wc_address :: addr
  wc_listen_port :: int
  wc_mtu :: int

record 'dev wg_world =
  ww_create :: "addr \<Rightarrow> int \<Rightarrow> 'dev option"
  ww_ipc_set :: "string \<Rightarrow> 'dev \<Rightarrow> 'dev option"
  ww_up :: "'dev \<Rightarrow> 'dev option"

datatype wg_error = NetstackFailed | IpcFailed | UpFailed

definition new_ipc :: "wg_config \<Rightarrow> string" where
  "new_ipc c = ''private_key='' @ Key_hex (wc_private_key c) @ [CHR 0x0A] @ ''listen_port='' @ int_string (wc_listen_port c) @ [CHR 0x0A]"

definition wgnet_New :: "'dev wg_world \<Rightarrow> wg_config \<Rightarrow> wg_error + 'dev Net" where
  "wgnet_New w c =
     (let mtu = (if wc_mtu c = 0 then 1420 else wc_mtu c)
      in case ww_create w (wc_address c) mtu of
           None \<Rightarrow> Inl NetstackFailed
         | Some dev \<Rightarrow>
             (case ww_ipc_set w (new_ipc c) dev of
                None \<Rightarrow> Inl IpcFailed
              | Some dev' \<Rightarrow>
                  (case ww_up w dev' of
                     None \<Rightarrow> Inl UpFailed
                   | Some dev'' \<Rightarrow> Inr \<lparr>net_dev = dev'', net_peers = Map.empty\<rparr>)))"

section \<open>Run, up to the interface\<close>

datatype run_error =
    NodeTokenBad auth_error | HelloRefused | HelloCancelled | GatewayBad | WgFailed wg_error
  | SyncRefused | TLSListenFailed | HTTPFailed | DNSFailed

definition node_key :: "Token \<Rightarrow> Key" where
  "node_key tok = KeyFromSeed (DeriveKey tok ''node wireguard key'')"

text \<open>
  The replies to hello, and whether the context ends in the pause after them; None while the
  node keeps trying.
\<close>

definition Run_setup ::
  "'dev wg_world \<Rightarrow> node_config \<Rightarrow> NodeHelloResponse http_reply option list \<Rightarrow> bool \<Rightarrow> (run_error + 'dev node_state) option" where
  "Run_setup w cfg replies cancelled =
     (case Parse (ncf_token cfg) PrefixNode of
        Inl e \<Rightarrow> Some (Inl (NodeTokenBad e))
      | Inr tok \<Rightarrow>
          (case fst (hello second replies) of
             HelloRetrying b \<Rightarrow> if cancelled then Some (Inl HelloCancelled) else None
           | HelloRejected \<Rightarrow> Some (Inl HelloRefused)
           | HelloOk resp \<Rightarrow>
               (case ParseAddr (nhr_gateway_ip resp) of
                  None \<Rightarrow> Some (Inl GatewayBad)
                | Some gw \<Rightarrow>
                    (case wgnet_New w \<lparr>wc_private_key = node_key tok, wc_address = gw, wc_listen_port = ncf_wg_port cfg, wc_mtu = 0\<rparr> of
                       Inl e \<Rightarrow> Some (Inl (WgFailed e))
                     | Inr n \<Rightarrow> Some (Inr \<lparr>ns_net = n, ns_routes = Map.empty, ns_dns = New_Dns\<rparr>)))))"

section \<open>The goroutines\<close>

text \<open>
  Where a goroutine is: before its first call, inside it (or in its loop), or returned.  The
  sync loop alternates between the first two.  The channel has room for the four results.
\<close>

datatype gpc = GInit | GBusy | GEnd

record 'dev run_state =
  rs_node :: "'dev node_state"
  rs_version :: string
  rs_stopped :: bool
  rs_sync :: gpc
  rs_tls :: gpc
  rs_http :: gpc
  rs_dns :: gpc
  rs_pending :: nat
  rs_outcomes :: "tls_outcome list"
  rs_errc :: "run_error option list"
  rs_result :: "run_error option option"

definition run_start :: "'dev node_state \<Rightarrow> 'dev run_state" where
  "run_start n = \<lparr>rs_node = n, rs_version = [], rs_stopped = False, rs_sync = GInit, rs_tls = GInit, rs_http = GInit, rs_dns = GInit,
     rs_pending = 0, rs_outcomes = [], rs_errc = [], rs_result = None\<rparr>"

text \<open>What handleTLS meets on one connection.\<close>

record tls_visit =
  tv_hello :: "bytes \<Rightarrow> nat \<times> string option"
  tv_dial_tcp :: "string \<Rightarrow> bool"
  tv_dial_wg :: "addr_port \<Rightarrow> bool"
  tv_write_ok :: bool
  tv_remote :: addr_port
  tv_local :: addr_port
  tv_bytes :: bytes

datatype run_event =
    EvStop
  | EvSyncTest | EvSyncReply "NodeConfig http_reply option"
  | EvListen bool | EvAccept bool | EvVisit tls_visit
  | EvHTTPStart | EvHTTPEnd bool
  | EvDNSStart | EvDNSEnd bool | EvDNSDone
  | EvTake | EvCtxDone

definition sends :: "run_error option \<Rightarrow> 'dev run_state \<Rightarrow> 'dev run_state" where
  "sends e s = s\<lparr>rs_errc := rs_errc s @ [e]\<rparr>"

text \<open>One turn of syncLoop is its test of the context and then its request.\<close>

definition sync_test :: "'dev run_state \<Rightarrow> 'dev run_state" where
  "sync_test s = (if rs_stopped s then sends None (s\<lparr>rs_sync := GEnd\<rparr>) else s\<lparr>rs_sync := GBusy\<rparr>)"

definition sync_reply :: "'dev node_env \<Rightarrow> NodeConfig http_reply option \<Rightarrow> 'dev run_state \<Rightarrow> 'dev run_state" where
  "sync_reply env reply s =
     (case sync_turn env reply (rs_version s) (rs_node s) of
        SyncRejected \<Rightarrow> sends (Some SyncRefused) (s\<lparr>rs_sync := GEnd\<rparr>)
      | SyncNext v wait n \<Rightarrow> s\<lparr>rs_sync := GInit, rs_version := v, rs_node := n\<rparr>)"

text \<open>serveTLS: an error of Accept ends the loop only once the context is done.\<close>

definition tls_listen :: "bool \<Rightarrow> 'dev run_state \<Rightarrow> 'dev run_state" where
  "tls_listen ok s = (if ok then s\<lparr>rs_tls := GBusy\<rparr> else sends (Some TLSListenFailed) (s\<lparr>rs_tls := GEnd\<rparr>))"

definition tls_accept :: "bool \<Rightarrow> 'dev run_state \<Rightarrow> 'dev run_state" where
  "tls_accept ok s =
     (if ok then s\<lparr>rs_pending := rs_pending s + 1\<rparr>
      else if rs_stopped s then sends None (s\<lparr>rs_tls := GEnd\<rparr>) else s)"

definition tls_visited :: "node_config \<Rightarrow> tls_visit \<Rightarrow> 'dev run_state \<Rightarrow> 'dev run_state" where
  "tls_visited cfg v s = s\<lparr>rs_pending := rs_pending s - 1, rs_outcomes := rs_outcomes s @
     [handleTLS cfg (tv_hello v) (tv_dial_tcp v) (tv_dial_wg v) (tv_write_ok v) (tv_remote v) (tv_local v) (tv_bytes v) (rs_node s)]\<rparr>"

text \<open>
  serveHTTP returns at once without an address.  ListenAndServe returns ErrServerClosed only
  after Close, which is called when the context is done.
\<close>

definition http_start :: "node_config \<Rightarrow> 'dev run_state \<Rightarrow> 'dev run_state" where
  "http_start cfg s = (if ncf_http_listen cfg = [] then sends None (s\<lparr>rs_http := GEnd\<rparr>) else s\<lparr>rs_http := GBusy\<rparr>)"

definition http_end :: "bool \<Rightarrow> 'dev run_state \<Rightarrow> 'dev run_state option" where
  "http_end closed s =
     (if closed \<and> \<not> rs_stopped s then None
      else Some (sends (if closed then None else Some HTTPFailed) (s\<lparr>rs_http := GEnd\<rparr>)))"

text \<open>
  serveDNS blocks without an address; else Serve of internal/dnsserver waits for the first of
  its two listeners to return, or for the context.
\<close>

definition dns_end :: "node_config \<Rightarrow> bool \<Rightarrow> 'dev run_state \<Rightarrow> 'dev run_state option" where
  "dns_end cfg failed s =
     (if ncf_dns_listen cfg = [] then None
      else Some (sends (if failed then Some DNSFailed else None) (s\<lparr>rs_dns := GEnd\<rparr>)))"

definition dns_done :: "'dev run_state \<Rightarrow> 'dev run_state option" where
  "dns_done s = (if rs_stopped s then Some (sends None (s\<lparr>rs_dns := GEnd\<rparr>)) else None)"

text \<open>The select at the end of Run.\<close>

definition run_take :: "'dev run_state \<Rightarrow> 'dev run_state option" where
  "run_take s =
     (case (rs_result s, rs_errc s) of
        (None, e # es) \<Rightarrow> Some (s\<lparr>rs_errc := es, rs_result := Some e\<rparr>)
      | _ \<Rightarrow> None)"

definition run_ctx_done :: "'dev run_state \<Rightarrow> 'dev run_state option" where
  "run_ctx_done s = (if rs_result s = None \<and> rs_stopped s then Some (s\<lparr>rs_result := Some None\<rparr>) else None)"

text \<open>A step of the event's goroutine, None where it is not at that point.\<close>

fun run_step :: "'dev node_env \<Rightarrow> node_config \<Rightarrow> run_event \<Rightarrow> 'dev run_state \<Rightarrow> 'dev run_state option" where
  "run_step env cfg EvStop s = Some (s\<lparr>rs_stopped := True\<rparr>)"
| "run_step env cfg EvSyncTest s = (if rs_sync s = GInit then Some (sync_test s) else None)"
| "run_step env cfg (EvSyncReply reply) s = (if rs_sync s = GBusy then Some (sync_reply env reply s) else None)"
| "run_step env cfg (EvListen ok) s = (if rs_tls s = GInit then Some (tls_listen ok s) else None)"
| "run_step env cfg (EvAccept ok) s = (if rs_tls s = GBusy then Some (tls_accept ok s) else None)"
| "run_step env cfg (EvVisit v) s = (if 0 < rs_pending s then Some (tls_visited cfg v s) else None)"
| "run_step env cfg EvHTTPStart s = (if rs_http s = GInit then Some (http_start cfg s) else None)"
| "run_step env cfg (EvHTTPEnd closed) s = (if rs_http s = GBusy then http_end closed s else None)"
| "run_step env cfg EvDNSStart s = (if rs_dns s = GInit then Some (s\<lparr>rs_dns := GBusy\<rparr>) else None)"
| "run_step env cfg (EvDNSEnd failed) s = (if rs_dns s = GBusy then dns_end cfg failed s else None)"
| "run_step env cfg EvDNSDone s = (if rs_dns s = GBusy then dns_done s else None)"
| "run_step env cfg EvTake s = run_take s"
| "run_step env cfg EvCtxDone s = run_ctx_done s"

fun run_trace :: "'dev node_env \<Rightarrow> node_config \<Rightarrow> run_event list \<Rightarrow> 'dev run_state \<Rightarrow> 'dev run_state option" where
  "run_trace env cfg [] s = Some s"
| "run_trace env cfg (e # es) s = (case run_step env cfg e s of None \<Rightarrow> None | Some s' \<Rightarrow> run_trace env cfg es s')"

text \<open>
  Run, and the exit status of the program: None while it runs (or when the events given are not
  a run).
\<close>

definition Run ::
  "'dev wg_world \<Rightarrow> 'dev node_env \<Rightarrow> node_config \<Rightarrow> NodeHelloResponse http_reply option list \<Rightarrow> bool \<Rightarrow> run_event list \<Rightarrow>
   run_error option option" where
  "Run w env cfg replies cancelled evs =
     (case Run_setup w cfg replies cancelled of
        None \<Rightarrow> None
      | Some (Inl e) \<Rightarrow> Some (Some e)
      | Some (Inr n) \<Rightarrow> (case run_trace env cfg evs (run_start n) of None \<Rightarrow> None | Some s \<Rightarrow> rs_result s))"

definition node_main ::
  "(string \<Rightarrow> string) \<Rightarrow> 'dev wg_world \<Rightarrow> 'dev node_env \<Rightarrow> NodeHelloResponse http_reply option list \<Rightarrow> bool \<Rightarrow> run_event list \<Rightarrow>
   nat option" where
  "node_main getenv w env replies cancelled evs =
     (case node_main_config getenv of
        Inl e \<Rightarrow> Some 1
      | Inr cfg \<Rightarrow>
          map_option (\<lambda>r. case r of None \<Rightarrow> 0 | Some e \<Rightarrow> 1) (Run w env cfg replies cancelled evs))"

end
