(* ===== verification/Node_Props.thy ===== *)
theory Node_Props
  imports Node_Start
begin

text \<open>
  What a run of a node guarantees: why it ends, and that the device and the routes always are
  those of the configuration whose version it reports.
\<close>

section \<open>Runs\<close>

lemma run_trace_append:
  "run_trace env cfg (es @ fs) s = (case run_trace env cfg es s of None \<Rightarrow> None | Some s' \<Rightarrow> run_trace env cfg fs s')"
  by (induction es arbitrary: s) (auto split: option.splits)

text \<open>What every step allowed by the events keeps holds along the run.\<close>

lemma run_trace_inv:
  assumes "run_trace env cfg evs s = Some s'" and "P s"
    and "\<And>e t t'. e \<in> set evs \<Longrightarrow> P t \<Longrightarrow> run_step env cfg e t = Some t' \<Longrightarrow> P t'"
  shows "P s'"
  using assms
proof (induction evs arbitrary: s)
  case (Cons e evs)
  then obtain t where t: "run_step env cfg e s = Some t" "run_trace env cfg evs t = Some s'" by (auto split: option.splits)
  have "P t" using Cons.prems(3) [of e s t] Cons.prems(2) t(1) by simp
  then show ?case by (rule Cons.IH [OF t(2)]) (rule Cons.prems(3) [OF list.set_intros(2)])
qed simp

lemmas goroutine_defs = sync_test_def sync_reply_def sends_def tls_listen_def tls_accept_def tls_visited_def http_start_def
  http_end_def dns_end_def dns_done_def run_take_def run_ctx_done_def

text \<open>Only replies of the control plane move the node.\<close>

lemma run_step_node:
  assumes "run_step env cfg e s = Some s'"
  shows "(rs_node s' = rs_node s \<and> rs_version s' = rs_version s) \<or>
    (\<exists>reply v wait. e = EvSyncReply reply \<and> sync_turn env reply (rs_version s) (rs_node s) = SyncNext v wait (rs_node s') \<and>
       rs_version s' = v)"
  using assms
  by (cases e) (auto simp: goroutine_defs split: if_splits sync_result.splits option.splits list.splits)

section \<open>Why a run ends\<close>

text \<open>The events that explain a result of Run.\<close>

definition refuses :: "run_event \<Rightarrow> bool" where
  "refuses e = (case e of EvSyncReply reply \<Rightarrow> (case Do reply of Inl err \<Rightarrow> Code err = proto_ErrUnauthorized | Inr c \<Rightarrow> False) | _ \<Rightarrow> False)"

definition run_cause :: "run_event list \<Rightarrow> run_error option \<Rightarrow> bool" where
  "run_cause evs r =
     (case r of
        None \<Rightarrow> EvStop \<in> set evs \<or> EvDNSEnd False \<in> set evs
      | Some SyncRefused \<Rightarrow> list_ex refuses evs
      | Some TLSListenFailed \<Rightarrow> EvListen False \<in> set evs
      | Some HTTPFailed \<Rightarrow> EvHTTPEnd False \<in> set evs
      | Some DNSFailed \<Rightarrow> EvDNSEnd True \<in> set evs
      | _ \<Rightarrow> False)"

definition causes_ok :: "run_event list \<Rightarrow> 'dev run_state \<Rightarrow> bool" where
  "causes_ok evs s \<longleftrightarrow> (rs_stopped s \<longrightarrow> EvStop \<in> set evs) \<and> (\<forall>r\<in>set (rs_errc s). run_cause evs r) \<and>
     (\<forall>r. rs_result s = Some r \<longrightarrow> run_cause evs r)"

lemma sync_turn_rejected: "sync_turn env reply v n = SyncRejected \<Longrightarrow> refuses (EvSyncReply reply)"
  by (auto simp: sync_turn_def refuses_def split: sum.splits if_splits prod.splits bool.splits)

lemma run_cause_simps [simp]:
  "run_cause evs None \<longleftrightarrow> EvStop \<in> set evs \<or> EvDNSEnd False \<in> set evs"
  "run_cause evs (Some SyncRefused) \<longleftrightarrow> list_ex refuses evs"
  "run_cause evs (Some TLSListenFailed) \<longleftrightarrow> EvListen False \<in> set evs"
  "run_cause evs (Some HTTPFailed) \<longleftrightarrow> EvHTTPEnd False \<in> set evs"
  "run_cause evs (Some DNSFailed) \<longleftrightarrow> EvDNSEnd True \<in> set evs"
  by (simp_all add: run_cause_def)

lemma causes_ok_step:
  assumes "ncf_http_listen cfg \<noteq> []" and "e \<in> set evs" and "causes_ok evs s" and "run_step env cfg e s = Some s'"
  shows "causes_ok evs s'"
proof (cases e)
  case (EvSyncReply reply)
  then have "sync_turn env reply (rs_version s) (rs_node s) = SyncRejected \<Longrightarrow> list_ex refuses evs"
    using assms(2) sync_turn_rejected unfolding list_ex_iff by blast
  then show ?thesis
    using assms(3,4) EvSyncReply by (auto simp: causes_ok_def goroutine_defs split: if_splits sync_result.splits)
qed (use assms in \<open>auto simp: causes_ok_def goroutine_defs split: if_splits option.splits list.splits\<close>)

lemma main_listens: "node_main_config getenv = Inr cfg \<Longrightarrow> ncf_http_listen cfg \<noteq> []"
  by (auto simp: node_main_config_def Let_def node_getenv_def split: option.splits if_splits)

lemma run_causes:
  assumes "ncf_http_listen cfg \<noteq> []" and "run_trace env cfg evs (run_start n) = Some s"
  shows "causes_ok evs s"
proof (rule run_trace_inv [OF assms(2)])
  show "causes_ok evs (run_start n)" by (simp add: causes_ok_def run_start_def)
qed (rule causes_ok_step [OF assms(1)])

text \<open>A stop is never forgotten.\<close>

lemma stop_is_seen:
  assumes "run_trace env cfg evs s = Some s'" and "rs_stopped s \<or> EvStop \<in> set evs"
  shows "rs_stopped s'"
  using assms
proof (induction evs arbitrary: s)
  case (Cons e evs)
  then obtain t where t: "run_step env cfg e s = Some t" "run_trace env cfg evs t = Some s'" by (auto split: option.splits)
  have "rs_stopped t" if "rs_stopped s \<or> e = EvStop"
    using t(1) that by (cases e) (auto simp: goroutine_defs split: if_splits sync_result.splits option.splits list.splits)
  then show ?case using Cons.IH [OF t(2)] Cons.prems(2) by auto
qed simp

section \<open>The device and the routes\<close>

lemma want_of_snoc: "want_of (ps @ [p]) = (want_of ps)(peer_key p \<mapsto> p)"
  by (simp add: want_of_def)

lemma want_of_Some: "want_of ps k = Some p \<Longrightarrow> p \<in> set ps \<and> peer_key p = k"
proof (induction ps rule: rev_induct)
  case (snoc q ps)
  then show ?case by (auto simp: want_of_snoc split: if_splits)
qed (simp add: want_of_def)

lemma dom_want_of: "dom (want_of ps) = peer_key ` set ps"
proof (induction ps rule: rev_induct)
  case (snoc q ps)
  then show ?case by (simp only: want_of_snoc dom_fun_upd) simp
qed (simp add: want_of_def)

lemma apply_config_False: "apply_config env cfg s = (False, s') \<Longrightarrow> s' = s"
  by (auto simp: apply_config_def SetPeers_def Let_def split: option.splits prod.splits bool.splits if_splits)

definition device_ok :: "('dev \<Rightarrow> dev_view) \<Rightarrow> 'dev node_state \<Rightarrow> bool" where
  "device_ok view n \<longleftrightarrow> finite (dom (net_peers (ns_net n))) \<and> configured (view (net_dev (ns_net n))) (net_peers (ns_net n))"

lemma apply_device:
  assumes dev: "wg_device (ne_ipc env) view" and ord: "orders_ok env" and n: "device_ok view n"
    and app: "apply_config env cfg n = (True, n')"
    and dist: "\<And>ps. apply_peers (nc_peers cfg) = Some ps \<Longrightarrow> distinct_allowed (want_of ps)"
  shows "device_ok view n' \<and> (\<exists>ps. apply_peers (nc_peers cfg) = Some ps \<and> net_peers (ns_net n') = want_of ps)"
proof -
  obtain ps m where ps: "apply_peers (nc_peers cfg) = Some ps" and n': "ns_net n' = m"
    and set: "SetPeers (ne_ipc env) (ne_peer_order env (net_peers (ns_net n))) (ne_peer_order env (want_of ps)) ps (ns_net n) = (True, m)"
    using app by (auto simp: apply_config_def split: option.splits prod.splits bool.splits)
  have fin: "finite (dom (want_of ps))" by (simp add: dom_want_of)
  have "set (ne_peer_order env (net_peers (ns_net n))) = dom (net_peers (ns_net n))"
    "set (ne_peer_order env (want_of ps)) = dom (want_of ps)"
    using ord n fin by (simp_all add: orders_ok_def device_ok_def)
  from SetPeers_effect [OF dev _ this dist [OF ps] set] n have "configured (view (net_dev m)) (want_of ps)" "net_peers m = want_of ps"
    by (simp_all add: device_ok_def)
  with ps n' fin show ?thesis by (simp add: device_ok_def)
qed

section \<open>Configurations of the store\<close>

definition config_of :: "(string \<Rightarrow> string) \<Rightarrow> string \<Rightarrow> db \<Rightarrow> NodeConfig \<Rightarrow> bool" where
  "config_of coll base d c \<longleftrightarrow> schema_ok d \<and> (\<exists>fresh dz. fst (store_NodeConfig coll base fresh dz d) = Inr c)"

lemma apply_peers_rows:
  assumes "apply_peers (config_peers rows) = Some ps"
  shows "list_all2 (\<lambda>(sub, w, key) p. ParseKey key = Some (peer_key p) \<and> peer_allowed p = (Addr4 w, 32)) rows ps"
  using assms
proof (induction rows arbitrary: ps)
  case (Cons x rows)
  then show ?case
    by (cases x) (auto simp: config_peers_def ParseAddr_ip4_string PrefixFrom_def split: option.splits)
qed (simp add: config_peers_def)

lemma list_all2_left:
  assumes "list_all2 R xs ys" and "y \<in> set ys"
  obtains x where "x \<in> set xs" and "R x y"
  using assms by (induction rule: list_all2_induct) auto

lemma list_all2_right:
  assumes "list_all2 R xs ys" and "x \<in> set xs"
  obtains y where "y \<in> set ys" and "R x y"
  using assms by (induction rule: list_all2_induct) auto

text \<open>The peers of a configuration: one per key, with the address of a lease that has it.\<close>

lemma config_peers_live:
  assumes c: "config_of coll base d c" and ps: "apply_peers (nc_peers c) = Some ps"
  shows "p \<in> set ps \<Longrightarrow> \<exists>r l. in_force d r l \<and> ParseKey (ls_pubkey l) = Some (peer_key p) \<and> peer_allowed p = (Addr4 (tun_ip r), 32)"
    and "in_force d r l \<Longrightarrow> ParseKey (ls_pubkey l) = Some k \<Longrightarrow> k \<in> peer_key ` set ps"
    and "distinct_allowed (want_of ps)"
proof -
  have ok: "schema_ok d" using c by (simp add: config_of_def)
  let ?rows = "sql_live_leases d"
  let ?R = "\<lambda>(sub, w, key) p. ParseKey key = Some (peer_key p) \<and> peer_allowed p = (Addr4 w, 32)"
  obtain fresh dz d' where "store_NodeConfig coll base fresh dz d = (Inr c, d')"
    using c by (metis config_of_def prod.collapse)
  then have "nc_peers c = config_peers ?rows" using NodeConfig_fields by blast
  then have rel: "list_all2 ?R ?rows ps" using apply_peers_rows ps by simp
  show "\<exists>r l. in_force d r l \<and> ParseKey (ls_pubkey l) = Some (peer_key p) \<and> peer_allowed p = (Addr4 (tun_ip r), 32)" if "p \<in> set ps"
  proof -
    from rel that obtain x where "x \<in> set ?rows" "?R x p" by (rule list_all2_left)
    then show ?thesis unfolding live_leases_iff [OF ok] by auto
  qed
  show "k \<in> peer_key ` set ps" if "in_force d r l" "ParseKey (ls_pubkey l) = Some k" for r l k
  proof -
    have "(tun_subdomain r, tun_ip r, ls_pubkey l) \<in> set ?rows" using that(1) live_leases_iff [OF ok] by blast
    with rel obtain p where "p \<in> set ps" "?R (tun_subdomain r, tun_ip r, ls_pubkey l) p" by (rule list_all2_right)
    with that(2) show ?thesis by force
  qed
  have same: "peer_key p = peer_key q" if pq: "p \<in> set ps" "q \<in> set ps" "peer_allowed p = peer_allowed q" for p q
  proof -
    from rel pq(1) obtain x where x: "x \<in> set ?rows" "?R x p" by (rule list_all2_left)
    from rel pq(2) obtain y where y: "y \<in> set ?rows" "?R y q" by (rule list_all2_left)
    have "x = y"
      by (rule distinct_key_inj [OF live_leases_distinct(2) [OF ok] x(1) y(1)]) (use x(2) y(2) pq(3) in auto)
    with x(2) y(2) show ?thesis by auto
  qed
  show "distinct_allowed (want_of ps)"
    unfolding distinct_allowed_def using same want_of_Some by metis
qed

section \<open>The node mirrors the store\<close>

text \<open>
  The routes lead exactly to the tunnels with a lease in force, and the device has a peer for
  each key of such a lease, with the address of a tunnel that has it and no other.
\<close>

definition mirrors_db :: "('dev \<Rightarrow> dev_view) \<Rightarrow> string \<Rightarrow> db \<Rightarrow> 'dev node_state \<Rightarrow> bool" where
  "mirrors_db view base d n \<longleftrightarrow>
     (\<forall>host ip. Match (ns_routes n) host = Some ip \<longleftrightarrow>
        (\<exists>r l. in_force d r l \<and> ip = Addr4 (tun_ip r) \<and> in_domain (to_lower (tunnel_domain (tun_subdomain r) base)) host)) \<and>
     (\<forall>k. view (net_dev (ns_net n)) k \<noteq> None \<longleftrightarrow> (\<exists>r l. in_force d r l \<and> ParseKey (ls_pubkey l) = Some k)) \<and>
     (\<forall>k dp. view (net_dev (ns_net n)) k = Some dp \<longrightarrow>
        (\<exists>r l. in_force d r l \<and> ParseKey (ls_pubkey l) = Some k \<and> dp_allowed dp = {(Addr4 (tun_ip r), 32)}))"

lemma apply_mirrors:
  assumes dev: "wg_device (ne_ipc env) view" and ord: "orders_ok env" and n: "device_ok view n"
    and app: "apply_config env c n = (True, n')" and c: "config_of coll base d c"
  shows "device_ok view n' \<and> mirrors_db view base d n'"
proof -
  obtain fresh dz d' where cfg: "store_NodeConfig coll base fresh dz d = (Inr c, d')" and ok: "schema_ok d"
    using c by (metis config_of_def prod.collapse)
  obtain ps where ps: "apply_peers (nc_peers c) = Some ps" "net_peers (ns_net n') = want_of ps" and n': "device_ok view n'"
    using apply_device [OF dev ord n app config_peers_live(3) [OF c]] by blast
  let ?v = "view (net_dev (ns_net n'))"
  have conf: "dom ?v = dom (want_of ps)" "\<And>k p. want_of ps k = Some p \<Longrightarrow> holds ?v k p"
    using n' ps(2) by (simp_all add: device_ok_def configured_def)
  have live: "\<exists>r l. in_force d r l \<and> ParseKey (ls_pubkey l) = Some k \<and> dp_allowed dp = {(Addr4 (tun_ip r), 32)}" if "?v k = Some dp" for k dp
  proof -
    from that conf(1) obtain p where p: "want_of ps k = Some p" by (metis domD domI)
    then have "p \<in> set ps" "peer_key p = k" using want_of_Some by blast+
    with config_peers_live(1) [OF c ps(1)] obtain r l
      where "in_force d r l" "ParseKey (ls_pubkey l) = Some k" "peer_allowed p = (Addr4 (tun_ip r), 32)" by metis
    then show ?thesis using conf(2) [OF p] that by (auto simp: holds_def)
  qed
  have "?v k \<noteq> None" if "in_force d r l" "ParseKey (ls_pubkey l) = Some k" for r l k
    using config_peers_live(2) [OF c ps(1) that] conf(1) unfolding dom_want_of by (metis domIff)
  moreover have "\<exists>r l. in_force d r l \<and> ParseKey (ls_pubkey l) = Some k" if "?v k \<noteq> None" for k
    using that live by (metis not_None_eq)
  ultimately have "?v k \<noteq> None \<longleftrightarrow> (\<exists>r l. in_force d r l \<and> ParseKey (ls_pubkey l) = Some k)" for k by blast
  with n' live relay_routes [OF ok cfg app] show ?thesis unfolding mirrors_db_def by blast
qed

section \<open>The sync loop over a source of configurations\<close>

text \<open>
  What the node relies on: from a good state, a configuration of the source that is applied gives
  a good state that shows it.  Then every run from a good state shows, at every moment, the
  configuration whose version it reports.
\<close>

definition in_step :: "(NodeConfig \<Rightarrow> 'dev node_state \<Rightarrow> bool) \<Rightarrow> run_event list \<Rightarrow> 'dev node_state \<Rightarrow> 'dev run_state \<Rightarrow> bool" where
  "in_step showing evs n s \<longleftrightarrow> rs_version s = [] \<and> rs_node s = n \<or>
     (\<exists>reply c. EvSyncReply reply \<in> set evs \<and> Do reply = Inr c \<and> rs_version s = nc_version c \<and> showing c (rs_node s))"

locale sync_source =
  fixes env :: "'dev node_env" and good :: "'dev node_state \<Rightarrow> bool" and source :: "NodeConfig \<Rightarrow> bool"
    and showing :: "NodeConfig \<Rightarrow> 'dev node_state \<Rightarrow> bool"
  assumes applied: "good n \<Longrightarrow> source c \<Longrightarrow> apply_config env c n = (True, n') \<Longrightarrow> good n' \<and> showing c n'"
begin

lemma turn:
  assumes n: "good n" and turn: "sync_turn env reply v n = SyncNext v' wait n'" and c: "\<And>c. Do reply = Inr c \<Longrightarrow> source c"
  shows "v' = v \<and> n' = n \<or> good n' \<and> (\<exists>c. Do reply = Inr c \<and> v' = nc_version c \<and> showing c n')"
proof (cases "Do reply")
  case (Inl e)
  then show ?thesis using turn by (auto simp: sync_turn_def split: if_splits)
next
  case (Inr c)
  obtain b m where app: "apply_config env c n = (b, m)" by fastforce
  show ?thesis
  proof (cases b)
    case True
    then have "v' = nc_version c" "n' = m" using turn Inr app by (auto simp: sync_turn_def)
    moreover have "apply_config env c n = (True, m)" using app True by simp
    from applied [OF n assms(3) [OF Inr] this] have "good m \<and> showing c m" .
    ultimately show ?thesis using Inr by blast
  next
    case False
    then show ?thesis using turn Inr app apply_config_False by (auto simp: sync_turn_def)
  qed
qed

lemma in_step_step:
  assumes confs: "\<And>reply c. EvSyncReply reply \<in> set evs \<Longrightarrow> Do reply = Inr c \<Longrightarrow> source c"
    and e: "e \<in> set evs" and t: "in_step showing evs n t \<and> good (rs_node t)" and step: "run_step env cfg e t = Some t'"
  shows "in_step showing evs n t' \<and> good (rs_node t')"
  using run_step_node [OF step]
proof (elim disjE exE conjE)
  assume "rs_node t' = rs_node t" "rs_version t' = rs_version t"
  then show ?thesis using t by (simp add: in_step_def)
next
  fix reply v wait
  assume r: "e = EvSyncReply reply" "sync_turn env reply (rs_version t) (rs_node t) = SyncNext v wait (rs_node t')" "rs_version t' = v"
  have "source c" if "Do reply = Inr c" for c using confs e r(1) that by blast
  from turn [OF conjunct2 [OF t] r(2) this] show ?thesis
  proof
    assume "v = rs_version t \<and> rs_node t' = rs_node t"
    then show ?thesis using t r(3) by (simp add: in_step_def)
  next
    assume "good (rs_node t') \<and> (\<exists>c. Do reply = Inr c \<and> v = nc_version c \<and> showing c (rs_node t'))"
    then show ?thesis using e r(1,3) unfolding in_step_def by blast
  qed
qed

lemma run_in_step:
  assumes "run_trace env cfg evs (run_start n) = Some s" and "good n"
    and "\<And>reply c. EvSyncReply reply \<in> set evs \<Longrightarrow> Do reply = Inr c \<Longrightarrow> source c"
  shows "rs_version s = [] \<and> rs_node s = n \<or>
    (\<exists>reply c. EvSyncReply reply \<in> set evs \<and> Do reply = Inr c \<and> rs_version s = nc_version c \<and> showing c (rs_node s))"
proof -
  have "in_step showing evs n s \<and> good (rs_node s)"
  proof (rule run_trace_inv [OF assms(1)])
    show "in_step showing evs n (run_start n) \<and> good (rs_node (run_start n))" using assms(2) by (simp add: in_step_def run_start_def)
  qed (rule in_step_step [OF assms(3)])
  then show ?thesis by (simp add: in_step_def)
qed

end

text \<open>The control plane over its database is such a source, for a device that follows its protocol.\<close>

definition device_good :: "'dev node_env \<Rightarrow> ('dev \<Rightarrow> dev_view) \<Rightarrow> 'dev node_state \<Rightarrow> bool" where
  "device_good env view n \<longleftrightarrow> wg_device (ne_ipc env) view \<and> orders_ok env \<and> device_ok view n"

definition from_store :: "(string \<Rightarrow> string) \<Rightarrow> string \<Rightarrow> NodeConfig \<Rightarrow> bool" where
  "from_store coll base c \<longleftrightarrow> (\<exists>d. config_of coll base d c)"

definition showing_store :: "('dev \<Rightarrow> dev_view) \<Rightarrow> (string \<Rightarrow> string) \<Rightarrow> string \<Rightarrow> NodeConfig \<Rightarrow> 'dev node_state \<Rightarrow> bool" where
  "showing_store view coll base c n \<longleftrightarrow> (\<exists>d. config_of coll base d c \<and> mirrors_db view base d n)"

interpretation control_plane: sync_source env "device_good env view" "from_store coll base" "showing_store view coll base"
  for env :: "'dev node_env" and view coll base
proof
  fix n c n'
  assume n: "device_good env view n" and "from_store coll base c" and app: "apply_config env c n = (True, n')"
  then obtain d where d: "config_of coll base d c" by (auto simp: from_store_def)
  have dev: "wg_device (ne_ipc env) view" "orders_ok env" "device_ok view n" using n by (simp_all add: device_good_def)
  from apply_mirrors [OF dev app d] d dev(1,2) show "device_good env view n' \<and> showing_store view coll base c n'"
    unfolding device_good_def showing_store_def by blast
qed

text \<open>So is a control plane that always sends a zone, for the DNS server of the node.\<close>

definition serving_zone :: "'dev node_env \<Rightarrow> NodeConfig \<Rightarrow> 'dev node_state \<Rightarrow> bool" where
  "serving_zone env c n \<longleftrightarrow> (\<exists>dz. nc_dns c = Some dz \<and>
     srv_zone_now (ns_dns n) = normalize (ne_lib env) (ne_name_order env (z_challenges (zone_of dz))) (zone_of dz))"

interpretation own_zone: sync_source env "\<lambda>n. True" "\<lambda>c. nc_dns c \<noteq> None" "serving_zone env" for env :: "'dev node_env"
  by unfold_locales (auto simp: serving_zone_def SetZone_def dest: apply_config_True(2))

lemma run_zone:
  assumes "run_trace env cfg evs (run_start n) = Some s" and "rs_version s \<noteq> []"
    and "\<And>reply c. EvSyncReply reply \<in> set evs \<Longrightarrow> Do reply = Inr c \<Longrightarrow> nc_dns c \<noteq> None"
  shows "\<exists>reply c. EvSyncReply reply \<in> set evs \<and> Do reply = Inr c \<and> rs_version s = nc_version c \<and> serving_zone env c (rs_node s)"
proof -
  have "rs_version s = [] \<and> rs_node s = n \<or>
    (\<exists>reply c. EvSyncReply reply \<in> set evs \<and> Do reply = Inr c \<and> rs_version s = nc_version c \<and> serving_zone env c (rs_node s))"
    by (rule own_zone.run_in_step [OF assms(1) TrueI]) (rule assms(3))
  with assms(2) show ?thesis by blast
qed

definition fresh_node :: "('dev \<Rightarrow> dev_view) \<Rightarrow> 'dev node_state \<Rightarrow> bool" where
  "fresh_node view n \<longleftrightarrow> ns_routes n = Map.empty \<and> net_peers (ns_net n) = Map.empty \<and> view (net_dev (ns_net n)) = Map.empty"

section \<open>Properties\<close>

text \<open>
  C7: However the goroutines of a node interleave, if every configuration it is sent was computed
  by the control plane from some state of its database, then at every moment either nothing was
  applied yet or its routes and the peers of its device are, exactly, those of the leases in
  force in a state of the database whose configuration has the version the node reports.
\<close>
theorem node_mirrors_store:
  assumes "run_trace env cfg evs (run_start n) = Some s" and "fresh_node view n"
    and "wg_device (ne_ipc env) view" and "orders_ok env"
    and "\<forall>reply c. EvSyncReply reply \<in> set evs \<and> Do reply = Inr c \<longrightarrow> (\<exists>d. config_of coll base d c)"
  shows "rs_version s = [] \<and> rs_node s = n \<or>
    (\<exists>reply c d. EvSyncReply reply \<in> set evs \<and> Do reply = Inr c \<and> rs_version s = nc_version c \<and> config_of coll base d c \<and>
       mirrors_db view base d (rs_node s))"
proof -
  have "device_good env view n" using assms(2-4) by (simp add: device_good_def device_ok_def fresh_node_def configured_def)
  from control_plane.run_in_step [OF assms(1) this, of coll base] assms(5) show ?thesis
    by (auto simp: from_store_def showing_store_def)
qed

definition view_env :: "dev_view node_env" where
  "view_env = \<lparr>ne_ipc = \<lambda>ls v. Some (uapi_effect ls v), ne_lib = plain_lib, ne_peer_order = \<lambda>m. sorted_list_of_set (dom m),
     ne_name_order = \<lambda>m. sorted_list_of_set (dom m)\<rparr>"

definition view_node :: "dev_view node_state" where
  "view_node = \<lparr>ns_net = \<lparr>net_dev = Map.empty, net_peers = Map.empty\<rparr>, ns_routes = Map.empty, ns_dns = New_Dns\<rparr>"

definition ok_reply :: "'b \<Rightarrow> 'b http_reply" where
  "ok_reply v = \<lparr>hx_status = 200, hx_status_line = ''200 OK'', hx_error = None, hx_value = Some v, hx_last_modified = None,
     hx_content_length = None\<rparr>"

lemma Do_ok_reply [simp]: "Do (Some (ok_reply v)) = Inr v"
  by (simp add: Do_def ok_reply_def)

lemma keyed_run:
  "\<exists>c s. config_of id ''ex.org'' keyed_db c \<and>
     run_trace view_env plain_ncf [EvSyncTest, EvSyncReply (Some (ok_reply c))] (run_start view_node) = Some s \<and>
     rs_version s = nc_version c \<and> nc_version c \<noteq> []"
proof -
  obtain c n where c: "store_NodeConfig id ''ex.org'' 90 \<lparr>zc_ns_names = [], zc_soa_email = []\<rparr> keyed_db = (Inr c, keyed_db)"
    and plain: "apply_config plain_env c idle_node = (True, n)" using keyed_config by blast
  then obtain ps t where "apply_peers (nc_peers c) = Some ps" "apply_routes (nc_routes c) Map.empty = Some t"
    by (auto simp: apply_config_def split: option.splits)
  then have "\<exists>m. apply_config view_env c view_node = (True, m)"
    by (simp add: apply_config_def view_env_def SetPeers_def Let_def)
  then obtain m where "apply_config view_env c view_node = (True, m)" by blast
  then have "sync_turn view_env (Some (ok_reply c)) [] view_node = SyncNext (nc_version c) 0 m" by (simp add: sync_turn_def)
  moreover have "nc_version c \<noteq> []" using NodeConfig_fields [OF c] config_version_not_Nil by metis
  moreover have "config_of id ''ex.org'' keyed_db c" unfolding config_of_def using keyed_db_ok c by (metis fst_conv)
  ultimately show ?thesis
    by (intro exI [of _ c]) (simp add: run_start_def sync_test_def sync_reply_def)
qed

theorem node_mirrors_store_witness:
  "\<exists>evs s c d. run_trace view_env plain_ncf evs (run_start view_node) = Some s \<and> rs_version s = nc_version c \<and> rs_version s \<noteq> [] \<and>
     config_of id ''ex.org'' d c \<and> mirrors_db (\<lambda>v. v) ''ex.org'' d (rs_node s)"
proof -
  obtain c s where c: "config_of id ''ex.org'' keyed_db c" and v: "rs_version s = nc_version c" "nc_version c \<noteq> []"
    and run: "run_trace view_env plain_ncf [EvSyncTest, EvSyncReply (Some (ok_reply c))] (run_start view_node) = Some s"
    using keyed_run by blast
  have "fresh_node (\<lambda>v. v) view_node" "wg_device (ne_ipc view_env) (\<lambda>v. v)" "orders_ok view_env"
    by (simp_all add: fresh_node_def view_node_def wg_device_def view_env_def orders_ok_def)
  moreover have "\<forall>reply c'. EvSyncReply reply \<in> set [EvSyncTest, EvSyncReply (Some (ok_reply c))] \<and> Do reply = Inr c' \<longrightarrow>
      (\<exists>d. config_of id ''ex.org'' d c')" using c by auto
  ultimately have "rs_version s = [] \<and> rs_node s = view_node \<or>
      (\<exists>reply c' d. EvSyncReply reply \<in> set [EvSyncTest, EvSyncReply (Some (ok_reply c))] \<and> Do reply = Inr c' \<and>
         rs_version s = nc_version c' \<and> config_of id ''ex.org'' d c' \<and> mirrors_db (\<lambda>v. v) ''ex.org'' d (rs_node s))"
    by (rule node_mirrors_store [OF run])
  then show ?thesis using v run by metis
qed

text \<open>
  C13: The program of a node, started from any environment it accepts, ends with status 0 only
  after it was told to stop (or the DNS library closed its listener on its own), and with status 1
  only because the control plane refused its token or a listener failed; once told to stop it can
  end with status 0 at the next step, in every interleaving.
\<close>
theorem node_runs_until_stopped:
  assumes "node_main_config getenv = Inr cfg" and "Run_setup w cfg replies cancelled = Some (Inr n)"
    and "run_trace env cfg evs (run_start n) = Some s"
  shows "(node_main getenv w env replies cancelled evs = Some 0 \<longleftrightarrow> rs_result s = Some None) \<and>
    (node_main getenv w env replies cancelled evs = Some 0 \<longrightarrow> EvStop \<in> set evs \<or> EvDNSEnd False \<in> set evs) \<and>
    (node_main getenv w env replies cancelled evs = Some 1 \<longrightarrow>
       list_ex refuses evs \<or> EvListen False \<in> set evs \<or> EvHTTPEnd False \<in> set evs \<or> EvDNSEnd True \<in> set evs) \<and>
    (rs_result s = None \<and> EvStop \<in> set evs \<longrightarrow> node_main getenv w env replies cancelled (evs @ [EvCtxDone]) = Some 0)"
proof -
  have m: "node_main getenv w env replies cancelled evs = map_option (\<lambda>r. case r of None \<Rightarrow> 0 | Some e \<Rightarrow> 1) (rs_result s)"
    using assms by (simp add: node_main_def Run_def del: One_nat_def)
  have c: "causes_ok evs s" by (rule run_causes [OF main_listens [OF assms(1)] assms(3)])
  have "list_ex refuses evs \<or> EvListen False \<in> set evs \<or> EvHTTPEnd False \<in> set evs \<or> EvDNSEnd True \<in> set evs"
    if "rs_result s = Some (Some e)" for e
    using c that by (cases e) (auto simp: causes_ok_def run_cause_def)
  moreover have "node_main getenv w env replies cancelled (evs @ [EvCtxDone]) = Some 0" if "rs_result s = None" "EvStop \<in> set evs"
  proof -
    have "rs_stopped s" by (rule stop_is_seen [OF assms(3)]) (use that(2) in simp)
    then show ?thesis using assms that(1) by (simp add: node_main_def Run_def run_trace_append run_ctx_done_def)
  qed
  ultimately show ?thesis using m c by (auto simp: causes_ok_def split: option.splits)
qed

definition node_environment :: "string \<Rightarrow> string" where
  "node_environment k = (if k = ''WGRELAY_API_URL'' then ''u'' else if k = ''WGRELAY_NODE_TOKEN'' then ''wgn_a_b'' else [])"

definition plain_wg :: "unit wg_world" where
  "plain_wg = \<lparr>ww_create = \<lambda>a mtu. Some (), ww_ipc_set = \<lambda>s d. Some d, ww_up = \<lambda>d. Some d\<rparr>"

lemma node_environment_config:
  "\<exists>cfg. node_main_config node_environment = Inr cfg \<and> ncf_token cfg = ''wgn_a_b''"
proof -
  have "split_on CHR 0x0A (replace_byte [] CHR '','' [CHR 0x0A]) = [[]]" by code_simp
  then have "ParseLocalRoutes [] = Some Map.empty" by (simp add: ParseLocalRoutes_def maxScanLine_def trim_space_def)
  moreover have "Atoi ''51820'' = Some 51820"
    by (simp add: Atoi_def ParseUint_def is_digit_def digit_val_def less_eq_char_def)
  ultimately show ?thesis by (simp add: node_main_config_def node_environment_def node_getenv_def)
qed

theorem node_runs_until_stopped_witness:
  "node_main node_environment plain_wg plain_env [Some (ok_reply \<lparr>nhr_name = ''n'', nhr_gateway_ip = ip4_string 7\<rparr>)] False
     ([EvHTTPStart, EvSyncTest, EvStop] @ [EvCtxDone]) = Some 0"
proof -
  obtain cfg where cfg: "node_main_config node_environment = Inr cfg" "ncf_token cfg = ''wgn_a_b''"
    using node_environment_config by blast
  have "Parse ''wgn_a_b'' PrefixNode = Inr \<lparr>tok_prefix = ''wgn'', tok_id = ''a'', tok_secret = ''b''\<rparr>" by code_simp
  then obtain n where n: "Run_setup plain_wg cfg [Some (ok_reply \<lparr>nhr_name = ''n'', nhr_gateway_ip = ip4_string 7\<rparr>)] False = Some (Inr n)"
    using cfg(2) by (simp add: Run_setup_def ParseAddr_ip4_string wgnet_New_def plain_wg_def)
  have "\<exists>s. run_trace plain_env cfg [EvHTTPStart, EvSyncTest, EvStop] (run_start n) = Some s \<and> rs_result s = None"
    using main_listens [OF cfg(1)] by (simp add: run_start_def goroutine_defs)
  then obtain s where s: "run_trace plain_env cfg [EvHTTPStart, EvSyncTest, EvStop] (run_start n) = Some s" "rs_result s = None"
    by blast
  from node_runs_until_stopped [OF cfg(1) n s(1)] s(2) show ?thesis by simp
qed

text \<open>
  serveHTTP without an address returns at once, and its nil ends Run; only the default of the
  environment keeps the program from it.
\<close>

lemma disabled_http_ends_node:
  assumes "ncf_http_listen cfg = []"
  shows "\<exists>s. run_trace env cfg [EvHTTPStart, EvTake] (run_start n) = Some s \<and> rs_result s = Some None"
  using assms by (simp add: run_start_def goroutine_defs)

end
