(* ===== verification/Agent_Start.thy ===== *)
theory Agent_Start
  imports Agent_Props Go_Flags
begin

text \<open>
  The edges of the agent: its command line and environment (cmd/wgrelay-agent), the banner a
  session prints (printBanner of agent.go), and the bridge that passes the log entries of
  certmagic on (slogCore of terminate.go).
\<close>

section \<open>The program\<close>

text \<open>os.Getenv is an argument; an unset variable is the empty string.\<close>

definition agent_getenv :: "(string \<Rightarrow> string) \<Rightarrow> string \<Rightarrow> string \<Rightarrow> string" where
  "agent_getenv getenv k def = (let v = getenv k in if v \<noteq> [] then v else def)"

text \<open>The configuration main gives to Run, or the status it exits with before.\<close>

definition agent_main_file ::
  "(string \<Rightarrow> string) \<Rightarrow> (string \<Rightarrow> string option) \<Rightarrow> (string \<Rightarrow> string + File) \<Rightarrow> (string \<Rightarrow> url option) \<Rightarrow> string list \<Rightarrow> nat + File" where
  "agent_main_file getenv readFile decode urlParse args =
     (case parse_flags [''config'' \<mapsto> FString (agent_getenv getenv ''WGRELAY_CONFIG'' ''wgrelay.yml'')] args of
        Inl FlagHelp \<Rightarrow> Inl 0
      | Inl FlagBad \<Rightarrow> Inl 2
      | Inr fl \<Rightarrow>
          (case LoadFile getenv decode urlParse (readFile (string_flag fl ''config'')) of
             Inl e \<Rightarrow> Inl 1
           | Inr loaded \<Rightarrow>
               let v = getenv ''WGRELAY_RELAY'';
                   cf = (if v \<noteq> [] then loaded\<lparr>fl_relay := v\<rparr> else loaded)
               in if fl_relay cf = [] then Inl 1 else Inr cf))"

text \<open>The exit status, None while the agent runs.\<close>

definition agent_main ::
  "(string \<Rightarrow> string) \<Rightarrow> (string \<Rightarrow> string option) \<Rightarrow> (string \<Rightarrow> string + File) \<Rightarrow> (string \<Rightarrow> url option) \<Rightarrow> string list \<Rightarrow>
   'dev agent_env \<Rightarrow> ('dev, 'roots) session_world list \<Rightarrow> nat option" where
  "agent_main getenv readFile decode urlParse args env ws =
     (case agent_main_file getenv readFile decode urlParse args of
        Inl status \<Rightarrow> Some status
      | Inr cf \<Rightarrow>
          (case agent_Run (getenv ''WGRELAY_TOKEN'') env urlParse cf ws of
             RunFatal \<Rightarrow> Some 1
           | RunStopped \<Rightarrow> Some 0
           | RunGoesOn \<Rightarrow> None))"

text \<open>The file is the one the flag names; every session reaches a relay that is named somewhere.\<close>

lemma agent_main_file_ok:
  assumes "agent_main_file getenv readFile decode urlParse args = Inr cf"
  shows "fl_relay cf \<noteq> []" "getenv ''WGRELAY_RELAY'' \<noteq> [] \<Longrightarrow> fl_relay cf = getenv ''WGRELAY_RELAY''"
    "\<exists>pth loaded. LoadFile getenv decode urlParse (readFile pth) = Inr loaded \<and> fl_routes cf = fl_routes loaded \<and> fl_acme cf = fl_acme loaded"
proof -
  obtain fl loaded where l: "LoadFile getenv decode urlParse (readFile (string_flag fl ''config'')) = Inr loaded"
    and cf: "cf = (if getenv ''WGRELAY_RELAY'' \<noteq> [] then loaded\<lparr>fl_relay := getenv ''WGRELAY_RELAY''\<rparr> else loaded)" "fl_relay cf \<noteq> []"
    using assms by (auto simp: agent_main_file_def Let_def split: sum.splits flag_error.splits if_splits)
  then show "fl_relay cf \<noteq> []" "getenv ''WGRELAY_RELAY'' \<noteq> [] \<Longrightarrow> fl_relay cf = getenv ''WGRELAY_RELAY''" by simp_all
  show "\<exists>pth loaded. LoadFile getenv decode urlParse (readFile pth) = Inr loaded \<and> fl_routes cf = fl_routes loaded \<and> fl_acme cf = fl_acme loaded"
    by (intro exI [of _ "string_flag fl ''config''"] exI [of _ loaded]) (simp add: l cf(1))
qed

lemma agent_main_config_flag:
  assumes "n = ''config''"
  shows "agent_main_file getenv readFile decode urlParse ((''--'' @ n @ ''='' @ pth) # args) =
    agent_main_file getenv readFile decode urlParse ((''--'' @ n) # pth # args)"
  unfolding agent_main_file_def assms by (subst parse_flags_forms) simp_all

section \<open>The banner\<close>

text \<open>Text is UTF-8: the accented letters and the arrow are their bytes.\<close>

definition no_nodes_text :: string where
  "no_nodes_text = ''ninguno activo todav'' @ [CHR 0xC3, CHR 0xAD] @ ''a (el t'' @ [CHR 0xC3, CHR 0xBA] @
     ''nel se arma solo cuando aparezca uno)''"

definition arrow :: string where
  "arrow = [CHR 0xE2, CHR 0x86, CHR 0x92]"

definition banner_route :: "(string \<rightharpoonup> RouteSpec) \<Rightarrow> string \<Rightarrow> string" where
  "banner_route routes h =
     (case routes h of
        None \<Rightarrow> []
      | Some r \<Rightarrow> ''  '' @ h @ '':443  '' @ arrow @ ''  '' @ sp_to r @ ''  ('' @ sp_mode r @
          (if sp_proxy_protocol r then '', proxy_protocol'' else []) @ '')'' @ [CHR 0x0A])"

definition banner_head :: "string \<Rightarrow> RegisterResponse \<Rightarrow> string" where
  "banner_head version reg =
     (let names = map pn_name (rr_nodes reg);
          shown = (if names = [] then [no_nodes_text] else names)
      in [CHR 0x0A] @ ''  wg-relay '' @ version @ [CHR 0x0A, CHR 0x0A] @
         ''  Dominio:  '' @ rr_domain reg @ [CHR 0x0A] @
         ''  IP VPN:   '' @ rr_vpn_ip reg @ [CHR 0x0A] @
         ''  Nodos:    '' @ join_with '', '' shown @ [CHR 0x0A, CHR 0x0A])"

definition no_routes_text :: string where
  "no_routes_text = ''  (sin rutas: agreg'' @ [CHR 0xC3, CHR 0xA1] @ '' entradas en routes: de wgrelay.yml)'' @ [CHR 0x0A]"

definition printBanner :: "string \<Rightarrow> RegisterResponse \<Rightarrow> (string \<rightharpoonup> RouteSpec) \<Rightarrow> string" where
  "printBanner version reg routes =
     banner_head version reg @ concat (map (banner_route routes) (sortedKeys routes)) @
     (if routes = Map.empty then no_routes_text else []) @ [CHR 0x0A]"

text \<open>The banner shows every route with its target.\<close>

lemma banner_shows_route:
  assumes "finite (dom routes)" and "routes h = Some r"
  shows "\<exists>a b. printBanner version reg routes = a @ (''  '' @ h @ '':443  '' @ arrow @ ''  '' @ sp_to r) @ b"
proof -
  have "h \<in> set (sortedKeys routes)" using assms by (simp add: sortedKeys_def domI)
  then obtain xs ys where "sortedKeys routes = xs @ h # ys" by (meson split_list)
  then have all: "concat (map (banner_route routes) (sortedKeys routes)) =
      concat (map (banner_route routes) xs) @ banner_route routes h @ concat (map (banner_route routes) ys)" by simp
  let ?rest = "''  ('' @ sp_mode r @ (if sp_proxy_protocol r then '', proxy_protocol'' else []) @ '')'' @ [CHR 0x0A]"
  have one: "banner_route routes h = (''  '' @ h @ '':443  '' @ arrow @ ''  '' @ sp_to r) @ ?rest"
    using assms(2) by (simp add: banner_route_def)
  show ?thesis
    by (rule exI [of _ "banner_head version reg @ concat (map (banner_route routes) xs)"],
        rule exI [of _ "?rest @ concat (map (banner_route routes) ys) @ (if routes = Map.empty then no_routes_text else []) @ [CHR 0x0A]"])
      (simp only: printBanner_def all one append.assoc)
qed

section \<open>The bridge of logs\<close>

text \<open>
  zap's levels are small integers (debug -1, info 0, warn 1, error 2, worse above).  A field adds
  its key and value to a map; With gives a new core, whose fields are not shared.
\<close>

datatype slog_level = LevelDebug | LevelInfo | LevelWarn | LevelError

record 'v slogCore =
  sc_fields :: "(string \<times> 'v) list"

definition core_With :: "(string \<times> 'v) list \<Rightarrow> 'v slogCore \<Rightarrow> 'v slogCore" where
  "core_With fs c = \<lparr>sc_fields = sc_fields c @ fs\<rparr>"

definition zap_level :: "int \<Rightarrow> slog_level" where
  "zap_level l = (if l \<le> -1 then LevelDebug else if l = 1 then LevelWarn else if 2 \<le> l then LevelError else LevelInfo)"

definition core_Write :: "int \<Rightarrow> string \<Rightarrow> (string \<times> 'v) list \<Rightarrow> 'v slogCore \<Rightarrow> slog_level \<times> string \<times> (string \<rightharpoonup> 'v)" where
  "core_Write l msg fs c =
     (zap_level l, msg, foldl (\<lambda>m (k, v). m(k \<mapsto> v)) Map.empty (sc_fields c @ fs))"

text \<open>Fields given to a logger and fields given to a message mean the same.\<close>

lemma core_With_Write: "core_Write l msg (fs @ gs) c = core_Write l msg gs (core_With fs c)"
  by (simp add: core_Write_def core_With_def)

end
