(* ===== verification/Agent_Session.thy ===== *)
theory Agent_Session
  imports Agent_Props
begin

text \<open>
  What a session of the agent opens and closes: the WireGuard device, the certificate caches and
  the server of the terminator, the cache of the exporter and the listener inside the tunnel,
  each closed by the defer that follows its opening (session of internal/agent/agent.go, close of
  terminate.go and exportcert.go), and the accept loop between.
\<close>

section \<open>Resources\<close>

datatype resource =
    Device | CertCache | WildcardCache | HandListener | HttpServer | ExportCache | TunnelListener

text \<open>
  What newTerminator has opened when it starts to ask for certificates: nothing without a route
  to terminate or without the roots.
\<close>

definition terminator_opens ::
  "(string \<Rightarrow> url option) \<Rightarrow> (string \<Rightarrow> bytes option) \<Rightarrow> (bytes \<Rightarrow> 'roots option) \<Rightarrow> string list \<Rightarrow> (string \<rightharpoonup> RouteSpec) \<Rightarrow> ACME \<Rightarrow>
   resource list" where
  "terminator_opens urlParse readFile parsePEM order routes acme =
     (case collect_routes urlParse routes order ([], Map.empty, Map.empty) of
        Inl e \<Rightarrow> []
      | Inr (hosts, proxies, tcp) \<Rightarrow>
          if hosts = [] then []
          else (case loadTrustedRoots readFile parsePEM (acme_trusted_roots acme) of
                  Inl e \<Rightarrow> []
                | Inr roots \<Rightarrow>
                    CertCache # (if list_ex (\<lambda>h. has_prefix h ''*.'') hosts then [WildcardCache] else []) @ [HandListener, HttpServer]))"

definition exporter_opens ::
  "(string \<Rightarrow> bytes option) \<Rightarrow> (bytes \<Rightarrow> 'roots option) \<Rightarrow> string list \<Rightarrow> (string \<rightharpoonup> RouteSpec) \<Rightarrow> ACME \<Rightarrow> resource list" where
  "exporter_opens readFile parsePEM order routes acme =
     (if dirs_by_host routes order Map.empty = Map.empty then []
      else (case loadTrustedRoots readFile parsePEM (acme_trusted_roots acme) of Inl e \<Rightarrow> [] | Inr roots \<Rightarrow> [ExportCache]))"

text \<open>The two close methods, on nil too.\<close>

definition terminator_close :: "'roots terminator option \<Rightarrow> resource list" where
  "terminator_close t =
     (case t of
        None \<Rightarrow> []
      | Some tm \<Rightarrow> [HandListener, HttpServer, CertCache] @ (if tm_wildcard tm \<noteq> None then [WildcardCache] else []))"

definition exporter_close :: "'roots exporter option \<Rightarrow> resource list" where
  "exporter_close e = (case e of None \<Rightarrow> [] | Some ex \<Rightarrow> [ExportCache])"

text \<open>Dial, Listen and Close of internal/wgnet: the listener is at the address of the device.\<close>

definition wgnet_Dial :: "(addr_port \<Rightarrow> 'c option) \<Rightarrow> addr_port \<Rightarrow> 'c option" where
  "wgnet_Dial dialTCP dst = dialTCP dst"

definition wgnet_Listen :: "(addr_port \<Rightarrow> 'l option) \<Rightarrow> addr \<Rightarrow> 16 word \<Rightarrow> 'l option" where
  "wgnet_Listen listenTCP a port = listenTCP \<lparr>ap_addr = a, ap_port = port\<rparr>"

definition wgnet_Close :: "resource list" where
  "wgnet_Close = [Device]"

definition listenPort :: "16 word" where
  "listenPort = 443"

section \<open>The accept loop\<close>

text \<open>Connections are handled as they come; the first error of Accept ends the loop.\<close>

fun tunnel_accept :: "'c option list \<Rightarrow> 'c list \<times> bool" where
  "tunnel_accept [] = ([], True)"
| "tunnel_accept (None # rest) = ([], False)"
| "tunnel_accept (Some c # rest) = (case tunnel_accept rest of (cs, on) \<Rightarrow> (c # cs, on))"

lemma tunnel_accept_takes:
  "tunnel_accept xs = (cs, on) \<Longrightarrow> takeWhile (\<lambda>x. x \<noteq> None) xs = map Some cs \<and> (on \<longleftrightarrow> None \<notin> set xs)"
  by (induction xs arbitrary: cs on rule: tunnel_accept.induct) (auto split: prod.splits)

section \<open>What a session sends\<close>

text \<open>The bodies of its three requests; the instance is Random over ten bytes, made once per process.\<close>

definition register_json :: "string \<Rightarrow> Key \<Rightarrow> string \<Rightarrow> string \<rightharpoonup> string" where
  "register_json inst pub version =
     [''instance_id'' \<mapsto> inst, ''wg_public_key'' \<mapsto> Key_String pub, ''version'' \<mapsto> version]"

definition instance_json :: "string \<Rightarrow> string \<rightharpoonup> string" where
  "instance_json inst = [''instance_id'' \<mapsto> inst]"

text \<open>The API never finds fault with what an agent sends: its registration always reaches the store.\<close>

lemma registration_reaches_store:
  assumes "rq_json r = Some (register_json (Random rnd) pub version)" and "length rnd = 10"
    and "GenerateKey bs = Some k" "Key_Public x25519 k = Some pub" "\<And>a b c. x25519 a b = Some c \<Longrightarrow> length c = 32"
  shows "fst (call (AcquireLease (t_id T) (Random rnd) (Key_String pub) version LeaseTTL) s) = Inl e \<Longrightarrow>
      fst (register srv r T s) = fail e"
    "fst (call (AcquireLease (t_id T) (Random rnd) (Key_String pub) version LeaseTTL) s) = Inr () \<Longrightarrow>
      rs_status (fst (register srv r T s)) \<in> {200, 500}"
proof -
  have pub: "length pub = 32" using assms(4,5) by (auto simp: Key_Public_def)
  have valid: "validInstance (Random rnd)" using assms(2) by (auto simp: validInstance_def Random_Nil_iff, simp add: Random_def length_base32_encode)
  have f: "field (register_json (Random rnd) pub version) ''instance_id'' = Random rnd"
    "field (register_json (Random rnd) pub version) ''wg_public_key'' = Key_String pub"
    "field (register_json (Random rnd) pub version) ''version'' = version"
    by (simp_all add: field_def register_json_def)
  have h: "register srv r T s = (case call (AcquireLease (t_id T) (Random rnd) (Key_String pub) version LeaseTTL) s of
      (Inl e, s1) \<Rightarrow> (fail e, s1)
    | (Inr _, s1) \<Rightarrow> (case call (ActiveNodes nodeFreshness) s1 of
        (Inl e, s2) \<Rightarrow> (fail e, s2)
      | (Inr nodes, s2) \<Rightarrow> (writeJSON (RegisterBody \<lparr>rr_tunnel_id = t_id T, rr_vpn_ip = t_vpn_ip T,
           rr_domain = tunnel_domain (t_subdomain T) (srv_base_domain srv), rr_nodes = nodes,
           rr_lease_ttl_seconds = LeaseTTL div second, rr_heartbeat_seconds = HeartbeatEvery div second\<rparr>), s2)))"
    using valid by (simp add: register_def assms(1) Let_def f ParseKey_String [OF pub])
  show "fst (call (AcquireLease (t_id T) (Random rnd) (Key_String pub) version LeaseTTL) s) = Inl e \<Longrightarrow>
      fst (register srv r T s) = fail e"
    unfolding h by (auto split: prod.splits)
  have conn: "e = ErrConn" if "call (ActiveNodes w) s1 = (Inl e, s2)" for w s1 e s2
    using that by (auto simp: call_def ActiveNodes_def query_def stmt_def split: prod.splits fault.splits)
  show "fst (call (AcquireLease (t_id T) (Random rnd) (Key_String pub) version LeaseTTL) s) = Inr () \<Longrightarrow>
      rs_status (fst (register srv r T s)) \<in> {200, 500}"
    unfolding h by (auto simp: writeJSON_def respond_def fail_def writeErr_def split: prod.splits sum.splits dest!: conn)
qed

section \<open>The life of a session\<close>

datatype life = Opened resource | Closed resource | ReleaseSent

text \<open>
  What session does with its resources, in order; the deferred calls run last to first on every
  way out, and none has run while the heartbeats go on.
\<close>

definition session_life :: "'dev agent_env \<Rightarrow> (string \<Rightarrow> url option) \<Rightarrow> File \<Rightarrow> ('dev, 'roots) session_world \<Rightarrow> life list" where
  "session_life env urlParse f w =
     (case fst (agent_register second (sw_replies w)) of
        Registered reg \<Rightarrow>
          (case Resolve (fl_routes f) (rr_domain reg) of
             Inl e \<Rightarrow> []
           | Inr routes \<Rightarrow>
               (case (ParseAddr (rr_vpn_ip reg), sw_device w) of
                  (Some ip, Some dev) \<Rightarrow>
                    let order = sw_order w routes;
                        close_wg = map Closed wgnet_Close;
                        opens_term = map Opened (terminator_opens urlParse (sw_read_file w) (sw_parse_pem w) order routes (fl_acme f));
                        opens_exp = map Opened (exporter_opens (sw_read_file w) (sw_parse_pem w) order routes (fl_acme f))
                    in [Opened Device] @ opens_term @
                       (case newTerminator urlParse (sw_read_file w) (sw_parse_pem w) (sw_manage w) order routes (fl_acme f) of
                          Inl e \<Rightarrow> close_wg
                        | Inr term \<Rightarrow>
                            let close_term = map Closed (terminator_close term) @ close_wg
                            in opens_exp @
                               (case newExporter (sw_read_file w) (sw_parse_pem w) (sw_manage w) order routes (fl_acme f) of
                                  Inl e \<Rightarrow> close_term
                                | Inr exp \<Rightarrow>
                                    let close_exp = map Closed (exporter_close exp) @ close_term
                                    in if \<not> sw_listen w then close_exp
                                       else [Opened TunnelListener] @
                                         (if fst (session env urlParse f w) = SessionRunning then []
                                          else [ReleaseSent, Closed TunnelListener] @ close_exp)))
                | _ \<Rightarrow> []))
      | _ \<Rightarrow> [])"

text \<open>Run: the lives of its sessions, one after another.\<close>

fun run_life :: "'dev agent_env \<Rightarrow> (string \<Rightarrow> url option) \<Rightarrow> File \<Rightarrow> ('dev, 'roots) session_world list \<Rightarrow> life list" where
  "run_life env urlParse f [] = []"
| "run_life env urlParse f (w # ws) =
     session_life env urlParse f w @ (if fst (session env urlParse f w) = SessionError then run_life env urlParse f ws else [])"

section \<open>What is opened is closed\<close>

lemma collect_routes_hosts: "sort hosts = [] \<longleftrightarrow> hosts = []"
  by (metis length_0_conv length_sort)

lemma wildcards_nonempty: "filter P (sort hosts) \<noteq> [] \<longleftrightarrow> list_ex P hosts"
  by (auto simp: filter_empty_conv list_ex_iff)

lemma terminator_balance:
  assumes "newTerminator urlParse readFile parsePEM manage order routes acme = Inr term"
  shows "distinct (terminator_close term)"
    "set (terminator_close term) = set (terminator_opens urlParse readFile parsePEM order routes acme)"
    "distinct (terminator_opens urlParse readFile parsePEM order routes acme)"
  using assms
  by (auto simp: newTerminator_def terminator_opens_def terminator_close_def Let_def wildcards_nonempty [symmetric]
      split: sum.splits prod.splits if_splits)

lemma exporter_balance:
  assumes "newExporter readFile parsePEM manage order routes acme = Inr exp"
  shows "exporter_close exp = exporter_opens readFile parsePEM order routes acme"
  using assms by (auto simp: newExporter_def exporter_opens_def exporter_close_def Let_def split: sum.splits if_splits)

lemma opens_distinct:
  "distinct (Device # terminator_opens urlParse readFile parsePEM order routes acme @ exporter_opens readFile parsePEM order2 routes acme @
     [TunnelListener])"
  by (auto simp: terminator_opens_def exporter_opens_def split: sum.splits prod.splits)

text \<open>
  The shape of a life: openings, the release if the tunnel was up, closings; all that was opened
  is closed, but for what a constructor that failed had opened, and that is fatal.
\<close>

definition orderly :: "life list \<Rightarrow> resource list \<Rightarrow> bool \<Rightarrow> resource list \<Rightarrow> bool" where
  "orderly xs os released cs \<longleftrightarrow>
     xs = map Opened os @ (if released then [ReleaseSent] else []) @ map Closed cs \<and> distinct os \<and> distinct cs \<and> set cs \<subseteq> set os \<and>
     (released \<longleftrightarrow> TunnelListener \<in> set os) \<and> (os \<noteq> [] \<longrightarrow> Device \<in> set cs) \<and>
     (TunnelListener \<in> set os \<longrightarrow> TunnelListener \<in> set cs)"

lemma life_shape:
  assumes "xs = map Opened (Device # os) @ (if released then [ReleaseSent] else []) @ map Closed (cs @ [Device])"
    and "distinct (Device # os)" "distinct (cs @ [Device])" "set cs \<subseteq> set os" "set cs = set os \<or> fatal"
    and "released \<longleftrightarrow> TunnelListener \<in> set os" "TunnelListener \<in> set os \<Longrightarrow> TunnelListener \<in> set cs"
  shows "\<exists>os cs. orderly xs os released cs \<and> (set cs = set os \<or> fatal)"
proof -
  have "orderly xs (Device # os) released (cs @ [Device])" using assms by (auto simp: orderly_def)
  moreover have "set (cs @ [Device]) = set (Device # os) \<or> fatal" using assms(5) by auto
  ultimately show ?thesis by blast
qed

lemma session_life_orderly:
  assumes "fst (session env urlParse f w) \<noteq> SessionRunning"
  shows "\<exists>os cs. orderly (session_life env urlParse f w) os (snd (session env urlParse f w)) cs \<and>
    (set cs = set os \<or> fst (session env urlParse f w) = SessionFatal)"
proof (cases "fst (agent_register second (sw_replies w))")
  case reg: (Registered reg)
  show ?thesis
  proof (cases "Resolve (fl_routes f) (rr_domain reg)")
    case (Inl e)
    then show ?thesis by (simp add: session_life_def session_def session_tunnel_def reg orderly_def)
  next
    case routes: (Inr routes)
    show ?thesis
    proof (cases "ParseAddr (rr_vpn_ip reg) = None \<or> sw_device w = None")
      case True
      then show ?thesis
        by (auto simp: session_life_def session_def session_tunnel_def reg routes orderly_def split: option.splits)
    next
      case False
      then obtain ip dev where up: "ParseAddr (rr_vpn_ip reg) = Some ip" "sw_device w = Some dev" by auto
      let ?tm = "newTerminator urlParse (sw_read_file w) (sw_parse_pem w) (sw_manage w) (sw_order w routes) routes (fl_acme f)"
      let ?exp = "newExporter (sw_read_file w) (sw_parse_pem w) (sw_manage w) (sw_order w routes) routes (fl_acme f)"
      let ?to = "terminator_opens urlParse (sw_read_file w) (sw_parse_pem w) (sw_order w routes) routes (fl_acme f)"
      let ?eo = "exporter_opens (sw_read_file w) (sw_parse_pem w) (sw_order w routes) routes (fl_acme f)"
      note all = opens_distinct [of urlParse "sw_read_file w" "sw_parse_pem w" "sw_order w routes" routes "fl_acme f" "sw_order w routes"]
      note defs = session_life_def session_def session_tunnel_def reg routes up Let_def wgnet_Close_def
      show ?thesis
      proof (cases ?tm)
        case (Inl e)
        then have "session_life env urlParse f w = map Opened (Device # ?to) @ map Closed ([] @ [Device])"
          and "session env urlParse f w = (SessionFatal, False)" by (simp_all add: defs)
        then show ?thesis using all by (intro life_shape [of _ "?to" _ "[]"]) auto
      next
        case made: (Inr tm)
        note tb = terminator_balance [OF made]
        show ?thesis
        proof (cases ?exp)
          case (Inl e)
          then have "session_life env urlParse f w = map Opened (Device # ?to @ ?eo) @ map Closed (terminator_close tm @ [Device])"
            and "session env urlParse f w = (SessionFatal, False)" using made by (simp_all add: defs)
          then show ?thesis using all tb
            by (intro life_shape [of _ "?to @ ?eo" _ "terminator_close tm"]) auto
        next
          case exp: (Inr exp)
          note eb = exporter_balance [OF exp]
          show ?thesis
          proof (cases "sw_listen w")
            case False
            then have "session_life env urlParse f w = map Opened (Device # ?to @ ?eo) @ map Closed ((?eo @ terminator_close tm) @ [Device])"
              and "snd (session env urlParse f w) = False" using made exp eb by (simp_all add: defs)
            then show ?thesis using all tb
              by (intro life_shape [of _ "?to @ ?eo" _ "?eo @ terminator_close tm"]) auto
          next
            case True
            have ends: "snd (session env urlParse f w)"
              using assms True made exp by (auto simp: defs session_loop_def split: hb_result.splits)
            have "session_life env urlParse f w = map Opened (Device # ?to @ ?eo @ [TunnelListener]) @ [ReleaseSent] @
                map Closed (([TunnelListener] @ ?eo @ terminator_close tm) @ [Device])"
              using True assms made exp eb by (simp add: session_life_def reg routes up Let_def wgnet_Close_def)
            then show ?thesis using all tb ends
              by (intro life_shape [of _ "?to @ ?eo @ [TunnelListener]" _ "[TunnelListener] @ ?eo @ terminator_close tm"]) auto
          qed
        qed
      qed
    qed
  qed
qed (use assms in \<open>simp_all add: session_life_def session_def orderly_def\<close>)

text \<open>A session that goes on has only opened.\<close>

lemma session_life_running:
  assumes "fst (session env urlParse f w) = SessionRunning"
  shows "\<exists>os. session_life env urlParse f w = map Opened os \<and> distinct os"
proof (cases "session_life env urlParse f w = []")
  case True
  then show ?thesis by (intro exI [of _ "[]"]) simp
next
  case False
  then obtain reg routes ip dev where up: "fst (agent_register second (sw_replies w)) = Registered reg"
    "Resolve (fl_routes f) (rr_domain reg) = Inr routes" "ParseAddr (rr_vpn_ip reg) = Some ip" "sw_device w = Some dev"
    by (auto simp: session_life_def split: register_result.splits sum.splits option.splits)
  let ?opens = "Device # terminator_opens urlParse (sw_read_file w) (sw_parse_pem w) (sw_order w routes) routes (fl_acme f) @
    exporter_opens (sw_read_file w) (sw_parse_pem w) (sw_order w routes) routes (fl_acme f) @ [TunnelListener]"
  have "e \<noteq> SessionRunning" if "session_tunnel env urlParse f w reg = Inl e" for e
    using that by (auto simp: session_tunnel_def Let_def split: sum.splits option.splits if_splits)
  then obtain t where made: "session_tunnel env urlParse f w reg = Inr t"
    using assms up(1) by (cases "session_tunnel env urlParse f w reg") (simp_all add: session_def)
  let ?made = "newTerminator urlParse (sw_read_file w) (sw_parse_pem w) (sw_manage w) (sw_order w routes) routes (fl_acme f)"
  let ?exp = "newExporter (sw_read_file w) (sw_parse_pem w) (sw_manage w) (sw_order w routes) routes (fl_acme f)"
  obtain tm where tm: "?made = Inr tm" using made up(2-4) by (cases ?made) (simp_all add: session_tunnel_def)
  obtain ex where ex: "?exp = Inr ex" using made up(2-4) tm by (cases ?exp) (simp_all add: session_tunnel_def)
  have "sw_listen w" using made up(2-4) tm ex by (simp add: session_tunnel_def Let_def split: if_splits)
  then have "session_life env urlParse f w = map Opened ?opens"
    using assms up tm ex by (simp add: session_life_def Let_def)
  then show ?thesis using opens_distinct by blast
qed

section \<open>Property\<close>

text \<open>
  What is open after a life, and whether a lease is still in use: the tunnel's listener uses it from
  the moment it is open.  Nothing is opened twice, nothing is closed that is not open; a release
  is sent for a lease in use while the listener is there, and the listener is not closed before.
\<close>

fun still_open :: "resource set \<times> bool \<Rightarrow> life list \<Rightarrow> (resource set \<times> bool) option" where
  "still_open (R, used) [] = Some (R, used)"
| "still_open (R, used) (Opened r # xs) = (if r \<in> R then None else still_open (insert r R, used \<or> r = TunnelListener) xs)"
| "still_open (R, used) (Closed r # xs) =
     (if r \<in> R \<and> (r = TunnelListener \<longrightarrow> \<not> used) then still_open (R - {r}, used) xs else None)"
| "still_open (R, used) (ReleaseSent # xs) = (if TunnelListener \<in> R \<and> used then still_open (R, False) xs else None)"

lemma still_open_append:
  "still_open S (xs @ ys) = (case still_open S xs of None \<Rightarrow> None | Some T \<Rightarrow> still_open T ys)"
  by (induction S xs rule: still_open.induct) auto

lemma still_open_opened:
  "distinct os \<Longrightarrow> set os \<inter> R = {} \<Longrightarrow>
    still_open (R, used) (map Opened os) = Some (R \<union> set os, used \<or> TunnelListener \<in> set os)"
  by (induction os arbitrary: R used) auto

lemma still_open_closed: "distinct cs \<Longrightarrow> set cs \<subseteq> R \<Longrightarrow> still_open (R, False) (map Closed cs) = Some (R - set cs, False)"
proof (induction cs arbitrary: R)
  case (Cons r cs)
  have "still_open (R - {r}, False) (map Closed cs) = Some (R - {r} - set cs, False)" by (rule Cons.IH) (use Cons.prems in auto)
  moreover have "R - {r} - set cs = R - set (r # cs)" by auto
  moreover have "r \<in> R" using Cons.prems(2) by simp
  ultimately show ?case by (simp del: list.set)
qed simp

lemma still_open_orderly:
  assumes "orderly xs os released cs"
  shows "still_open ({}, False) xs = Some (set os - set cs, False)"
proof (cases released)
  case True
  then show ?thesis using assms still_open_opened [of os "{}" False] still_open_closed [of cs "set os"]
    by (auto simp: orderly_def still_open_append)
next
  case False
  then show ?thesis using assms still_open_opened [of os "{}" False] still_open_closed [of cs "set os"]
    by (auto simp: orderly_def still_open_append)
qed

text \<open>
  C36: The agent closes what it opens and gives back what it used.  Over all the sessions of a
  run, however each of them ends and wherever it fails on the way up: nothing is opened twice or
  closed twice; every session whose tunnel came up sends the release of its lease, once, while the
  listener still stands (no listener is closed before); and when the run is over no lease is left
  in use.  A run that was told to stop leaves nothing open; one that ends with a fatal error
  leaves at most what a constructor of certificates had made when it failed, never the device or
  the listener.
\<close>
theorem sessions_clean_up:
  "\<exists>R used. still_open ({}, False) (run_life env urlParse f ws) = Some (R, used) \<and>
    (run_sessions env urlParse f ws = RunStopped \<longrightarrow> R = {} \<and> \<not> used) \<and>
    (run_sessions env urlParse f ws = RunFatal \<longrightarrow> R \<subseteq> {CertCache, WildcardCache, HandListener, HttpServer, ExportCache} \<and> \<not> used)"
proof (induction ws)
  case (Cons w ws)
  let ?s = "session env urlParse f w"
  show ?case
  proof (cases "fst ?s = SessionRunning")
    case True
    obtain os where "session_life env urlParse f w = map Opened os" "distinct os" using session_life_running [OF True] by blast
    then show ?thesis using True still_open_opened [of os "{}" False] by simp
  next
    case False
    obtain os cs where o: "orderly (session_life env urlParse f w) os (snd ?s) cs" "set cs = set os \<or> fst ?s = SessionFatal"
      using session_life_orderly [OF False] by blast
    note live = still_open_orderly [OF o(1)]
    have "Device \<notin> set os - set cs" "TunnelListener \<notin> set os - set cs" using o(1) by (auto simp: orderly_def)
    then have "r \<in> {CertCache, WildcardCache, HandListener, HttpServer, ExportCache}" if "r \<in> set os - set cs" for r
      using that by (cases r) simp_all
    then have rest: "set os - set cs \<subseteq> {CertCache, WildcardCache, HandListener, HttpServer, ExportCache}" by blast
    show ?thesis
    proof (cases "fst ?s")
      case SessionError
      then have "set os - set cs = {}" using o(2) by auto
      with live have "still_open ({}, False) (session_life env urlParse f w) = Some ({}, False)" by (simp only:)
      then show ?thesis using Cons.IH SessionError by (simp add: still_open_append)
    next
      case SessionStopped
      then show ?thesis using live o(2) by (intro exI [of _ "set os - set cs"] exI [of _ False]) simp
    next
      case SessionFatal
      then show ?thesis using live rest by (intro exI [of _ "set os - set cs"] exI [of _ False]) simp
    qed (use False in simp)
  qed
qed (intro exI [of _ "{}"] exI [of _ False], simp)

definition granted_world :: "hb_event list \<Rightarrow> (unit, unit) session_world" where
  "granted_world es = example_world\<lparr>sw_replies := [Some \<lparr>hx_status = 200, hx_status_line = ''200 OK'', hx_error = None,
     hx_value = Some example_reg, hx_last_modified = None, hx_content_length = None\<rparr>], sw_events := es\<rparr>"

lemma granted_session:
  "\<exists>t :: (unit, unit) tunnel. session plain_agent (\<lambda>_. None) example_file (granted_world es) = session_loop plain_agent (15 * second) es t"
proof -
  obtain t where t: "session_tunnel plain_agent (\<lambda>_. None) example_file example_world example_reg = Inr t"
    using example_session by blast
  have "session_tunnel plain_agent (\<lambda>_. None) example_file (granted_world es) example_reg =
      session_tunnel plain_agent (\<lambda>_. None) example_file example_world example_reg"
    unfolding session_tunnel_def granted_world_def example_world_def session_world.simps by (rule HOL.refl)
  with t have "session plain_agent (\<lambda>_. None) example_file (granted_world es) =
      session_loop plain_agent (rr_heartbeat_seconds example_reg * second) es t"
    by (simp add: session_def, simp add: granted_world_def Do_def)
  then show ?thesis unfolding example_reg_def RegisterResponse.simps by blast
qed

theorem sessions_clean_up_witness:
  "run_sessions plain_agent (\<lambda>_. None) example_file
       [granted_world [HbTimer (Some (over_http (\<lambda>_. None) ''POST'' (fail ErrSuperseded)))], granted_world [HbDone]] = RunStopped \<and>
   still_open ({}, False) (run_life plain_agent (\<lambda>_. None) example_file
       [granted_world [HbTimer (Some (over_http (\<lambda>_. None) ''POST'' (fail ErrSuperseded)))], granted_world [HbDone]]) = Some ({}, False)"
proof -
  let ?lost = "[HbTimer (Some (over_http (\<lambda>_. None) ''POST'' (fail ErrSuperseded)))]"
  let ?ws = "[granted_world ?lost, granted_world [HbDone]]"
  obtain t :: "(unit, unit) tunnel" where t: "session plain_agent (\<lambda>_. None) example_file (granted_world ?lost) = session_loop plain_agent (15 * second) ?lost t"
    using granted_session by blast
  have "heartbeat_reply plain_agent (Some (over_http (\<lambda>_. None) ''POST'' (fail ErrSuperseded))) t = HbSuperseded"
    by (simp add: heartbeat_reply_def fail_def Code_writeErr Code_def)
  then have lost: "fst (session plain_agent (\<lambda>_. None) example_file (granted_world ?lost)) = SessionError"
    by (simp add: t session_loop_def Let_def)
  obtain t2 :: "(unit, unit) tunnel" where "session plain_agent (\<lambda>_. None) example_file (granted_world [HbDone]) = session_loop plain_agent (15 * second) [HbDone] t2"
    using granted_session by blast
  then have stopped: "fst (session plain_agent (\<lambda>_. None) example_file (granted_world [HbDone])) = SessionStopped"
    by (simp add: session_loop_def)
  have "run_sessions plain_agent (\<lambda>_. None) example_file ?ws = RunStopped" using lost stopped by simp
  moreover obtain R used where "still_open ({}, False) (run_life plain_agent (\<lambda>_. None) example_file ?ws) = Some (R, used)" "R = {}" "used = False"
    using sessions_clean_up [of plain_agent "\<lambda>_. None" example_file ?ws] calculation by blast
  ultimately show ?thesis by (simp only:)
qed

end
