(* ===== verification/Api_Serve.thy ===== *)
theory Api_Serve
  imports Admin_Props
begin

text \<open>
  serve of cmd/wgrelay-api: the listeners of the control plane, the certificates of its own
  name, and the wait for the first listener that fails or for the end of the context.  autocert
  is third-party code: the model keeps what it is configured with.  filepath.Join is an argument.
\<close>

section \<open>The listeners\<close>

record autocert_config =
  ac_whitelist :: "string list"
  ac_cache :: string
  ac_email :: string
  ac_directory :: "string option"

record api_listener =
  al_addr :: string
  al_tls :: "autocert_config option"

definition api_autocert :: "(string \<Rightarrow> string \<Rightarrow> string) \<Rightarrow> cli_config \<Rightarrow> autocert_config" where
  "api_autocert join cfg =
     \<lparr>ac_whitelist = [cfg_APIDomain cfg], ac_cache = join (cfg_DataDir cfg) ''acme'', ac_email = cfg_ACMEEmail cfg,
      ac_directory = (if cfg_ACMECA cfg \<noteq> [] then Some (cfg_ACMECA cfg) else None)\<rparr>"

definition serve_listeners :: "(string \<Rightarrow> string \<Rightarrow> string) \<Rightarrow> cli_config \<Rightarrow> api_listener list" where
  "serve_listeners join cfg =
     [\<lparr>al_addr = cfg_Listen cfg, al_tls = None\<rparr>] @
     (if cfg_APIDomain cfg \<noteq> [] then [\<lparr>al_addr = cfg_TLSListen cfg, al_tls = Some (api_autocert join cfg)\<rparr>] else [])"

section \<open>Waiting\<close>

text \<open>
  A listener ends, with ErrServerClosed or with another error, which alone goes to the channel;
  or the context ends.  The events come in the order in which the select sees them.  The result
  says which listeners Shutdown is called on.
\<close>

datatype serve_event = ServeEnded nat bool | ServeStop

datatype serve_result = ServeRuns | ServeFailed nat | ServeShutdown "nat list"

fun serve_wait :: "nat \<Rightarrow> serve_event list \<Rightarrow> serve_result" where
  "serve_wait n [] = ServeRuns"
| "serve_wait n (ServeEnded i closed # es) = (if closed \<or> n \<le> i then serve_wait n es else ServeFailed i)"
| "serve_wait n (ServeStop # es) = ServeShutdown [0..<n]"

definition serve :: "(string \<Rightarrow> string \<Rightarrow> string) \<Rightarrow> cli_config \<Rightarrow> serve_event list \<Rightarrow> serve_result" where
  "serve join cfg es = serve_wait (length (serve_listeners join cfg)) es"

lemma serve_wait_failed: "serve_wait n es = ServeFailed i \<Longrightarrow> i < n \<and> ServeEnded i False \<in> set es"
  by (induction n es rule: serve_wait.induct) (auto split: if_splits)

lemma serve_wait_stopped: "serve_wait n es = ServeShutdown is \<Longrightarrow> is = [0..<n] \<and> ServeStop \<in> set es"
  by (induction n es rule: serve_wait.induct) (auto split: if_splits)

lemma serve_wait_runs: "serve_wait n es = ServeRuns \<longleftrightarrow> ServeStop \<notin> set es \<and> (\<forall>i. ServeEnded i False \<in> set es \<longrightarrow> n \<le> i)"
  by (induction n es rule: serve_wait.induct) (auto split: if_splits)

text \<open>serve goes on while every listener of its own does, and ends with an error only for one of them.\<close>

lemma serve_ends:
  "serve join cfg es = ServeRuns \<Longrightarrow> i < length (serve_listeners join cfg) \<Longrightarrow> ServeEnded i False \<notin> set es"
  "serve join cfg es = ServeFailed i \<Longrightarrow> i < length (serve_listeners join cfg) \<and> ServeEnded i False \<in> set es"
  "serve join cfg es = ServeShutdown is \<Longrightarrow> is = [0..<length (serve_listeners join cfg)] \<and> ServeStop \<in> set es"
  using serve_wait_runs serve_wait_failed serve_wait_stopped by (fastforce simp: serve_def)+

text \<open>The API is served in the clear exactly once, and with certificates for no name but its own.\<close>

lemma serve_listeners_tls:
  assumes "l \<in> set (serve_listeners join cfg)"
  shows "al_tls l = None \<and> al_addr l = cfg_Listen cfg \<or> (\<exists>ac. al_tls l = Some ac \<and> ac_whitelist ac = [cfg_APIDomain cfg] \<and> cfg_APIDomain cfg \<noteq> [])"
  using assms by (auto simp: serve_listeners_def api_autocert_def split: if_splits)

end
