(* ===== verification/Dns_Query.thy ===== *)
theory Dns_Query
  imports Node_Props Go_Flags
begin

text \<open>
  test/e2e/dnsquery, the client the tests ask the DNS of a node with: its flags, the question it
  sends, and what it prints of the reply.  The exchange with the server is an argument, as is
  Fqdn of github.com/miekg/dns.
\<close>

section \<open>The program\<close>

definition query_type :: "string \<Rightarrow> nat option" where
  "query_type s =
     (if s = ''A'' then Some TypeA else if s = ''TXT'' then Some TypeTXT
      else if s = ''SOA'' then Some TypeSOA else if s = ''NS'' then Some TypeNS else None)"

text \<open>net.IP.String on an IPv4 address, of 4 bytes or mapped in 16.\<close>

definition ip_text :: "bytes \<Rightarrow> string" where
  "ip_text b = join_with ''.'' (map (\<lambda>x. nat_string (unat x)) (drop (length b - 4) b))"

definition rr_lines :: "RR \<Rightarrow> string list" where
  "rr_lines rr =
     (case rr_data rr of
        RD_A ip \<Rightarrow> [ip_text ip]
      | RD_TXT txts \<Rightarrow> txts
      | RD_NS ns \<Rightarrow> [ns]
      | RD_SOA ns mbox serial refresh retry expire minttl \<Rightarrow> [ns @ '' '' @ mbox])"

text \<open>The exit status and the lines on standard output.\<close>

definition show_reply :: "bool \<Rightarrow> msg \<Rightarrow> nat \<times> string list" where
  "show_reply expectRefused resp =
     (if expectRefused then (if m_rcode resp \<noteq> RcodeRefused then (1, []) else (0, [''REFUSED'']))
      else if m_rcode resp \<noteq> RcodeSuccess then (1, [])
      else (0, concat (map rr_lines (m_answer resp))))"

definition query_flags :: flags where
  "query_flags = [''server'' \<mapsto> FString [], ''net'' \<mapsto> FString ''udp'', ''type'' \<mapsto> FString ''A'', ''name'' \<mapsto> FString [],
     ''expect-refused'' \<mapsto> FBool False]"

definition dnsquery_main :: "dns_lib \<Rightarrow> (string \<Rightarrow> string \<Rightarrow> question \<Rightarrow> msg option) \<Rightarrow> string list \<Rightarrow> nat \<times> string list" where
  "dnsquery_main lib exchange args =
     (case parse_flags query_flags args of
        Inl FlagHelp \<Rightarrow> (0, [])
      | Inl FlagBad \<Rightarrow> (2, [])
      | Inr fl \<Rightarrow>
          if string_flag fl ''server'' = [] \<or> string_flag fl ''name'' = [] then (2, [])
          else case query_type (string_flag fl ''type'') of
                 None \<Rightarrow> (2, [])
               | Some qt \<Rightarrow>
                   (case exchange (string_flag fl ''net'') (string_flag fl ''server'')
                           \<lparr>q_name = lib_Fqdn lib (string_flag fl ''name''), q_type = qt\<rparr> of
                      None \<Rightarrow> (1, [])
                    | Some resp \<Rightarrow> show_reply (bool_flag fl ''expect-refused'') resp))"

section \<open>What it tells\<close>

lemma dnsquery_txt:
  assumes "server \<noteq> []" and "name \<noteq> []"
  shows "dnsquery_main lib exchange [''-server'', server, ''-type'', ''TXT'', ''-name'', name] =
    (case exchange ''udp'' server \<lparr>q_name = lib_Fqdn lib name, q_type = TypeTXT\<rparr> of
       None \<Rightarrow> (1, []) | Some resp \<Rightarrow> show_reply False resp)"
  using assms
  by (simp add: dnsquery_main_def query_flags_def flag_body_def split_flag_def cut_def flag_set_def string_flag_def bool_flag_def
      query_type_def split: option.split)

lemma txt_lines: "map rr_data rrs = map (\<lambda>c. RD_TXT [g c]) cs \<Longrightarrow> concat (map rr_lines rrs) = map g cs"
proof (induction rrs arbitrary: cs)
  case (Cons rr rrs)
  then obtain c cs' where "cs = c # cs'" "rr_data rr = RD_TXT [g c]" "map rr_data rrs = map (\<lambda>c. RD_TXT [g c]) cs'"
    by (cases cs) auto
  with Cons.IH show ?case by (simp add: rr_lines_def)
qed simp

text \<open>
  C28: At every moment of a run of a node, once it has a configuration, and if every configuration
  it was sent carries a zone with well-formed names, asking its DNS server for the TXT records of a
  name in the zone prints exactly the values of the challenges of that name in the configuration
  whose version the node reports, in their order, and nothing else.
\<close>
theorem node_serves_challenges:
  assumes "dns_contract (ne_lib env)" and "orders_ok env"
    and "run_trace env cfg evs (run_start n) = Some s" and "rs_version s \<noteq> []"
    and "\<forall>reply c. EvSyncReply reply \<in> set evs \<and> Do reply = Inr c \<longrightarrow> (\<exists>dz. nc_dns c = Some dz \<and> dz_zone dz = zone \<and>
      (\<forall>x\<in>set (dz_challenges dz). stored_name (txt_fqdn x)))"
    and "stored_name zone" and "zone \<noteq> []" and "stored_name f" and "in_domain zone f" and "f \<noteq> []" and "server \<noteq> []"
    and "exchange = (\<lambda>net srv q. Some (serve_query (ne_lib env) now (ns_dns (rs_node s)) [q]))"
  shows "\<exists>reply c dz. EvSyncReply reply \<in> set evs \<and> Do reply = Inr c \<and> rs_version s = nc_version c \<and> nc_dns c = Some dz \<and>
    dnsquery_main (ne_lib env) exchange [''-server'', server, ''-type'', ''TXT'', ''-name'', f] =
      (0, map txt_value (filter (\<lambda>x. txt_fqdn x = f) (dz_challenges dz)))"
proof -
  from run_zone [OF assms(3,4)] assms(5) obtain reply c
    where c: "EvSyncReply reply \<in> set evs" "Do reply = Inr c" "rs_version s = nc_version c" "serving_zone env c (rs_node s)"
    by (metis option.discI)
  then obtain dz where dz: "nc_dns c = Some dz" "dz_zone dz = zone" "\<forall>x\<in>set (dz_challenges dz). stored_name (txt_fqdn x)"
    and z: "srv_zone_now (ns_dns (rs_node s)) = normalize (ne_lib env) (ne_name_order env (z_challenges (zone_of dz))) (zone_of dz)"
    using assms(5) unfolding serving_zone_def by (metis option.inject)
  have low: "to_lower f = f" using assms(8) by (simp add: stored_name_def to_lower_id)
  then have q: "lib_Fqdn (ne_lib env) f = f @ ''.''" using norm_stored [OF assms(1,8)] by (simp add: norm_name_def)
  have "to_lower (f @ ''.'') = f @ ''.''" using low by (simp add: to_lower_def lower_char_def is_upper_def less_eq_char_def)
  note r = zone_answers_challenges [OF assms(1,2) z _ _ dz(3) assms(8) _ this, of now, unfolded dz(2), OF assms(6,7,9)]
  have "show_reply False (serve_query (ne_lib env) now (ns_dns (rs_node s)) [\<lparr>q_name = f @ ''.'', q_type = TypeTXT\<rparr>]) =
      (0, map txt_value (filter (\<lambda>x. txt_fqdn x = f) (dz_challenges dz)))"
    unfolding show_reply_def using r(2) txt_lines [OF r(3)] by simp
  then have "dnsquery_main (ne_lib env) exchange [''-server'', server, ''-type'', ''TXT'', ''-name'', f] =
      (0, map txt_value (filter (\<lambda>x. txt_fqdn x = f) (dz_challenges dz)))"
    by (simp add: dnsquery_txt [OF assms(11,10)] assms(12) q)
  with c dz(1) show ?thesis by blast
qed

text \<open>Two names with a challenge; the question names one of them.\<close>

definition zone_config :: NodeConfig where
  "zone_config = \<lparr>nc_version = ''1'', nc_peers = [], nc_routes = [],
     nc_dns = Some \<lparr>dz_zone = ''z'', dz_ns_names = [], dz_soa_email = [], dz_edge = [],
       dz_challenges = [\<lparr>txt_fqdn = ''a.z'', txt_value = ''v''\<rparr>, \<lparr>txt_fqdn = ''b.z'', txt_value = ''w''\<rparr>]\<rparr>\<rparr>"

lemma zone_run:
  "\<exists>s. run_trace plain_env plain_ncf [EvSyncTest, EvSyncReply (Some (ok_reply zone_config))] (run_start idle_node) = Some s \<and>
     rs_version s = ''1''"
proof -
  obtain m where "apply_config plain_env zone_config idle_node = (True, m)"
    using apply_plain [of zone_config "[]" Map.empty idle_node] by (auto simp: zone_config_def)
  then have "sync_turn plain_env (Some (ok_reply zone_config)) [] idle_node = SyncNext ''1'' 0 m"
    by (simp add: sync_turn_def zone_config_def)
  then show ?thesis by (simp add: run_start_def sync_test_def sync_reply_def)
qed

theorem node_serves_challenges_witness:
  "\<exists>s. run_trace plain_env plain_ncf [EvSyncTest, EvSyncReply (Some (ok_reply zone_config))] (run_start idle_node) = Some s \<and>
     dnsquery_main plain_lib (\<lambda>net srv q. Some (serve_query plain_lib 0 (ns_dns (rs_node s)) [q]))
       [''-server'', ''n:53'', ''-type'', ''TXT'', ''-name'', ''a.z''] = (0, [''v''])"
proof -
  let ?evs = "[EvSyncTest, EvSyncReply (Some (ok_reply zone_config))]"
  obtain s where s: "run_trace plain_env plain_ncf ?evs (run_start idle_node) = Some s" "rs_version s = ''1''"
    using zone_run by blast
  have lib: "ne_lib plain_env = plain_lib" by (simp add: plain_env_def)
  have names: "stored_name ''z''" "stored_name ''a.z''" "stored_name ''b.z''"
    by (simp_all add: stored_name_def lowercase_def is_upper_def less_eq_char_def has_suffix_def)
  have confs: "\<forall>reply c. EvSyncReply reply \<in> set ?evs \<and> Do reply = Inr c \<longrightarrow> (\<exists>dz. nc_dns c = Some dz \<and> dz_zone dz = ''z'' \<and>
      (\<forall>x\<in>set (dz_challenges dz). stored_name (txt_fqdn x)))"
    using names by (auto simp: zone_config_def)
  have version: "rs_version s \<noteq> []" using s(2) by simp
  have below: "in_domain ''z'' ''a.z''" by (simp add: in_domain_def)
  have "\<exists>reply c dz. EvSyncReply reply \<in> set ?evs \<and> Do reply = Inr c \<and> rs_version s = nc_version c \<and> nc_dns c = Some dz \<and>
      dnsquery_main (ne_lib plain_env) (\<lambda>net srv q. Some (serve_query (ne_lib plain_env) 0 (ns_dns (rs_node s)) [q]))
        [''-server'', ''n:53'', ''-type'', ''TXT'', ''-name'', ''a.z''] = (0, map txt_value (filter (\<lambda>x. txt_fqdn x = ''a.z'') (dz_challenges dz)))"
    by (rule node_serves_challenges [OF _ plain_env_orders s(1) version confs names(1) _ names(2) below])
      (simp_all add: lib plain_lib_contract)
  then show ?thesis using s(1) by (auto simp: lib zone_config_def)
qed

end
