(* ===== verification/Api_Policy.thy ===== *)
theory Api_Policy
  imports Api_Props
begin

text \<open>
  The API as an access policy over the store: which operation of the store a request may have
  done, on whose behalf, and that it does no other.
\<close>

section \<open>The policy\<close>





section \<open>The handlers keep it\<close>

























section \<open>Properties\<close>



end
