(* ===== verification/Api_Errors.thy ===== *)
theory Api_Errors
  imports Api_Client Api_Props
begin

text \<open>
  The errors of the store on their way to the caller: through the handler and the middleware of
  internal/api, over HTTP, and through the client of internal/apiclient.
\<close>

section \<open>What the store says to a request\<close>

definition store_says :: "'a dbm \<Rightarrow> ('p, 'l) api_state \<Rightarrow> store_err \<Rightarrow> bool" where
  "store_says m s e \<longleftrightarrow> fst (m (api_db s)) = Inl e"

text \<open>
  The error that ends a well-formed request of the tunnel T: of the operations its route asks of
  the store, in this order.  A challenge that is not there is no error to the one who deletes it.
\<close>

definition agent_store_error :: "('p, 'l) Server \<Rightarrow> request \<Rightarrow> route \<Rightarrow> Tunnel \<Rightarrow> ('p, 'l) api_state \<Rightarrow> store_err \<Rightarrow> bool" where
  "agent_store_error srv r rt T s e \<longleftrightarrow>
     (case rt of
        Register \<Rightarrow> \<exists>j. rq_json r = Some j \<and> ParseKey (field j ''wg_public_key'') \<noteq> None \<and>
          field j ''instance_id'' \<noteq> [] \<and> length (field j ''instance_id'') \<le> 64 \<and>
          store_says (bindr (AcquireLease (t_id T) (field j ''instance_id'') (field j ''wg_public_key'') (field j ''version'') LeaseTTL)
            (\<lambda>_. ActiveNodes nodeFreshness)) s e
      | Heartbeat \<Rightarrow> \<exists>j. rq_json r = Some j \<and>
          store_says (bindr (RenewLease (t_id T) (field j ''instance_id'') LeaseTTL) (\<lambda>_. ActiveNodes nodeFreshness)) s e
      | Release \<Rightarrow> \<exists>j. rq_json r = Some j \<and> store_says (ReleaseLease (t_id T) (field j ''instance_id'')) s e
      | StorageIndex \<Rightarrow> store_says (StorageList (srv_collation srv) (t_id T) (rq_query r ''prefix'')) s e
      | StorageKey key \<Rightarrow> key \<noteq> [] \<and> length key \<le> 512 \<and> \<not> contains key ''..'' \<and>
          (if rq_method r = ''PUT'' then length (rq_body r) \<le> 2 ^ 20 \<and> store_says (StoragePut (t_id T) key (rq_body r)) s e
           else if rq_method r = ''DELETE'' then store_says (StorageDelete (t_id T) key) s e
           else store_says (StorageGet (t_id T) key) s e)
      | AcmeDNS \<Rightarrow> \<exists>s1 s2 s3 j fqdn recid. acme_possible srv s = (True, s1) \<and> allow_dns srv (t_id T) s1 = (True, s2) \<and>
          rq_json r = Some j \<and> fqdn = to_lower (trim_suffix (field j ''fqdn'') ''.'') \<and>
          challenge_name (tunnel_domain (t_subdomain T) (srv_base_domain srv)) fqdn \<and>
          field j ''value'' \<noteq> [] \<and> length (field j ''value'') \<le> 512 \<and>
          (srv_provider srv = None \<and> recid = [] \<and> s3 = s2 \<or>
           (\<exists>p p'. srv_provider srv = Some p \<and> prov_create p fqdn (field j ''value'') (api_prov s2) = (Some recid, p') \<and>
              s3 = s2\<lparr>api_prov := p'\<rparr>)) \<and>
          store_says (CreateDNSChallenge (t_id T) fqdn (field j ''value'') recid (rq_random r)) s3 e
      | AcmeDNSId c \<Rightarrow> e \<noteq> ErrNotFound \<and> store_says (bindr (DNSChallenge (t_id T) c) (\<lambda>_. DeleteDNSChallenge (t_id T) c)) s e
      | _ \<Rightarrow> False)"

definition node_store_error :: "('p, 'l) Server \<Rightarrow> request \<Rightarrow> route \<Rightarrow> Node \<Rightarrow> ('p, 'l) api_state \<Rightarrow> store_err \<Rightarrow> bool" where
  "node_store_error srv r rt n s e \<longleftrightarrow>
     (case rt of
        HelloRoute \<Rightarrow> \<exists>j. rq_json r = Some j \<and> ParseKey (field j ''wg_public_key'') \<noteq> None \<and>
          store_says (NodeHello (n_id n) (field j ''wg_public_key'') (field j ''version'')) s e
      | ConfigRoute \<Rightarrow> store_says (bindr (TouchNode (n_id n))
          (\<lambda>_. store_NodeConfig (srv_collation srv) (srv_base_domain srv) nodeFreshness (srv_zone srv))) s e
      | _ \<Rightarrow> False)"

text \<open>The same for a request as it arrives: its token is looked up first.\<close>

definition store_error :: "('p, 'l) Server \<Rightarrow> request \<Rightarrow> route \<Rightarrow> ('p, 'l) api_state \<Rightarrow> store_err \<Rightarrow> bool" where
  "store_error srv r rt s e \<longleftrightarrow>
     (if rt = HelloRoute \<or> rt = ConfigRoute then
        \<exists>tok. Parse (bearer r) PrefixNode = Inr tok \<and>
          (store_says (AuthNode tok) s e \<or> (\<exists>n s1. call (AuthNode tok) s = (Inr n, s1) \<and> node_store_error srv r rt n s1 e))
      else rt \<noteq> Healthz \<and>
        (\<exists>tok. Parse (bearer r) PrefixAgent = Inr tok \<and>
          (store_says (AuthAgent tok) s e \<or> (\<exists>T s1. call (AuthAgent tok) s = (Inr T, s1) \<and> agent_store_error srv r rt T s1 e))))"

text \<open>The status and the code each error stands for.\<close>

definition error_table :: "store_err \<Rightarrow> nat \<times> string" where
  "error_table e =
     (case e of
        ErrUnauthorized \<Rightarrow> (401, ''unauthorized'')
      | ErrNotFound \<Rightarrow> (404, ''not_found'')
      | ErrLeaseHeld \<Rightarrow> (409, ''lease_held'')
      | ErrSuperseded \<Rightarrow> (409, ''superseded'')
      | ErrPubkeyInUse \<Rightarrow> (400, ''bad_request'')
      | _ \<Rightarrow> (500, ''internal''))"

section \<open>What the handlers make of it\<close>

definition tells :: "store_err \<Rightarrow> response \<Rightarrow> bool" where
  "tells e resp \<longleftrightarrow> (\<exists>msg. resp = writeErr (fst (error_table e)) (snd (error_table e)) msg)"

lemma tells_fail: "tells e (fail e)"
  by (cases e) (auto simp: tells_def error_table_def fail_def error_codes)

lemma tells_no_key: "tells ErrNotFound (writeErr 404 proto_ErrNotFound m)"
  by (auto simp: tells_def error_table_def error_codes)

lemma says_call: "store_says m s e \<Longrightarrow> \<exists>s1. call m s = (Inl e, s1)"
  by (auto simp: store_says_def call_def split: prod.splits)

lemma says_bind:
  assumes "store_says (bindr m f) s e"
  shows "(\<exists>s1. call m s = (Inl e, s1)) \<or> (\<exists>x s1 s2. call m s = (Inr x, s1) \<and> call (f x) s1 = (Inl e, s2))"
  using assms by (auto simp: store_says_def call_def bindr_def split: prod.splits sum.splits)

lemma acme_tells:
  assumes "agent_store_error srv r AcmeDNS T s e"
  shows "\<exists>s'. acmeDNSCreate srv r T s = (fail e, s')"
proof -
  from assms obtain s1 s2 s3 j fqdn recid where p: "acme_possible srv s = (True, s1)" and a: "allow_dns srv (t_id T) s1 = (True, s2)"
    and j: "rq_json r = Some j" and f: "fqdn = to_lower (trim_suffix (field j ''fqdn'') ''.'')"
    and name: "challenge_name (tunnel_domain (t_subdomain T) (srv_base_domain srv)) fqdn"
    and v: "field j ''value'' \<noteq> []" "length (field j ''value'') \<le> 512"
    and prov: "srv_provider srv = None \<and> recid = [] \<and> s3 = s2 \<or>
       (\<exists>p p'. srv_provider srv = Some p \<and> prov_create p fqdn (field j ''value'') (api_prov s2) = (Some recid, p') \<and> s3 = s2\<lparr>api_prov := p'\<rparr>)"
    and e: "store_says (CreateDNSChallenge (t_id T) fqdn (field j ''value'') recid (rq_random r)) s3 e"
    unfolding agent_store_error_def by auto
  obtain s4 where c: "call (CreateDNSChallenge (t_id T) fqdn (field j ''value'') recid (rq_random r)) s3 = (Inl e, s4)"
    using says_call [OF e] by blast
  have made: "(case srv_provider srv of None \<Rightarrow> (Some [], s2)
      | Some p \<Rightarrow> (case prov_create p fqdn (field j ''value'') (api_prov s2) of (i, p') \<Rightarrow> (i, s2\<lparr>api_prov := p'\<rparr>))) = (Some recid, s3)"
    using prov by auto
  show ?thesis
    using name v c made by (auto simp: acmeDNSCreate_def p a j Let_def f [symmetric] valid_challenge_name)
qed

lemma acme_delete_tells:
  assumes "agent_store_error srv r (AcmeDNSId c) T s e"
  shows "\<exists>s'. acmeDNSDelete srv c T s = (fail e, s')"
proof -
  have ne: "e \<noteq> ErrNotFound" and e: "store_says (bindr (DNSChallenge (t_id T) c) (\<lambda>_. DeleteDNSChallenge (t_id T) c)) s e"
    using assms by (simp_all add: agent_store_error_def)
  from says_bind [OF e] show ?thesis
  proof
    assume "\<exists>s1. call (DNSChallenge (t_id T) c) s = (Inl e, s1)"
    then show ?thesis using ne by (auto simp: acmeDNSDelete_def)
  next
    assume "\<exists>x s1 s2. call (DNSChallenge (t_id T) c) s = (Inr x, s1) \<and> call (DeleteDNSChallenge (t_id T) c) s1 = (Inl e, s2)"
    then obtain val recid s1 s2 where a: "call (DNSChallenge (t_id T) c) s = (Inr (val, recid), s1)"
      and b: "call (DeleteDNSChallenge (t_id T) c) s1 = (Inl e, s2)" by auto
    define s0 where "s0 = (case srv_provider srv of
        Some p \<Rightarrow> if recid \<noteq> [] then s1\<lparr>api_prov := snd (prov_delete p recid (api_prov s1))\<rparr> else s1 | None \<Rightarrow> s1)"
    have "api_db s0 = api_db s1" by (simp add: s0_def split: option.splits)
    then obtain s3 where "call (DeleteDNSChallenge (t_id T) c) s0 = (Inl e, s3)"
      using b by (auto simp: call_def split: prod.splits)
    then show ?thesis using ne unfolding acmeDNSDelete_def a Let_def by (simp add: s0_def [symmetric])
  qed
qed

lemma agent_tells:
  assumes "agent_handler srv r rt = Some h" and "h T s = (resp, s')" and "agent_store_error srv r rt T s e"
  shows "tells e resp"
proof (cases rt)
  case Register
  then show ?thesis using assms
    by (auto simp: agent_store_error_def register_def validInstance_def Let_def tells_fail dest!: says_bind)
next
  case Heartbeat
  then show ?thesis using assms by (auto simp: agent_store_error_def heartbeat_def tells_fail dest!: says_bind)
next
  case Release
  then show ?thesis using assms by (auto simp: agent_store_error_def release_def tells_fail dest!: says_call)
next
  case StorageIndex
  then show ?thesis using assms by (auto simp: agent_store_error_def storageList_def tells_fail dest!: says_call)
next
  case (StorageKey k)
  then show ?thesis using assms
    by (auto simp: agent_store_error_def storageKey_def storagePut_def storageDelete_def storageGet_def maxStorageValue_def
        tells_fail tells_no_key split: if_splits dest!: says_call)
next
  case AcmeDNS
  then show ?thesis using assms acme_tells [of srv r T s e] by (auto simp: tells_fail)
next
  case (AcmeDNSId c)
  then show ?thesis using assms acme_delete_tells [of srv r c T s e] by (auto simp: tells_fail)
qed (use assms in auto)

lemma hello_tells:
  assumes "nodeHello r n s = (resp, s')" and "node_store_error srv r HelloRoute n s e"
  shows "tells e resp"
  using assms by (auto simp: node_store_error_def nodeHello_def Let_def tells_fail dest!: says_call)

lemma config_tells:
  assumes "nodeConfig srv r n sched s = (resp, s')" and "node_store_error srv r ConfigRoute n s e"
  shows "\<exists>x. resp = Some x \<and> tells e x"
proof -
  have "store_says (bindr (TouchNode (n_id n)) (\<lambda>_. store_NodeConfig (srv_collation srv) (srv_base_domain srv) nodeFreshness (srv_zone srv))) s e"
    using assms(2) by (simp add: node_store_error_def)
  then have "\<exists>s1. config_look srv (rq_query r ''since'') n s = (Some (fail e), s1)"
    by (auto simp: config_look_def dest!: says_bind)
  then show ?thesis using assms(1) by (auto simp: nodeConfig_def config_loop.simps tells_fail)
qed

lemma Handler_tells:
  assumes h: "Handler srv r sched s = (Some resp, s')" and rt: "route_of (rq_path r) = Some rt" "rq_method r \<in> set (methods rt)"
    and e: "store_error srv r rt s e"
  shows "tells e resp"
proof (cases "rt = HelloRoute \<or> rt = ConfigRoute")
  case True
  then obtain tok where tok: "Parse (bearer r) PrefixNode = Inr tok"
    and or: "store_says (AuthNode tok) s e \<or> (\<exists>n s1. call (AuthNode tok) s = (Inr n, s1) \<and> node_store_error srv r rt n s1 e)"
    using e by (auto simp: store_error_def)
  from or show ?thesis
  proof
    assume "store_says (AuthNode tok) s e"
    then show ?thesis using h rt True tok by (auto simp: Handler_def node_def tells_fail dest!: says_call)
  next
    assume "\<exists>n s1. call (AuthNode tok) s = (Inr n, s1) \<and> node_store_error srv r rt n s1 e"
    then show ?thesis using h rt True tok
      by (auto simp: Handler_def node_def split: prod.splits dest: hello_tells config_tells)
  qed
next
  case False
  then obtain tok where tok: "Parse (bearer r) PrefixAgent = Inr tok" and nh: "rt \<noteq> Healthz"
    and or: "store_says (AuthAgent tok) s e \<or> (\<exists>T s1. call (AuthAgent tok) s = (Inr T, s1) \<and> agent_store_error srv r rt T s1 e)"
    using e by (auto simp: store_error_def)
  obtain h where hd: "agent_handler srv r rt = Some h" using False nh by (cases rt) auto
  then have ag: "agent h r s = (resp, s')" using h rt by (auto simp: Handler_def split: prod.splits)
  from or show ?thesis
  proof
    assume "store_says (AuthAgent tok) s e"
    then show ?thesis using ag tok by (auto simp: agent_def tells_fail dest!: says_call)
  next
    assume "\<exists>T s1. call (AuthAgent tok) s = (Inr T, s1) \<and> agent_store_error srv r rt T s1 e"
    then show ?thesis using ag tok agent_tells [OF hd] by (auto simp: agent_def)
  qed
qed

section \<open>Properties\<close>

text \<open>
  C23: Whatever error ends the store's work for a request, at the look-up of its token or in an
  operation of its route, reaches the caller of the client as that error: with the status and the
  code that stand for it (error_table), whichever of the client's three ways of reading the reply
  is used, and whatever else happens during a long poll.  For HEAD, whose reply has no body, see
  Code_HEAD.
\<close>
theorem client_sees_store_error:
  assumes "Handler srv r sched s = (Some resp, s')" and "route_of (rq_path r) = Some rt" and "rq_method r \<in> set (methods rt)"
    and "rq_method r \<noteq> ''HEAD''" and "store_error srv r rt s e"
  shows "\<exists>msg. let err = ApiError (fst (error_table e)) (snd (error_table e)) msg; reply = Some (over_http dec (rq_method r) resp)
    in Do reply = Inl err \<and> Do_none reply = Inl err \<and> Raw reply = Inl err"
proof -
  obtain msg where resp: "resp = writeErr (fst (error_table e)) (snd (error_table e)) msg"
    using Handler_tells [OF assms(1-3,5)] by (auto simp: tells_def)
  have "400 \<le> fst (error_table e)" by (cases e) (simp_all add: error_table_def)
  then show ?thesis using assms(4) unfolding resp Let_def by (simp add: Code_writeErr)
qed

text \<open>Right after the first tunnel was made no instance holds its lease, so a heartbeat is refused.\<close>

definition example_beat :: request where
  "example_beat = example_request ''POST'' ''/v1/agent/heartbeat'' (Some [''instance_id'' \<mapsto> ''one'']) []"

lemma example_superseded:
  "call (RenewLease 1 ''one'' LeaseTTL) first_state = (Inl ErrSuperseded, first_state)"
  "Handler example_server example_beat [] first_state = (Some (fail ErrSuperseded), first_state)"
proof -
  have "RenewLease 1 ''one'' LeaseTTL first_db = (Inl ErrSuperseded, first_db)"
    by (simp add: first_db_def first_tunnel_def run_defs RenewLease_def require_rows_def sql_renew_lease_def throw_def)
  then show c: "call (RenewLease 1 ''one'' LeaseTTL) first_state = (Inl ErrSuperseded, first_state)"
    by (simp add: call_def first_state_def)
  have p: "rq_path example_beat = ''/v1/agent/heartbeat''" "rq_method example_beat = ''POST''"
      "rq_json example_beat = Some [''instance_id'' \<mapsto> ''one'']"
    by (simp_all add: example_beat_def example_request_def)
  have "agent (heartbeat example_beat) example_beat first_state = heartbeat example_beat first_T first_state"
    using example_agent unfolding example_beat_def by blast
  also have "\<dots> = (fail ErrSuperseded, first_state)" by (simp add: heartbeat_def p field_def first_T_def c)
  finally show "Handler example_server example_beat [] first_state = (Some (fail ErrSuperseded), first_state)"
    by (simp add: Handler_def p route_examples)
qed

lemma example_beat_error: "store_error example_server example_beat Heartbeat first_state ErrSuperseded"
proof -
  have "bindr (RenewLease 1 ''one'' LeaseTTL) (\<lambda>_. ActiveNodes nodeFreshness) first_db = (Inl ErrSuperseded, first_db)"
    using example_superseded(1) by (simp add: call_def first_state_def bindr_def split: prod.splits)
  then have "agent_store_error example_server example_beat Heartbeat first_T first_state ErrSuperseded"
    by (simp add: agent_store_error_def store_says_def example_beat_def example_request_def field_def first_T_def first_state_def)
  moreover have "call (AuthAgent first_token) first_state = (Inr first_T, first_state)"
    by (simp add: call_def first_state_def first_token_auth)
  moreover have "Parse (bearer example_beat) PrefixAgent = Inr first_token"
    unfolding example_beat_def example_bearer by (rule first_token_parse)
  ultimately show ?thesis unfolding store_error_def by auto
qed

theorem client_sees_store_error_witness:
  "\<exists>resp msg. Handler example_server example_beat [] first_state = (Some resp, first_state) \<and>
     Do_none (Some (over_http (\<lambda>_. None :: unit option) ''POST'' resp)) = Inl (ApiError 409 ''superseded'' msg)"
proof -
  have p: "route_of (rq_path example_beat) = Some Heartbeat" "rq_method example_beat = ''POST''"
    by (simp_all add: example_beat_def example_request_def route_examples)
  show ?thesis
    using client_sees_store_error [OF example_superseded(2) p(1) _ _ example_beat_error, of "\<lambda>_. None :: unit option"]
      example_superseded(2) p(2)
    by (auto simp: error_table_def Let_def)
qed

end
