(* ===== verification/Admin_Report.thy ===== *)
theory Admin_Report
  imports Admin_Props
begin

text \<open>
  What the administration commands tell the operator is true of the database they leave, and what
  they do not tell they did not do.
\<close>

section \<open>The truth of a line\<close>

text \<open>
  A line of the output, against the arguments of the command, all it printed and the database
  before and after.  A token is the one that now opens what was created or rotated; an address is
  an IPv4 address.
\<close>

definition shows_node :: "Node \<Rightarrow> node_row \<Rightarrow> bool" where
  "shows_node n row \<longleftrightarrow>
     nd_id row = n_id n \<and> nd_name row = n_name n \<and> nd_endpoint row = n_endpoint n \<and> ip4_string (nd_gateway row) = n_gateway_ip n \<and>
     (if n_public_ip n = [] then nd_public_ip row = None
      else \<exists>w. ParseAddr (n_public_ip n) = Some (Addr4 w) \<and> nd_public_ip row = Some w)"

definition truthful :: "string \<Rightarrow> string list \<Rightarrow> cli_out list \<Rightarrow> db \<Rightarrow> db \<Rightarrow> cli_out \<Rightarrow> bool" where
  "truthful base args out d d' line \<longleftrightarrow>
     (case line of
        TunnelCreated T domain \<Rightarrow>
          domain = t_subdomain T @ ''.'' @ base \<and> t_id T \<notin> tunnel_ids (db_tables d) \<and>
          (\<exists>fl. parse_flags [''email'' \<mapsto> FString [], ''plan'' \<mapsto> FString ''persistent''] args = Inr fl \<and>
             t_email T = string_flag fl ''email'' \<and> t_email T \<noteq> []) \<and>
          (\<exists>tok. TunnelToken tok \<in> set out \<and> AuthAgent tok d' = (Inr T, d'))
      | TunnelToken tok \<Rightarrow> \<exists>T domain. TunnelCreated T domain \<in> set out \<and> AuthAgent tok d' = (Inr T, d')
      | TokenRotated tok \<Rightarrow>
          (\<exists>fl T. parse_flags [''id'' \<mapsto> FInt 0] args = Inr fl \<and> AuthAgent tok d' = (Inr T, d') \<and> t_id T = int_flag fl ''id'' \<and>
             lease_of (db_tables d') (t_id T) = None)
      | NodeCreated n \<Rightarrow>
          n_name n \<noteq> [] \<and> n_endpoint n \<noteq> [] \<and> n_id n \<notin> nd_id ` set (node_rows (db_tables d)) \<and>
          (\<exists>row\<in>set (node_rows (db_tables d')). shows_node n row) \<and>
          (\<exists>fl. parse_flags [''name'' \<mapsto> FString [], ''endpoint'' \<mapsto> FString [], ''public-ip'' \<mapsto> FString []] args = Inr fl \<and>
             n_name n = string_flag fl ''name'' \<and> n_endpoint n = string_flag fl ''endpoint'' \<and> n_public_ip n = string_flag fl ''public-ip'')
      | NodeToken tok \<Rightarrow> \<exists>n m. NodeCreated n \<in> set out \<and> AuthNode tok d' = (Inr m, d') \<and> n_id m = n_id n
      | NodeIPSet i p \<Rightarrow> i \<in> nd_id ` set (node_rows (db_tables d)) \<and>
          (\<exists>w. ParseAddr p = Some (Addr4 w) \<and>
             node_rows (db_tables d') = map (\<lambda>n. if nd_id n = i then n\<lparr>nd_public_ip := Some w\<rparr> else n) (node_rows (db_tables d)))
      | NodeEndpointSet i e \<Rightarrow> i \<in> nd_id ` set (node_rows (db_tables d)) \<and> e \<noteq> [] \<and>
          node_rows (db_tables d') = map (\<lambda>n. if nd_id n = i then n\<lparr>nd_endpoint := e\<rparr> else n) (node_rows (db_tables d))
      | TunnelTable ts b \<Rightarrow> b = base \<and> ListTunnels d' = (Inr ts, d')
      | NodeTable ns \<Rightarrow> ListNodes d' = (Inr ns, d')
      | _ \<Rightarrow> True)"

text \<open>The lines that tell of a change.\<close>

fun tells_change :: "cli_out \<Rightarrow> bool" where
  "tells_change (TunnelCreated T domain) = True"
| "tells_change (TokenRotated tok) = True"
| "tells_change (NodeCreated n) = True"
| "tells_change (NodeIPSet i p) = True"
| "tells_change (NodeEndpointSet i e) = True"
| "tells_change _ = False"

definition honest :: "string \<Rightarrow> string list \<Rightarrow> db \<Rightarrow> (cli_end \<times> cli_out list) \<times> 'z cli_state \<Rightarrow> bool" where
  "honest base args d res \<longleftrightarrow>
     (case res of ((r, out), (d', z')) \<Rightarrow>
        (\<forall>line\<in>set out. truthful base args out d d' line) \<and>
        ((\<exists>line\<in>set out. tells_change line) \<or> db_tables d' = db_tables d) \<and> r \<noteq> CmdError (StoreFailed invalid_text))"

lemma silent_honest: "db_tables d' = db_tables d \<Longrightarrow> r \<noteq> CmdError (StoreFailed invalid_text) \<Longrightarrow> honest base args d ((r, []), (d', z))"
  by (simp add: honest_def)

lemma with_flags_honest:
  assumes "\<And>fl. parse_flags fl0 args = Inr fl \<Longrightarrow> honest base args d (k fl (d, z))"
  shows "honest base args d (with_flags fl0 args k (d, z))"
  using assms by (auto simp: with_flags_def intro!: silent_honest split: sum.split flag_error.split)

text \<open>A command that asks the store once.\<close>

lemma on_store_honest:
  assumes "m d = (r, d1)" and "\<And>e. r = Inl e \<Longrightarrow> db_tables d1 = db_tables d \<and> e \<noteq> invalid_text"
    and "\<And>x. r = Inr x \<Longrightarrow> honest base args d (k x (d1, z))"
  shows "honest base args d (on_store m k (d, z))"
  using assms by (cases r) (auto simp: on_store_def intro!: silent_honest)

lemma ensureDNS_dns:
  assumes "ensureDNS net cfg domains (d, z) = ((r, out), (d', z'))"
  shows "d' = d" "\<And>line. line \<in> set out \<Longrightarrow> \<not> tells_change line \<and> truthful base args all d0 d' line \<and> (\<forall>tok. line \<noteq> TunnelToken tok)"
    "r \<noteq> CmdError (StoreFailed e)"
proof -
  show "d' = d" "r \<noteq> CmdError (StoreFailed e)" using assms by (auto simp: ensureDNS_def split: option.splits prod.splits if_splits)
  have "(\<exists>n t. line = DnsOk n t) \<or> line = DnsOwn \<or> (\<exists>ds t. line = DnsManual ds t)" if "line \<in> set out" for line
    using assms that by (auto simp: ensureDNS_def split: option.splits prod.splits if_splits)
  then show "\<not> tells_change line \<and> truthful base args all d0 d' line \<and> (\<forall>tok. line \<noteq> TunnelToken tok)" if "line \<in> set out" for line
    using that by (fastforce simp: truthful_def)
qed

section \<open>The operations of the store without faults\<close>

lemma no_faults_stay: "within spent m \<Longrightarrow> db_faults d = [] \<Longrightarrow> m d = (r, d') \<Longrightarrow> db_faults d' = []"
  using withinD [of spent m d r d'] by (simp add: spent_def)

text \<open>No operation but those on nodes can fail on a text that is no address.\<close>

definition never :: "store_err \<Rightarrow> 'a dbm \<Rightarrow> bool" where
  "never e m \<longleftrightarrow> (\<forall>d. fst (m d) \<noteq> Inl e)"

lemma never_rules:
  "never e m \<Longrightarrow> (\<And>x. never e (f x)) \<Longrightarrow> never e (bindr m f)" "never e (retr x)"
  "e \<noteq> ErrConn \<Longrightarrow> never e s \<Longrightarrow> never e (stmt s)" "e \<noteq> ErrConn \<Longrightarrow> never e m \<Longrightarrow> never e (tx m)"
proof -
  show "never e (bindr m f)" if "never e m" "\<And>x. never e (f x)"
    unfolding never_def
  proof
    fix d
    obtain r d' where "m d = (r, d')" by fastforce
    then show "fst (bindr m f d) \<noteq> Inl e" using that unfolding never_def by (cases r) (auto simp: bindr_def dest: spec [of _ d])
  qed
qed (auto simp: never_def retr_def stmt_def tx_def split: prod.splits fault.splits sum.splits dest: arg_cong [of _ _ fst])

lemma never_nextval: "e \<noteq> PgError ''2200H'' \<Longrightarrow> never e (nextval get upd mx)"
  by (auto simp: never_def nextval_def)

lemma never_affect: "e \<noteq> ErrConn \<Longrightarrow> never e (affect f)"
  unfolding affect_def by (rule never_rules(3)) (auto simp: never_def Let_def split: prod.splits)

lemma invalid_text_is: "invalid_text \<noteq> ErrConn" "invalid_text \<noteq> ErrNotFound" "invalid_text \<noteq> PgError ''2200H''" "invalid_text \<noteq> unique_violation"
  "invalid_text \<noteq> reference_violation" "invalid_text \<noteq> PgError ''23514''" "invalid_text \<noteq> ErrNoRows"
  by (simp_all add: invalid_text_def unique_violation_def reference_violation_def)

lemma never_try: "never invalid_text (try_subdomains account (ip4_string w) bs)"
proof -
  have ins: "fst (stmt (sql_insert_tunnel account sub (ip4_string w)) d) \<noteq> Inl invalid_text" for sub d
  proof -
    have "never invalid_text (sql_insert_tunnel account sub (ip4_string w))"
      unfolding sql_insert_tunnel_def
      by (intro never_rules(1) never_nextval invalid_text_is) (auto simp: never_def invalid_text_is [symmetric])
    then show ?thesis using never_rules(3) [OF invalid_text_is(1)] by (auto simp: never_def)
  qed
  have "fst (try_subdomains account (ip4_string w) bs d) \<noteq> Inl invalid_text" for d
  proof (induction bs arbitrary: d)
    case (Cons b bs)
    obtain r d' where "stmt (sql_insert_tunnel account (take 7 (Random b)) (ip4_string w)) d = (r, d')" by fastforce
    with ins [of "take 7 (Random b)" d] Cons.IH [of d'] show ?case by (auto simp: Let_def split: sum.splits)
  qed (simp add: invalid_text_is [symmetric])
  then show ?thesis by (simp add: never_def)
qed

lemma never_throw: "e' \<noteq> e \<Longrightarrow> never e (throw e')"
  by (simp add: never_def throw_def)

lemma never_CreateTunnel: "never invalid_text (CreateTunnel email plan idb sec subs)"
proof -
  have up: "never invalid_text (stmt (sql_upsert_account email plan))"
    unfolding sql_upsert_account_def
    by (intro never_rules never_nextval invalid_text_is) (auto simp: never_def invalid_text_is [symmetric] split: option.splits)
  have ip: "never invalid_text (stmt nextval_tunnel_ip)"
    unfolding nextval_tunnel_ip_def by (intro never_rules never_nextval invalid_text_is)
  have tok: "never invalid_text (stmt (sql_insert_token tok i))" for tok i
    by (intro never_rules invalid_text_is) (auto simp: never_def sql_insert_token_def Let_def invalid_text_is [symmetric])
  have off: "offsetAddr clientPool n = Inl e \<Longrightarrow> e \<noteq> invalid_text" for n e
    by (auto simp: offsetAddr_def invalid_text_def split: if_splits)
  have "never invalid_text (create_tunnel_tx email plan t subs)" for t
    unfolding create_tunnel_tx_def
    by (intro never_rules(1) up; clarsimp; intro never_rules(1) ip)
      (auto intro!: never_rules(1,2) tok never_try never_throw split: sum.split dest: off)
  then show ?thesis unfolding CreateTunnel_def Let_def by (intro never_rules invalid_text_is)
qed

lemma never_RotateToken: "never invalid_text (RotateToken i idb sec)"
proof -
  have "never invalid_text (stmt (sql_insert_token tok i))" for tok
    by (intro never_rules invalid_text_is) (auto simp: never_def sql_insert_token_def Let_def invalid_text_is [symmetric])
  then show ?thesis
    unfolding RotateToken_def rotate_tx_def require_rows_def sql_delete_token_def sql_delete_lease_def
    using invalid_text_is
    by (intro never_rules(4) never_rules(1) never_affect invalid_text_is) (auto intro: never_rules(2) never_throw)
qed

lemma neverD: "never e m \<Longrightarrow> m d = (Inl e', d') \<Longrightarrow> e' \<noteq> e"
  by (metis fst_conv never_def)

section \<open>The commands\<close>

lemma tunnelCreate_honest:
  assumes ok: "schema_ok d" "db_faults d = []" "\<forall>b\<in>set (rnd_subs rnd). length b = 5"
  shows "honest (cfg_BaseDomain cfg) args d (tunnelCreate net rnd cfg args (d, z))"
  unfolding tunnelCreate_def
proof (rule with_flags_honest, goal_cases)
  case (1 fl)
  let ?email = "string_flag fl ''email''"
  let ?m = "CreateTunnel ?email (string_flag fl ''plan'') (rnd_id rnd) (rnd_secret rnd) (rnd_subs rnd)"
  show ?case
  proof (cases "?email = []")
    case True
    then show ?thesis by (simp add: ends_def silent_honest)
  next
    case False
    obtain r d1 where m: "?m d = (r, d1)" by fastforce
    have f1: "db_faults d1 = []" by (rule no_faults_stay [OF spent.within_CreateTunnel ok(2) m])
    have "honest (cfg_BaseDomain cfg) args d (on_store ?m (\<lambda>(t, tok).
        let domain = t_subdomain t @ ''.'' @ cfg_BaseDomain cfg
        in says [TunnelCreated t domain, TunnelToken tok] (ensureDNS net cfg [domain])) (d, z))"
    proof (rule on_store_honest [where m = ?m, OF m])
      show "db_tables d1 = db_tables d \<and> e \<noteq> invalid_text" if "r = Inl e" for e
        using CreateTunnel_atomic [OF m [unfolded that]] neverD [OF never_CreateTunnel m [unfolded that]] ok(2)
        by (simp add: no_lost_reply_def)
    next
      fix x assume x: "r = Inr x"
      obtain T tok where T: "x = (T, tok)" by (cases x)
      let ?dom = "t_subdomain T @ ''.'' @ cfg_BaseDomain cfg"
      obtain r2 out d' z' where e: "ensureDNS net cfg [?dom] (d1, z) = ((r2, out), (d', z'))" by (metis prod.collapse)
      note dns = ensureDNS_dns [OF e]
      obtain as row a where c: "created ?email tok (rnd_subs rnd) d T (db_tables d1) as row a"
        using CreateTunnel_Inr [OF m [unfolded x T]] by blast
      have auth: "AuthAgent tok d1 = (Inr T, d1)" by (rule CreateTunnel_authenticates [OF ok(1,3) m [unfolded x T] f1])
      have "t_id T = tun_id row" "t_email T = ?email" using c by (simp_all add: created_def)
      moreover have "tun_id row \<notin> tunnel_ids (db_tables d)"
        using c schema_okD(3) [OF ok(1)] by (auto simp: created_def tunnels_ok_def tunnel_row_ok_def tunnel_ids_def)
      ultimately have "truthful (cfg_BaseDomain cfg) args (TunnelCreated T ?dom # TunnelToken tok # out) d d' (TunnelCreated T ?dom)"
        using False 1 auth dns(1) by (auto simp: truthful_def)
      moreover have "truthful (cfg_BaseDomain cfg) args (TunnelCreated T ?dom # TunnelToken tok # out) d d' (TunnelToken tok)"
        using auth dns(1) by (auto simp: truthful_def)
      ultimately show "honest (cfg_BaseDomain cfg) args d ((case x of (t, tok) \<Rightarrow>
          let domain = t_subdomain t @ ''.'' @ cfg_BaseDomain cfg
          in says [TunnelCreated t domain, TunnelToken tok] (ensureDNS net cfg [domain])) (d1, z))"
        using e dns(2,3) by (simp add: T Let_def says_def honest_def)
    qed
    then show ?thesis using False by simp
  qed
qed

lemma tunnelRotate_honest:
  fixes z :: 'z
  assumes ok: "schema_ok d" "db_faults d = []"
  shows "honest base args d (tunnelRotate rnd args (d, z))"
  unfolding tunnelRotate_def
proof (rule with_flags_honest, goal_cases)
  case (1 fl)
  let ?i = "int_flag fl ''id''"
  let ?m = "RotateToken ?i (rnd_id rnd) (rnd_secret rnd)"
  obtain r d1 where m: "?m d = (r, d1)" by fastforce
  have f1: "db_faults d1 = []" by (rule no_faults_stay [OF spent.within_RotateToken ok(2) m])
  show ?case
  proof (rule on_store_honest [where m = ?m, OF m])
    show "db_tables d1 = db_tables d \<and> e \<noteq> invalid_text" if "r = Inl e" for e
      using tx_atomic [OF m [unfolded that RotateToken_def] _ spent.within_rotate_tx] neverD [OF never_RotateToken m [unfolded that]] ok(2)
      by (simp add: no_lost_reply_def)
  next
    fix tok assume x: "r = Inr tok"
    note t = RotateToken_tables [OF m [unfolded x]]
    have ok1: "schema_ok d1" using keepsD [OF keeps_RotateToken ok(1)] m by (metis snd_conv)
    have "?i \<in> tunnel_ids (db_tables d)" using t(1) schema_okD(4) [OF ok(1)] by (auto simp: tokens_ok_def)
    then obtain row where row: "row \<in> set (tunnels (db_tables d1))" "tun_id row = ?i" using t(2) by (auto simp: tunnel_ids_def)
    obtain a T where T: "tunnel_view (db_tables d1) False row = Some T" by (rule tunnel_view_Some [OF ok1 row(1)]) blast
    have "AuthAgent tok d1 = (Inr T, d1)"
      unfolding AuthAgent_Inr_iff [OF ok1 f1] using row T by (auto simp: t(2))
    moreover have "t_id T = ?i" using tunnel_view_id [OF T] row(2) by simp
    moreover have "lease_of (db_tables d1) ?i = None" by (auto simp: lease_of_def t(2) find_None_iff)
    ultimately show "honest base args d (says [TokenRotated tok] (ends CmdOk) (d1, z))"
      using 1 by (auto simp: says_def ends_def honest_def truthful_def)
  qed
qed

text \<open>A row whose id is new, with a token of its own, is the one AuthNode finds.\<close>

lemma CreateNode_done:
  assumes ok: "schema_ok d" "db_faults d = []" and c: "CreateNode name endpoint public idb sec d = (Inr (n, tok), d')"
  shows "\<exists>row. node_rows (db_tables d') = node_rows (db_tables d) @ [row] \<and> nd_token_id row = tok_id tok \<and> nd_token_hash row = Hash tok \<and>
    nd_id row = n_id n \<and> nd_name row = name \<and> nd_endpoint row = endpoint \<and> ip4_string (nd_gateway row) = n_gateway_ip n \<and>
    null_inet public = Some (nd_public_ip row) \<and> n_name n = name \<and> n_endpoint n = endpoint \<and> n_public_ip n = public \<and>
    n_id n \<notin> nd_id ` set (node_rows (db_tables d))"
proof -
  have "seq_node (db_seqs d) \<notin> nd_id ` set (node_rows (db_tables d))"
    using schema_okD(6) [OF ok(1)] by (auto simp: nodes_ok_def)
  then show ?thesis
    using c by (auto simp: CreateNode_def Let_def bindr_Inr retr_def stmt_run ok(2) sql_insert_node_def nextval_def put_tables_def
        split: if_splits option.splits)
qed

lemma CreateNode_failed:
  assumes ok: "schema_ok d" "db_faults d = []" and p: "null_inet public \<noteq> None"
    and c: "CreateNode name endpoint public idb sec d = (Inl e, d')"
  shows "db_tables d' = db_tables d" "e \<noteq> invalid_text"
proof -
  have "1 \<le> seq_node_gw (db_seqs d)" using schema_okD(1) [OF ok(1)] by (simp add: seqs_ok_def)
  then have gw: "inet (gateway_text (seq_node_gw (db_seqs d))) \<noteq> None" if "seq_node_gw (db_seqs d) \<le> 254"
    using that inet_gateway_text by simp
  have "db_tables d' = db_tables d \<and> (e = PgError ''2200H'' \<or> e = unique_violation)"
    using c gw p
    by (auto simp: CreateNode_def Let_def bindr_def retr_def stmt_run ok(2) sql_insert_node_def nextval_def put_tables_def
        split: if_splits option.splits)
  then show "db_tables d' = db_tables d" "e \<noteq> invalid_text" by (auto simp: invalid_text_def unique_violation_def)
qed

lemma AuthNode_finds:
  assumes "schema_ok d" "db_faults d = []" and "row \<in> set (node_rows (db_tables d))" "nd_token_id row = tok_id tok" "nd_token_hash row = Hash tok"
  shows "\<exists>m. AuthNode tok d = (Inr m, d) \<and> n_id m = nd_id row"
proof -
  have "distinct (map nd_token_id (node_rows (db_tables d)))" using schema_okD(6) [OF assms(1)] by (simp add: nodes_ok_def)
  then have "find (\<lambda>n. nd_token_id n = tok_id tok) (node_rows (db_tables d)) = Some row"
    using assms(3,4) find_key_unique by fastforce
  then show ?thesis using assms(2,5) by (simp add: AuthNode_def bindr_def query_run Verify_iff retr_def)
qed

lemma validPublicIP_addr: "validPublicIP p \<Longrightarrow> p \<noteq> [] \<Longrightarrow> \<exists>w. ParseAddr p = Some (Addr4 w) \<and> null_inet p = Some (Some w)"
  by (auto simp: validPublicIP_def null_inet_def inet_def split: option.splits elim!: Is4.elims)

lemma nodeCreate_honest:
  assumes ok: "schema_ok d" "db_faults d = []"
  shows "honest base args d (nodeCreate rnd args (d, z))"
  unfolding nodeCreate_def
proof (rule with_flags_honest, goal_cases)
  case (1 fl)
  let ?name = "string_flag fl ''name''" and ?ep = "string_flag fl ''endpoint''" and ?p = "string_flag fl ''public-ip''"
  let ?m = "CreateNode ?name ?ep ?p (rnd_id rnd) (rnd_secret rnd)"
  show ?case
  proof (cases "?name = [] \<or> ?ep = [] \<or> \<not> validPublicIP ?p")
    case True
    then show ?thesis by (auto simp: ends_def Let_def intro!: silent_honest)
  next
    case False
    then have valid: "validPublicIP ?p" by blast
    obtain r d1 where m: "?m d = (r, d1)" by fastforce
    have f1: "db_faults d1 = []" by (rule no_faults_stay [OF spent.within_CreateNode ok(2) m])
    have ok1: "schema_ok d1" using keepsD [OF keeps_CreateNode ok(1)] m by (metis snd_conv)
    have "honest base args d (on_store ?m (\<lambda>(n, tok). says [NodeCreated n, NodeToken tok] (ends CmdOk)) (d, z))"
    proof (rule on_store_honest [where m = ?m, OF m])
      show "db_tables d1 = db_tables d \<and> e \<noteq> invalid_text" if "r = Inl e" for e
        using CreateNode_failed [OF ok validPublicIP_inet [OF valid] m [unfolded that]] by blast
    next
      fix x assume x: "r = Inr x"
      obtain n tok where n: "x = (n, tok)" by (cases x)
      obtain row where row: "node_rows (db_tables d1) = node_rows (db_tables d) @ [row]" "nd_token_id row = tok_id tok" "nd_token_hash row = Hash tok"
        "nd_id row = n_id n" "nd_name row = ?name" "nd_endpoint row = ?ep" "ip4_string (nd_gateway row) = n_gateway_ip n"
        "null_inet ?p = Some (nd_public_ip row)" "n_name n = ?name" "n_endpoint n = ?ep" "n_public_ip n = ?p"
        "n_id n \<notin> nd_id ` set (node_rows (db_tables d))"
        using CreateNode_done [OF ok m [unfolded x n]] by blast
      have "shows_node n row" using row validPublicIP_addr [OF valid] by (auto simp: shows_node_def null_inet_def)
      then have "truthful base args [NodeCreated n, NodeToken tok] d d1 (NodeCreated n)"
        using row False 1 by (auto simp: truthful_def)
      moreover obtain m where "AuthNode tok d1 = (Inr m, d1)" "n_id m = n_id n"
        using AuthNode_finds [OF ok1 f1 _ row(2,3)] row(1,4) by auto
      then have "truthful base args [NodeCreated n, NodeToken tok] d d1 (NodeToken tok)" by (auto simp: truthful_def)
      ultimately show "honest base args d ((case x of (n, tok) \<Rightarrow> says [NodeCreated n, NodeToken tok] (ends CmdOk)) (d1, z))"
        by (simp add: n says_def ends_def honest_def)
    qed
    then show ?thesis using False by (simp add: Let_def)
  qed
qed

text \<open>UPDATE node without faults: no row or the rows of that id.\<close>

lemma update_node_run:
  assumes "db_faults d = []"
  shows "require_rows ErrNotFound (sql_update_node i (\<lambda>_. g)) d =
    (if i \<in> nd_id ` set (node_rows (db_tables d)) then Inr () else Inl ErrNotFound,
     put_tables (\<lambda>t. t\<lparr>node_rows := map (\<lambda>n. if nd_id n = i then g n else n) (node_rows t)\<rparr>) d)"
  by (auto simp: require_rows_def sql_update_node_def bindr_def stmt_run assms retr_def throw_def filter_empty_conv)

lemma update_none: "i \<notin> nd_id ` set ns \<Longrightarrow> map (\<lambda>n. if nd_id n = i then g n else n) ns = ns"
  by (induction ns) auto

lemma nodeSetPublicIP_honest:
  assumes ok: "db_faults d = []"
  shows "honest base args d (nodeSetPublicIP args (d, z))"
  unfolding nodeSetPublicIP_def
proof (rule with_flags_honest, goal_cases)
  case (1 fl)
  let ?i = "int_flag fl ''id''" and ?p = "string_flag fl ''public-ip''"
  show ?case
  proof (cases "?i = 0 \<or> ?p = [] \<or> \<not> validPublicIP ?p")
    case True
    then show ?thesis by (auto simp: ends_def Let_def intro!: silent_honest)
  next
    case False
    then obtain w where w: "ParseAddr ?p = Some (Addr4 w)" "null_inet ?p = Some (Some w)" using validPublicIP_addr by blast
    have m: "SetNodePublicIP ?i ?p d = require_rows ErrNotFound (sql_update_node ?i (\<lambda>_ n. n\<lparr>nd_public_ip := Some w\<rparr>)) d"
      by (simp add: SetNodePublicIP_def w(2))
    have "honest base args d (on_store (SetNodePublicIP ?i ?p) (\<lambda>_. says [NodeIPSet ?i ?p] (ends CmdOk)) (d, z))"
      by (rule on_store_honest [where m = "SetNodePublicIP ?i ?p", OF m [unfolded update_node_run [OF ok]]])
        (auto simp: w(1) says_def ends_def honest_def truthful_def update_none invalid_text_is [symmetric] put_tables_def split: if_splits)
    then show ?thesis using False by (simp add: Let_def)
  qed
qed

lemma nodeSetEndpoint_honest:
  assumes ok: "db_faults d = []"
  shows "honest base args d (nodeSetEndpoint args (d, z))"
  unfolding nodeSetEndpoint_def
proof (rule with_flags_honest, goal_cases)
  case (1 fl)
  let ?i = "int_flag fl ''id''" and ?e = "string_flag fl ''endpoint''"
  show ?case
  proof (cases "?i = 0 \<or> ?e = []")
    case True
    then show ?thesis by (auto simp: ends_def Let_def intro!: silent_honest)
  next
    case False
    then have given: "?e \<noteq> []" by blast
    have "honest base args d (on_store (SetNodeEndpoint ?i ?e) (\<lambda>_. says [NodeEndpointSet ?i ?e] (ends CmdOk)) (d, z))"
      by (rule on_store_honest [where m = "SetNodeEndpoint ?i ?e", OF update_node_run [OF ok, of ?i "\<lambda>n. n\<lparr>nd_endpoint := ?e\<rparr>", folded SetNodeEndpoint_def]])
        (auto simp: given says_def ends_def honest_def truthful_def update_none invalid_text_is [symmetric] put_tables_def split: if_splits)
    then show ?thesis using False by (simp add: Let_def)
  qed
qed

lemma lists_honest:
  assumes "db_faults d = []"
  shows "honest (cfg_BaseDomain cfg) args d (tunnelList cfg (d, z))" "honest base args d (nodeList (d, z))"
    "honest base args d (dnsSync net cfg (d, z))"
proof -
  obtain ts where t: "ListTunnels d = (Inr ts, d)" using assms by (simp add: ListTunnels_def query_run)
  obtain ns where n: "ListNodes d = (Inr ns, d)" using assms by (simp add: ListNodes_def query_run)
  show "honest (cfg_BaseDomain cfg) args d (tunnelList cfg (d, z))"
    by (simp add: tunnelList_def on_store_def t says_def ends_def honest_def truthful_def)
  show "honest base args d (nodeList (d, z))"
    by (simp add: nodeList_def on_store_def n says_def ends_def honest_def truthful_def)
  let ?doms = "map (\<lambda>t. t_subdomain t @ ''.'' @ cfg_BaseDomain cfg) ts"
  obtain r out d' z' where e: "ensureDNS net cfg ?doms (d, z) = ((r, out), (d', z'))" by (metis prod.collapse)
  then show "honest base args d (dnsSync net cfg (d, z))"
    using ensureDNS_dns [OF e] by (simp add: dnsSync_def on_store_def t honest_def)
qed

section \<open>Properties\<close>

lemma runs_honest:
  assumes "honest base args d res" and "(case res of ((r, out), s') \<Rightarrow> ((exit_of r, out), s')) = ((ex, out), (d', z'))"
  shows "(\<forall>line\<in>set out. truthful base args out d d' line) \<and> ((\<exists>line\<in>set out. tells_change line) \<or> db_tables d' = db_tables d) \<and>
    ex \<noteq> Exit 1 (Some (StoreFailed invalid_text))"
  using assms by (auto simp: honest_def exit_of_def split: prod.splits cli_end.splits)

text \<open>
  C40: The operator can trust what a command prints.  Whatever the command line, with a database
  that answers: every line is true of the database the command leaves (truthful): the token it
  shows opens the tunnel or the node it was made for, of the email, name and id that were asked
  for and given; what it says was set is set in that row and no other; a public address is an
  IPv4 address; a table is that of the database.  A command that tells of no change made none.
  And no text that is not an address ever reaches the database as one.
\<close>
theorem cli_tells_truth:
  assumes "cli_main getenv opened net lim coll rnd argv (d, z) = ((ex, out), (d', z'))"
    and "schema_ok d" and "db_faults d = []" and "\<forall>b\<in>set (rnd_subs rnd). length b = 5"
  shows "(\<forall>line\<in>set out. truthful (cfg_BaseDomain (loadConfig getenv)) (drop 2 argv) out d d' line) \<and>
    ((\<exists>line\<in>set out. tells_change line) \<or> db_tables d' = db_tables d) \<and> ex \<noteq> Exit 1 (Some (StoreFailed invalid_text))"
proof -
  let ?cfg = "loadConfig getenv" and ?args = "drop 2 argv"
  define runs where "runs = {tunnelCreate net rnd ?cfg ?args (d, z), tunnelList ?cfg (d, z), tunnelRotate rnd ?args (d, z),
    nodeCreate rnd ?args (d, z), nodeList (d, z), nodeSetPublicIP ?args (d, z), nodeSetEndpoint ?args (d, z), dnsSync net ?cfg (d, z)}"
  have all: "honest (cfg_BaseDomain ?cfg) ?args d res" if "res \<in> runs" for res
    using that unfolding runs_def
    by (elim insertE emptyE) (simp_all add: tunnelCreate_honest [OF assms(2-4)] lists_honest [OF assms(3)]
      tunnelRotate_honest [OF assms(2,3)] nodeCreate_honest [OF assms(2,3)] nodeSetPublicIP_honest [OF assms(3)]
      nodeSetEndpoint_honest [OF assms(3)])
  have "out = [] \<and> d' = d \<and> (\<forall>e. ex \<noteq> Exit 1 (Some e)) \<or>
      (\<exists>res\<in>runs. (case res of ((r, out), s') \<Rightarrow> ((exit_of r, out), s')) = ((ex, out), (d', z')))"
    using assms(1) unfolding cli_main_def Let_def rest_args_def Admin_Cli.runs_def runs_def
    by (auto split: if_splits)
  then show ?thesis
  proof
    assume "\<exists>res\<in>runs. (case res of ((r, out), s') \<Rightarrow> ((exit_of r, out), s')) = ((ex, out), (d', z'))"
    then obtain res where "res \<in> runs" "(case res of ((r, out), s') \<Rightarrow> ((exit_of r, out), s')) = ((ex, out), (d', z'))" by blast
    then show ?thesis using runs_honest [OF all] by blast
  qed simp
qed

text \<open>The operator creates the first tunnel of the end-to-end tests.\<close>

theorem cli_tells_truth_witness:
  "\<exists>tok ex out z' T. e2e_main [''tunnel'', ''create'', ''--email'', ''a@b'', ''--plan=free''] (db_init 0 [], [], mock_start) =
     ((ex, out), (first_db, z')) \<and> TunnelToken tok \<in> set out \<and> AuthAgent tok first_db = (Inr T, first_db)"
proof -
  obtain tok ex out z' where r: "e2e_main [''tunnel'', ''create'', ''--email'', ''a@b'', ''--plan=free''] (db_init 0 [], [], mock_start) =
     ((ex, out), (first_db, z'))" "TunnelToken tok \<in> set out" using e2e_created by blast
  have "db_faults (db_init 0 []) = []" by (simp add: db_init_def)
  from cli_tells_truth [OF r(1) schema_ok_init this e2e_subs] r(2)
  have "truthful (cfg_BaseDomain (loadConfig e2e_env)) (drop 2 [''tunnel'', ''create'', ''--email'', ''a@b'', ''--plan=free'']) out (db_init 0 []) first_db (TunnelToken tok)"
    by blast
  then obtain T where "AuthAgent tok first_db = (Inr T, first_db)" by (auto simp: truthful_def)
  with r show ?thesis by blast
qed

end
