(* ===== verification/Lease_Life.thy ===== *)
theory Lease_Life
  imports Api_Props Agent_Core
begin

text \<open>
  The life of a lease across the API: an instance registers, the control plane serves whatever
  requests come, time passes, and heartbeats of the instance that were answered renew the
  lease.  As long as they come in time the session lasts: the instance is never told that it
  was superseded, and no other instance is let in.
\<close>

section \<open>Histories of the control plane\<close>

text \<open>
  What happens to the running server: a request, one look of a node's long poll, an act of the
  operator or of the clock (the steps of served, in the order they come).
\<close>

datatype api_event = ApiRequest request | ApiLook string Node | ApiOperate event

fun serve :: "('p, 'l) Server \<Rightarrow> api_event \<Rightarrow> ('p, 'l) api_state \<Rightarrow> ('p, 'l) api_state" where
  "serve srv (ApiRequest r) s = snd (Handler srv r [] s)"
| "serve srv (ApiLook since n) s = snd (config_look srv since n s)"
| "serve srv (ApiOperate e) s = s\<lparr>api_db := exec e (api_db s)\<rparr>"

definition serve_all :: "('p, 'l) Server \<Rightarrow> api_event list \<Rightarrow> ('p, 'l) api_state \<Rightarrow> ('p, 'l) api_state" where
  "serve_all srv es s = fold (serve srv) es s"

lemma serve_all_simps [simp]:
  "serve_all srv [] s = s" "serve_all srv (e # es) s = serve_all srv es (serve srv e s)"
  by (simp_all add: serve_all_def)

text \<open>The tunnel whose token a request carries, and the request of an instance of a tunnel.\<close>

definition agent_of :: "request \<Rightarrow> ('p, 'l) api_state \<Rightarrow> int option" where
  "agent_of r s =
     (case Parse (bearer r) PrefixAgent of
        Inl _ \<Rightarrow> None
      | Inr tok \<Rightarrow> (case AuthAgent tok (api_db s) of (Inr T, _) \<Rightarrow> Some (t_id T) | (Inl _, _) \<Rightarrow> None))"

definition asks :: "route \<Rightarrow> int \<Rightarrow> string \<Rightarrow> request \<Rightarrow> ('p, 'l) api_state \<Rightarrow> bool" where
  "asks rt tid inst r s \<longleftrightarrow> route_of (rq_path r) = Some rt \<and> agent_of r s = Some tid \<and>
     map_option (\<lambda>j. field j ''instance_id'') (rq_json r) = Some inst"

text \<open>
  Nobody takes the lease away on purpose: the instance does not release it, the operator does
  not rotate the token of the tunnel.
\<close>

fun undisturbed :: "('p, 'l) Server \<Rightarrow> int \<Rightarrow> string \<Rightarrow> api_event list \<Rightarrow> ('p, 'l) api_state \<Rightarrow> bool" where
  "undisturbed srv tid inst [] s \<longleftrightarrow> True"
| "undisturbed srv tid inst (e # es) s \<longleftrightarrow>
     (case e of
        ApiRequest r \<Rightarrow> \<not> asks Release tid inst r s
      | ApiLook since n \<Rightarrow> True
      | ApiOperate op \<Rightarrow> operator_event op \<and> valid_event op \<and>
          (case op of EvRotateToken i idb sec \<Rightarrow> i \<noteq> tid | _ \<Rightarrow> True)) \<and>
     undisturbed srv tid inst es (serve srv e s)"

text \<open>
  The lease lasts until E; a heartbeat that was answered moves E to LeaseTTL from then.  Time
  never passes E.
\<close>

definition renewed :: "('p, 'l) Server \<Rightarrow> int \<Rightarrow> string \<Rightarrow> api_event \<Rightarrow> ('p, 'l) api_state \<Rightarrow> bool" where
  "renewed srv tid inst e s \<longleftrightarrow>
     (case e of
        ApiRequest r \<Rightarrow> asks Heartbeat tid inst r s \<and> map_option rs_status (fst (Handler srv r [] s)) = Some 200
      | _ \<Rightarrow> False)"

fun kept_alive :: "('p, 'l) Server \<Rightarrow> int \<Rightarrow> string \<Rightarrow> instant \<Rightarrow> api_event list \<Rightarrow> ('p, 'l) api_state \<Rightarrow> bool" where
  "kept_alive srv tid inst E [] s \<longleftrightarrow> True"
| "kept_alive srv tid inst E (e # es) s \<longleftrightarrow>
     (let s' = serve srv e s;
          E' = (if renewed srv tid inst e s then db_now (api_db s) + LeaseTTL else E)
      in db_now (api_db s') \<le> E' \<and> kept_alive srv tid inst E' es s')"

section \<open>Steps that leave a lease alone\<close>

interpretation harmless_events: api_events "\<lambda>_. harmless LeaseTTL l" for l
  by unfold_locales simp_all

lemma moves_by_frame:
  assumes "moves_by P d d'" and "schema_ok d"
  shows "schema_ok d'" "db_now d \<le> db_now d'"
proof -
  have "schema_ok d' \<and> db_now d \<le> db_now d'"
    using assms(1) unfolding moves_by_def
  proof (induction rule: rtranclp_induct)
    case (step d1 d2)
    from step.hyps(2) obtain e where e: "d2 = exec e d1" "valid_event e" by (auto elim!: event_stepE)
    from step.IH exec_schema_ok [OF e(2), of d1] exec_growth [OF e(2), of d1] show ?case by (simp add: e(1))
  qed (simp add: assms(2))
  then show "schema_ok d'" "db_now d \<le> db_now d'" by simp_all
qed

text \<open>The tunnel of a lease is held by its instance until E at least.\<close>

definition held :: "int \<Rightarrow> string \<Rightarrow> instant \<Rightarrow> db \<Rightarrow> bool" where
  "held tid inst E d \<longleftrightarrow>
     (\<exists>l\<in>set (leases (db_tables d)). ls_tunnel l = tid \<and> ls_instance l = inst \<and> E \<le> ls_expires l)"

lemma heldI: "l \<in> set (leases (db_tables d)) \<Longrightarrow> ls_tunnel l = tid \<Longrightarrow> ls_instance l = inst \<Longrightarrow> E \<le> ls_expires l \<Longrightarrow> held tid inst E d"
  by (auto simp: held_def)

lemma held_moves:
  assumes "moves_by (\<lambda>_. harmless LeaseTTL l) d d'" and "schema_ok d" and "held tid inst E d"
    and "ls_tunnel l = tid" "ls_instance l = inst" and "E \<le> db_now d + LeaseTTL" and "db_now d' \<le> E"
  shows "held tid inst E d'"
  using assms(1,7) unfolding moves_by_def
proof (induction rule: rtranclp_induct)
  case (step d1 d2)
  from step.hyps(2) obtain e where e: "d2 = exec e d1" "valid_event e" "harmless LeaseTTL l e"
    by (auto elim!: event_stepE)
  have m: "moves_by (\<lambda>_. harmless LeaseTTL l) d d1" using step.hyps(1) by (simp add: moves_by_def)
  note frame = moves_by_frame [OF m assms(2)]
  have "db_now d1 \<le> db_now d2" using exec_growth [OF e(2)] e(1) by simp
  with step obtain x where x: "x \<in> set (leases (db_tables d1))" "ls_tunnel x = tid" "ls_instance x = inst" "E \<le> ls_expires x"
    by (auto simp: held_def)
  have "harmless LeaseTTL x e" using e(3) x assms(4,5) by (cases e) auto
  from exec_lease_kept [OF e(2) this frame(1) x(1,4)] have "lease_kept E x (db_tables d2)"
    using step.prems \<open>db_now d1 \<le> db_now d2\<close> frame(2) assms(6) e(1) by simp
  then show ?case using x by (auto simp: lease_kept_def held_def)
qed (use assms(3) in simp)

lemma held_only_faults: "only_faults d d' \<Longrightarrow> held tid inst E d' = held tid inst E d"
  by (simp add: held_def only_faults_frame)

text \<open>A row that holds the tunnel is its only one.\<close>

lemma held_lease_of:
  assumes "held tid inst E d" and "schema_ok d"
  shows "\<exists>l. lease_of (db_tables d) tid = Some l \<and> ls_instance l = inst \<and> E \<le> ls_expires l"
  using assms schema_okD(5) [OF assms(2)] by (auto simp: held_def lease_of_Some_iff)

section \<open>What the lease operations answer\<close>

lemma now_only_faults: "within only_faults m \<Longrightarrow> db_now (snd (m d)) = db_now d"
  using within_snd [of only_faults m d] only_faults_frame by blast

lemma RenewLease_held:
  assumes "RenewLease tid inst ttl d = (Inr (), d')"
  shows "held tid inst (db_now d + ttl) d'" "db_now d' = db_now d"
proof -
  obtain n where n: "sql_renew_lease tid inst ttl d = (Inr n, d')" "n \<noteq> 0"
    using assms by (auto simp: RenewLease_def require_rows_def bindr_def throw_def retr_def split: prod.splits sum.splits if_splits)
  obtain d1 where d1: "db_tables d1 = db_tables d" "db_now d1 = db_now d"
    "n = length (filter (\<lambda>l. ls_tunnel l = tid \<and> ls_instance l = inst) (leases (db_tables d1)))"
    "d' = put_tables (\<lambda>t. t\<lparr>leases := map (\<lambda>l. if ls_tunnel l = tid \<and> ls_instance l = inst
             then l\<lparr>ls_expires := db_now d1 + ttl\<rparr> else l) (leases (db_tables d1))\<rparr>) d1"
    using stmt_Inr [OF n(1) [unfolded sql_renew_lease_def]] by (auto simp: Let_def)
  then obtain l where "l \<in> set (leases (db_tables d1))" "ls_tunnel l = tid" "ls_instance l = inst"
    using n(2) by (auto simp: filter_empty_conv)
  then show "held tid inst (db_now d + ttl) d'"
    unfolding d1(4) d1(2) by (intro heldI [of "l\<lparr>ls_expires := db_now d + ttl\<rparr>"]) (auto simp: d1(2) intro: rev_image_eqI)
  show "db_now d' = db_now d" by (simp add: d1)
qed

text \<open>A renewal of the holder succeeds or fails with the connection.\<close>

lemma RenewLease_of_holder:
  assumes "held tid inst E d" and "RenewLease tid inst ttl d = (Inl e, d')"
  shows "e = ErrConn"
proof (rule ccontr)
  assume "e \<noteq> ErrConn"
  have rows: "\<exists>x\<in>set (leases (db_tables d)). ls_tunnel x = tid \<and> ls_instance x = inst" using assms(1) by (auto simp: held_def)
  obtain q d1 where q: "sql_renew_lease tid inst ttl d = (q, d1)" by fastforce
  show False
  proof (cases q)
    case (Inl e')
    then have "e' = e" using assms(2) q by (simp add: RenewLease_def require_rows_def bindr_def)
    with stmt_Inl [OF q [unfolded Inl sql_renew_lease_def]] \<open>e \<noteq> ErrConn\<close> show False by (auto simp: Let_def)
  next
    case (Inr n)
    with stmt_Inr [OF q [unfolded Inr sql_renew_lease_def]] rows have "n \<noteq> 0" by (auto simp: Let_def filter_empty_conv)
    with Inr q assms(2) show False by (simp add: RenewLease_def require_rows_def bindr_def retr_def)
  qed
qed

lemma AcquireLease_held_by:
  assumes "AcquireLease tid inst key version ttl d = (Inr (), d')"
  shows "held tid inst (db_now d + ttl) d'" "db_now d' = db_now d"
  using heldI [OF AcquireLease_row [OF assms]] within_snd [OF growth.within_AcquireLease, of d tid inst key version ttl] assms
  by (simp_all add: growth_def)

lemma query_error: "query f d = (Inl e, d') \<Longrightarrow> e = ErrConn"
  by (auto simp: query_def stmt_def split: prod.splits fault.splits)

section \<open>What the handlers answer\<close>

lemma asks_elim:
  assumes "asks rt tid inst r s"
  obtains T s1 j where "\<And>h. agent h r s = h T s1" "only_faults (api_db s) (api_db s1)" "t_id T = tid"
    "rq_json r = Some j" "field j ''instance_id'' = inst" "route_of (rq_path r) = Some rt"
proof -
  obtain tok T d1 j where a: "Parse (bearer r) PrefixAgent = Inr tok" "AuthAgent tok (api_db s) = (Inr T, d1)" "t_id T = tid"
    "rq_json r = Some j" "field j ''instance_id'' = inst" "route_of (rq_path r) = Some rt"
    using assms by (auto simp: asks_def agent_of_def split: sum.splits prod.splits)
  then have "agent h r s = h T (s\<lparr>api_db := d1\<rparr>)" for h by (simp add: agent_def call_def)
  moreover have "only_faults (api_db s) (api_db (s\<lparr>api_db := d1\<rparr>))" using AuthAgent_accepts(1) [OF a(2)] by simp
  ultimately show thesis using a by (intro that [of T "s\<lparr>api_db := d1\<rparr>" j]) simp_all
qed

text \<open>An agent's request of the wrong method is answered 405, or 301 where a path with a slash would do, and does nothing.\<close>

lemma Handler_agent:
  assumes "route_of (rq_path r) = Some rt" and "agent_handler srv r rt = Some h"
  shows "Handler srv r [] s =
    (if rq_method r \<in> set (methods rt) then (case agent h r s of (resp, s') \<Rightarrow> (Some resp, s')) else (Some (respond (if rt = StorageIndex \<and> rq_method r \<in> {''PUT'', ''DELETE''} then 301 else 405) NoBody), s))"
  using assms by (simp add: Handler_def)

lemma fail_not_ok: "rs_status (fail e) \<noteq> 200"
  using fail_status [of e] by linarith

lemma heartbeat_renewed:
  assumes "asks Heartbeat tid inst r s" and "Handler srv r [] s = (Some resp, s')" and "rs_status resp = 200"
  shows "held tid inst (db_now (api_db s) + LeaseTTL) (api_db s')" "db_now (api_db s') = db_now (api_db s)"
proof -
  from assms(1) obtain T s1 j where a: "\<And>h. agent h r s = h T s1" "only_faults (api_db s) (api_db s1)" "t_id T = tid"
    "rq_json r = Some j" "field j ''instance_id'' = inst" "route_of (rq_path r) = Some Heartbeat"
    by (rule asks_elim) blast
  have h: "heartbeat r T s1 = (resp, s')"
    using assms(2,3) Handler_agent [OF a(6), of srv "heartbeat r" s] by (auto simp: a(1) respond_def split: if_splits prod.splits)
  obtain q s2 where c: "call (RenewLease tid inst LeaseTTL) s1 = (q, s2)" by fastforce
  have "q = Inr ()" using h assms(3) by (cases q) (auto simp: heartbeat_def a c fail_not_ok)
  then have ren: "RenewLease tid inst LeaseTTL (api_db s1) = (Inr (), api_db s2)" using c by (auto simp: call_def split: prod.splits)
  obtain u s3 where c3: "call (ActiveNodes nodeFreshness) s2 = (u, s3)" by fastforce
  have "s' = s3" using h by (cases u) (simp_all add: heartbeat_def a c c3 \<open>q = Inr ()\<close>)
  then have f3: "only_faults (api_db s2) (api_db s')" using call_only_faults [OF c3 reads_only_faults(1)] by simp
  note f = only_faults_frame [OF a(2)] only_faults_frame [OF f3]
  show "held tid inst (db_now (api_db s) + LeaseTTL) (api_db s')"
    using RenewLease_held(1) [OF ren] f by (simp add: held_only_faults [OF f3])
  show "db_now (api_db s') = db_now (api_db s)" using RenewLease_held(2) [OF ren] f by simp
qed

lemma register_steps:
  assumes "asks Register tid inst r s" and "Handler srv r [] s = (Some resp, s')" and "rs_status resp = 200"
  shows "\<exists>d key version d'. only_faults (api_db s) d \<and> AcquireLease tid inst key version LeaseTTL d = (Inr (), d') \<and>
    only_faults d' (api_db s')"
proof -
  from assms(1) obtain T s1 j where a: "\<And>h. agent h r s = h T s1" "only_faults (api_db s) (api_db s1)" "t_id T = tid"
    "rq_json r = Some j" "field j ''instance_id'' = inst" "route_of (rq_path r) = Some Register"
    by (rule asks_elim) blast
  let ?acquire = "AcquireLease tid inst (field j ''wg_public_key'') (field j ''version'') LeaseTTL"
  have h: "register srv r T s1 = (resp, s')"
    using assms(2,3) Handler_agent [OF a(6), of srv "register srv r" s] by (auto simp: a(1) respond_def split: if_splits prod.splits)
  have valid: "\<not> (ParseKey (field j ''wg_public_key'') = None \<or> \<not> validInstance inst)"
    using h assms(3) by (auto simp: register_def a Let_def writeErr_def respond_def split: if_splits)
  obtain q s2 where c: "call ?acquire s1 = (q, s2)" by fastforce
  have q: "q = Inr ()" using h assms(3) valid
    by (cases q) (auto simp: register_def Let_def a c fail_not_ok)
  obtain u s3 where c3: "call (ActiveNodes nodeFreshness) s2 = (u, s3)" by fastforce
  have "s' = s3" using h valid by (cases u) (simp_all add: register_def Let_def a c c3 q)
  then have "only_faults (api_db s2) (api_db s')" using call_only_faults [OF c3 reads_only_faults(1)] by simp
  moreover have "?acquire (api_db s1) = (Inr (), api_db s2)" using c q by (auto simp: call_def split: prod.splits)
  ultimately show ?thesis using a(2) by blast
qed

lemma register_granted:
  assumes "asks Register tid inst r s" and "Handler srv r [] s = (Some resp, s')" and "rs_status resp = 200"
  shows "held tid inst (db_now (api_db s) + LeaseTTL) (api_db s')" "db_now (api_db s') = db_now (api_db s)"
proof -
  obtain d key version d' where "only_faults (api_db s) d" "AcquireLease tid inst key version LeaseTTL d = (Inr (), d')"
    "only_faults d' (api_db s')" using register_steps [OF assms] by blast
  then show "held tid inst (db_now (api_db s) + LeaseTTL) (api_db s')" "db_now (api_db s') = db_now (api_db s)"
    using AcquireLease_held_by [of tid inst key version LeaseTTL d d']
    by (simp_all add: held_only_faults only_faults_frame)
qed

lemma register_excluded:
  assumes "held tid inst E (api_db s)" "schema_ok (api_db s)" "db_now (api_db s) \<le> E" "other \<noteq> inst"
    and "asks Register tid other r s" and "Handler srv r [] s = (Some resp, s')"
  shows "rs_status resp \<noteq> 200"
proof
  assume "rs_status resp = 200"
  from register_steps [OF assms(5,6) this] obtain d key version d' where d: "only_faults (api_db s) d"
    "AcquireLease tid other key version LeaseTTL d = (Inr (), d')" by blast
  obtain l where "lease_of (db_tables (api_db s)) tid = Some l" "ls_instance l = inst" "E \<le> ls_expires l"
    using held_lease_of [OF assms(1,2)] by blast
  then show False
    using AcquireLease_held [of d tid l other key version LeaseTTL] d(2) assms(3,4) only_faults_frame [OF d(1)] by auto
qed

text \<open>The reply to a heartbeat of the holder never ends its session.\<close>

lemma reply_goes_on:
  assumes "hx_status x < 400 \<or> Code (api_error x) = proto_ErrInternal"
  shows "\<exists>tn'. heartbeat_reply env (Some x) tn = HbRunning tn'"
proof -
  have "Code e \<noteq> proto_ErrSuperseded \<and> Code e \<noteq> proto_ErrUnauthorized" if "Do (Some x) = Inl e" for e
  proof (cases "400 \<le> hx_status x")
    case True
    then show ?thesis using that assms by (auto simp: Do_def error_codes)
  next
    case False
    then show ?thesis using that by (auto simp: Do_def Code_def error_codes split: if_splits option.splits)
  qed
  then show ?thesis by (auto simp: heartbeat_reply_def split: sum.splits)
qed

lemma heartbeat_of_holder:
  assumes "held tid inst E (api_db s)" and "asks Heartbeat tid inst r s" and "Handler srv r [] s = (Some resp, s')"
  shows "\<exists>tn'. heartbeat_reply env (Some (over_http dec (rq_method r) resp)) tn = HbRunning tn'"
proof -
  from assms(2) obtain T s1 j where a: "\<And>h. agent h r s = h T s1" "only_faults (api_db s) (api_db s1)" "t_id T = tid"
    "rq_json r = Some j" "field j ''instance_id'' = inst" "route_of (rq_path r) = Some Heartbeat"
    by (rule asks_elim) blast
  have goes_on: ?thesis if "Code (api_error (over_http dec (rq_method r) resp)) = proto_ErrInternal \<or> rs_status resp < 400"
    using that by (intro reply_goes_on) (auto simp: over_http_def Let_def)
  show ?thesis
  proof (cases "rq_method r \<in> set (methods Heartbeat)")
    case False
    then have "resp = respond 405 NoBody" using assms(3) Handler_agent [OF a(6), of srv "heartbeat r" s] by simp
    then show ?thesis by (intro goes_on) (simp add: api_error_def over_http_def respond_def Code_def)
  next
    case True
    then have h: "heartbeat r T s1 = (resp, s')"
      using assms(3) Handler_agent [OF a(6), of srv "heartbeat r" s] by (simp add: a(1) split: prod.splits)
    have conn: ?thesis if "resp = fail ErrConn"
      using that True by (intro goes_on) (simp add: fail_def api_error_def over_http_def writeErr_def respond_def Code_def)
    obtain q s2 where c: "call (RenewLease tid inst LeaseTTL) s1 = (q, s2)" by fastforce
    show ?thesis
    proof (cases q)
      case (Inl e)
      then have "RenewLease tid inst LeaseTTL (api_db s1) = (Inl e, api_db s2)" using c by (auto simp: call_def split: prod.splits)
      then have "e = ErrConn" using assms(1) a(2) by (intro RenewLease_of_holder [of tid inst E "api_db s1"]) (simp_all add: held_only_faults)
      then show ?thesis using h Inl by (intro conn) (simp add: heartbeat_def a c)
    next
      case (Inr x)
      obtain u s3 where c3: "call (ActiveNodes nodeFreshness) s2 = (u, s3)" by fastforce
      show ?thesis
      proof (cases u)
        case (Inl e)
        then have "e = ErrConn" using c3 query_error by (fastforce simp: call_def ActiveNodes_def split: prod.splits)
        then show ?thesis using h Inl Inr by (intro conn) (simp add: heartbeat_def a c c3)
      next
        case u: (Inr ns)
        then show ?thesis using h Inr by (intro goes_on) (auto simp: heartbeat_def a c c3 writeJSON_def respond_def)
      qed
    qed
  qed
qed

section \<open>The lease outlives the history\<close>

lemma serve_harmless:
  assumes "undisturbed srv tid inst [e] s" and "ls_tunnel l = tid" "ls_instance l = inst"
  shows "moves_by (\<lambda>_. harmless LeaseTTL l) (api_db s) (api_db (serve srv e s))"
proof (cases e)
  case (ApiRequest r)
  have "moves_by (\<lambda>_. harmless LeaseTTL l) (api_db s) (api_db s')" if "Handler srv r [] s = (resp, s')" for resp s'
  proof (rule harmless_events.Handler_moves_by [OF that])
    fix rt h tok T s1 rsp
    assume rt: "route_of (rq_path r) = Some rt" "agent_handler srv r rt = Some h" "rt = Release \<or> rt = AcmeDNS"
      and auth: "Parse (bearer r) PrefixAgent = Inr tok" "AuthAgent tok (api_db s) = (Inr T, api_db s1)"
      and h: "h T s1 = (rsp, s')"
    from rt(3) show "moves_by (\<lambda>_. harmless LeaseTTL l) (api_db s1) (api_db s')"
    proof
      assume "rt = AcmeDNS"
      then have "acmeDNSCreate srv r T s1 = (rsp, s')" using rt h by simp
      then show ?thesis by (rule harmless_events.acmeDNSCreate_moves_by) simp
    next
      assume rel: "rt = Release"
      have mine: "within (moves_by (\<lambda>_. harmless LeaseTTL l)) (ReleaseLease (t_id T) (field j ''instance_id''))"
        if "rq_json r = Some j" for j
      proof -
        have "\<not> (tid = t_id T \<and> inst = field j ''instance_id'')"
          using assms(1) rt(1) rel auth that by (auto simp: ApiRequest asks_def agent_of_def)
        then have "harmless LeaseTTL l (EvReleaseLease (t_id T) (field j ''instance_id''))" using assms(2,3) by simp
        then show ?thesis
          using moves_exec [of "EvReleaseLease (t_id T) (field j ''instance_id'')" "\<lambda>_. harmless LeaseTTL l"] by (simp add: within_def)
      qed
      have "release r T s1 = (rsp, s')" using rel rt(2) h by simp
      then show ?thesis
        unfolding release_def by (auto split: handler_splits intro: call_moves [OF _ mine])
    qed
  qed
  from this [of "fst (Handler srv r [] s)" "snd (Handler srv r [] s)"] show ?thesis by (simp add: ApiRequest)
next
  case (ApiLook since n)
  then show ?thesis using harmless_events.config_look_moves [of srv since n s] by (simp add: prod_eq_iff)
next
  case (ApiOperate op)
  then have "harmless LeaseTTL l op" using assms by (cases op) auto
  then show ?thesis using assms(1) moves_exec [of op "\<lambda>_. harmless LeaseTTL l"] by (simp add: ApiOperate)
qed

text \<open>One step: the lease is held until the deadline of the history, and that lies ahead.\<close>

lemma serve_held:
  assumes "undisturbed srv tid inst [e] s" and "kept_alive srv tid inst E [e] s" and "schema_ok (api_db s)"
    and "held tid inst E (api_db s)" and "E \<le> db_now (api_db s) + LeaseTTL"
    and "E' = (if renewed srv tid inst e s then db_now (api_db s) + LeaseTTL else E)"
  shows "held tid inst E' (api_db (serve srv e s))" "schema_ok (api_db (serve srv e s))"
    "E' \<le> db_now (api_db (serve srv e s)) + LeaseTTL"
proof -
  define l where "l = \<lparr>ls_tunnel = tid, ls_instance = inst, ls_pubkey = [], ls_version = [], ls_acquired = 0, ls_expires = 0\<rparr>"
  have m: "moves_by (\<lambda>_. harmless LeaseTTL l) (api_db s) (api_db (serve srv e s))"
    by (rule serve_harmless [OF assms(1)]) (simp_all add: l_def)
  note frame = moves_by_frame [OF m assms(3)]
  show "schema_ok (api_db (serve srv e s))" by (rule frame)
  show "E' \<le> db_now (api_db (serve srv e s)) + LeaseTTL" using frame(2) assms(5,6) by simp
  show "held tid inst E' (api_db (serve srv e s))"
  proof (cases "renewed srv tid inst e s")
    case False
    then show ?thesis
      using held_moves [OF m assms(3,4) _ _ assms(5)] assms(2,6) by (simp add: l_def)
  next
    case True
    then obtain r where r: "e = ApiRequest r" "asks Heartbeat tid inst r s" "map_option rs_status (fst (Handler srv r [] s)) = Some 200"
      by (auto simp: renewed_def split: api_event.splits)
    then obtain resp where "Handler srv r [] s = (Some resp, serve srv e s)" "rs_status resp = 200"
      by (auto simp: prod_eq_iff)
    from heartbeat_renewed(1) [OF r(2) this] show ?thesis using True assms(6) by simp
  qed
qed

lemma serve_all_held:
  assumes "undisturbed srv tid inst es s" and "kept_alive srv tid inst E es s" and "schema_ok (api_db s)"
    and "held tid inst E (api_db s)" and "db_now (api_db s) \<le> E" and "E \<le> db_now (api_db s) + LeaseTTL"
  shows "\<exists>E'. held tid inst E' (api_db (serve_all srv es s)) \<and> db_now (api_db (serve_all srv es s)) \<le> E' \<and>
    schema_ok (api_db (serve_all srv es s))"
  using assms
proof (induction es arbitrary: s E)
  case (Cons e es)
  define E' where "E' = (if renewed srv tid inst e s then db_now (api_db s) + LeaseTTL else E)"
  have one: "undisturbed srv tid inst [e] s" "kept_alive srv tid inst E [e] s" using Cons.prems(1,2) by (simp_all add: Let_def)
  note step = serve_held [OF one Cons.prems(3,4,6) E'_def]
  have "undisturbed srv tid inst es (serve srv e s)" "kept_alive srv tid inst E' es (serve srv e s)"
    "db_now (api_db (serve srv e s)) \<le> E'"
    using Cons.prems(1,2) by (simp_all add: Let_def E'_def)
  with Cons.IH [OF this(1,2) step(2,1) this(3) step(3)] show ?case by simp
qed auto

section \<open>An example history\<close>

definition live_db :: "instant \<Rightarrow> instant \<Rightarrow> db" where
  "live_db t e = first_db\<lparr>db_now := t, db_tables := (db_tables first_db)
     \<lparr>leases := [\<lparr>ls_tunnel = 1, ls_instance = ''i1'', ls_pubkey = Key_String (replicate 32 0), ls_version = ''v1'',
                   ls_acquired = 0, ls_expires = e\<rparr>],
      tokens := map (\<lambda>k. k\<lparr>tok_last_used := Some 0\<rparr>) (tokens (db_tables first_db))\<rparr>\<rparr>"

definition live_state :: "instant \<Rightarrow> instant \<Rightarrow> (unit, unit) api_state" where
  "live_state t e = \<lparr>api_db = live_db t e, api_prov = (), api_limiters = Map.empty\<rparr>"

definition example_register :: "string \<Rightarrow> request" where
  "example_register inst = example_request ''POST'' ''/v1/agent/register''
     (Some [''instance_id'' \<mapsto> inst, ''wg_public_key'' \<mapsto> Key_String (replicate 32 0), ''version'' \<mapsto> ''v1'']) []"

definition example_heartbeat :: request where
  "example_heartbeat = example_request ''POST'' ''/v1/agent/heartbeat'' (Some [''instance_id'' \<mapsto> ''i1'']) []"

lemma live_auth: "AuthAgent first_token (live_db t e) = (Inr first_T, live_db t e)"
proof -
  have "db_faults (live_db t e) = []" by (simp add: live_db_def first_db_faults)
  then have "AuthAgent first_token (live_db t e) = (Inr \<lparr>t_id = 1, t_email = ''a@b'', t_plan = ''free'',
      t_subdomain = take 7 (Random [0, 0, 0, 0, 0]), t_vpn_ip = ip4_string 171966466, t_online = False\<rparr>, live_db t e)"
    unfolding AuthAgent_run [OF \<open>db_faults (live_db t e) = []\<close>] first_token_def
    by (simp add: live_db_def first_db_def first_tunnel_def run_defs sql_agent_by_token_def tunnel_of_def tunnel_view_def
        account_of_def Verify_iff)
  then show ?thesis by (simp add: first_names first_T_def)
qed

lemma live_agent: "agent h (example_request m p json body) (live_state t e) = h first_T (live_state t e)"
  unfolding agent_def example_bearer first_token_parse by (simp add: call_def live_state_def live_auth)

lemma live_nodes: "ActiveNodes w (live_db t e) = (Inr [], live_db t e)"
proof -
  have "db_faults (live_db t e) = []" by (simp add: live_db_def first_db_faults)
  then show ?thesis
    unfolding ActiveNodes_def query_run [OF \<open>db_faults (live_db t e) = []\<close>]
    by (simp add: live_db_def first_db_def first_tunnel_def run_defs)
qed

lemma example_paths:
  "route_of (rq_path (example_register inst)) = Some Register" "route_of (rq_path example_heartbeat) = Some Heartbeat"
  by (simp_all add: example_register_def example_heartbeat_def example_request_def route_examples)

lemma example_methods: "rq_method (example_register inst) = ''POST''" "rq_method example_heartbeat = ''POST''"
  by (simp_all add: example_register_def example_heartbeat_def example_request_def)

lemma first_registers:
  "\<exists>resp. Handler example_server (example_register ''i1'') [] first_state = (Some resp, live_state 0 LeaseTTL) \<and> rs_status resp = 200"
proof -
  have a: "AcquireLease 1 ''i1'' (Key_String (replicate 32 0)) ''v1'' LeaseTTL first_db = (Inr (), live_db 0 LeaseTTL)"
    by (simp add: live_db_def first_db_def first_tunnel_def run_defs AcquireLease_def sql_upsert_lease_def lease_of_def sql_token_used_def)
  have "ParseKey (Key_String (replicate 32 0)) = Some (replicate 32 0)" by (simp add: ParseKey_String)
  then show ?thesis
    unfolding Handler_agent [OF example_paths(1) agent_handler.simps(1)]
    by (simp add: example_register_def example_agent, simp add: register_def example_request_def Let_def field_def
        validInstance_def call_def first_state_def first_T_def a live_nodes writeJSON_def respond_def live_state_def)
qed

lemma live_heartbeat:
  "\<exists>resp. Handler example_server example_heartbeat [] (live_state t e) = (Some resp, live_state t (t + LeaseTTL)) \<and> rs_status resp = 200"
proof -
  have a: "RenewLease 1 ''i1'' LeaseTTL (live_db t e) = (Inr (), live_db t (t + LeaseTTL))"
    by (simp add: live_db_def first_db_def first_tunnel_def run_defs RenewLease_def require_rows_def sql_renew_lease_def)
  show ?thesis
    unfolding Handler_agent [OF example_paths(2) agent_handler.simps(2)]
    by (simp add: example_heartbeat_def live_agent, simp add: heartbeat_def example_request_def field_def
        call_def live_state_def first_T_def a live_nodes writeJSON_def respond_def)
qed

lemma live_asks:
  "asks Heartbeat 1 ''i1'' example_heartbeat (live_state t e)" "asks Register 1 inst (example_register inst) (live_state t e)"
  "asks Register 1 inst (example_register inst) first_state" "\<not> asks Release tid inst example_heartbeat s"
  unfolding asks_def agent_of_def example_paths
  by (simp_all add: example_register_def example_heartbeat_def example_bearer first_token_parse live_state_def live_auth first_state_def
      first_token_auth first_T_def field_def, simp_all add: example_request_def field_def)

section \<open>Property\<close>

text \<open>
  C2: Heartbeats keep a session alive.  An instance whose registration was answered holds the
  lease of its tunnel for as long as its heartbeats are answered at most LeaseTTL apart, in
  every history of the control plane in which it does not release the lease and the operator
  does not rotate the tunnel's token, whatever other agents, nodes and operators do and
  whatever statements are lost: every heartbeat it sends lets its session go on (it is never
  told that it was superseded or unauthorized), and no other instance is let in.
\<close>
theorem heartbeats_keep_session:
  assumes "served srv s" and "asks Register tid inst r s"
    and "Handler srv r [] s = (Some granted, s1)" and "rs_status granted = 200"
    and "undisturbed srv tid inst es s1" and "kept_alive srv tid inst (db_now (api_db s) + LeaseTTL) es s1"
    and "s' = serve_all srv es s1"
  shows "(\<exists>l. lease_of (db_tables (api_db s')) tid = Some l \<and> ls_instance l = inst \<and> db_now (api_db s') \<le> ls_expires l) \<and>
    (\<forall>hb resp s2. asks Heartbeat tid inst hb s' \<longrightarrow> Handler srv hb [] s' = (Some resp, s2) \<longrightarrow>
       (\<exists>t'. heartbeat_reply env (Some (over_http dec (rq_method hb) resp)) t = HbRunning t')) \<and>
    (\<forall>other r' resp s2. other \<noteq> inst \<longrightarrow> asks Register tid other r' s' \<longrightarrow> Handler srv r' [] s' = (Some resp, s2) \<longrightarrow>
       rs_status resp \<noteq> 200)"
proof -
  have ok: "schema_ok (api_db s)"
    using served_moves [OF assms(1)] moves_reachable [OF _ reachable.start] reachable_schema by blast
  have ok1: "schema_ok (api_db s1)" using moves_by_frame(1) [OF Handler_moves [OF assms(3) ok] ok] .
  note reg = register_granted [OF assms(2-4)]
  have "db_now (api_db s1) \<le> db_now (api_db s) + LeaseTTL" "db_now (api_db s) + LeaseTTL \<le> db_now (api_db s1) + LeaseTTL"
    using reg(2) by (simp_all add: LeaseTTL_def second_def)
  from serve_all_held [OF assms(5,6) ok1 reg(1) this] obtain E where
    E: "held tid inst E (api_db s')" "db_now (api_db s') \<le> E" "schema_ok (api_db s')" unfolding assms(7) by blast
  then show ?thesis
    using held_lease_of [OF E(1,3)] heartbeat_of_holder [OF E(1)] register_excluded [OF E(1,3,2)] by fastforce
qed

theorem heartbeats_keep_session_witness:
  "\<exists>resp s2. Handler example_server (example_register ''i2'') [] (live_state (70 * second) (75 * second)) = (Some resp, s2) \<and> rs_status resp \<noteq> 200"
proof -
  let ?es = "[ApiOperate (EvTick (30 * second)), ApiRequest example_heartbeat, ApiOperate (EvTick (40 * second))]"
  obtain granted where g: "Handler example_server (example_register ''i1'') [] first_state = (Some granted, live_state 0 LeaseTTL)"
    "rs_status granted = 200" using first_registers by blast
  obtain resp where h: "Handler example_server example_heartbeat [] (live_state (30 * second) LeaseTTL) =
      (Some resp, live_state (30 * second) (30 * second + LeaseTTL))" "rs_status resp = 200" using live_heartbeat by blast
  have tick: "(live_state t e)\<lparr>api_db := live_db t e\<lparr>db_now := u\<rparr>\<rparr> = live_state u e" for t e u
    by (simp add: live_state_def live_db_def)
  have now: "api_db (live_state t e) = live_db t e" "db_now (live_db t e) = t" for t e by (simp_all add: live_state_def live_db_def)
  have st: "serve example_server (ApiOperate (EvTick u)) (live_state t e) = live_state (t + u) e" for t u e
    by (simp add: now tick)
  have hb: "serve example_server (ApiRequest example_heartbeat) (live_state (30 * second) LeaseTTL) = live_state (30 * second) (75 * second)"
    unfolding serve.simps h(1) by (simp add: LeaseTTL_def)
  have u: "undisturbed example_server 1 ''i1'' ?es (live_state 0 LeaseTTL)"
    by (simp add: st hb live_asks second_def del: serve.simps)
  have ren: "renewed example_server 1 ''i1'' (ApiRequest example_heartbeat) (live_state (30 * second) LeaseTTL)"
    "\<not> renewed example_server 1 ''i1'' (ApiOperate op) s" for op s
    using h(2) by (simp_all add: renewed_def live_asks h(1))
  have zero: "db_now (api_db first_state) = 0" by (simp add: first_state_def first_db_def first_tunnel_def run_defs)
  have k: "kept_alive example_server 1 ''i1'' (db_now (api_db first_state) + LeaseTTL) ?es (live_state 0 LeaseTTL)"
    by (simp add: st hb zero ren now Let_def del: serve.simps, simp add: LeaseTTL_def second_def)
  have e: "live_state (70 * second) (75 * second) = serve_all example_server ?es (live_state 0 LeaseTTL)"
    by (simp add: st hb del: serve.simps)
  obtain q s2 where q: "Handler example_server (example_register ''i2'') [] (live_state (70 * second) (75 * second)) = (q, s2)" by fastforce
  then have "q \<noteq> None"
    unfolding Handler_agent [OF example_paths(1) agent_handler.simps(1)] by (auto split: prod.splits if_splits)
  then obtain rsp where rsp: "q = Some rsp" by blast
  note excluded = heartbeats_keep_session [OF first_state_served live_asks(3) g u k e, THEN conjunct2, THEN conjunct2, rule_format]
  have "rs_status rsp \<noteq> 200"
    by (rule excluded [OF _ live_asks(2) q [unfolded rsp]]) simp
  with q rsp show ?thesis by blast
qed

end
