(* ===== verification/Lease_Keys.thy ===== *)
theory Lease_Keys
  imports Api_Props
begin

text \<open>
  Every key of a lease parses: the API checks the key of a registration before it asks for the
  lease, and nothing else writes keys.  So no agent can make a configuration that a node could
  not apply.
\<close>

section \<open>The keys an operation leaves\<close>

definition lease_keys :: "tables \<Rightarrow> string set" where
  "lease_keys t = ls_pubkey ` set (leases t)"

definition fewer_keys :: "tables \<Rightarrow> tables \<Rightarrow> bool" where
  "fewer_keys t t' \<longleftrightarrow> lease_keys t' \<subseteq> lease_keys t"

interpretation fewer_keys: table_relation fewer_keys
  by unfold_locales (auto simp: fewer_keys_def)

lemma same_leases_keys: "leases t' = leases t \<Longrightarrow> fewer_keys t t'"
  by (simp add: fewer_keys_def lease_keys_def)

lemma renewed_keys: "touches fewer_keys (RenewLease tid inst ttl)"
  unfolding RenewLease_def sql_renew_lease_def Let_def
  by (intro fewer_keys.touches_require_rows fewer_keys.touches_stmt) (auto simp: touches_def fewer_keys_def lease_keys_def)

text \<open>An acquisition that does not succeed leaves the keys too; one that does adds its own.\<close>

lemma acquired_keys: "lease_keys (db_tables (snd (AcquireLease tid inst key version ttl d))) \<subseteq> insert key (lease_keys (db_tables d))"
proof -
  obtain r d' where r: "stmt (sql_upsert_lease tid inst key version ttl) d = (r, d')" by fastforce
  have "lease_keys (db_tables (snd (stmt (sql_upsert_lease tid inst key version ttl) d))) \<subseteq> insert key (lease_keys (db_tables d))"
    by (rule stmt_tables [where C = "\<lambda>t. lease_keys t \<subseteq> insert key (lease_keys (db_tables d))"])
      (auto simp: sql_upsert_lease_def Let_def lease_keys_def split: option.splits)
  then show ?thesis using r token_used_leases [of tid d']
    by (cases r) (auto simp: AcquireLease_def lease_keys_def)
qed

lemma exec_keys:
  assumes "\<nexists>tid inst key version ttl. e = EvAcquireLease tid inst key version ttl"
  shows "lease_keys (db_tables (exec e d)) \<subseteq> lease_keys (db_tables d)"
proof -
  have f: "fewer_keys t (t\<lparr>accounts := x0\<rparr>)" "fewer_keys t (t\<lparr>tunnels := x1\<rparr>)" "fewer_keys t (t\<lparr>tokens := x2\<rparr>)"
    "fewer_keys t (t\<lparr>node_rows := x3\<rparr>)" "fewer_keys t (t\<lparr>storage := x4\<rparr>)" "fewer_keys t (t\<lparr>challenges := x5\<rparr>)"
    for t x0 x1 x2 x3 x4 x5
    by (simp_all add: same_leases_keys)
  have g: "fewer_keys t (t\<lparr>leases := filter P (leases t)\<rparr>)" for t P by (auto simp: fewer_keys_def lease_keys_def)
  note create = fewer_keys.touches_CreateTunnel [OF f(1,2,3)] and release = fewer_keys.touches_ReleaseLease [OF g]
    and rotate = fewer_keys.touches_RotateToken [OF f(3) g] and nodes = fewer_keys.touches_nodes [OF f(4)]
    and data = fewer_keys.touches_data [OF f(5,6)]
  have "fewer_keys (db_tables d) (db_tables (exec e d))"
    using assms
    by (cases e)
      (simp_all add: fewer_keys.refl touchesD [OF create] touchesD [OF renewed_keys] touchesD [OF release] touchesD [OF rotate]
        touchesD [OF nodes(1)] touchesD [OF nodes(2)] touchesD [OF nodes(3)] touchesD [OF nodes(4)] touchesD [OF nodes(5)]
        touchesD [OF data(1)] touchesD [OF data(2)] touchesD [OF data(3)] touchesD [OF data(4)])
  then show ?thesis by (simp add: fewer_keys_def)
qed

section \<open>The keys of a running control plane\<close>

definition keys_ok :: "db \<Rightarrow> bool" where
  "keys_ok d \<longleftrightarrow> (\<forall>l\<in>set (leases (db_tables d)). ParseKey (ls_pubkey l) \<noteq> None)"

fun keyed_event :: "event \<Rightarrow> bool" where
  "keyed_event (EvAcquireLease tid inst key version ttl) \<longleftrightarrow> ParseKey key \<noteq> None"
| "keyed_event _ \<longleftrightarrow> True"

interpretation keyed_events: api_events "\<lambda>_. keyed_event"
  by unfold_locales simp_all

lemma exec_keys_ok:
  assumes "keys_ok d" and "keyed_event e"
  shows "keys_ok (exec e d)"
proof -
  have iff: "keys_ok d \<longleftrightarrow> (\<forall>k\<in>lease_keys (db_tables d). ParseKey k \<noteq> None)" for d by (simp add: keys_ok_def lease_keys_def)
  show ?thesis
  proof (cases "\<exists>tid inst key version ttl. e = EvAcquireLease tid inst key version ttl")
    case True
    then obtain tid inst key version ttl where e: "e = EvAcquireLease tid inst key version ttl" by blast
    then show ?thesis using acquired_keys [of tid inst key version ttl d] assms unfolding iff by auto
  next
    case False
    then show ?thesis using exec_keys [of e d] assms(1) unfolding iff by auto
  qed
qed

text \<open>Both invariants of the database along the operations of the API.\<close>

definition db_ok :: "db \<Rightarrow> bool" where
  "db_ok d \<longleftrightarrow> schema_ok d \<and> keys_ok d"

lemma moves_db_ok:
  assumes "moves_by (\<lambda>_. keyed_event) d d'" and "db_ok d"
  shows "db_ok d'"
  using assms(1) unfolding moves_by_def
proof (induction rule: rtranclp_induct)
  case (step d1 d2)
  from step.hyps(2) obtain e where "d2 = exec e d1" "valid_event e" "keyed_event e" by (auto elim!: event_stepE)
  then show ?case using step.IH exec_keys_ok exec_schema_ok by (simp add: db_ok_def)
qed (rule assms(2))

lemma confined_keyed: "confined_event base d e \<Longrightarrow> keyed_event e"
  by (cases e) auto

lemma moves_keyed: "moves base d d' \<Longrightarrow> moves_by (\<lambda>_. keyed_event) d d'"
  unfolding moves_by_def
  by (rule rtranclp_mono [THEN predicate2D, rotated], assumption) (auto elim!: event_stepE intro: event_step.event confined_keyed)

lemma served_db_ok: "served srv s \<Longrightarrow> db_ok (api_db s)"
proof -
  assume "served srv s"
  then obtain t fs where "moves (srv_base_domain srv) (db_init t fs) (api_db s)" using served_moves by blast
  moreover have "db_ok (db_init t fs)" using schema_ok_init by (simp add: db_ok_def keys_ok_def db_init_def empty_tables_def)
  ultimately show ?thesis using moves_db_ok moves_keyed by blast
qed

end
