(* ===== verification/Control_Loop.thy ===== *)
theory Control_Loop
  imports Node_Props Lease_Life Lease_Keys
begin

text \<open>
  The control plane and a node as one system: the server of internal/api over its database, the
  goroutines of internal/node, and the long poll between them, whose answer is in flight while
  both go on.  What the node shows is always a state the database had at one of its polls; the
  traffic it forwards goes to the holder of a lease of that state; and a poll that gets through
  brings it up to date.
\<close>

section \<open>The system\<close>

text \<open>The node's request (sync_path), as net/http hands it to the server, and the decoded answer.\<close>

definition poll_request :: "node_config \<Rightarrow> string \<Rightarrow> request" where
  "poll_request ncf version = \<lparr>rq_method = ''GET'', rq_path = ''/v1/node/config'',
     rq_authorization = ''Bearer '' @ ncf_token ncf, rq_query = (\<lambda>k. if k = ''since'' then version else []),
     rq_json = None, rq_body = [], rq_random = []\<rparr>"

definition config_body :: "body \<Rightarrow> NodeConfig option" where
  "config_body b = (case b of ConfigBody c \<Rightarrow> Some c | _ \<Rightarrow> None)"

record ('p, 'l, 'dev) system =
  sy_api :: "('p, 'l) api_state"
  sy_node :: "'dev run_state"
  sy_reply :: "NodeConfig http_reply option option"

text \<open>
  An event of the system: something happens at the control plane; the poll of the node is served
  (the events of the schedule happen while it waits); its answer arrives; or a goroutine of the
  node moves, the sync loop only to give up its request.
\<close>

datatype system_event = ControlPlane api_event | Poll "event list list" | Deliver | Goroutine run_event

fun api_event_ok :: "api_event \<Rightarrow> bool" where
  "api_event_ok (ApiOperate e) \<longleftrightarrow> operator_event e \<and> valid_event e"
| "api_event_ok _ \<longleftrightarrow> True"

definition sched_ok :: "event list list \<Rightarrow> bool" where
  "sched_ok sched \<longleftrightarrow> (\<forall>es\<in>set sched. \<forall>e\<in>set es. valid_event e \<and> keyed_event e)"

definition poll_reply :: "('p, 'l) Server \<Rightarrow> node_config \<Rightarrow> string \<Rightarrow> event list list \<Rightarrow> ('p, 'l) api_state \<Rightarrow>
    NodeConfig http_reply option \<times> ('p, 'l) api_state" where
  "poll_reply srv ncf version sched s =
     (case Handler srv (poll_request ncf version) sched s of
        (resp, s') \<Rightarrow> (map_option (over_http config_body ''GET'') resp, s'))"

fun system_step :: "('p, 'l) Server \<Rightarrow> 'dev node_env \<Rightarrow> node_config \<Rightarrow> system_event \<Rightarrow> ('p, 'l, 'dev) system \<Rightarrow>
    ('p, 'l, 'dev) system option" where
  "system_step srv env ncf (ControlPlane e) S =
     (if api_event_ok e then Some (S\<lparr>sy_api := serve srv e (sy_api S)\<rparr>) else None)"
| "system_step srv env ncf (Poll sched) S =
     (if rs_sync (sy_node S) = GBusy \<and> sy_reply S = None \<and> sched_ok sched
      then (case poll_reply srv ncf (rs_version (sy_node S)) sched (sy_api S) of
              (reply, s) \<Rightarrow> Some (S\<lparr>sy_api := s, sy_reply := Some reply\<rparr>))
      else None)"
| "system_step srv env ncf Deliver S =
     (case sy_reply S of
        None \<Rightarrow> None
      | Some reply \<Rightarrow> map_option (\<lambda>n. S\<lparr>sy_node := n, sy_reply := None\<rparr>) (run_step env ncf (EvSyncReply reply) (sy_node S)))"
| "system_step srv env ncf (Goroutine e) S =
     (case e of
        EvSyncReply (Some r) \<Rightarrow> None
      | EvSyncReply None \<Rightarrow> map_option (\<lambda>n. S\<lparr>sy_node := n, sy_reply := None\<rparr>) (run_step env ncf e (sy_node S))
      | _ \<Rightarrow> map_option (\<lambda>n. S\<lparr>sy_node := n\<rparr>) (run_step env ncf e (sy_node S)))"

fun system_run :: "('p, 'l) Server \<Rightarrow> 'dev node_env \<Rightarrow> node_config \<Rightarrow> system_event list \<Rightarrow> ('p, 'l, 'dev) system \<Rightarrow>
    ('p, 'l, 'dev) system option" where
  "system_run srv env ncf [] S = Some S"
| "system_run srv env ncf (e # es) S =
     (case system_step srv env ncf e S of None \<Rightarrow> None | Some S' \<Rightarrow> system_run srv env ncf es S')"

definition system_start :: "('p, 'l) api_state \<Rightarrow> 'dev node_state \<Rightarrow> ('p, 'l, 'dev) system" where
  "system_start s n = \<lparr>sy_api = s, sy_node = run_start n, sy_reply = None\<rparr>"

lemma system_run_append:
  "system_run srv env ncf (es @ fs) S = (case system_run srv env ncf es S of None \<Rightarrow> None | Some S' \<Rightarrow> system_run srv env ncf fs S')"
  by (induction es arbitrary: S) (auto split: option.splits)

lemma system_run_snoc:
  "system_run srv env ncf (es @ [e]) S = Some S' \<longleftrightarrow>
     (\<exists>S1. system_run srv env ncf es S = Some S1 \<and> system_step srv env ncf e S1 = Some S')"
  by (auto simp: system_run_append split: option.splits)

section \<open>The control plane's side\<close>

lemma operator_keyed: "operator_event e \<Longrightarrow> keyed_event e"
  by (cases e) auto

lemma serve_ok:
  assumes "api_event_ok e" and "db_ok (api_db s)"
  shows "db_ok (api_db (serve srv e s))"
proof (cases e)
  case (ApiRequest r)
  have "schema_ok (api_db s)" using assms(2) by (simp add: db_ok_def)
  from Handler_moves [OF prod.collapse [symmetric] this, of srv r]
  show ?thesis using moves_db_ok [OF moves_keyed assms(2)] by (simp add: ApiRequest)
next
  case (ApiLook since n)
  show ?thesis using moves_db_ok [OF keyed_events.config_look_moves [OF prod.collapse [symmetric]] assms(2)] by (simp add: ApiLook)
next
  case (ApiOperate op)
  then show ?thesis using assms exec_keys_ok [OF _ operator_keyed] exec_schema_ok by (simp add: db_ok_def)
qed

lemma run_events_moves: "\<forall>e\<in>set es. valid_event e \<and> keyed_event e \<Longrightarrow> moves_by (\<lambda>_. keyed_event) d (run_events es d)"
proof (induction es arbitrary: d)
  case (Cons e es)
  then have "moves_by (\<lambda>_. keyed_event) d (exec e d)" by (intro moves_exec) simp_all
  also have "moves_by (\<lambda>_. keyed_event) (exec e d) (run_events es (exec e d))" using Cons by simp
  finally (moves_trans) show ?case by simp
qed simp

lemma wait_tick_moves:
  assumes "\<forall>e\<in>set es. valid_event e \<and> keyed_event e"
  shows "moves_by (\<lambda>_. keyed_event) (api_db s) (api_db (wait_tick es s))"
proof -
  have "moves_by (\<lambda>_. keyed_event) d (exec (EvTick longPollTick) d)" for d
    by (intro moves_exec) (simp_all add: longPollTick_def second_def)
  from moves_trans [OF run_events_moves [OF assms] this] show ?thesis by (simp add: wait_tick_def)
qed

text \<open>A configuration read from the database, up to the faults to come.\<close>

definition polled :: "('p, 'l) Server \<Rightarrow> NodeConfig \<Rightarrow> db \<Rightarrow> bool" where
  "polled srv c d' \<longleftrightarrow> (\<exists>d. only_faults d d' \<and> config_of (srv_collation srv) (srv_base_domain srv) d c)"

lemma look_polled:
  assumes "config_look srv since n s = (r, s')" and "db_ok (api_db s)"
  shows "db_ok (api_db s')" "r = Some resp \<Longrightarrow> rs_body resp = ConfigBody c \<Longrightarrow> nc_version c \<noteq> since \<and> polled srv c (api_db s')"
proof -
  show ok': "db_ok (api_db s')" by (rule moves_db_ok [OF keyed_events.config_look_moves [OF assms(1)] assms(2)])
  assume r: "r = Some resp" "rs_body resp = ConfigBody c"
  obtain q s1 where touch: "call (TouchNode (n_id n)) s = (q, s1)" by fastforce
  obtain u s2 where cfg: "call (store_NodeConfig (srv_collation srv) (srv_base_domain srv) nodeFreshness (srv_zone srv)) s1 = (u, s2)"
    by fastforce
  have body: "rs_body (fail e) \<noteq> ConfigBody c" for e by (cases e) (simp_all add: fail_def writeErr_def respond_def)
  then have q: "q = Inr ()" using assms(1) r by (cases q) (auto simp: config_look_def touch)
  have u: "u = Inr c" "nc_version c \<noteq> since" "s' = s2"
    using assms(1) r body by (cases u; auto simp: config_look_def touch cfg q writeJSON_def respond_def split: if_splits)+
  have f: "only_faults (api_db s1) (api_db s')" using call_only_faults [OF cfg reads_only_faults(8)] u by simp
  have "db_ok (api_db s1)"
    using moves_db_ok [OF call_moves [OF touch keyed_events.writes(6) moves_refl] assms(2)] .
  then have "config_of (srv_collation srv) (srv_base_domain srv) (api_db s1) c"
    using cfg u(1) by (auto simp: config_of_def db_ok_def call_def split: prod.splits) (metis fst_conv)
  with f u(2) show "nc_version c \<noteq> since \<and> polled srv c (api_db s')" unfolding polled_def by blast
qed

lemma loop_polled:
  assumes "config_loop srv since n dl sched s = (r, s')" and "sched_ok sched" and "db_ok (api_db s)"
  shows "db_ok (api_db s') \<and> (\<forall>resp c. r = Some resp \<longrightarrow> rs_body resp = ConfigBody c \<longrightarrow> nc_version c \<noteq> since \<and> polled srv c (api_db s'))"
  using assms
proof (induction sched arbitrary: s)
  case Nil
  from look_polled [OF Nil(1) [unfolded config_once] Nil(3)] show ?case by blast
next
  case (Cons es sched)
  obtain q s1 where look: "config_look srv since n s = (q, s1)" by fastforce
  note l = look_polled [OF look Cons.prems(3)]
  show ?case
  proof (cases q)
    case (Some resp)
    then show ?thesis using Cons.prems(1) l look by (simp add: config_loop.simps)
  next
    case None
    have "\<forall>e\<in>set es. valid_event e \<and> keyed_event e" using Cons.prems(2) by (simp add: sched_ok_def)
    from moves_db_ok [OF wait_tick_moves [OF this] l(1)] have w: "db_ok (api_db (wait_tick es s1))" .
    have "sched_ok sched" using Cons.prems(2) by (simp add: sched_ok_def)
    with Cons.IH [OF _ this w] w Cons.prems(1) show ?thesis
      by (simp add: config_loop.simps [of _ _ _ _ "es # sched"] look None Let_def respond_def split: if_splits) force
  qed
qed

text \<open>What a poll is answered, whatever happened while it waited.\<close>

lemma poll_polled:
  assumes "poll_reply srv ncf v sched s = (reply, s')" and "sched_ok sched" and "db_ok (api_db s)"
  shows "db_ok (api_db s') \<and> (\<forall>c. Do reply = Inr c \<longrightarrow> nc_version c \<noteq> v \<and> polled srv c (api_db s'))"
proof -
  let ?r = "poll_request ncf v"
  have path: "route_of (rq_path ?r) = Some ConfigRoute" "rq_method ?r \<in> set (methods ConfigRoute)" "agent_handler srv ?r ConfigRoute = None"
    by (simp_all add: poll_request_def route_examples)
  obtain resp where h: "node (\<lambda>n. nodeConfig srv ?r n sched) ?r s = (resp, s')" "reply = map_option (over_http config_body ''GET'') resp"
    using assms(1) path by (auto simp: poll_reply_def Handler_def split: prod.splits)
  have body: "Do reply = Inr c \<Longrightarrow> \<exists>x. resp = Some x \<and> rs_body x = ConfigBody c" for c
    by (auto simp: h(2) Do_def over_http_def Let_def config_body_def split: option.splits if_splits body.splits)
  have good: ?thesis if "db_ok (api_db s')" "\<And>x c. resp = Some x \<Longrightarrow> rs_body x = ConfigBody c \<Longrightarrow> nc_version c \<noteq> v \<and> polled srv c (api_db s')"
    using that body by blast
  have err: "rs_body (fail e) \<noteq> ConfigBody c" "rs_body (writeErr st code msg) \<noteq> ConfigBody c" for e c st code msg
    by (cases e) (simp_all add: fail_def writeErr_def respond_def)
  show ?thesis
  proof (cases "Parse (bearer ?r) PrefixNode")
    case (Inl e)
    then show ?thesis using h(1) assms(3) err by (intro good) (auto simp: node_def)
  next
    case (Inr tok)
    obtain q s1 where auth: "call (AuthNode tok) s = (q, s1)" by fastforce
    have ok1: "db_ok (api_db s1)" using moves_db_ok [OF call_moves [OF auth keyed_events.reads(7) moves_refl] assms(3)] .
    show ?thesis
    proof (cases q)
      case Inl
      then show ?thesis using h(1) ok1 err by (intro good) (auto simp: node_def Inr auth)
    next
      case (Inr n)
      then have "config_loop srv (rq_query ?r ''since'') n (db_now (api_db s1) + longPollTimeout) sched s1 = (resp, s')"
        using h(1) \<open>Parse _ _ = Inr tok\<close> by (simp add: node_def auth nodeConfig_def)
      from loop_polled [OF this assms(2) ok1] show ?thesis by (intro good) (auto simp: poll_request_def)
    qed
  qed
qed

section \<open>The node's side\<close>

lemma in_force_only_faults: "only_faults d d' \<Longrightarrow> in_force d' r l = in_force d r l"
  by (simp add: in_force_def only_faults_frame)

lemma mirrors_only_faults: "only_faults d d' \<Longrightarrow> mirrors_db view base d n \<Longrightarrow> mirrors_db view base d' n"
  by (simp add: mirrors_db_def in_force_only_faults)

text \<open>The control plane at one state of its database, as a source of configurations.\<close>

interpretation at_state: sync_source env "device_good env view" "config_of coll base d" "\<lambda>c. mirrors_db view base d"
  for env :: "'dev node_env" and view coll base d
proof
  fix n c n'
  assume n: "device_good env view n" and c: "config_of coll base d c" and app: "apply_config env c n = (True, n')"
  have dev: "wg_device (ne_ipc env) view" "orders_ok env" "device_ok view n" using n by (simp_all add: device_good_def)
  from apply_mirrors [OF dev app c] dev show "device_good env view n' \<and> mirrors_db view base d n'"
    by (simp add: device_good_def)
qed

lemma turn_polled:
  assumes n: "device_good env view n" and turn: "sync_turn env reply v n = SyncNext v' wait n'"
    and c: "\<And>c. Do reply = Inr c \<Longrightarrow> polled srv c d"
  shows "v' = v \<and> n' = n \<or>
    device_good env view n' \<and> (\<exists>c. Do reply = Inr c \<and> v' = nc_version c \<and> mirrors_db view (srv_base_domain srv) d n')"
proof (cases "Do reply")
  case (Inl e)
  then show ?thesis using turn by (auto simp: sync_turn_def split: if_splits)
next
  case (Inr c)
  obtain d0 where d0: "only_faults d0 d" "config_of (srv_collation srv) (srv_base_domain srv) d0 c"
    using assms(3) [OF Inr] by (auto simp: polled_def)
  have "\<And>c'. Do reply = Inr c' \<Longrightarrow> config_of (srv_collation srv) (srv_base_domain srv) d0 c'" using Inr d0(2) by simp
  from at_state.turn [OF n turn this] show ?thesis using mirrors_only_faults [OF d0(1)] by blast
qed

section \<open>Runs of the system\<close>

text \<open>The configuration c was computed from the database d, at some moment of the run.\<close>

definition was_at :: "('p, 'l) Server \<Rightarrow> 'dev node_env \<Rightarrow> node_config \<Rightarrow> ('p, 'l, 'dev) system \<Rightarrow> system_event list \<Rightarrow>
    NodeConfig \<Rightarrow> db \<Rightarrow> bool" where
  "was_at srv env ncf S0 evs c d \<longleftrightarrow>
     (\<exists>es fs S. evs = es @ fs \<and> system_run srv env ncf es S0 = Some S \<and> d = api_db (sy_api S) \<and> db_ok d \<and> polled srv c d)"

text \<open>
  The invariant of a run: the database is well-formed, an answer in flight comes from a state of
  the run, and so does what the node shows.
\<close>

definition run_ok :: "('p, 'l) Server \<Rightarrow> 'dev node_env \<Rightarrow> node_config \<Rightarrow> ('dev \<Rightarrow> dev_view) \<Rightarrow> ('p, 'l, 'dev) system \<Rightarrow>
    system_event list \<Rightarrow> ('p, 'l, 'dev) system \<Rightarrow> bool" where
  "run_ok srv env ncf view S0 evs S \<longleftrightarrow>
     db_ok (api_db (sy_api S)) \<and> device_good env view (rs_node (sy_node S)) \<and>
     (\<forall>reply c. sy_reply S = Some reply \<longrightarrow> Do reply = Inr c \<longrightarrow> (\<exists>d. was_at srv env ncf S0 evs c d)) \<and>
     (rs_node (sy_node S) = rs_node (sy_node S0) \<and> rs_version (sy_node S) = rs_version (sy_node S0) \<or>
      (\<exists>c d. was_at srv env ncf S0 evs c d \<and> rs_version (sy_node S) = nc_version c \<and>
         mirrors_db view (srv_base_domain srv) d (rs_node (sy_node S))))"

lemma was_at_later: "was_at srv env ncf S0 evs c d \<Longrightarrow> was_at srv env ncf S0 (evs @ [e]) c d"
  unfolding was_at_def by (metis append.assoc)

lemma was_at_now:
  "system_run srv env ncf evs S0 = Some S \<Longrightarrow> db_ok (api_db (sy_api S)) \<Longrightarrow> polled srv c (api_db (sy_api S)) \<Longrightarrow>
   was_at srv env ncf S0 evs c (api_db (sy_api S))"
  unfolding was_at_def by (intro exI [of _ evs] exI [of _ "[]"] exI [of _ S]) simp

text \<open>What a step changes apart from the database and the answer in flight.\<close>

lemma system_step_node:
  assumes "system_step srv env ncf e S = Some S'"
  shows "(rs_node (sy_node S') = rs_node (sy_node S) \<and> rs_version (sy_node S') = rs_version (sy_node S)) \<or>
    (\<exists>reply wait. sy_reply S = Some reply \<and>
       sync_turn env reply (rs_version (sy_node S)) (rs_node (sy_node S)) = SyncNext (rs_version (sy_node S')) wait (rs_node (sy_node S')))"
proof -
  have other: ?thesis if "run_step env ncf r (sy_node S) = Some (sy_node S')"
      "\<And>reply. r = EvSyncReply reply \<Longrightarrow> sy_reply S = Some reply \<or> reply = None" for r
  proof -
    have "Do reply = Inl OtherError" if "reply = None" for reply :: "NodeConfig http_reply option" using that by (simp add: Do_def)
    then have none: "sync_turn env None v n = SyncNext v (3 * second) n" for v n
      by (simp add: sync_turn_def Code_def error_codes)
    show ?thesis using run_step_node [OF that(1)] that(2) none by fastforce
  qed
  show ?thesis
  proof (cases e)
    case (Goroutine r)
    then show ?thesis using assms by (intro other [of r]) (auto simp del: run_step.simps split: run_event.splits option.splits)
  next
    case Deliver
    then obtain reply where r: "sy_reply S = Some reply" "run_step env ncf (EvSyncReply reply) (sy_node S) = Some (sy_node S')"
      using assms by (auto simp del: run_step.simps split: option.splits)
    show ?thesis by (rule other [OF r(2)]) (simp add: r(1))
  qed (use assms in \<open>auto split: if_splits prod.splits\<close>)
qed

lemma system_step_api:
  assumes "system_step srv env ncf e S = Some S'" and "db_ok (api_db (sy_api S))"
  shows "db_ok (api_db (sy_api S'))"
    "sy_reply S' = Some reply \<Longrightarrow> Do reply = Inr c \<Longrightarrow> sy_reply S = Some reply \<or> polled srv c (api_db (sy_api S'))"
proof -
  have "db_ok (api_db (sy_api S')) \<and> (\<forall>reply c. sy_reply S' = Some reply \<longrightarrow> Do reply = Inr c \<longrightarrow>
      sy_reply S = Some reply \<or> polled srv c (api_db (sy_api S')))"
  proof (cases e)
    case (Poll sched)
    obtain r s where p: "poll_reply srv ncf (rs_version (sy_node S)) sched (sy_api S) = (r, s)" by fastforce
    then have "sched_ok sched" "S' = S\<lparr>sy_api := s, sy_reply := Some r\<rparr>" using assms(1) Poll by (auto split: if_splits)
    with poll_polled [OF p _ assms(2)] show ?thesis by simp
  qed (use assms serve_ok in \<open>auto split: if_splits option.splits run_event.splits\<close>)
  then show "db_ok (api_db (sy_api S'))"
    "sy_reply S' = Some reply \<Longrightarrow> Do reply = Inr c \<Longrightarrow> sy_reply S = Some reply \<or> polled srv c (api_db (sy_api S'))" by blast+
qed

lemma run_ok_step:
  assumes run: "system_run srv env ncf evs S0 = Some S" and ok: "run_ok srv env ncf view S0 evs S"
    and step: "system_step srv env ncf e S = Some S'"
  shows "run_ok srv env ncf view S0 (evs @ [e]) S'"
proof -
  have db: "db_ok (api_db (sy_api S))" and dev: "device_good env view (rs_node (sy_node S))"
    and flight: "\<And>reply c. sy_reply S = Some reply \<Longrightarrow> Do reply = Inr c \<Longrightarrow> \<exists>d. was_at srv env ncf S0 evs c d"
    using ok by (auto simp: run_ok_def)
  note api = system_step_api [OF step db]
  have run': "system_run srv env ncf (evs @ [e]) S0 = Some S'" using run step by (simp add: system_run_snoc)
  have flight': "\<exists>d. was_at srv env ncf S0 (evs @ [e]) c d" if "sy_reply S' = Some reply" "Do reply = Inr c" for reply c
    using api(2) [OF that] flight [OF _ that(2)] was_at_later was_at_now [OF run' api(1)] by blast
  have shown: "device_good env view (rs_node (sy_node S')) \<and>
      (rs_node (sy_node S') = rs_node (sy_node S0) \<and> rs_version (sy_node S') = rs_version (sy_node S0) \<or>
       (\<exists>c d. was_at srv env ncf S0 (evs @ [e]) c d \<and> rs_version (sy_node S') = nc_version c \<and>
          mirrors_db view (srv_base_domain srv) d (rs_node (sy_node S'))))"
    using system_step_node [OF step]
  proof (elim disjE exE conjE)
    assume "rs_node (sy_node S') = rs_node (sy_node S)" "rs_version (sy_node S') = rs_version (sy_node S)"
    then show ?thesis using ok was_at_later unfolding run_ok_def by metis
  next
    fix reply wait
    assume r: "sy_reply S = Some reply"
      "sync_turn env reply (rs_version (sy_node S)) (rs_node (sy_node S)) = SyncNext (rs_version (sy_node S')) wait (rs_node (sy_node S'))"
    show ?thesis
    proof (cases "Do reply")
      case (Inl err)
      then have "rs_node (sy_node S') = rs_node (sy_node S)" "rs_version (sy_node S') = rs_version (sy_node S)"
        using r(2) by (auto simp: sync_turn_def split: if_splits)
      then show ?thesis using ok was_at_later unfolding run_ok_def by metis
    next
      case (Inr c)
      obtain d where d: "was_at srv env ncf S0 evs c d" using flight [OF r(1) Inr] by blast
      have "\<And>c'. Do reply = Inr c' \<Longrightarrow> polled srv c' d" using d Inr by (auto simp: was_at_def)
      from turn_polled [OF dev r(2) this] show ?thesis
      proof
        assume "rs_version (sy_node S') = rs_version (sy_node S) \<and> rs_node (sy_node S') = rs_node (sy_node S)"
        then show ?thesis using ok was_at_later unfolding run_ok_def by metis
      next
        assume "device_good env view (rs_node (sy_node S')) \<and> (\<exists>c. Do reply = Inr c \<and> rs_version (sy_node S') = nc_version c \<and>
            mirrors_db view (srv_base_domain srv) d (rs_node (sy_node S')))"
        then show ?thesis using Inr was_at_later [OF d] by auto
      qed
    qed
  qed
  show ?thesis unfolding run_ok_def using api(1) shown flight' by blast
qed

lemma run_ok_run:
  assumes "system_run srv env ncf evs S0 = Some S" and "run_ok srv env ncf view S0 [] S0"
  shows "run_ok srv env ncf view S0 evs S"
  using assms(1)
proof (induction evs arbitrary: S rule: rev_induct)
  case Nil
  then show ?case using assms(2) by simp
next
  case (snoc e evs)
  then obtain S1 where "system_run srv env ncf evs S0 = Some S1" "system_step srv env ncf e S1 = Some S" by (auto simp: system_run_snoc)
  then show ?case using snoc.IH run_ok_step by blast
qed

lemma run_ok_start:
  assumes "served srv s" and "wg_device (ne_ipc env) view" and "orders_ok env" and "fresh_node view n"
  shows "run_ok srv env ncf view (system_start s n) [] (system_start s n)"
  using assms served_db_ok [OF assms(1)]
  by (simp add: run_ok_def system_start_def run_start_def device_good_def device_ok_def fresh_node_def configured_def)

section \<open>Who the peers are\<close>

text \<open>A peer of the device that may use the address of a tunnel has the key of its lease, and no other address.\<close>

lemma peer_of_lease:
  assumes m: "mirrors_db view base d n" and ok: "schema_ok d" and f: "in_force d r l"
    and v: "view (net_dev (ns_net n)) k = Some dp" "(Addr4 (tun_ip r), 32) \<in> dp_allowed dp"
  shows "ParseKey (ls_pubkey l) = Some k" "dp_allowed dp = {(Addr4 (tun_ip r), 32)}"
proof -
  obtain r' l' where g: "in_force d r' l'" "ParseKey (ls_pubkey l') = Some k" "dp_allowed dp = {(Addr4 (tun_ip r'), 32)}"
    using m v(1) unfolding mirrors_db_def by blast
  have "tun_ip r' = tun_ip r" using g(3) v(2) by simp
  moreover have "distinct (map tun_ip (tunnels (db_tables d)))" using schema_okD(3) [OF ok] by (simp add: tunnels_ok_def)
  ultimately have r: "r' = r" using f g(1) by (intro distinct_key_inj [of tun_ip]) (auto simp: in_force_def)
  have "distinct (map ls_tunnel (leases (db_tables d)))" using schema_okD(5) [OF ok] by (simp add: leases_ok_def)
  then have "l' = l" using f g(1) r by (intro distinct_key_inj [of ls_tunnel]) (auto simp: in_force_def)
  with g r show "ParseKey (ls_pubkey l) = Some k" "dp_allowed dp = {(Addr4 (tun_ip r), 32)}" by simp_all
qed

text \<open>The key of a lease has a peer; it is the tunnel's own unless another lease spells the same key.\<close>

lemma lease_has_peer:
  assumes m: "mirrors_db view base d n" and f: "in_force d r l" and k: "ParseKey (ls_pubkey l) = Some k"
    and one: "\<And>r' l'. in_force d r' l' \<Longrightarrow> ParseKey (ls_pubkey l') = Some k \<Longrightarrow> r' = r"
  shows "\<exists>dp. view (net_dev (ns_net n)) k = Some dp \<and> dp_allowed dp = {(Addr4 (tun_ip r), 32)}"
proof -
  obtain dp where dp: "view (net_dev (ns_net n)) k = Some dp" using m f k unfolding mirrors_db_def by blast
  then obtain r' l' where "in_force d r' l'" "ParseKey (ls_pubkey l') = Some k" "dp_allowed dp = {(Addr4 (tun_ip r'), 32)}"
    using m unfolding mirrors_db_def by blast
  with one dp show ?thesis by blast
qed

text \<open>
  Two tunnels whose leases spell the same key differently (the unique index compares spellings):
  both have their routes, but the device has no peer for the address of one of them, so a
  registration with another agent's key can cut that agent off.
\<close>
lemma respelled_key_cuts_off:
  assumes m: "mirrors_db view base d n" and ok: "schema_ok d"
    and f: "in_force d r1 l1" "in_force d r2 l2" "r1 \<noteq> r2"
    and k: "ParseKey (ls_pubkey l1) = Some k" "ParseKey (ls_pubkey l2) = Some k"
  shows "\<exists>r\<in>{r1, r2}. \<forall>k' dp. view (net_dev (ns_net n)) k' = Some dp \<longrightarrow> (Addr4 (tun_ip r), 32) \<notin> dp_allowed dp"
proof (rule ccontr)
  assume "\<not> ?thesis"
  then obtain k1 d1 k2 d2 where v: "view (net_dev (ns_net n)) k1 = Some d1" "(Addr4 (tun_ip r1), 32) \<in> dp_allowed d1"
    "view (net_dev (ns_net n)) k2 = Some d2" "(Addr4 (tun_ip r2), 32) \<in> dp_allowed d2" by auto
  note p1 = peer_of_lease [OF m ok f(1) v(1,2)] and p2 = peer_of_lease [OF m ok f(2) v(3,4)]
  have "k1 = k2" using p1(1) p2(1) k by simp
  then have "tun_ip r1 = tun_ip r2" using v(1,3) p1(2) p2(2) by auto
  moreover have "distinct (map tun_ip (tunnels (db_tables d)))" using schema_okD(3) [OF ok] by (simp add: tunnels_ok_def)
  ultimately show False using f by (auto simp: in_force_def dest: distinct_key_inj [of tun_ip])
qed

section \<open>A poll that gets through\<close>

lemma store_NodeConfig_runs: "db_faults d = [] \<Longrightarrow> \<exists>c. store_NodeConfig coll base fresh dz d = (Inr c, d)"
  by (simp add: store_NodeConfig_def bindr_def query_run dnsActiveNodeIPs_def dnsChallenges_def retr_def Let_def)

text \<open>What a configuration depends on is not what a touch of the node changes.\<close>

definition same_but_nodes :: "db \<Rightarrow> db \<Rightarrow> bool" where
  "same_but_nodes d d' \<longleftrightarrow> db_now d' = db_now d \<and> tunnels (db_tables d') = tunnels (db_tables d) \<and>
     leases (db_tables d') = leases (db_tables d) \<and> challenges (db_tables d') = challenges (db_tables d)"

lemma poll_answered:
  assumes run: "db_faults (api_db s) = []" and tok: "Parse (ncf_token ncf) PrefixNode = Inr tok"
    and auth: "AuthNode tok (api_db s) = (Inr nd, d1)" and ok: "db_ok (api_db s)"
  shows "\<exists>c s'. poll_reply srv ncf v [] s =
      (if nc_version c = v then None else Some (over_http config_body ''GET'' (writeJSON (ConfigBody c))), s') \<and>
    same_but_nodes (api_db s) (api_db s') \<and>
    store_NodeConfig (srv_collation srv) (srv_base_domain srv) nodeFreshness (srv_zone srv) (api_db s') = (Inr c, api_db s') \<and>
    config_of (srv_collation srv) (srv_base_domain srv) (api_db s') c \<and> db_ok (api_db s')"
proof -
  let ?r = "poll_request ncf v"
  have path: "route_of (rq_path ?r) = Some ConfigRoute" "rq_method ?r \<in> set (methods ConfigRoute)" "agent_handler srv ?r ConfigRoute = None"
    by (simp_all add: poll_request_def route_examples)
  have bearer: "bearer ?r = ncf_token ncf"
    unfolding bearer_def poll_request_def request.simps cut_prefix_append option.case by (rule HOL.refl)
  have d1: "d1 = api_db s"
    using auth run by (auto simp: AuthNode_def bindr_def query_run throw_def retr_def split: option.splits if_splits)
  define d2 where "d2 = snd (TouchNode (n_id nd) (api_db s))"
  have touch: "TouchNode (n_id nd) (api_db s) = (Inr (), d2)" and f2: "db_faults d2 = []" and same: "same_but_nodes (api_db s) d2"
    by (simp_all add: d2_def TouchNode_def sql_update_node_def bindr_def stmt_run run retr_def same_but_nodes_def)
  obtain c where c: "store_NodeConfig (srv_collation srv) (srv_base_domain srv) nodeFreshness (srv_zone srv) d2 = (Inr c, d2)"
    using store_NodeConfig_runs [OF f2] by blast
  have look: "config_look srv v nd s = (if nc_version c = v then None else Some (writeJSON (ConfigBody c)), s\<lparr>api_db := d2\<rparr>)"
    by (simp add: config_look_def call_def touch c)
  have h: "Handler srv ?r [] s = (if nc_version c = v then None else Some (writeJSON (ConfigBody c)), s\<lparr>api_db := d2\<rparr>)"
  proof -
    have "node k ?r s = k nd s" for k by (simp add: node_def bearer tok call_def auth d1)
    moreover have "rq_query ?r ''since'' = v" by (simp add: poll_request_def)
    ultimately show ?thesis using path look by (simp add: Handler_def nodeConfig_def config_once)
  qed
  have ok2: "db_ok d2" using moves_db_ok [OF keyed_events.config_look_moves [OF look] ok] by simp
  then have "config_of (srv_collation srv) (srv_base_domain srv) d2 c" using c unfolding config_of_def db_ok_def by (metis fst_conv)
  with h same ok2 c show ?thesis by (intro exI [of _ c] exI [of _ "s\<lparr>api_db := d2\<rparr>"]) (simp add: poll_reply_def)
qed

text \<open>A configuration of a good database is applied by a node whose device does not refuse.\<close>

lemma apply_total:
  assumes c: "config_of coll base d c" and ok: "db_ok d" and dev: "\<And>ls x. ne_ipc env ls x \<noteq> None"
  shows "\<exists>n'. apply_config env c n = (True, n')"
proof -
  obtain fresh dz d' where cfg: "store_NodeConfig coll base fresh dz d = (Inr c, d')"
    using c by (metis config_of_def prod.collapse)
  have keys: "ParseKey key \<noteq> None" if "(sub, w, key) \<in> set (sql_live_leases d)" for sub w key
    using that ok live_leases_iff [of d] by (auto simp: db_ok_def keys_ok_def in_force_def)
  have peers: "apply_peers (config_peers rows) \<noteq> None" if "\<And>sub w key. (sub, w, key) \<in> set rows \<Longrightarrow> ParseKey key \<noteq> None" for rows
    using that
  proof (induction rows)
    case (Cons x rows)
    obtain sub w key where x: "x = (sub, w, key)" by (cases x)
    have "ParseKey key \<noteq> None" using Cons.prems [of sub w key] x by simp
    moreover have "apply_peers (config_peers rows) \<noteq> None" by (rule Cons.IH) (use Cons.prems in auto)
    ultimately show ?case by (auto simp: x config_peers_def ParseAddr_ip4_string)
  qed (simp add: config_peers_def)
  have routes: "\<exists>t. apply_routes (config_routes base rows) m = Some t" for rows m
    by (induction rows arbitrary: m) (auto simp: config_routes_def ParseAddr_ip4_string)
  note f = NodeConfig_fields [OF cfg]
  obtain ps t where ps: "apply_peers (nc_peers c) = Some ps" "apply_routes (nc_routes c) Map.empty = Some t"
    using peers [of "sql_live_leases d"] keys routes f by (metis not_None_eq)
  have "\<exists>m. SetPeers (ne_ipc env) a b ps x = (True, m)" for a b x
    using dev [of "set_peers_lines a b (net_peers x) (want_of ps)" "net_dev x"] by (auto simp: SetPeers_def Let_def)
  then obtain m where "SetPeers (ne_ipc env) (ne_peer_order env (net_peers (ns_net n))) (ne_peer_order env (want_of ps)) ps (ns_net n) = (True, m)"
    by blast
  with ps show ?thesis by (simp add: apply_config_def)
qed

text \<open>The poll and its delivery, when nothing is lost: the node is up to date, or it waits because it was.\<close>

lemma poll_delivered:
  assumes ok: "db_ok (api_db (sy_api S))" and dev: "device_good env view (rs_node (sy_node S))"
    and at: "rs_sync (sy_node S) = GBusy" "sy_reply S = None" and run: "db_faults (api_db (sy_api S)) = []"
    and tok: "Parse (ncf_token ncf) PrefixNode = Inr tok" and auth: "AuthNode tok (api_db (sy_api S)) = (Inr nd, d1)"
    and accepts: "\<And>ls x. ne_ipc env ls x \<noteq> None"
  shows "\<exists>c S1. system_step srv env ncf (Poll []) S = Some S1 \<and> same_but_nodes (api_db (sy_api S)) (api_db (sy_api S1)) \<and>
    store_NodeConfig (srv_collation srv) (srv_base_domain srv) nodeFreshness (srv_zone srv) (api_db (sy_api S1)) = (Inr c, api_db (sy_api S1)) \<and>
    config_of (srv_collation srv) (srv_base_domain srv) (api_db (sy_api S1)) c \<and>
    (nc_version c = rs_version (sy_node S) \<or>
     (\<exists>S2. system_step srv env ncf Deliver S1 = Some S2 \<and> rs_version (sy_node S2) = nc_version c \<and>
        apply_config env c (rs_node (sy_node S)) = (True, rs_node (sy_node S2)) \<and>
        mirrors_db view (srv_base_domain srv) (api_db (sy_api S)) (rs_node (sy_node S2))))"
proof -
  let ?v = "rs_version (sy_node S)"
  obtain c s' where p: "poll_reply srv ncf ?v [] (sy_api S) =
      (if nc_version c = ?v then None else Some (over_http config_body ''GET'' (writeJSON (ConfigBody c))), s')"
    and same: "same_but_nodes (api_db (sy_api S)) (api_db s')"
    and cfg: "store_NodeConfig (srv_collation srv) (srv_base_domain srv) nodeFreshness (srv_zone srv) (api_db s') = (Inr c, api_db s')"
    and c: "config_of (srv_collation srv) (srv_base_domain srv) (api_db s') c" and ok': "db_ok (api_db s')"
    using poll_answered [OF run tok auth ok] by blast
  let ?reply = "if nc_version c = ?v then None else Some (over_http config_body ''GET'' (writeJSON (ConfigBody c)))"
  let ?S1 = "S\<lparr>sy_api := s', sy_reply := Some ?reply\<rparr>"
  have S1: "system_step srv env ncf (Poll []) S = Some ?S1"
    using at p by (simp add: sched_ok_def)
  have "\<exists>S2. system_step srv env ncf Deliver ?S1 = Some S2 \<and> rs_version (sy_node S2) = nc_version c \<and>
        apply_config env c (rs_node (sy_node S)) = (True, rs_node (sy_node S2)) \<and>
        mirrors_db view (srv_base_domain srv) (api_db (sy_api S)) (rs_node (sy_node S2))" if new: "nc_version c \<noteq> ?v"
  proof -
    have r: "Do ?reply = Inr c" using new by (simp add: Do_def over_http_def writeJSON_def respond_def config_body_def)
    obtain n' where n': "apply_config env c (rs_node (sy_node S)) = (True, n')" using apply_total [OF c ok' accepts] by blast
    have "wg_device (ne_ipc env) view" "orders_ok env" "device_ok view (rs_node (sy_node S))" using dev by (simp_all add: device_good_def)
    from apply_mirrors [OF this n' c] have "mirrors_db view (srv_base_domain srv) (api_db s') n'" by blast
    then have m: "mirrors_db view (srv_base_domain srv) (api_db (sy_api S)) n'"
      using same by (simp add: mirrors_db_def in_force_def same_but_nodes_def)
    have "sync_turn env ?reply ?v (rs_node (sy_node S)) = SyncNext (nc_version c) 0 n'" using n' r by (simp add: sync_turn_def)
    with m at n' show ?thesis by (simp add: sync_reply_def)
  qed
  moreover have "sy_api ?S1 = s'" by simp
  ultimately show ?thesis using S1 same cfg c by metis
qed

section \<open>An example system\<close>

text \<open>The first tunnel is registered, a node has a token, and the node's sync loop has made its request.\<close>

definition node_token :: Token where
  "node_token = New_Token PrefixNode [3] [4]"

definition noded_db :: db where
  "noded_db = exec (EvCreateNode ''n'' ''n:5'' [] [3] [4]) (live_db 0 LeaseTTL)"

definition noded_state :: "(unit, unit) api_state" where
  "noded_state = (live_state 0 LeaseTTL)\<lparr>api_db := noded_db\<rparr>"

definition token_ncf :: node_config where
  "token_ncf = plain_ncf\<lparr>ncf_token := Token_String node_token\<rparr>"

lemma noded_state_served: "served example_server noded_state"
proof -
  obtain resp where "Handler example_server (example_register ''i1'') [] first_state = (Some resp, live_state 0 LeaseTTL)"
    using first_registers by blast
  with served.request [OF first_state_served, of "example_register ''i1''"] have "served example_server (live_state 0 LeaseTTL)" by simp
  from served.operate [OF this, of "EvCreateNode ''n'' ''n:5'' [] [3] [4]"] show ?thesis
    by (simp add: noded_state_def noded_db_def live_state_def)
qed

lemma first_gateway: "inet (gateway_text 1) = Some 168427777"
  by code_simp

lemma noded_db_run:
  "db_faults noded_db = []" "leases (db_tables noded_db) = leases (db_tables (live_db 0 LeaseTTL))"
  "tunnels (db_tables noded_db) = tunnels (db_tables (live_db 0 LeaseTTL))" "db_now noded_db = 0"
  by (simp_all add: noded_db_def live_db_def first_db_def first_tunnel_def run_defs CreateNode_def sql_insert_node_def null_inet_def
      first_gateway)

lemma noded_auth: "\<exists>nd. AuthNode node_token noded_db = (Inr nd, noded_db)"
  unfolding AuthNode_def bindr_def query_run [OF noded_db_run(1)]
  by (simp add: noded_db_def live_db_def first_db_def first_tunnel_def run_defs CreateNode_def sql_insert_node_def null_inet_def
      first_gateway node_token_def Verify_iff)

lemma node_token_parse: "Parse (ncf_token token_ncf) PrefixNode = Inr node_token"
  unfolding token_ncf_def node_token_def by code_simp

definition noded_system :: "(unit, unit, dev_view) system" where
  "noded_system = \<lparr>sy_api = noded_state, sy_node = (run_start view_node)\<lparr>rs_sync := GBusy\<rparr>, sy_reply = None\<rparr>"

lemma noded_system_run:
  "system_run example_server view_env token_ncf [Goroutine EvSyncTest] (system_start noded_state view_node) = Some noded_system"
  by (simp add: system_start_def noded_system_def run_start_def sync_test_def)

lemma view_device: "wg_device (ne_ipc view_env) (\<lambda>v. v)" "orders_ok view_env" "fresh_node (\<lambda>v. v) view_node"
  "ne_ipc view_env ls x \<noteq> None"
  by (simp_all add: fresh_node_def view_node_def wg_device_def view_env_def orders_ok_def)

lemma noded_system_at:
  "rs_sync (sy_node noded_system) = GBusy" "sy_reply noded_system = None" "api_db (sy_api noded_system) = noded_db"
  "rs_version (sy_node noded_system) = []" "rs_node (sy_node noded_system) = view_node"
  by (simp_all add: noded_system_def noded_state_def run_start_def)

lemma config_of_version: "config_of coll base d c \<Longrightarrow> nc_version c \<noteq> []"
  unfolding config_of_def using NodeConfig_fields config_version_not_Nil by (metis prod.collapse)

lemma noded_system_delivered:
  "\<exists>S. system_run example_server view_env token_ncf [Poll [], Deliver] noded_system = Some S \<and> rs_version (sy_node S) \<noteq> [] \<and>
     mirrors_db (\<lambda>v. v) ''ex.org'' noded_db (rs_node (sy_node S))"
proof -
  have ok: "db_ok (api_db (sy_api noded_system))" using served_db_ok [OF noded_state_served] by (simp add: noded_system_def)
  have dev: "device_good view_env (\<lambda>v. v) (rs_node (sy_node noded_system))"
    using view_device(1,2) by (simp add: noded_system_at device_good_def device_ok_def view_node_def configured_def)
  obtain nd where auth: "AuthNode node_token (api_db (sy_api noded_system)) = (Inr nd, noded_db)"
    using noded_auth by (auto simp: noded_system_at)
  have run: "db_faults (api_db (sy_api noded_system)) = []" by (simp add: noded_system_at noded_db_run)
  from poll_delivered [OF ok dev noded_system_at(1,2) run node_token_parse auth view_device(4)] obtain c S1 where
    S1: "system_step example_server view_env token_ncf (Poll []) noded_system = Some S1"
    "config_of (srv_collation example_server) (srv_base_domain example_server) (api_db (sy_api S1)) c"
    and rest: "nc_version c = [] \<or> (\<exists>S2. system_step example_server view_env token_ncf Deliver S1 = Some S2 \<and>
      rs_version (sy_node S2) = nc_version c \<and> mirrors_db (\<lambda>v. v) (srv_base_domain example_server) noded_db (rs_node (sy_node S2)))"
    unfolding noded_system_at by blast
  have v: "nc_version c \<noteq> []" by (rule config_of_version [OF S1(2)])
  with rest obtain S2 where S2: "system_step example_server view_env token_ncf Deliver S1 = Some S2"
    "rs_version (sy_node S2) = nc_version c" "mirrors_db (\<lambda>v. v) (srv_base_domain example_server) noded_db (rs_node (sy_node S2))" by blast
  have "system_run example_server view_env token_ncf [Poll [], Deliver] noded_system = Some S2"
    using S1(1) S2(1) by (simp del: system_step.simps)
  moreover have "srv_base_domain example_server = ''ex.org''" by (simp add: example_server_def)
  ultimately show ?thesis using S2(2,3) v by auto
qed

text \<open>The lease of the example, and its name.\<close>

lemma noded_in_force: "\<exists>r l. in_force noded_db r l \<and> tun_subdomain r = take 7 (Random [0, 0, 0, 0, 0]) \<and> tun_ip r = 171966466"
  unfolding in_force_def noded_db_run
  by (simp add: live_db_def first_db_def first_tunnel_def run_defs LeaseTTL_def second_def)

section \<open>Properties\<close>

text \<open>
  C3: End to end, from a name to a key.  In every run of the control plane and a node together,
  however they interleave and whatever is lost, a connection the node hands to an agent goes to
  the address of a tunnel that owned the name and had a lease in force when some poll of the run
  was answered, and the node's device lets only the key of that lease use the address; that key
  has a peer, with this one address, unless another tunnel registered a respelling of it.
\<close>
theorem traffic_reaches_holder:
  assumes "served srv s" and "wg_device (ne_ipc env) view" and "orders_ok env" and "fresh_node view n"
    and "system_run srv env ncf evs (system_start s n) = Some S"
    and "handleTLS ncf hel dialTCP dialWG wok remote local conn (rs_node (sy_node S)) = JoinedAgent dst hdr c"
  shows "\<exists>cf d r l k name. was_at srv env ncf (system_start s n) evs cf d \<and> rs_version (sy_node S) = nc_version cf \<and>
    in_force d r l \<and> Peek hel conn = Inr (name, c) \<and> in_domain (to_lower (tunnel_domain (tun_subdomain r) (srv_base_domain srv))) name \<and>
    dst = \<lparr>ap_addr = Addr4 (tun_ip r), ap_port = AgentPort\<rparr> \<and> ParseKey (ls_pubkey l) = Some k \<and>
    (\<forall>k' dp. view (net_dev (ns_net (rs_node (sy_node S)))) k' = Some dp \<and> (Addr4 (tun_ip r), 32) \<in> dp_allowed dp \<longrightarrow> k' = k) \<and>
    ((\<forall>r' l'. in_force d r' l' \<and> ParseKey (ls_pubkey l') = Some k \<longrightarrow> r' = r) \<longrightarrow>
       (\<exists>dp. view (net_dev (ns_net (rs_node (sy_node S)))) k = Some dp \<and> dp_allowed dp = {(Addr4 (tun_ip r), 32)}))"
proof -
  let ?n = "rs_node (sy_node S)"
  obtain name ip where peek: "Peek hel conn = Inr (name, c)" and match: "Match (ns_routes ?n) name = Some ip"
    and dst: "dst = \<lparr>ap_addr = ip, ap_port = AgentPort\<rparr>"
    using assms(6) by (auto simp: handleTLS_def Let_def split: sum.splits prod.splits option.splits if_splits)
  have "run_ok srv env ncf view (system_start s n) evs S"
    using run_ok_run [OF assms(5) run_ok_start [OF assms(1-4)]] .
  moreover have "?n \<noteq> n"
  proof
    assume "?n = n"
    then have "ns_routes ?n = Map.empty" using assms(4) by (simp add: fresh_node_def)
    then have "Match (ns_routes ?n) name = None" by (intro sni.miss) simp_all
    with match show False by simp
  qed
  ultimately obtain cf d where cf: "was_at srv env ncf (system_start s n) evs cf d" "rs_version (sy_node S) = nc_version cf"
    and m: "mirrors_db view (srv_base_domain srv) d ?n"
    by (auto simp: run_ok_def system_start_def run_start_def)
  have ok: "schema_ok d" "keys_ok d" using cf(1) by (auto simp: was_at_def db_ok_def)
  obtain r l where r: "in_force d r l" "ip = Addr4 (tun_ip r)" "in_domain (to_lower (tunnel_domain (tun_subdomain r) (srv_base_domain srv))) name"
    using m match unfolding mirrors_db_def by blast
  obtain k where k: "ParseKey (ls_pubkey l) = Some k" using ok(2) r(1) by (auto simp: keys_ok_def in_force_def)
  have "k' = k" if "view (net_dev (ns_net ?n)) k' = Some dp" "(Addr4 (tun_ip r), 32) \<in> dp_allowed dp" for k' dp
    using peer_of_lease(1) [OF m ok(1) r(1) that] k by simp
  moreover have "\<exists>dp. view (net_dev (ns_net ?n)) k = Some dp \<and> dp_allowed dp = {(Addr4 (tun_ip r), 32)}"
    if "\<forall>r' l'. in_force d r' l' \<and> ParseKey (ls_pubkey l') = Some k \<longrightarrow> r' = r"
    using that by (intro lease_has_peer [OF m r(1) k]) blast
  ultimately show ?thesis using cf r peek dst k by blast
qed

text \<open>
  C4: A node catches up.  At any moment of a run at which the node waits for an answer and none
  is in flight, if nothing is lost, its token is accepted and its device refuses nothing, the poll
  is served, and then either the node already reports the version of the current configuration,
  or the answer arrives and it reports that version and its routes and peers are exactly those of
  the leases in force: no registration can make a configuration a node would choke on.
\<close>
theorem node_catches_up:
  assumes "served srv s" and "wg_device (ne_ipc env) view" and "orders_ok env" and "fresh_node view n"
    and "system_run srv env ncf evs (system_start s n) = Some S"
    and "rs_sync (sy_node S) = GBusy" and "sy_reply S = None" and "db_faults (api_db (sy_api S)) = []"
    and "Parse (ncf_token ncf) PrefixNode = Inr tok" and "AuthNode tok (api_db (sy_api S)) = (Inr nd, d1)"
    and "\<forall>ls x. ne_ipc env ls x \<noteq> None"
  shows "\<exists>c S1. system_run srv env ncf [Poll []] S = Some S1 \<and>
    config_of (srv_collation srv) (srv_base_domain srv) (api_db (sy_api S1)) c \<and>
    (nc_version c = rs_version (sy_node S) \<or>
     (\<exists>S2. system_run srv env ncf [Poll [], Deliver] S = Some S2 \<and> rs_version (sy_node S2) = nc_version c \<and>
        mirrors_db view (srv_base_domain srv) (api_db (sy_api S)) (rs_node (sy_node S2))))"
proof -
  have "run_ok srv env ncf view (system_start s n) evs S"
    using run_ok_run [OF assms(5) run_ok_start [OF assms(1-4)]] .
  then have "db_ok (api_db (sy_api S))" "device_good env view (rs_node (sy_node S))" by (simp_all add: run_ok_def)
  from poll_delivered [OF this assms(6-10)] assms(11) obtain c S1 where
    S1: "system_step srv env ncf (Poll []) S = Some S1" "config_of (srv_collation srv) (srv_base_domain srv) (api_db (sy_api S1)) c"
    and rest: "nc_version c = rs_version (sy_node S) \<or> (\<exists>S2. system_step srv env ncf Deliver S1 = Some S2 \<and>
      rs_version (sy_node S2) = nc_version c \<and> mirrors_db view (srv_base_domain srv) (api_db (sy_api S)) (rs_node (sy_node S2)))"
    by blast
  have "system_run srv env ncf [Poll []] S = Some S1" "system_run srv env ncf [Poll [], Deliver] S = system_step srv env ncf Deliver S1"
    using S1(1) by (simp_all del: system_step.simps split: option.splits)
  with S1(2) rest show ?thesis by metis
qed

theorem node_catches_up_witness:
  "\<exists>S. system_run example_server view_env token_ncf [Poll [], Deliver] noded_system = Some S \<and> rs_version (sy_node S) \<noteq> [] \<and>
     mirrors_db (\<lambda>v. v) ''ex.org'' noded_db (rs_node (sy_node S))"
proof -
  obtain nd where auth: "AuthNode node_token (api_db (sy_api noded_system)) = (Inr nd, noded_db)"
    using noded_auth by (auto simp: noded_system_at)
  have run: "db_faults (api_db (sy_api noded_system)) = []" by (simp add: noded_system_at noded_db_run)
  have "\<forall>ls x. ne_ipc view_env ls x \<noteq> None" using view_device(4) by blast
  from node_catches_up [OF noded_state_served view_device(1-3) noded_system_run noded_system_at(1,2) run node_token_parse auth this]
  obtain c and S1 :: "(unit, unit, dev_view) system" where c: "config_of (srv_collation example_server) (srv_base_domain example_server) (api_db (sy_api S1)) c"
    and rest: "nc_version c = [] \<or> (\<exists>S2. system_run example_server view_env token_ncf [Poll [], Deliver] noded_system = Some S2 \<and>
      rs_version (sy_node S2) = nc_version c \<and> mirrors_db (\<lambda>v. v) (srv_base_domain example_server) noded_db (rs_node (sy_node S2)))"
    unfolding noded_system_at by blast
  moreover have "srv_base_domain example_server = ''ex.org''" by (simp add: example_server_def)
  ultimately show ?thesis using config_of_version [OF c] by metis
qed

theorem traffic_reaches_holder_witness:
  "\<exists>S c d r l k. system_run example_server view_env token_ncf ([Goroutine EvSyncTest] @ [Poll [], Deliver])
       (system_start noded_state view_node) = Some S \<and>
     handleTLS token_ncf (\<lambda>_. (0, Some (tunnel_domain (take 7 (Random [0, 0, 0, 0, 0])) ''ex.org''))) (\<lambda>_. True) (\<lambda>_. True) True
       addr_port_zero addr_port_zero [] (rs_node (sy_node S)) =
       JoinedAgent \<lparr>ap_addr = Addr4 171966466, ap_port = AgentPort\<rparr> (Header addr_port_zero addr_port_zero) c \<and>
     in_force d r l \<and> tun_ip r = 171966466 \<and> ParseKey (ls_pubkey l) = Some k"
proof -
  let ?sub = "take 7 (Random [0, 0, 0, 0, 0])" and ?evs = "[Goroutine EvSyncTest] @ [Poll [], Deliver]"
  let ?name = "tunnel_domain ?sub ''ex.org''"
  obtain S where S: "system_run example_server view_env token_ncf [Poll [], Deliver] noded_system = Some S"
    and m: "mirrors_db (\<lambda>v. v) ''ex.org'' noded_db (rs_node (sy_node S))" using noded_system_delivered by blast
  have run: "system_run example_server view_env token_ncf ?evs (system_start noded_state view_node) = Some S"
    unfolding system_run_append noded_system_run using S by simp
  have own: "in_domain (to_lower x) (to_lower x)" for x by (simp add: in_domain_def)
  obtain r0 l0 where "in_force noded_db r0 l0" "tun_subdomain r0 = ?sub" "tun_ip r0 = 171966466" using noded_in_force by blast
  then have match: "Match (ns_routes (rs_node (sy_node S))) (to_lower ?name) = Some (Addr4 171966466)"
    using m own [of ?name] unfolding mirrors_db_def by metis
  have "Match (ncf_local_routes token_ncf) (to_lower ?name) = None"
    by (rule sni.miss) (simp_all add: token_ncf_def plain_ncf_def)
  then have h: "handleTLS token_ncf (\<lambda>_. (0, Some ?name)) (\<lambda>_. True) (\<lambda>_. True) True addr_port_zero addr_port_zero []
      (rs_node (sy_node S)) = JoinedAgent \<lparr>ap_addr = Addr4 171966466, ap_port = AgentPort\<rparr> (Header addr_port_zero addr_port_zero)
        (NewPrefixConn [] [])"
    using match by (simp add: handleTLS_def Peek_def tunnel_domain_def)
  from traffic_reaches_holder [OF noded_state_served view_device(1-3) run h] obtain d r l k where
    "in_force d r l" "171966466 = tun_ip r" "ParseKey (ls_pubkey l) = Some k" by fastforce
  with run h show ?thesis by metis
qed

end
