(* ===== verification/Challenge_Path.thy ===== *)
theory Challenge_Path
  imports Control_Loop
begin

text \<open>
  The way of a DNS-01 challenge, from the agent's request to the answer the certificate authority
  gets: acmeDNSCreate of internal/api, the row of internal/store, the long poll and applyConfig of
  internal/node, and the zone of internal/dnsserver.
\<close>

section \<open>Into the database\<close>

lemma CreateDNSChallenge_stored:
  assumes "CreateDNSChallenge tid fqdn val recid rnd d = (Inr i, d')"
  shows "\<exists>c\<in>set (challenges (db_tables d')). ch_tunnel c = tid \<and> ch_fqdn c = fqdn \<and> ch_value c = val"
  using assms
  by (auto simp: CreateDNSChallenge_def Let_def bindr_def stmt_def sql_insert_challenge_def retr_def
      split: prod.splits sum.splits fault.splits if_splits)

text \<open>A challenge answered 200 is in the database, by the name and the value of the request.\<close>

lemma challenge_accepted:
  assumes "route_of (rq_path r) = Some AcmeDNS" and "Handler srv r [] s = (Some resp, s')" and "rs_status resp = 200"
  obtains j where "rq_json r = Some j"
    "\<exists>c\<in>set (challenges (db_tables (api_db s'))). ch_fqdn c = to_lower (trim_suffix (field j ''fqdn'') ''.'') \<and>
       ch_value c = field j ''value''"
proof -
  have "agent (acmeDNSCreate srv r) r s = (resp, s')"
    using assms by (auto simp: Handler_def respond_def split: if_splits prod.splits)
  then obtain T s1 where h: "acmeDNSCreate srv r T s1 = (resp, s')"
    using assms(3) fail_not_ok by (auto simp: agent_def writeErr_def respond_def split: sum.splits prod.splits)
  then show thesis
  proof (cases rule: acmeDNSCreate_cases)
    case refused
    then show thesis using assms(3) by simp
  next
    case (stored fqdn val recid s3 q j)
    obtain i where "q = Inr i" using stored(6) assms(3) fail_not_ok by (cases q) auto
    then have "CreateDNSChallenge (t_id T) fqdn val recid (rq_random r) (api_db s3) = (Inr i, api_db s')"
      using stored(5) by (auto simp: call_def split: prod.splits)
    from CreateDNSChallenge_stored [OF this] stored(3) show thesis
      unfolding stored(8,9) by (intro that [OF stored(7)]) blast
  qed
qed

section \<open>Into the configuration\<close>

lemma config_zone:
  assumes "store_NodeConfig coll base fresh dz d = (Inr c, d')" and "zc_ns_names dz \<noteq> []"
  shows "\<exists>z. nc_dns c = Some z \<and> dz_zone z = base \<and>
    dz_challenges z = map (\<lambda>c. \<lparr>txt_fqdn = ch_fqdn c, txt_value = ch_value c\<rparr>) (sort_key (\<lambda>c. coll (ch_fqdn c)) (challenges (db_tables d)))"
  using assms
  by (auto simp: store_NodeConfig_def bindr_Inr dnsActiveNodeIPs_def dnsChallenges_def retr_def Let_def with_version_def dest!: query_Inr)

text \<open>The question of a certificate authority to a node.\<close>

definition ask_txt :: "dns_lib \<Rightarrow> instant \<Rightarrow> 'dev node_state \<Rightarrow> string \<Rightarrow> msg" where
  "ask_txt lib now n qn = serve_query lib now (ns_dns n) [\<lparr>q_name = qn, q_type = TypeTXT\<rparr>]"

text \<open>A node that applied the configuration of a database answers with the challenges of that database.\<close>

lemma applied_zone:
  assumes "dns_contract (ne_lib env)" and "orders_ok env" and "apply_config env c n = (True, n')"
    and cfg: "store_NodeConfig coll base fresh dz d = (Inr c, d')" and on: "zc_ns_names dz \<noteq> []"
    and "stored_name base" and "base \<noteq> []" and "\<And>c. c \<in> set (challenges (db_tables d)) \<Longrightarrow> stored_name (ch_fqdn c)"
    and "stored_name f" and "in_domain base f" and "to_lower qn = f @ ''.''" and chs: "challenges (db_tables d) = chs"
  shows "m_authoritative (ask_txt (ne_lib env) now n' qn) \<and>
    set (map rr_data (m_answer (ask_txt (ne_lib env) now n' qn))) =
      (\<lambda>c. RD_TXT [ch_value c]) ` {c \<in> set chs. ch_fqdn c = f}"
proof -
  obtain z where z: "nc_dns c = Some z" "dz_zone z = base" "dz_challenges z =
      map (\<lambda>c. \<lparr>txt_fqdn = ch_fqdn c, txt_value = ch_value c\<rparr>) (sort_key (\<lambda>c. coll (ch_fqdn c)) (challenges (db_tables d)))"
    using config_zone [OF cfg on] by blast
  have now: "srv_zone_now (ns_dns n') = normalize (ne_lib env) (ne_name_order env (z_challenges (zone_of z))) (zone_of z)"
    using apply_config_True(2) [OF assms(3)] z(1) by (simp add: SetZone_def)
  have "\<forall>c\<in>set (dz_challenges z). stored_name (txt_fqdn c)" using assms(8) by (auto simp: z(3))
  note r = zone_answers_challenges [OF assms(1,2) now _ _ this assms(9) _ assms(11), unfolded z(2), OF assms(6,7,10)]
  have "set (map (\<lambda>c. RD_TXT [txt_value c]) (filter (\<lambda>c. txt_fqdn c = f) (dz_challenges z))) =
      (\<lambda>c. RD_TXT [ch_value c]) ` {c \<in> set chs. ch_fqdn c = f}"
    by (force simp: z(3) chs [symmetric])
  then show ?thesis using r(1) unfolding ask_txt_def r(3) by blast
qed

text \<open>The challenges a running control plane holds have names that a node serves, if none has escapes.\<close>

lemma challenge_stored_name:
  assumes "served srv s" and "c \<in> set (challenges (db_tables (api_db s)))"
    and "srv_base_domain srv \<noteq> []" and "\<not> has_suffix (srv_base_domain srv) ''.''" and "CHR 0x5C \<notin> set (ch_fqdn c)"
  shows "stored_name (ch_fqdn c) \<and> stored_name (srv_base_domain srv) \<and> in_domain (srv_base_domain srv) (ch_fqdn c)"
proof -
  obtain sub where low: "lowercase (ch_fqdn c)" and "challenge_name (tunnel_domain sub (srv_base_domain srv)) (ch_fqdn c)"
    using served_confined [OF assms(1,2)] by (auto simp: challenge_confined_def)
  then obtain u where f: "ch_fqdn c = ''_acme-challenge.'' @ u @ sub @ ''.'' @ srv_base_domain srv"
    unfolding challenge_name_tunnel by blast
  have dot: "has_suffix x ''.'' \<longleftrightarrow> x \<noteq> [] \<and> last x = CHR ''.''" for x
    unfolding has_suffix_iff by (metis append_butlast_last_id last_snoc snoc_eq_iff_butlast)
  have "\<not> has_suffix (ch_fqdn c) ''.''" using assms(3,4) by (simp add: dot f)
  moreover have "in_domain (srv_base_domain srv) (ch_fqdn c)" by (auto simp: f in_domain_def)
  ultimately show ?thesis using low assms(4,5) by (auto simp: stored_name_def f lowercase_def)
qed

lemma applied_challenges:
  assumes "dns_contract (ne_lib env)" and "device_good env view n" and "apply_config env c n = (True, n')"
    and "store_NodeConfig coll (srv_base_domain srv) fresh dz d = (Inr c, d')" and "zc_ns_names dz \<noteq> []"
    and "served srv s" and same: "challenges (db_tables d) = challenges (db_tables (api_db s))"
    and "srv_base_domain srv \<noteq> []" and "\<not> has_suffix (srv_base_domain srv) ''.''"
    and "\<forall>c\<in>set (challenges (db_tables (api_db s))). CHR 0x5C \<notin> set (ch_fqdn c)"
    and ch: "ch \<in> set (challenges (db_tables (api_db s)))" "ch_fqdn ch = f" and "to_lower qn = f @ ''.''"
  shows "m_authoritative (ask_txt (ne_lib env) now n' qn) \<and> set (map rr_data (m_answer (ask_txt (ne_lib env) now n' qn))) =
      (\<lambda>c. RD_TXT [ch_value c]) ` {c \<in> set (challenges (db_tables (api_db s))). ch_fqdn c = f}"
proof -
  note names = challenge_stored_name [OF assms(6) _ assms(8,9)]
  have "stored_name f" "stored_name (srv_base_domain srv)" "in_domain (srv_base_domain srv) f" using names [of ch] ch assms(10) by auto
  moreover have "stored_name (ch_fqdn c)" if "c \<in> set (challenges (db_tables d))" for c using that names assms(10) unfolding same by blast
  moreover have "orders_ok env" using assms(2) by (simp add: device_good_def)
  ultimately show ?thesis by (intro applied_zone [OF assms(1) _ assms(3-5) _ assms(8) _ _ _ assms(13) same])
qed

section \<open>An example\<close>

text \<open>A control plane with a zone, its first tunnel and a node, whose sync loop has made its request.\<close>

definition zoned_server :: "(unit, unit) Server" where
  "zoned_server = example_server\<lparr>srv_zone := \<lparr>zc_ns_names = [''ns1''], zc_soa_email = []\<rparr>\<rparr>"

definition zoned_db :: db where
  "zoned_db = exec (EvCreateNode ''n'' ''n:5'' [] [3] [4]) first_db"

definition zoned_state :: "(unit, unit) api_state" where
  "zoned_state = \<lparr>api_db = zoned_db, api_prov = (), api_limiters = Map.empty\<rparr>"

definition zoned_system :: "(unit, unit, dev_view) system" where
  "zoned_system = \<lparr>sy_api = zoned_state, sy_node = (run_start view_node)\<lparr>rs_sync := GBusy\<rparr>, sy_reply = None\<rparr>"

lemma zoned_state_served: "served zoned_server zoned_state"
proof -
  let ?s = "\<lparr>api_db = db_init 0 [], api_prov = (), api_limiters = Map.empty\<rparr> :: (unit, unit) api_state"
  have "served zoned_server (?s\<lparr>api_db := exec (EvCreateTunnel ''a@b'' ''free'' [1] [2] [[0, 0, 0, 0, 0]]) (api_db ?s)\<rparr>)"
    using served.boot by (rule served.operate) simp_all
  from served.operate [OF this, of "EvCreateNode ''n'' ''n:5'' [] [3] [4]"] show ?thesis
    by (simp add: zoned_state_def zoned_db_def first_db_def first_tunnel_def)
qed

lemma zoned_db_run:
  "db_faults zoned_db = []" "challenges (db_tables zoned_db) = []" "tunnels (db_tables zoned_db) = tunnels (db_tables first_db)"
  by (simp_all add: zoned_db_def first_db_def first_tunnel_def run_defs CreateNode_def sql_insert_node_def null_inet_def first_gateway)

lemma zoned_agent: "AuthAgent first_token zoned_db = (Inr first_T, zoned_db)"
proof -
  have "AuthAgent first_token zoned_db = (Inr \<lparr>t_id = 1, t_email = ''a@b'', t_plan = ''free'',
      t_subdomain = take 7 (Random [0, 0, 0, 0, 0]), t_vpn_ip = ip4_string 171966466, t_online = False\<rparr>, zoned_db)"
    unfolding AuthAgent_run [OF zoned_db_run(1)] first_token_def
    by (simp add: zoned_db_def first_db_def first_tunnel_def run_defs sql_agent_by_token_def tunnel_of_def tunnel_view_def
        account_of_def Verify_iff CreateNode_def sql_insert_node_def null_inet_def first_gateway)
  then show ?thesis by (simp add: first_names first_T_def)
qed

lemma zoned_granted:
  "\<exists>s1. Handler zoned_server example_acme [] zoned_state = (Some (writeJSON (ACMEBody (Random [7]))), s1) \<and>
     api_db s1 = put_tables (\<lambda>t. t\<lparr>challenges := [example_row]\<rparr>) zoned_db"
proof -
  have "list_ex (\<lambda>r. tun_id r = 1) (tunnels (db_tables zoned_db))"
    unfolding zoned_db_run(3) by (simp add: first_db_def first_tunnel_def run_defs)
  moreover have "zoned_state = first_state\<lparr>api_db := zoned_db\<rparr>" by (simp add: zoned_state_def first_state_def)
  ultimately show ?thesis
    using example_granted [of zoned_server zoned_db] zoned_db_run(1,2) zoned_agent by (simp add: zoned_server_def)
qed

text \<open>The node's token is accepted, with the challenge or without.\<close>

lemma zoned_node: "\<exists>nd d1. AuthNode node_token (put_tables (\<lambda>t. t\<lparr>challenges := cs\<rparr>) zoned_db) = (Inr nd, d1)"
  unfolding AuthNode_def bindr_def
  by (simp add: query_run zoned_db_def first_db_def first_tunnel_def run_defs CreateNode_def sql_insert_node_def null_inet_def
      first_gateway node_token_def Verify_iff)

section \<open>To the certificate authority\<close>

text \<open>
  C5: A challenge the API accepts reaches the DNS.  When a control plane that publishes its zone
  answers 200 to the request of an agent for a challenge, and then, with nothing lost, a poll of a
  node whose token is accepted is served, either the node already reports the version (64 bits of
  a hash) of the configuration with the challenge, or the answer arrives and from then on its DNS
  answers a TXT query for the name, in whatever case it is asked, with the values of exactly the
  challenges of this name in the database, the requested value among them.
\<close>
theorem challenge_reaches_dns:
  assumes "served srv (sy_api S)" and "device_good env view (rs_node (sy_node S))" and "dns_contract (ne_lib env)"
    and "rs_sync (sy_node S) = GBusy" and "sy_reply S = None"
    and "route_of (rq_path r) = Some AcmeDNS" and "rq_json r = Some j"
    and "Handler srv r [] (sy_api S) = (Some resp, s1)" and "rs_status resp = 200"
    and "zc_ns_names (srv_zone srv) \<noteq> []" and "srv_base_domain srv \<noteq> []" and "\<not> has_suffix (srv_base_domain srv) ''.''"
    and "\<forall>c\<in>set (challenges (db_tables (api_db s1))). CHR 0x5C \<notin> set (ch_fqdn c)"
    and "db_faults (api_db s1) = []" and "Parse (ncf_token ncf) PrefixNode = Inr tok" and "AuthNode tok (api_db s1) = (Inr nd, d1)"
    and "\<forall>ls x. ne_ipc env ls x \<noteq> None"
    and "f = to_lower (trim_suffix (field j ''fqdn'') ''.'')" and "to_lower qn = f @ ''.''"
  shows "\<exists>c S1. system_run srv env ncf [ControlPlane (ApiRequest r), Poll []] S = Some S1 \<and>
    store_NodeConfig (srv_collation srv) (srv_base_domain srv) nodeFreshness (srv_zone srv) (api_db (sy_api S1)) = (Inr c, api_db (sy_api S1)) \<and>
    (nc_version c = rs_version (sy_node S) \<or>
     (\<exists>S2. system_run srv env ncf [ControlPlane (ApiRequest r), Poll [], Deliver] S = Some S2 \<and> rs_version (sy_node S2) = nc_version c \<and>
        m_authoritative (ask_txt (ne_lib env) now (rs_node (sy_node S2)) qn) \<and>
        set (map rr_data (m_answer (ask_txt (ne_lib env) now (rs_node (sy_node S2)) qn))) =
          (\<lambda>c. RD_TXT [ch_value c]) ` {c \<in> set (challenges (db_tables (api_db s1))). ch_fqdn c = f} \<and>
        RD_TXT [field j ''value''] \<in> (\<lambda>c. RD_TXT [ch_value c]) ` {c \<in> set (challenges (db_tables (api_db s1))). ch_fqdn c = f}))"
proof -
  let ?S = "S\<lparr>sy_api := s1\<rparr>" and ?chs = "challenges (db_tables (api_db s1))"
  have step: "system_step srv env ncf (ControlPlane (ApiRequest r)) S = Some ?S" using assms(8) by simp
  have srvd: "served srv s1" using served.request [OF assms(1), of r] assms(8) by simp
  obtain ch where ch: "ch \<in> set ?chs" "ch_fqdn ch = f" "ch_value ch = field j ''value''"
    using challenge_accepted [OF assms(6,8,9)] assms(7,18) by (metis option.inject)
  have "db_ok (api_db (sy_api ?S))" "device_good env view (rs_node (sy_node ?S))" "rs_sync (sy_node ?S) = GBusy" "sy_reply ?S = None"
    "db_faults (api_db (sy_api ?S)) = []" "AuthNode tok (api_db (sy_api ?S)) = (Inr nd, d1)"
    using served_db_ok [OF srvd] assms by simp_all
  from poll_delivered [OF this(1-5) assms(15) this(6)] assms(17) obtain c S1 where
    S1: "system_step srv env ncf (Poll []) ?S = Some S1" "same_but_nodes (api_db s1) (api_db (sy_api S1))"
    and cfg: "store_NodeConfig (srv_collation srv) (srv_base_domain srv) nodeFreshness (srv_zone srv) (api_db (sy_api S1)) = (Inr c, api_db (sy_api S1))"
    and rest: "nc_version c = rs_version (sy_node S) \<or> (\<exists>S2. system_step srv env ncf Deliver S1 = Some S2 \<and>
      rs_version (sy_node S2) = nc_version c \<and> apply_config env c (rs_node (sy_node S)) = (True, rs_node (sy_node S2)))"
    by (simp del: system_step.simps) blast
  have run: "system_run srv env ncf [ControlPlane (ApiRequest r), Poll []] S = Some S1"
    "system_run srv env ncf [ControlPlane (ApiRequest r), Poll [], Deliver] S = system_step srv env ncf Deliver S1"
    using step S1(1) by (simp_all del: system_step.simps split: option.splits)
  let ?vals = "(\<lambda>c. RD_TXT [ch_value c]) ` {c \<in> set ?chs. ch_fqdn c = f}"
  have same: "challenges (db_tables (api_db (sy_api S1))) = ?chs" using S1(2) by (simp add: same_but_nodes_def)
  note answers = applied_challenges [OF assms(3,2) _ cfg assms(10) srvd same assms(11-13) ch(1,2) assms(19)]
  have val: "RD_TXT [field j ''value''] \<in> ?vals" using ch by force
  from rest show ?thesis
  proof (elim disjE exE conjE)
    assume "nc_version c = rs_version (sy_node S)"
    then show ?thesis using run(1) cfg by blast
  next
    fix S2
    assume "system_step srv env ncf Deliver S1 = Some S2" "rs_version (sy_node S2) = nc_version c"
      "apply_config env c (rs_node (sy_node S)) = (True, rs_node (sy_node S2))"
    then show ?thesis using run cfg answers [of "rs_node (sy_node S2)"] val by (intro exI [of _ c] exI [of _ S1] conjI disjI2 exI [of _ S2]) simp_all
  qed
qed

theorem challenge_reaches_dns_witness:
  "\<exists>S2. system_run zoned_server view_env token_ncf [ControlPlane (ApiRequest example_acme), Poll [], Deliver] zoned_system = Some S2 \<and>
     RD_TXT [''v''] \<in> set (map rr_data (m_answer (ask_txt plain_lib 0 (rs_node (sy_node S2)) ''_ACME-challenge.aaaaaaa.ex.org.'')))"
proof -
  let ?q = "''_ACME-challenge.aaaaaaa.ex.org.''"
  let ?j = "[''fqdn'' \<mapsto> ''_acme-challenge.aaaaaaa.ex.org.'', ''value'' \<mapsto> ''v'']"
  obtain s1 where s1: "Handler zoned_server example_acme [] (sy_api zoned_system) = (Some (writeJSON (ACMEBody (Random [7]))), s1)"
    "api_db s1 = put_tables (\<lambda>t. t\<lparr>challenges := [example_row]\<rparr>) zoned_db"
    using zoned_granted by (auto simp: zoned_system_def)
  obtain nd d1 where auth: "AuthNode node_token (api_db s1) = (Inr nd, d1)" using zoned_node s1(2) by metis
  have start: "served zoned_server (sy_api zoned_system)" "rs_sync (sy_node zoned_system) = GBusy" "sy_reply zoned_system = None"
    "rs_version (sy_node zoned_system) = []"
    using zoned_state_served by (simp_all add: zoned_system_def run_start_def)
  have dev: "device_good view_env (\<lambda>v. v) (rs_node (sy_node zoned_system))"
    using view_device(1,2) by (simp add: zoned_system_def run_start_def device_good_def device_ok_def view_node_def configured_def)
  have lib: "ne_lib view_env = plain_lib" by (simp add: view_env_def)
  have req: "route_of (rq_path example_acme) = Some AcmeDNS" "rq_json example_acme = Some ?j"
    by (simp_all add: example_acme_def example_request_def route_examples)
  have ok: "rs_status (writeJSON (ACMEBody (Random [7]))) = 200" by (simp add: writeJSON_def respond_def)
  have zone: "zc_ns_names (srv_zone zoned_server) \<noteq> []" "srv_base_domain zoned_server \<noteq> []"
    "\<not> has_suffix (srv_base_domain zoned_server) ''.''"
    by (simp_all add: zoned_server_def example_server_def has_suffix_def)
  have plain: "\<forall>c\<in>set (challenges (db_tables (api_db s1))). CHR 0x5C \<notin> set (ch_fqdn c)"
    by (simp add: s1(2) put_tables_def example_row_def)
  have run: "db_faults (api_db s1) = []" by (simp add: s1(2) put_tables_def zoned_db_run)
  have all: "\<forall>ls x. ne_ipc view_env ls x \<noteq> None" using view_device(4) by blast
  have name: "to_lower ?q = to_lower (trim_suffix (field ?j ''fqdn'') ''.'') @ ''.''" by code_simp
  have "dns_contract (ne_lib view_env)" by (simp add: lib plain_lib_contract)
  from challenge_reaches_dns [OF start(1) dev this start(2,3) req s1(1) ok zone plain run node_token_parse auth all HOL.refl name, of 0]
  obtain c and S1 :: "(unit, unit, dev_view) system" where
    cfg: "store_NodeConfig (srv_collation zoned_server) (srv_base_domain zoned_server) nodeFreshness (srv_zone zoned_server) (api_db (sy_api S1)) =
      (Inr c, api_db (sy_api S1))"
    and rest: "nc_version c = [] \<or> (\<exists>S2. system_run zoned_server view_env token_ncf [ControlPlane (ApiRequest example_acme), Poll [], Deliver] zoned_system = Some S2 \<and>
      RD_TXT [field ?j ''value''] \<in> set (map rr_data (m_answer (ask_txt plain_lib 0 (rs_node (sy_node S2)) ?q))))"
    unfolding start(4) lib by blast
  have "nc_version c \<noteq> []" using NodeConfig_fields [OF cfg] config_version_not_Nil by metis
  with rest show ?thesis by (auto simp: field_def)
qed

end
