(* ===== verification/Spec2Isabelle.thy ===== *)
theory Spec2Isabelle
  imports Prelude Go_Strings Sni Codec Digest Net_Addr Auth Proxy_Proto Wg_Net
    Proto Store_Db Store_Schema Store_Tunnels Tunnel_Facts Tunnel_Props Store_Nodes Node_Facts
    Store Store_Config Api Api_Frames Api_Props Api_Client Dns_Server Pipe Relay_Node Relay_Props
    Agent_Config Agent_Terminate Agent_Storage Agent_Lock Agent_Dns01 Agent_Export Agent_Core Agent_Props
    Url Dns_Providers Mock_Zone Mock_Props Go_Flags Admin_Cli Admin_Props
    Store_Migrate Node_Start Node_Props Agent_Start Agent_Session Api_Serve Dns_Query
    Api_Moves Api_Policy Api_Errors Admin_Report Lease_Life Lease_Keys Control_Loop Challenge_Path
begin

text \<open>
  wg-relay exposes private services on public names.  A control plane (cmd/wgrelay-api) keeps
  tunnels, leases and nodes in PostgreSQL and serves an HTTP API; relay nodes
  (cmd/wgrelay-node) accept TLS connections of visitors, read the host name of the ClientHello
  and join each connection, without terminating its TLS, to the agent that owns the name, over
  WireGuard; agents (cmd/wgrelay-agent) run next to the services, register for their tunnel, and
  pass each connection to its backend or terminate its TLS with certificates obtained by ACME.
  This development models the three programs and the packages they share, and proves what each
  promises the others.

  \<^bold>\<open>How the parts interact.\<close>  The agent registers with the control plane (register, lease),
  which from then on lists its key, address and names in the configuration of the nodes
  (store_NodeConfig); the node, in a long poll, applies that configuration (apply_config) and
  sends connections for those names to that address with a PROXY header; the agent accepts them
  only from the gateways the control plane told it of.  DNS-01 challenges travel from the agent
  (Agent_Dns01) through the API to the tables, and from there to the zone the nodes answer
  (Dns_Server) and, when there is one, to an external provider (Dns_Providers).

  \<^bold>\<open>Theories, in the order of the code they model.\<close>

  \<^item> Prelude, Go_Strings, Net_Addr, Url, Go_Flags, Codec, Digest: the standard library the
    program calls (strings, strconv, net/netip, net/url, flag, base32, base64, hex, crypto/sha256,
    hmac, hkdf).  They compute; their lemmas are round trips and the facts on prefixes, suffixes
    and splits that the components share.
  \<^item> Sni (internal/sni): Match, Peek and the reader that replays what Peek consumed.
  \<^item> Auth (internal/auth): tokens.  Proxy_Proto (internal/proxyproto): Header and Read.
    Wg_Net (internal/wgnet): keys and SetPeers against the device's UAPI.  Pipe (internal/pipe):
    Join as the interleaving of two goroutines over connections that the outside may end or break
    and peers that may stay silent.  Proto (internal/proto): the messages and the
    JSON whose hash is the version of a configuration.
  \<^item> Store_Db: tables, sequences, statements and transactions over a connection that may lose a
    statement or its reply (db_faults).  Store_Schema: the constraints of the migrations as
    schema_ok.  Store_Tunnels and Store_Nodes: one definition per function of
    internal/store/store.go, with its SQL as a function on tables.  Tunnel_Facts, Tunnel_Props,
    Node_Facts, Store and Store_Config: every operation keeps schema_ok (locales db_relation,
    store_invariant, table_relation and kv_store, interpreted on the SQL), the reachable
    states of the store and what holds of them.  Store_Migrate: Open, and Migrate run by several
    replicas at once.
  \<^item> Api (internal/api): the handlers, the middlewares, the dispatch (with the redirect of ServeMux
    for a path that is not clean, cleanPath in Url) and the long poll; Api_Frames:
    what each handler may change (stays_in); Api_Moves: that it only uses the store's operations,
    of a kind the instance chooses (locale api_events, interpreted three times); Api_Props: the
    promises of the API.  Api_Policy: the API as an access policy over the store, which operation
    a route grants to whom.  Api_Client (internal/apiclient): the other end; Api_Errors: every
    error of the store, at whatever statement of a handler, as the caller of the client sees it.
  \<^item> Dns_Server (internal/dnsserver), Relay_Node and Relay_Props (internal/node): the answers, the
    configuration and the connections; Node_Start and Node_Props (cmd/wgrelay-node, node.Run,
    wgnet.New): the program, whose four goroutines interleave, and what holds of its runs (locale
    sync_source).  Dns_Query (test/e2e/dnsquery): the client the tests ask the node's DNS with.
  \<^item> Agent_Config, Agent_Terminate, Agent_Storage, Agent_Lock, Agent_Dns01, Agent_Export,
    Agent_Core and Agent_Props (internal/agent, one theory per file of the package and one for
    the lock of storage.go).  The interface of the provider of challenges (locale challenge_api)
    is interpreted on the client over the handlers of the API.  Agent_Session: what its sessions send, open and close.  Agent_Start
    (cmd/wgrelay-agent): flags, environment, exit status, the banner and the bridge of logs.
  \<^item> Dns_Providers (internal/dnsprovider, internal/cloudflare): the clients of the external DNS
    and their common interface, the locale dns_provider.  Mock_Zone and Mock_Props
    (test/e2e/mockcf): the server the tests put at the other end, and that the client of
    Cloudflare over it meets the interface.  Admin_Cli and Admin_Props (cmd/wgrelay-api): the
    environment and the administration commands; Admin_Report: what they print is true of the
    database they leave; Api_Serve: serve and its listeners.
  \<^item> The programs together.  Lease_Life: histories of the control plane (serve_all) and the
    session of an agent whose heartbeats are answered in time.  Lease_Keys: every key of a lease
    parses.  Control_Loop: the control plane and a node with the answer of the long poll in flight
    between them (system_step), what the node shows at any moment of a run (run_ok), where its
    traffic goes, and that a poll that gets through brings it up to date.  Challenge_Path: a
    DNS-01 challenge from the request of an agent to the answer of a node's DNS.

  \<^bold>\<open>State and errors.\<close>  Structs are records, enumerations datatypes, maps are partial functions
  where only lookup matters and lists where order or duplicates do; the order in which Go ranges
  over a map is an argument, and the properties hold for every order.  A function that returns
  an error returns a sum, Inl being the error; database operations have the type db to (error +
  result) times db.  IPv4 addresses are 32-bit words and wrap as such; PostgreSQL's bigint
  sequences are integers with their bound written out (nextval).  Concurrent parts are step
  relations or sequences of events: Pipe, Agent_Lock, the listener fed by hand (chan_step), the
  events of Store, the replicas of Store_Migrate, the goroutines of a node (run_step), the
  control plane and a node (system_step).

  \<^bold>\<open>Loops and bounds.\<close>  Loops over data are structural recursions.  The loops that wait (the long
  poll, the heartbeat and sync loops, the first contact of a node) run along the sequence of
  what happens to them, an argument: nodeConfig_answers shows that 25 ticks are enough for the
  long poll, hello_backoff gives the pauses of the first contact, Join_terminates bounds the
  steps of Join by the bytes left and five more.  CreateTunnel draws five subdomains, no more
  (five_values), as the code does.

  \<^bold>\<open>Parameters.\<close>  What is not under src/ is an argument, with its documented behaviour as a named
  hypothesis where something rests on it: crypto/tls parsing the ClientHello (hel), AES-GCM
  (aead_contract), github.com/miekg/dns (dns_lib), libdns's AbsoluteName, gopkg.in/yaml.v3 and
  url.Parse, golang.org/x/time/rate, wireguard-go's device behind its UAPI, certmagic's answers,
  PostgreSQL's collation, random bytes, and whether a dial, a write or a file operation succeeds.

  \<^bold>\<open>Not modelled.\<close>  Sockets: listeners and dials appear as what they answer.  certmagic, autocert
  and the HTTP server behind the agent's terminator: third-party code; the model keeps what they
  are configured with and when they are opened and closed.  What the SQL of each migration does:
  an argument of Store_Migrate; schema_ok states the constraints of the result.  JSON bodies of
  requests: the model starts from their decoded fields.  How DNS messages are packed, and so
  the replies WriteMsg cannot send: serve_query gives the message.  What PostgreSQL's inet accepts
  beyond IPv4 addresses, which the commands refuse before.  Letters beyond ASCII in ToLower, the
  version string of internal/buildinfo, and log lines other than those listed.
\<close>

end
